(* ===== verification/Prelude.thy ===== *)
theory Prelude
  imports Main Unicode_Tables "HOL-Library.Sublist"
begin

text \<open>
  What every component of the development shares: Go strings as lists of Unicode code points with
  the functions of the packages \<open>strings\<close>, \<open>unicode\<close>, \<open>utf8\<close> and \<open>strconv\<close> that the program calls,
  \<open>time.Time\<close> and \<open>time.Duration\<close> as integers of nanoseconds, and generic lemmas on lists and maps.

  Strings reach the program through JSON decoding and configuration files, which yield valid UTF-8,
  so a string is the list of its code points; \<open>utf8_len\<close> is \<open>len\<close> of the underlying bytes.
\<close>

section \<open>Collections of facts\<close>

named_theorems go_simps \<open>unfolding of the small library functions\<close>
named_theorems inv_intros \<open>preservation of component invariants\<close>

section \<open>Strings\<close>

type_synonym str = "rune list"

definition lit :: "string \<Rightarrow> str" where
  "lit s = map of_char s"

lemma lit_simps [simp]: "lit [] = []" "lit (c # s) = of_char c # lit s"
  by (simp_all add: lit_def)

lemma lit_append [simp]: "lit (s @ t) = lit s @ lit t"
  by (simp add: lit_def)

lemma lit_eq_iff: "lit s = lit t \<longleftrightarrow> s = t"
proof -
  have "inj (of_char :: char \<Rightarrow> int)" by (simp add: inj_def of_char_eq_iff)
  then show ?thesis by (simp add: lit_def inj_map_eq_map)
qed

lemma length_lit [simp]: "length (lit s) = length s"
  by (simp add: lit_def)

subsection \<open>Code points\<close>

text \<open>\<open>unicode.IsSpace\<close>\<close>

definition is_space :: "rune \<Rightarrow> bool" where
  "is_space c \<longleftrightarrow> (9 \<le> c \<and> c \<le> 13) \<or> c = 32 \<or> c = 0x85 \<or> c = 0xA0 \<or> c = 0x1680
     \<or> (0x2000 \<le> c \<and> c \<le> 0x200A) \<or> c = 0x2028 \<or> c = 0x2029 \<or> c = 0x202F \<or> c = 0x205F \<or> c = 0x3000"

text \<open>\<open>unicode.IsControl\<close>: category Cc\<close>

definition is_control :: "rune \<Rightarrow> bool" where
  "is_control c \<longleftrightarrow> c < 32 \<or> (127 \<le> c \<and> c < 160)"

definition is_upper_ascii :: "rune \<Rightarrow> bool" where
  "is_upper_ascii c \<longleftrightarrow> 65 \<le> c \<and> c \<le> 90"

definition is_lower_ascii :: "rune \<Rightarrow> bool" where
  "is_lower_ascii c \<longleftrightarrow> 97 \<le> c \<and> c \<le> 122"

definition is_digit_ascii :: "rune \<Rightarrow> bool" where
  "is_digit_ascii c \<longleftrightarrow> 48 \<le> c \<and> c \<le> 57"

text \<open>\<open>unicode.IsLetter\<close>, \<open>unicode.IsNumber\<close>, \<open>unicode.IsDigit\<close>, \<open>unicode.IsMark\<close>\<close>

definition is_letter :: "rune \<Rightarrow> bool" where
  "is_letter c \<longleftrightarrow> (if c < 128 then is_upper_ascii c \<or> is_lower_ascii c else in_ranges letter_ranges c)"

definition is_number :: "rune \<Rightarrow> bool" where
  "is_number c \<longleftrightarrow> (if c < 128 then is_digit_ascii c else in_ranges number_ranges c)"

definition is_digit :: "rune \<Rightarrow> bool" where
  "is_digit c \<longleftrightarrow> (if c < 128 then is_digit_ascii c else in_ranges digit_ranges c)"

definition is_mark :: "rune \<Rightarrow> bool" where
  "is_mark c \<longleftrightarrow> (if c < 128 then False else in_ranges mark_ranges c)"

text \<open>\<open>unicode.ToLower\<close>, and the canonical member of the \<open>unicode.SimpleFold\<close> orbit\<close>

definition lower_rune :: "rune \<Rightarrow> rune" where
  "lower_rune c = (if c < 128 then (if is_upper_ascii c then c + 32 else c) else map_ranges lower_ranges c)"

definition fold_rune :: "rune \<Rightarrow> rune" where
  "fold_rune c = (if c < 128 then (if is_lower_ascii c then c - 32 else c) else map_ranges fold_ranges c)"

subsection \<open>Package strings\<close>

definition trim_left :: "(rune \<Rightarrow> bool) \<Rightarrow> str \<Rightarrow> str" where
  "trim_left p s = dropWhile p s"

definition trim_right :: "(rune \<Rightarrow> bool) \<Rightarrow> str \<Rightarrow> str" where
  "trim_right p s = rev (dropWhile p (rev s))"

definition trim_space :: "str \<Rightarrow> str" where
  "trim_space s = trim_right is_space (trim_left is_space s)"

definition to_lower :: "str \<Rightarrow> str" where
  "to_lower s = map lower_rune s"

definition equal_fold :: "str \<Rightarrow> str \<Rightarrow> bool" where
  "equal_fold s t \<longleftrightarrow> map fold_rune s = map fold_rune t"

definition has_prefix :: "str \<Rightarrow> str \<Rightarrow> bool" where
  "has_prefix s p \<longleftrightarrow> take (length p) s = p"

definition trim_prefix :: "str \<Rightarrow> str \<Rightarrow> str" where
  "trim_prefix s p = (if has_prefix s p then drop (length p) s else s)"

fun fields_from :: "(rune \<Rightarrow> bool) \<Rightarrow> str \<Rightarrow> str \<Rightarrow> str list" where
  "fields_from p cur [] = (if cur = [] then [] else [cur])"
| "fields_from p cur (c # cs) =
     (if p c then (if cur = [] then fields_from p [] cs else cur # fields_from p [] cs)
      else fields_from p (cur @ [c]) cs)"

text \<open>\<open>strings.FieldsFunc\<close> and \<open>strings.Fields\<close>\<close>

definition fields_func :: "(rune \<Rightarrow> bool) \<Rightarrow> str \<Rightarrow> str list" where
  "fields_func p s = fields_from p [] s"

definition str_fields :: "str \<Rightarrow> str list" where
  "str_fields s = fields_func is_space s"

fun join :: "str \<Rightarrow> str list \<Rightarrow> str" where
  "join sep [] = []"
| "join sep [s] = s"
| "join sep (s # t # ts) = s @ sep @ join sep (t # ts)"

fun digits_of :: "nat \<Rightarrow> str" where
  "digits_of n = (if n < 10 then [48 + int n] else digits_of (n div 10) @ [48 + int (n mod 10)])"

declare digits_of.simps [simp del]

text \<open>\<open>strconv.Itoa\<close> and the verb \<open>%d\<close>\<close>

definition itoa :: "int \<Rightarrow> str" where
  "itoa i = (if i < 0 then lit ''-'' @ digits_of (nat (- i)) else digits_of (nat i))"

text \<open>\<open>utf8.RuneLen\<close> summed over the string: Go's \<open>len\<close>\<close>

definition rune_len :: "rune \<Rightarrow> nat" where
  "rune_len c = (if c < 0x80 then 1 else if c < 0x800 then 2 else if c < 0x10000 then 3 else 4)"

definition utf8_len :: "str \<Rightarrow> nat" where
  "utf8_len s = sum_list (map rune_len s)"

subsection \<open>Lemmas on strings\<close>

lemma trim_space_Nil [simp]: "trim_space [] = []"
  by (simp add: trim_space_def trim_left_def trim_right_def)

lemma dropWhile_hd: "dropWhile p xs \<noteq> [] \<Longrightarrow> \<not> p (hd (dropWhile p xs))"
  by (rule hd_dropWhile)

lemma dropWhile_id: "xs = [] \<or> \<not> p (hd xs) \<Longrightarrow> dropWhile p xs = xs"
  by (cases xs) auto

lemma trim_right_id: "s = [] \<or> \<not> p (last s) \<Longrightarrow> trim_right p s = s"
  by (simp add: trim_right_def dropWhile_id hd_rev)

lemma trim_right_hd: "s = [] \<or> \<not> p (hd s) \<Longrightarrow> trim_right p s = [] \<or> \<not> p (hd (trim_right p s))"
proof -
  obtain t where t: "s = trim_right p s @ t"
    unfolding trim_right_def
    by (metis rev_append rev_rev_ident takeWhile_dropWhile_id)
  assume "s = [] \<or> \<not> p (hd s)"
  then show ?thesis
    by (metis t append_is_Nil_conv hd_append2)
qed

lemma trim_right_last: "trim_right p s \<noteq> [] \<Longrightarrow> \<not> p (last (trim_right p s))"
  unfolding trim_right_def by (metis hd_dropWhile last_rev rev_is_Nil_conv)

lemma trim_space_ends:
  assumes "trim_space s \<noteq> []"
  shows "\<not> is_space (hd (trim_space s)) \<and> \<not> is_space (last (trim_space s))"
  using assms trim_right_hd [of "trim_left is_space s" is_space] trim_right_last
    hd_dropWhile [of is_space s]
  by (auto simp: trim_space_def trim_left_def)

lemma trim_space_idem [simp]: "trim_space (trim_space s) = trim_space s"
proof (cases "trim_space s = []")
  case False
  then have "\<not> is_space (hd (trim_space s))" "\<not> is_space (last (trim_space s))"
    using trim_space_ends by auto
  then show ?thesis
    by (subst trim_space_def) (simp add: trim_left_def dropWhile_id trim_right_id)
qed simp

lemma trim_right_Nil_iff: "trim_right p s = [] \<longleftrightarrow> (\<forall>c \<in> set s. p c)"
  by (simp add: trim_right_def dropWhile_eq_Nil_conv)

lemma trim_space_Nil_iff: "trim_space s = [] \<longleftrightarrow> (\<forall>c \<in> set s. is_space c)"
proof
  assume "trim_space s = []"
  then have all: "\<forall>c \<in> set (dropWhile is_space s). is_space c"
    by (simp add: trim_space_def trim_left_def trim_right_Nil_iff)
  have "dropWhile is_space s = []"
  proof (rule ccontr)
    assume "dropWhile is_space s \<noteq> []"
    then show False using all hd_dropWhile [of is_space s] hd_in_set by blast
  qed
  then show "\<forall>c \<in> set s. is_space c" by (simp add: dropWhile_eq_Nil_conv)
next
  assume "\<forall>c \<in> set s. is_space c"
  then show "trim_space s = []"
    by (auto simp: trim_space_def trim_left_def trim_right_Nil_iff dest: set_dropWhileD)
qed

lemma equal_fold_refl [simp]: "equal_fold s s"
  and equal_fold_sym: "equal_fold s t \<Longrightarrow> equal_fold t s"
  and equal_fold_trans: "equal_fold s t \<Longrightarrow> equal_fold t u \<Longrightarrow> equal_fold s u"
  by (simp_all add: equal_fold_def)

lemma has_prefix_iff: "has_prefix s p \<longleftrightarrow> prefix p s"
proof
  assume "has_prefix s p"
  then have "s = p @ drop (length p) s" by (metis append_take_drop_id has_prefix_def)
  then show "prefix p s" by (metis prefixI)
qed (auto simp: has_prefix_def prefix_def)

lemma digits_of_nonempty [simp]: "digits_of n \<noteq> []"
  by (subst digits_of.simps) simp

lemma digits_of_chars: "c \<in> set (digits_of n) \<Longrightarrow> 48 \<le> c \<and> c \<le> 57"
proof (induction n rule: digits_of.induct)
  case (1 n)
  then show ?case
    unfolding digits_of.simps [of n] by (auto split: if_splits)
qed

definition digits_value :: "str \<Rightarrow> int" where
  "digits_value s = foldl (\<lambda>a c. a * 10 + (c - 48)) 0 s"

lemma digits_value_of [simp]: "digits_value (digits_of n) = int n"
proof (induction n rule: digits_of.induct)
  case (1 n)
  have "int (n div 10) * 10 + int (n mod 10) = int n"
    by (metis div_mult_mod_eq of_nat_add of_nat_mult of_nat_numeral)
  with 1 show ?case by (subst digits_of.simps) (auto simp: digits_value_def)
qed

lemma digits_of_inj: "digits_of m = digits_of n \<longleftrightarrow> m = n"
  by (metis digits_value_of of_nat_eq_iff)

lemma append_sep_inj:
  "c \<notin> set xs \<Longrightarrow> c \<notin> set ys \<Longrightarrow> xs @ c # u = ys @ c # v \<longleftrightarrow> xs = ys \<and> u = v"
proof (induction xs arbitrary: ys)
  case Nil
  then show ?case by (cases ys) auto
next
  case (Cons x xs)
  then show ?case by (cases ys) auto
qed

lemma digits_sep_inj: "digits_of m @ 58 # u = digits_of n @ 58 # v \<longleftrightarrow> m = n \<and> u = v"
  using digits_of_chars [of 58] append_sep_inj [of 58 "digits_of m" "digits_of n" u v] digits_of_inj by force

lemma utf8_len_append [simp]: "utf8_len (s @ t) = utf8_len s + utf8_len t"
  by (simp add: utf8_len_def)

lemma utf8_len_Nil [simp]: "utf8_len [] = 0"
  by (simp add: utf8_len_def)

lemma utf8_len_pos: "s \<noteq> [] \<Longrightarrow> 0 < utf8_len s"
  by (cases s) (auto simp: utf8_len_def rune_len_def)

subsection \<open>Fields and join\<close>

lemma fields_from_parts:
  "list_all (\<lambda>c. \<not> p c) cur \<Longrightarrow>
     list_all (\<lambda>f. f \<noteq> [] \<and> list_all (\<lambda>c. \<not> p c) f) (fields_from p cur s)"
  by (induction s arbitrary: cur) simp_all

lemma fields_func_parts:
  "f \<in> set (fields_func p s) \<Longrightarrow> f \<noteq> [] \<and> (\<forall>c \<in> set f. \<not> p c)"
  using fields_from_parts [of p "[]" s] by (auto simp: fields_func_def list_all_iff)

lemma fields_from_run:
  "\<forall>c \<in> set f. \<not> p c \<Longrightarrow> fields_from p cur (f @ s) = fields_from p (cur @ f) s"
  by (induction f arbitrary: cur) auto

lemma fields_func_join:
  assumes "p c" and "\<forall>f \<in> set fs. f \<noteq> [] \<and> (\<forall>d \<in> set f. \<not> p d)"
  shows "fields_func p (join [c] fs) = fs"
  using assms(2) unfolding fields_func_def
proof (induction "[c]" fs rule: join.induct)
  case 1
  then show ?case by simp
next
  case (2 s)
  then show ?case using fields_from_run [of s p "[]" "[]"] by simp
next
  case (3 s t ts)
  then show ?case using fields_from_run [of s p "[]" "[c] @ join [c] (t # ts)"] assms(1) by simp
qed

section \<open>Time\<close>

text \<open>
  A \<open>time.Time\<close> is the integer number of nanoseconds since a fixed instant, a \<open>time.Duration\<close> an
  integer of 64 bits.  \<open>t.Sub(u)\<close> saturates at the least and the greatest duration.
\<close>

type_synonym time = int
type_synonym duration = int

abbreviation max_duration :: duration where "max_duration \<equiv> 2 ^ 63 - 1"
abbreviation min_duration :: duration where "min_duration \<equiv> - (2 ^ 63)"

definition time_sub :: "time \<Rightarrow> time \<Rightarrow> duration" where
  "time_sub t u = max min_duration (min max_duration (t - u))"

lemma time_sub_nonneg_iff: "0 \<le> time_sub t u \<longleftrightarrow> u \<le> t"
  by (auto simp: time_sub_def)

lemma time_sub_le_iff: "0 \<le> w \<Longrightarrow> w < max_duration \<Longrightarrow> time_sub t u \<le> w \<longleftrightarrow> t - u \<le> w"
  by (auto simp: time_sub_def)

section \<open>Lists\<close>

lemma sorted_dropWhile_filter:
  fixes f :: "'a \<Rightarrow> int"
  assumes "sorted (map f xs)"
  shows "dropWhile (\<lambda>x. f x < c) xs = filter (\<lambda>x. \<not> f x < c) xs"
  using assms
proof (induction xs)
  case (Cons a xs)
  show ?case
  proof (cases "f a < c")
    case False
    with Cons.prems have "\<forall>x \<in> set xs. \<not> f x < c" by force
    with False show ?thesis by simp
  qed (use Cons in simp)
qed simp

text \<open>How many elements satisfy a predicate, and what replacing one of them changes\<close>

definition count_if :: "('a \<Rightarrow> bool) \<Rightarrow> 'a list \<Rightarrow> nat" where
  "count_if p xs = length (filter p xs)"

lemma count_if_simps [simp]:
  "count_if p [] = 0" "count_if p (x # xs) = (if p x then 1 else 0) + count_if p xs"
  "count_if p (xs @ ys) = count_if p xs + count_if p ys"
  by (simp_all add: count_if_def)

lemma count_if_update:
  "i < length xs \<Longrightarrow>
    count_if p (xs[i := x]) + (if p (xs ! i) then 1 else 0) = count_if p xs + (if p x then 1 else 0)"
proof (induction xs arbitrary: i)
  case (Cons a xs)
  then show ?case by (cases i) (use Cons.IH [of "i - 1"] in auto)
qed simp

lemma count_if_update_same:
  "i < length xs \<Longrightarrow> p (xs ! i) \<longleftrightarrow> p x \<Longrightarrow> count_if p (xs[i := x]) = count_if p xs"
  using count_if_update [of i xs p x] by simp

lemma count_if_update_in:
  "i < length xs \<Longrightarrow> \<not> p (xs ! i) \<Longrightarrow> p x \<Longrightarrow> count_if p (xs[i := x]) = Suc (count_if p xs)"
  using count_if_update [of i xs p x] by simp

lemma count_if_update_out:
  "i < length xs \<Longrightarrow> p (xs ! i) \<Longrightarrow> \<not> p x \<Longrightarrow> count_if p xs = Suc (count_if p (xs[i := x]))"
  using count_if_update [of i xs p x] by simp

lemma count_if_pos: "0 < count_if p xs \<longleftrightarrow> (\<exists>x \<in> set xs. p x)"
  by (auto simp: count_if_def filter_empty_conv)

lemma count_if_0: "count_if p xs = 0 \<longleftrightarrow> (\<forall>x \<in> set xs. \<not> p x)"
  by (simp add: count_if_def filter_empty_conv)

lemma count_if_map: "count_if p (map f xs) = count_if (\<lambda>x. p (f x)) xs"
  by (induction xs) auto

lemma count_if_mono: "(\<And>x. x \<in> set xs \<Longrightarrow> p x \<Longrightarrow> q x) \<Longrightarrow> count_if p xs \<le> count_if q xs"
  by (induction xs) auto

end
