(* ===== verification/Bytes.thy ===== *)
theory Bytes
  imports Prelude
begin

text \<open>
  Strings as bytes: the UTF-8 form of a Go string, as \<open>[]byte(s)\<close> and \<open>string(bytes)\<close> convert, and
  the standard base64 alphabet of \<open>encoding/base64\<close>. The repositories store some fields in base64.
\<close>

section \<open>UTF-8\<close>

definition is_scalar :: "rune \<Rightarrow> bool" where
  "is_scalar c \<longleftrightarrow> 0 \<le> c \<and> c \<le> 0x10FFFF \<and> \<not> (0xD800 \<le> c \<and> c \<le> 0xDFFF)"

definition utf8_rune :: "rune \<Rightarrow> nat list" where
  "utf8_rune c =
     (let n = nat c
      in if n < 0x80 then [n]
         else if n < 0x800 then [0xC0 + n div 64, 0x80 + n mod 64]
         else if n < 0x10000 then [0xE0 + n div 4096, 0x80 + n div 64 mod 64, 0x80 + n mod 64]
         else [0xF0 + n div 262144, 0x80 + n div 4096 mod 64, 0x80 + n div 64 mod 64, 0x80 + n mod 64])"

definition utf8_bytes :: "str \<Rightarrow> nat list" where
  "utf8_bytes s = concat (map utf8_rune s)"

definition is_tail_byte :: "nat \<Rightarrow> bool" where
  "is_tail_byte b \<longleftrightarrow> 0x80 \<le> b \<and> b < 0xC0"

text \<open>One step of \<open>utf8.DecodeRune\<close>: the rune and the bytes it took; an invalid byte is U+FFFD of width 1\<close>

fun utf8_next :: "nat list \<Rightarrow> rune \<times> nat" where
  "utf8_next [] = (0xFFFD, 0)"
| "utf8_next (b # bs) =
     (if b < 0x80 then (int b, 1)
      else if 0xC0 \<le> b \<and> b < 0xE0
      then (case bs of
              c # _ \<Rightarrow>
                let v = (b - 0xC0) * 64 + (c - 0x80)
                in if is_tail_byte c \<and> 0x80 \<le> v then (int v, 2) else (0xFFFD, 1)
            | _ \<Rightarrow> (0xFFFD, 1))
      else if 0xE0 \<le> b \<and> b < 0xF0
      then (case bs of
              c # d # _ \<Rightarrow>
                let v = (b - 0xE0) * 4096 + (c - 0x80) * 64 + (d - 0x80)
                in if is_tail_byte c \<and> is_tail_byte d \<and> 0x800 \<le> v \<and> is_scalar (int v) then (int v, 3) else (0xFFFD, 1)
            | _ \<Rightarrow> (0xFFFD, 1))
      else if 0xF0 \<le> b \<and> b < 0xF8
      then (case bs of
              c # d # e # _ \<Rightarrow>
                let v = (b - 0xF0) * 262144 + (c - 0x80) * 4096 + (d - 0x80) * 64 + (e - 0x80)
                in if is_tail_byte c \<and> is_tail_byte d \<and> is_tail_byte e \<and> 0x10000 \<le> v \<and> is_scalar (int v)
                   then (int v, 4) else (0xFFFD, 1)
            | _ \<Rightarrow> (0xFFFD, 1))
      else (0xFFFD, 1))"

lemma utf8_next_width: "bs \<noteq> [] \<Longrightarrow> 0 < snd (utf8_next bs)"
  by (cases bs) (auto simp: Let_def split: list.splits)

function utf8_text :: "nat list \<Rightarrow> str" where
  "utf8_text bs = (if bs = [] then [] else fst (utf8_next bs) # utf8_text (drop (snd (utf8_next bs)) bs))"
  by auto
termination
  by (relation "measure length") (use utf8_next_width in \<open>auto simp del: utf8_next.simps\<close>)

declare utf8_text.simps [simp del]

lemma base64_digits:
  fixes n :: nat
  shows "n div 4096 * 4096 + n div 64 mod 64 * 64 + n mod 64 = n"
    and "n div 262144 * 262144 + n div 4096 mod 64 * 4096 + n div 64 mod 64 * 64 + n mod 64 = n"
proof -
  have 1: "n div 4096 = n div 64 div 64" "n div 262144 = n div 64 div 64 div 64"
    by (simp_all flip: div_mult2_eq)
  note parts = div_mult_mod_eq [of n 64] div_mult_mod_eq [of "n div 64" 64] div_mult_mod_eq [of "n div 64 div 64" 64]
  show "n div 4096 * 4096 + n div 64 mod 64 * 64 + n mod 64 = n" unfolding 1 using parts by linarith
  show "n div 262144 * 262144 + n div 4096 mod 64 * 4096 + n div 64 mod 64 * 64 + n mod 64 = n"
    unfolding 1 using parts by linarith
qed

lemma utf8_next_two: "is_tail_byte c \<Longrightarrow> (b - 0xC0) * 64 + (c - 0x80) = n \<Longrightarrow> 0xC0 \<le> b \<Longrightarrow> b < 0xE0 \<Longrightarrow> 0x80 \<le> n
    \<Longrightarrow> utf8_next (b # c # bs) = (int n, 2)"
  by (auto simp: Let_def)

lemma utf8_next_three:
  "is_tail_byte c \<Longrightarrow> is_tail_byte d \<Longrightarrow> (b - 0xE0) * 4096 + (c - 0x80) * 64 + (d - 0x80) = n \<Longrightarrow> 0xE0 \<le> b \<Longrightarrow> b < 0xF0
    \<Longrightarrow> 0x800 \<le> n \<Longrightarrow> is_scalar (int n) \<Longrightarrow> utf8_next (b # c # d # bs) = (int n, 3)"
  by (auto simp: Let_def)

lemma utf8_next_four:
  "is_tail_byte c \<Longrightarrow> is_tail_byte d \<Longrightarrow> is_tail_byte e
    \<Longrightarrow> (b - 0xF0) * 262144 + (c - 0x80) * 4096 + (d - 0x80) * 64 + (e - 0x80) = n \<Longrightarrow> 0xF0 \<le> b \<Longrightarrow> b < 0xF8
    \<Longrightarrow> 0x10000 \<le> n \<Longrightarrow> is_scalar (int n) \<Longrightarrow> utf8_next (b # c # d # e # bs) = (int n, 4)"
  by (auto simp: Let_def)

lemma tail_digit: "is_tail_byte (128 + n mod 64)"
  by (simp add: is_tail_byte_def)

lemma utf8_next_exact:
  assumes "is_scalar c"
  shows "utf8_next (utf8_rune c @ bs) = (c, length (utf8_rune c))"
proof -
  define n where "n = nat c"
  have c: "c = int n" and n: "n \<le> 0x10FFFF" and sc: "is_scalar (int n)"
    using assms by (auto simp: n_def is_scalar_def)
  consider "n < 0x80" | "0x80 \<le> n" "n < 0x800" | "0x800 \<le> n" "n < 0x10000" | "0x10000 \<le> n" by linarith
  then show ?thesis
  proof cases
    case 1
    then show ?thesis by (simp add: utf8_rune_def c)
  next
    case 2
    then have "n div 64 < 32" by (simp add: div_less_iff_less_mult)
    then have "utf8_next ((192 + n div 64) # (128 + n mod 64) # bs) = (int n, 2)"
      using 2 by (intro utf8_next_two) (simp_all add: tail_digit)
    then show ?thesis using 2 by (simp add: utf8_rune_def c del: utf8_next.simps)
  next
    case 3
    then have "n div 4096 < 16" by (simp add: div_less_iff_less_mult)
    then have "utf8_next ((224 + n div 4096) # (128 + n div 64 mod 64) # (128 + n mod 64) # bs) = (int n, 3)"
      using 3 sc by (intro utf8_next_three) (simp_all add: tail_digit base64_digits)
    then show ?thesis using 3 by (simp add: utf8_rune_def c del: utf8_next.simps)
  next
    case 4
    have "n div 262144 < 8" using n by (simp add: div_less_iff_less_mult)
    then have "utf8_next ((240 + n div 262144) # (128 + n div 4096 mod 64) # (128 + n div 64 mod 64) # (128 + n mod 64) # bs)
        = (int n, 4)"
      using 4 sc by (intro utf8_next_four) (simp_all add: tail_digit base64_digits)
    then show ?thesis using 4 by (simp add: utf8_rune_def c del: utf8_next.simps)
  qed
qed

lemma utf8_rune_nonempty: "utf8_rune c \<noteq> []"
  by (simp add: utf8_rune_def Let_def)

lemma utf8_exact: "list_all is_scalar s \<Longrightarrow> utf8_text (utf8_bytes s) = s"
proof (induction s)
  case Nil
  then show ?case by (simp add: utf8_bytes_def utf8_text.simps)
next
  case (Cons c s)
  have 1: "utf8_bytes (c # s) = utf8_rune c @ utf8_bytes s" by (simp add: utf8_bytes_def)
  have 2: "utf8_next (utf8_rune c @ utf8_bytes s) = (c, length (utf8_rune c))"
    using Cons.prems by (simp add: utf8_next_exact)
  show ?case using Cons
    by (subst utf8_text.simps) (simp add: 1 2 utf8_rune_nonempty)
qed

definition is_byte :: "nat \<Rightarrow> bool" where
  "is_byte b \<longleftrightarrow> b < 256"

lemma utf8_rune_bytes:
  assumes "is_scalar c"
  shows "list_all is_byte (utf8_rune c)"
proof -
  define n where "n = nat c"
  have n: "n \<le> 0x10FFFF" using assms by (auto simp: n_def is_scalar_def nat_le_iff)
  have m: "m mod 64 < 64" for m :: nat by simp
  have 1: "n div 262144 < 16" using n by (simp add: div_less_iff_less_mult)
  have 2: "n < 0x10000 \<Longrightarrow> n div 4096 < 16" by (simp add: div_less_iff_less_mult)
  have 3: "n < 0x800 \<Longrightarrow> n div 64 < 32" by (simp add: div_less_iff_less_mult)
  note small = m [of n] m [of "n div 64"] m [of "n div 4096"]
  show ?thesis unfolding utf8_rune_def n_def [symmetric] Let_def is_byte_def
    using 1 2 3 small by (cases "n < 0x800"; cases "n < 0x10000") (simp_all del: mod_less_divisor)
qed

lemma utf8_bytes_bytes: "list_all is_scalar s \<Longrightarrow> list_all is_byte (utf8_bytes s)"
  by (induction s) (auto simp: utf8_bytes_def utf8_rune_bytes)

section \<open>base64\<close>

definition b64_char :: "nat \<Rightarrow> rune" where
  "b64_char n = (if n < 26 then 65 + int n else if n < 52 then 71 + int n else if n < 62 then int n - 4
     else if n = 62 then 43 else 47)"

definition b64_value :: "rune \<Rightarrow> nat option" where
  "b64_value c = (if 65 \<le> c \<and> c \<le> 90 then Some (nat (c - 65)) else if 97 \<le> c \<and> c \<le> 122 then Some (nat (c - 71))
     else if 48 \<le> c \<and> c \<le> 57 then Some (nat (c + 4)) else if c = 43 then Some 62 else if c = 47 then Some 63 else None)"

text \<open>\<open>StdEncoding.EncodeToString\<close>\<close>

fun b64_encode :: "nat list \<Rightarrow> str" where
  "b64_encode [] = []"
| "b64_encode [a] = [b64_char (a div 4), b64_char (a mod 4 * 16), 61, 61]"
| "b64_encode [a, b] = [b64_char (a div 4), b64_char (a mod 4 * 16 + b div 16), b64_char (b mod 16 * 4), 61]"
| "b64_encode (a # b # c # r) =
     b64_char (a div 4) # b64_char (a mod 4 * 16 + b div 16) # b64_char (b mod 16 * 4 + c div 64) # b64_char (c mod 64)
       # b64_encode r"

text \<open>\<open>StdEncoding.DecodeString\<close> skips line ends and ignores the bits a padded group does not need.\<close>

fun b64_groups :: "str \<Rightarrow> nat list option" where
  "b64_groups [] = Some []"
| "b64_groups (p # q # r # s # rest) =
     (case (b64_value p, b64_value q) of
        (Some x, Some y) \<Rightarrow>
          if r = 61 \<and> s = 61 \<and> rest = [] then Some [x * 4 + y div 16]
          else (case b64_value r of
                  None \<Rightarrow> None
                | Some z \<Rightarrow>
                    if s = 61 \<and> rest = [] then Some [x * 4 + y div 16, y mod 16 * 16 + z div 4]
                    else (case b64_value s of
                            None \<Rightarrow> None
                          | Some t \<Rightarrow>
                              map_option (\<lambda>bs. [x * 4 + y div 16, y mod 16 * 16 + z div 4, z mod 4 * 64 + t] @ bs)
                                (b64_groups rest)))
      | _ \<Rightarrow> None)"
| "b64_groups _ = None"

definition b64_decode :: "str \<Rightarrow> nat list option" where
  "b64_decode s = b64_groups (filter (\<lambda>c. c \<noteq> 10 \<and> c \<noteq> 13) s)"

lemma b64_value_char: "n < 64 \<Longrightarrow> b64_value (b64_char n) = Some n"
  by (auto simp: b64_value_def b64_char_def)

lemma b64_char_plain: "b64_char n \<noteq> 10 \<and> b64_char n \<noteq> 13"
  by (auto simp: b64_char_def)

lemma b64_encode_plain: "filter (\<lambda>c. c \<noteq> 10 \<and> c \<noteq> 13) (b64_encode bs) = b64_encode bs"
  by (induction bs rule: b64_encode.induct) (simp_all add: b64_char_plain)

lemma b64_pad: "b64_value 61 = None"
  by (simp add: b64_value_def)

lemma b64_char_not_pad: "n < 64 \<Longrightarrow> b64_char n \<noteq> 61"
  using b64_value_char [of n] b64_pad by force

lemma b64_bits:
  fixes a b :: nat
  assumes "is_byte a" "is_byte b"
  shows "a div 4 < 64" "a mod 4 * 16 + b div 16 < 64" "a mod 4 * 16 < 64" "a mod 16 * 4 < 64" "a mod 16 * 4 + b div 64 < 64"
proof -
  have "a div 4 < 64" "b div 16 < 16" "b div 64 < 4" "a mod 4 < 4" "a mod 16 < 16"
    using assms by (simp_all add: is_byte_def div_less_iff_less_mult)
  then show "a div 4 < 64" "a mod 4 * 16 + b div 16 < 64" "a mod 4 * 16 < 64" "a mod 16 * 4 < 64" "a mod 16 * 4 + b div 64 < 64"
    by linarith+
qed

lemma b64_join:
  fixes a b :: nat
  assumes "is_byte b"
  shows "a div 4 * 4 + (a mod 4 * 16 + b div 16) div 16 = a" "(a mod 4 * 16 + b div 16) mod 16 = b div 16"
    "(a mod 16 * 4 + b div 64) div 4 = a mod 16" "(a mod 16 * 4 + b div 64) mod 4 = b div 64"
proof -
  have 1: "b div 16 < 16" "b div 64 < 4" using assms by (simp_all add: is_byte_def div_less_iff_less_mult)
  have 2: "(a mod 4 * 16 + b div 16) div 16 = a mod 4" "(a mod 16 * 4 + b div 64) div 4 = a mod 16"
    using 1 by (simp_all add: div_mult_self3)
  show "a div 4 * 4 + (a mod 4 * 16 + b div 16) div 16 = a" unfolding 2 by simp
  show "(a mod 4 * 16 + b div 16) mod 16 = b div 16" using 1 by simp
  show "(a mod 16 * 4 + b div 64) div 4 = a mod 16" by (rule 2)
  show "(a mod 16 * 4 + b div 64) mod 4 = b div 64" using 1 by simp
qed

lemma zero_byte: "is_byte 0" by (simp add: is_byte_def)

lemma b64_groups_encode: "list_all is_byte bs \<Longrightarrow> b64_groups (b64_encode bs) = Some bs"
proof (induction bs rule: b64_encode.induct)
  case (2 a)
  then show ?case using b64_bits [of a 0] b64_join [of 0 a] by (simp add: b64_value_char zero_byte)
next
  case (3 a b)
  then have "is_byte a" "is_byte b" by simp_all
  then show ?case using b64_bits [of a b] b64_bits [of b 0] b64_join [of b a] b64_join [of 0 b]
    by (simp add: b64_value_char b64_char_not_pad b64_pad zero_byte)
next
  case (4 a b c r)
  then have "is_byte a" "is_byte b" "is_byte c" by simp_all
  then show ?case using 4 b64_bits [of a b] b64_bits [of b c] b64_join [of b a] b64_join [of c b]
    by (simp add: b64_value_char b64_char_not_pad b64_pad)
qed simp

lemma b64_exact: "list_all is_byte bs \<Longrightarrow> b64_decode (b64_encode bs) = Some bs"
  by (simp add: b64_decode_def b64_encode_plain b64_groups_encode)

text \<open>The stored form of a text\<close>

definition b64_text :: "str \<Rightarrow> str" where
  "b64_text s = b64_encode (utf8_bytes s)"

lemma b64_text_exact: "list_all is_scalar s \<Longrightarrow> map_option utf8_text (b64_decode (b64_text s)) = Some s"
  by (simp add: b64_text_def b64_exact utf8_bytes_bytes utf8_exact)

lemma b64_text_inj: "list_all is_scalar s \<Longrightarrow> list_all is_scalar t \<Longrightarrow> b64_text s = b64_text t \<longleftrightarrow> s = t"
  using b64_text_exact [of s] b64_text_exact [of t] by (metis option.inject)

end
