(* ===== verification/Json.thy ===== *)
theory Json
  imports Prelude Complex_Main "HOL-Library.List_Lexorder"
begin

text \<open>
  What the program uses of \<open>encoding/json\<close> and \<open>strconv\<close>: JSON values, decoding with \<open>UseNumber\<close> (a number is its
  literal), the typed \<open>Unmarshal\<close> into maps, slices, strings, booleans, integers and floats, the rounding
  of a literal to a \<open>float64\<close>, and \<open>Marshal\<close>.  The parameter of the type of values is what a number is.
\<close>

section \<open>Values\<close>

datatype 'n jsonv =
    JNull
  | JBool bool
  | JNum 'n
  | JStr str
  | JArr "'n jsonv list"
  | JObj "(str \<times> 'n jsonv) list"

type_synonym json = "str jsonv"

section \<open>Numbers\<close>

text \<open>A literal \<open>m * 10 ^ e\<close>: its sign, \<open>m\<close> and \<open>e\<close>\<close>

definition lit_exponent :: "str \<Rightarrow> int" where
  "lit_exponent s =
     (let t = tl (dropWhile (\<lambda>c. c \<noteq> 101 \<and> c \<noteq> 69) s)
      in if t = [] then 0
         else if hd t = 45 then - digits_value (tl t)
         else if hd t = 43 then digits_value (tl t) else digits_value t)"

definition lit_parts :: "str \<Rightarrow> bool \<times> int \<times> int" where
  "lit_parts s =
     (let neg = (s \<noteq> [] \<and> hd s = 45);
          body = takeWhile (\<lambda>c. c \<noteq> 101 \<and> c \<noteq> 69) (if neg then tl s else s);
          whole = takeWhile (\<lambda>c. c \<noteq> 46) body;
          frac = tl (dropWhile (\<lambda>c. c \<noteq> 46) body)
      in (neg, digits_value (whole @ frac), lit_exponent s - int (length frac)))"

text \<open>A finite \<open>float64\<close>: its sign and its magnitude \<open>m * 2 ^ k\<close>, with \<open>m\<close> odd unless it is zero.  \<open>strconv.ParseFloat\<close>
  rounds to nearest, ties to even, with 53 bits of mantissa, and fails when the result is infinite.\<close>

datatype float64 = Float64 bool int int

definition pow2 :: "int \<Rightarrow> rat" where
  "pow2 k = (if 0 \<le> k then 2 ^ nat k else 1 / 2 ^ nat (- k))"

definition float_value :: "float64 \<Rightarrow> rat" where
  "float_value f = (case f of Float64 neg m k \<Rightarrow> (if neg then - of_int m else of_int m) * pow2 k)"

text \<open>\<open>f == math.Trunc(f)\<close>\<close>

definition float_is_integer :: "float64 \<Rightarrow> bool" where
  "float_is_integer f = (case f of Float64 neg m k \<Rightarrow> 0 \<le> k \<or> m mod 2 ^ nat (- k) = 0)"

text \<open>\<open>a / b\<close> rounded, half to even\<close>

definition round_div :: "int \<Rightarrow> int \<Rightarrow> int" where
  "round_div a b =
     (let q = a div b; r = 2 * (a mod b)
      in if r < b then q else if b < r then q + 1 else if even q then q else q + 1)"

function bit_length :: "int \<Rightarrow> int" where
  "bit_length n = (if n \<le> 0 then 0 else 1 + bit_length (n div 2))"
  by pat_completeness auto
termination by (relation "measure nat") auto

declare bit_length.simps [simp del]

text \<open>The exponent of the last of 53 bits of \<open>a / b\<close>, not below that of the denormal numbers\<close>

definition float_exponent :: "int \<Rightarrow> int \<Rightarrow> int" where
  "float_exponent a b =
     (let k = bit_length a - bit_length b - 53; j = k + 53;
          k1 = (if (if 0 \<le> j then b * 2 ^ nat j \<le> a else b \<le> a * 2 ^ nat (- j)) then k + 1 else k)
      in max k1 (- 1074))"

function odd_part :: "int \<Rightarrow> int \<Rightarrow> int \<times> int" where
  "odd_part m k = (if 0 < m \<and> even m then odd_part (m div 2) (k + 1) else (m, k))"
  by pat_completeness auto
termination by (relation "measure (\<lambda>(m, k). nat m)") auto

declare odd_part.simps [simp del]

definition round_float :: "bool \<Rightarrow> int \<Rightarrow> int \<Rightarrow> float64 option" where
  "round_float neg a b =
     (if a = 0 then Some (Float64 neg 0 0)
      else
        let k = float_exponent a b;
            m = (if 0 \<le> k then round_div a (b * 2 ^ nat k) else round_div (a * 2 ^ nat (- k)) b)
        in if m = 0 then Some (Float64 neg 0 0)
           else if 1024 < bit_length m + k then None
           else case odd_part m k of (n, j) \<Rightarrow> Some (Float64 neg n j))"

text \<open>\<open>d * 10 ^ e\<close> as a float\<close>

definition round_decimal :: "bool \<Rightarrow> int \<Rightarrow> int \<Rightarrow> float64 option" where
  "round_decimal neg d e = (if 0 \<le> e then round_float neg (d * 10 ^ nat e) 1 else round_float neg d (10 ^ nat (- e)))"

definition parse_float :: "str \<Rightarrow> float64 option" where
  "parse_float s = (case lit_parts s of (neg, m, e) \<Rightarrow> round_decimal neg m e)"

lemma float_is_integer_iff: "float_is_integer f \<longleftrightarrow> float_value f \<in> \<int>"
proof (cases f)
  case (Float64 neg m k)
  show ?thesis
  proof (cases "0 \<le> k")
    case True
    then show ?thesis by (simp add: Float64 float_is_integer_def float_value_def pow2_def)
  next
    case False
    have "(of_int m / 2 ^ nat (- k) :: rat) \<in> \<int> \<longleftrightarrow> 2 ^ nat (- k) dvd m"
      using of_int_div_of_int_in_Ints_iff [of m "2 ^ nat (- k)", where 'a = rat] by simp
    moreover have "- (of_int m / 2 ^ nat (- k) :: rat) \<in> \<int> \<longleftrightarrow> of_int m / 2 ^ nat (- k) \<in> (\<int> :: rat set)"
      by (metis Ints_minus minus_minus)
    ultimately show ?thesis
      using False by (simp add: Float64 float_is_integer_def float_value_def pow2_def mod_eq_0_iff_dvd)
  qed
qed

text \<open>\<open>Unmarshal\<close> into an \<open>int\<close>: a literal without fraction and exponent, in 64 bits\<close>

definition parse_int :: "str \<Rightarrow> int option" where
  "parse_int s =
     (let neg = (s \<noteq> [] \<and> hd s = 45); ds = (if neg then tl s else s);
          v = (if neg then - digits_value ds else digits_value ds)
      in if ds \<noteq> [] \<and> list_all is_digit_ascii ds \<and> - (2 ^ 63) \<le> v \<and> v < 2 ^ 63 then Some v else None)"

section \<open>Objects\<close>

text \<open>Of several members with the same name the last one counts.\<close>

fun entries :: "(str \<times> 'a) list \<Rightarrow> (str \<times> 'a) list" where
  "entries [] = []"
| "entries ((k, v) # r) = (if k \<in> fst ` set r then entries r else (k, v) # entries r)"

definition get :: "(str \<times> 'a) list \<Rightarrow> str \<Rightarrow> 'a option" where
  "get kvs k = map_of (entries kvs) k"

lemma set_entries: "set (entries kvs) \<subseteq> set kvs"
  by (induction kvs rule: entries.induct) auto

lemma keys_entries [simp]: "fst ` set (entries kvs) = fst ` set kvs"
  by (induction kvs rule: entries.induct) auto

lemma distinct_entries [simp]: "distinct (map fst (entries kvs))"
proof (induction kvs rule: entries.induct)
  case (2 k v r)
  then show ?case using keys_entries [of r] by (auto simp: image_iff)
qed simp

lemma get_eq: "get kvs k = Some v \<longleftrightarrow> (k, v) \<in> set (entries kvs)"
  by (simp add: get_def)

lemma get_None: "get kvs k = None \<longleftrightarrow> k \<notin> fst ` set kvs"
  by (simp add: get_def map_of_eq_None_iff)

section \<open>Decoding\<close>

fun skip_ws :: "str \<Rightarrow> str" where
  "skip_ws [] = []"
| "skip_ws (c # s) = (if c = 32 \<or> c = 9 \<or> c = 10 \<or> c = 13 then skip_ws s else c # s)"

definition hex_digit :: "rune \<Rightarrow> int option" where
  "hex_digit c = (if 48 \<le> c \<and> c \<le> 57 then Some (c - 48)
     else if 97 \<le> c \<and> c \<le> 102 then Some (c - 87) else if 65 \<le> c \<and> c \<le> 70 then Some (c - 55) else None)"

definition hex4 :: "str \<Rightarrow> (rune \<times> str) option" where
  "hex4 s =
     (case s of a # b # c # d # r \<Rightarrow>
        (case (hex_digit a, hex_digit b, hex_digit c, hex_digit d) of
           (Some w, Some x, Some y, Some z) \<Rightarrow> Some (((w * 16 + x) * 16 + y) * 16 + z, r)
         | _ \<Rightarrow> None)
      | _ \<Rightarrow> None)"

text \<open>The code unit after \<open>\u\<close>: a surrogate pair is one rune, a lone surrogate the replacement character.\<close>

definition unit_rune :: "rune \<Rightarrow> str \<Rightarrow> rune \<times> str" where
  "unit_rune u s =
     (if u < 0xD800 \<or> 0xDFFF < u then (u, s)
      else case s of
        a # b # r \<Rightarrow>
          (case (if a = 92 \<and> b = 117 \<and> u < 0xDC00 then hex4 r else None) of
             Some (v, r1) \<Rightarrow>
               if 0xDC00 \<le> v \<and> v \<le> 0xDFFF then (0x10000 + (u - 0xD800) * 0x400 + (v - 0xDC00), r1) else (0xFFFD, s)
           | None \<Rightarrow> (0xFFFD, s))
      | _ \<Rightarrow> (0xFFFD, s))"

definition escape_rune :: "rune \<Rightarrow> rune option" where
  "escape_rune e = map_of [(34, 34), (92, 92), (47, 47), (98, 8), (102, 12), (110, 10), (114, 13), (116, 9)] e"

text \<open>The rest of a string after its opening quote.  The fuel bounds the characters read; every parser is run
  with more fuel than its input has characters.\<close>

fun parse_chars :: "nat \<Rightarrow> str \<Rightarrow> (str \<times> str) option" where
  "parse_chars 0 s = None"
| "parse_chars (Suc n) [] = None"
| "parse_chars (Suc n) (c # s) =
     (if c = 34 then Some ([], s)
      else if c < 32 then None
      else if c \<noteq> 92 then map_option (\<lambda>(t, r). (c # t, r)) (parse_chars n s)
      else case s of
        [] \<Rightarrow> None
      | e # s1 \<Rightarrow>
          if e = 117 then
            (case hex4 s1 of None \<Rightarrow> None
             | Some (u, s2) \<Rightarrow>
                 (case unit_rune u s2 of (x, s3) \<Rightarrow> map_option (\<lambda>(t, r). (x # t, r)) (parse_chars n s3)))
          else (case escape_rune e of None \<Rightarrow> None
                | Some x \<Rightarrow> map_option (\<lambda>(t, r). (x # t, r)) (parse_chars n s1)))"

text \<open>A number: an optional sign, no superfluous leading zero, optional fraction and exponent with digits\<close>

definition span_digits :: "str \<Rightarrow> str \<times> str" where
  "span_digits s = (takeWhile is_digit_ascii s, dropWhile is_digit_ascii s)"

definition parse_frac :: "str \<Rightarrow> (str \<times> str) option" where
  "parse_frac s = (case s of c # r \<Rightarrow> if c = 46
       then (case span_digits r of (ds, r1) \<Rightarrow> if ds = [] then None else Some (c # ds, r1)) else Some ([], s)
     | [] \<Rightarrow> Some ([], s))"

definition parse_exp :: "str \<Rightarrow> (str \<times> str) option" where
  "parse_exp s = (case s of c # r \<Rightarrow> if c = 101 \<or> c = 69
       then (let (sg, r1) = (case r of d # r2 \<Rightarrow> if d = 43 \<or> d = 45 then ([d], r2) else ([], r) | [] \<Rightarrow> ([], r))
             in case span_digits r1 of (ds, r3) \<Rightarrow> if ds = [] then None else Some (c # sg @ ds, r3))
       else Some ([], s) | [] \<Rightarrow> Some ([], s))"

definition parse_number :: "str \<Rightarrow> (str \<times> str) option" where
  "parse_number s =
     (let (sg, r) = (case s of c # r \<Rightarrow> if c = 45 then ([c], r) else ([], s) | [] \<Rightarrow> ([], s));
          (ds, r1) = (case r of c # r0 \<Rightarrow> if c = 48 then ([c], r0) else span_digits r | [] \<Rightarrow> ([], r))
      in if ds = [] then None
         else case parse_frac r1 of None \<Rightarrow> None
         | Some (f, r2) \<Rightarrow> (case parse_exp r2 of None \<Rightarrow> None
           | Some (e, r3) \<Rightarrow> Some (sg @ ds @ f @ e, r3)))"

fun parse_value :: "nat \<Rightarrow> str \<Rightarrow> (json \<times> str) option"
  and parse_items :: "nat \<Rightarrow> str \<Rightarrow> (json list \<times> str) option"
  and parse_members :: "nat \<Rightarrow> str \<Rightarrow> ((str \<times> json) list \<times> str) option" where
  "parse_value 0 s = None"
| "parse_value (Suc n) s =
     (case skip_ws s of
        [] \<Rightarrow> None
      | c # r \<Rightarrow>
          if c = 123 then
            (case skip_ws r of d # r1 \<Rightarrow> if d = 125 then Some (JObj [], r1)
               else map_option (\<lambda>(ms, t). (JObj ms, t)) (parse_members n r) | [] \<Rightarrow> None)
          else if c = 91 then
            (case skip_ws r of d # r1 \<Rightarrow> if d = 93 then Some (JArr [], r1)
               else map_option (\<lambda>(vs, t). (JArr vs, t)) (parse_items n r) | [] \<Rightarrow> None)
          else if c = 34 then map_option (\<lambda>(t, r1). (JStr t, r1)) (parse_chars (Suc (length r)) r)
          else if take 4 (c # r) = lit ''true'' then Some (JBool True, drop 3 r)
          else if take 5 (c # r) = lit ''false'' then Some (JBool False, drop 4 r)
          else if take 4 (c # r) = lit ''null'' then Some (JNull, drop 3 r)
          else map_option (\<lambda>(l, r1). (JNum l, r1)) (parse_number (c # r)))"
| "parse_items 0 s = None"
| "parse_items (Suc n) s =
     (case parse_value n s of None \<Rightarrow> None
      | Some (v, r) \<Rightarrow> (case skip_ws r of
           [] \<Rightarrow> None
         | c # r1 \<Rightarrow> if c = 93 then Some ([v], r1)
             else if c = 44 then map_option (\<lambda>(vs, t). (v # vs, t)) (parse_items n r1) else None))"
| "parse_members 0 s = None"
| "parse_members (Suc n) s =
     (case skip_ws s of
        [] \<Rightarrow> None
      | q # s1 \<Rightarrow>
         if q \<noteq> 34 then None
         else case parse_chars (Suc (length s1)) s1 of None \<Rightarrow> None
         | Some (k, r) \<Rightarrow> (case skip_ws r of
              [] \<Rightarrow> None
            | c # r1 \<Rightarrow>
               if c \<noteq> 58 then None
               else case parse_value n r1 of None \<Rightarrow> None
               | Some (v, r2) \<Rightarrow> (case skip_ws r2 of
                    [] \<Rightarrow> None
                  | d # r3 \<Rightarrow> if d = 125 then Some ([(k, v)], r3)
                      else if d = 44 then map_option (\<lambda>(ms, t). ((k, v) # ms, t)) (parse_members n r3) else None)))"

definition parse_json :: "str \<Rightarrow> json option" where
  "parse_json s = (case parse_value (Suc (2 * length s)) s of
     Some (v, r) \<Rightarrow> if skip_ws r = [] then Some v else None | None \<Rightarrow> None)"

text \<open>\<open>json.Valid\<close>\<close>

definition json_valid :: "str \<Rightarrow> bool" where
  "json_valid s \<longleftrightarrow> parse_json s \<noteq> None"

section \<open>Typed decoding\<close>

text \<open>\<open>Unmarshal\<close> into a nil map, a nil slice, an empty string, a boolean with the value \<open>b\<close>, a zero \<open>int\<close>, a zero
  \<open>float64\<close>: \<open>null\<close> changes nothing, a value of another type is an error.\<close>

definition as_object :: "'n jsonv \<Rightarrow> (str \<times> 'n jsonv) list option" where
  "as_object v = (case v of JObj kvs \<Rightarrow> Some kvs | JNull \<Rightarrow> Some [] | _ \<Rightarrow> None)"

definition as_list :: "'n jsonv \<Rightarrow> 'n jsonv list option" where
  "as_list v = (case v of JArr xs \<Rightarrow> Some xs | JNull \<Rightarrow> Some [] | _ \<Rightarrow> None)"

definition as_string :: "'n jsonv \<Rightarrow> str option" where
  "as_string v = (case v of JStr s \<Rightarrow> Some s | JNull \<Rightarrow> Some [] | _ \<Rightarrow> None)"

definition as_strings :: "'n jsonv \<Rightarrow> str list option" where
  "as_strings v = Option.bind (as_list v) (\<lambda>xs. those (map as_string xs))"

definition as_bool :: "bool \<Rightarrow> 'n jsonv \<Rightarrow> bool option" where
  "as_bool b v = (case v of JBool x \<Rightarrow> Some x | JNull \<Rightarrow> Some b | _ \<Rightarrow> None)"

definition as_int :: "json \<Rightarrow> int option" where
  "as_int v = (case v of JNum s \<Rightarrow> parse_int s | JNull \<Rightarrow> Some 0 | _ \<Rightarrow> None)"

definition as_float :: "json \<Rightarrow> rat option" where
  "as_float v = (case v of JNum s \<Rightarrow> map_option float_value (parse_float s) | JNull \<Rightarrow> Some 0 | _ \<Rightarrow> None)"

end
