(* ===== verification/Canonical.thy ===== *)
theory Canonical
  imports Json "HOL-Library.Multiset"
begin

text \<open>
  \<open>CanonicalJSON\<close> of \<open>internal/agent/tool/contract/schema.go\<close> and the parts of \<open>json.Marshal\<close> it needs: the
  canonical text of a value has its object members sorted by name, the last of equal names kept, and
  its numbers rounded to \<open>float64\<close>.
\<close>

section \<open>Marshal of strings and floats\<close>

definition hex_char :: "int \<Rightarrow> rune" where
  "hex_char d = (if d < 10 then 48 + d else 87 + d)"

definition encode_rune :: "rune \<Rightarrow> str" where
  "encode_rune c =
     (if c = 34 \<or> c = 92 then [92, c]
      else if c = 8 then [92, 98] else if c = 12 then [92, 102] else if c = 10 then [92, 110]
      else if c = 13 then [92, 114] else if c = 9 then [92, 116]
      else if c < 32 \<or> c = 60 \<or> c = 62 \<or> c = 38
        then [92, 117, 48, 48, hex_char (c div 16), hex_char (c mod 16)]
      else if c = 0x2028 then 92 # lit ''u2028'' else if c = 0x2029 then 92 # lit ''u2029''
      else [c])"

definition encode_string :: "str \<Rightarrow> str" where
  "encode_string s = [34] @ concat (map encode_rune s) @ [34]"

text \<open>The shortest decimal \<open>d * 10 ^ p\<close> that rounds to the float, the nearest one among the shortest; 17 digits
  always suffice.\<close>

definition pow10_le :: "int \<Rightarrow> int \<Rightarrow> int \<Rightarrow> bool" where
  "pow10_le e a b = (if 0 \<le> e then 10 ^ nat e * b \<le> a else b \<le> a * 10 ^ nat (- e))"

definition decimal_exponent :: "int \<Rightarrow> int \<Rightarrow> int" where
  "decimal_exponent a b =
     (let k = int (length (digits_of (nat a))) - int (length (digits_of (nat b)))
      in if pow10_le k a b then k else k - 1)"

text \<open>With \<open>n\<close> digits, for the float \<open>a / b = m * 2 ^ k\<close>\<close>

definition decimal_of :: "int \<Rightarrow> int \<Rightarrow> int \<Rightarrow> int \<Rightarrow> nat \<Rightarrow> (int \<times> int) option" where
  "decimal_of m k a b n =
     (let p = decimal_exponent a b - int n + 1;
          a1 = (if 0 \<le> p then a else a * 10 ^ nat (- p)); b1 = (if 0 \<le> p then b * 10 ^ nat p else b);
          lo = a1 div b1; hi = lo + 1;
          near = (if 2 * (a1 mod b1) \<le> b1 then [lo, hi] else [hi, lo])
      in map_option (\<lambda>d. (d, p)) (find (\<lambda>d. round_decimal False d p = Some (Float64 False m k)) near))"

definition shortest :: "int \<Rightarrow> int \<Rightarrow> int \<times> int" where
  "shortest m k =
     (let a = (if 0 \<le> k then m * 2 ^ nat k else m); b = (if 0 \<le> k then 1 else 2 ^ nat (- k))
      in case find (\<lambda>n. decimal_of m k a b n \<noteq> None) [1..<18] of
        Some n \<Rightarrow> the (decimal_of m k a b n)
      | None \<Rightarrow> (0, 0))"

text \<open>The layouts \<open>'f'\<close> and \<open>'e'\<close> of digits \<open>ds\<close> with the point after \<open>dp\<close> of them\<close>

definition format_f :: "str \<Rightarrow> int \<Rightarrow> str" where
  "format_f ds dp =
     (let whole = (if 0 < dp then take (nat dp) ds @ replicate (nat dp - length ds) 48 else [48]);
          frac = (if 0 < dp then drop (nat dp) ds else replicate (nat (- dp)) 48 @ ds)
      in whole @ (if frac = [] then [] else 46 # frac))"

definition format_e :: "str \<Rightarrow> int \<Rightarrow> str" where
  "format_e ds dp =
     take 1 ds @ (if tl ds = [] then [] else 46 # tl ds) @ [101, if dp - 1 < 0 then 45 else 43]
       @ digits_of (nat \<bar>dp - 1\<bar>)"

definition format_float :: "float64 \<Rightarrow> str" where
  "format_float f =
     (case f of Float64 neg m k \<Rightarrow>
        (if neg then [45] else []) @
        (if m = 0 then [48]
         else case shortest m k of (d, p) \<Rightarrow>
           let ds = digits_of (nat d); dp = int (length ds) + p; ds1 = trim_right (\<lambda>c. c = 48) ds;
               x = float_value (Float64 False m k);
               small = (case round_decimal False 1 (- 6) of Some g \<Rightarrow> x < float_value g | None \<Rightarrow> False)
           in if small \<or> 10 ^ 21 \<le> x then format_e ds1 dp else format_f ds1 dp))"

section \<open>Canonical values\<close>

text \<open>Decoding into \<open>any\<close> turns each literal into a float and fails when one of them overflows.\<close>

fun finite_numbers :: "json \<Rightarrow> bool" where
  "finite_numbers (JNum s) \<longleftrightarrow> parse_float s \<noteq> None"
| "finite_numbers (JArr xs) \<longleftrightarrow> list_all finite_numbers xs"
| "finite_numbers (JObj kvs) \<longleftrightarrow> list_all (\<lambda>(k, v). finite_numbers v) kvs"
| "finite_numbers _ \<longleftrightarrow> True"

definition floats :: "json \<Rightarrow> float64 jsonv option" where
  "floats v = (if finite_numbers v then Some (map_jsonv (\<lambda>s. the (parse_float s)) v) else None)"

text \<open>Members by name, each name once: what a Go map holds, in the order of \<open>sort.Strings\<close> and of \<open>Marshal\<close>\<close>

definition members :: "(str \<times> 'a) list \<Rightarrow> (str \<times> 'a) list" where
  "members kvs = sort_key fst (entries kvs)"

lemma members_Nil [simp]: "members [] = []"
  by (simp add: members_def)

lemma set_members: "set (members kvs) = set (entries kvs)"
  by (simp add: members_def)

lemma size_member [termination_simp]:
  "(k, v) \<in> set (members kvs) \<Longrightarrow> size v < Suc (size_list (\<lambda>x. Suc (size (snd x))) kvs)"
proof -
  assume "(k, v) \<in> set (members kvs)"
  then have "(k, v) \<in> set kvs" using set_entries set_members by blast
  then show ?thesis by (induction kvs) (auto simp: less_Suc_eq_le trans_le_add2)
qed

fun normal :: "'n jsonv \<Rightarrow> 'n jsonv" where
  "normal (JArr xs) = JArr (map normal xs)"
| "normal (JObj kvs) = JObj (map (\<lambda>(k, v). (k, normal v)) (members kvs))"
| "normal v = v"

text \<open>\<open>canonical\<close>\<close>

fun canonical :: "float64 jsonv \<Rightarrow> str" where
  "canonical (JObj kvs) =
     [123] @ join [44] (map (\<lambda>(k, v). encode_string k @ [58] @ canonical v) (members kvs)) @ [125]"
| "canonical (JArr xs) = [91] @ join [44] (map canonical xs) @ [93]"
| "canonical (JStr s) = encode_string s"
| "canonical (JNum f) = format_float f"
| "canonical (JBool b) = (if b then lit ''true'' else lit ''false'')"
| "canonical JNull = lit ''null''"

definition canonical_json :: "str \<Rightarrow> str" where
  "canonical_json raw =
     (case Option.bind (parse_json raw) floats of Some v \<Rightarrow> canonical v | None \<Rightarrow> raw)"

section \<open>Lemmas\<close>

lemma sorted_members: "sorted (map fst (members kvs))"
  by (simp add: members_def)

lemma distinct_members: "distinct (map fst (members kvs))"
proof -
  have "mset (map fst (members kvs)) = mset (map fst (entries kvs))"
    by (simp add: members_def)
  then show ?thesis using distinct_entries [of kvs] by (metis mset_eq_imp_distinct_iff)
qed

text \<open>Members already in order stay as they are.\<close>

lemma entries_id: "distinct (map fst kvs) \<Longrightarrow> entries kvs = kvs"
  by (induction kvs rule: entries.induct) auto

lemma members_id: "distinct (map fst kvs) \<Longrightarrow> sorted (map fst kvs) \<Longrightarrow> members kvs = kvs"
  by (simp add: members_def entries_id sorted_sort_id sort_key_id_if_sorted)

lemma members_unique:
  assumes "set xs = set (entries kvs)" "distinct (map fst xs)" "sorted (map fst xs)"
  shows "members kvs = xs"
proof -
  have "inj_on fst (set (members kvs) \<union> set xs)"
    using assms by (simp add: set_members distinct_map)
  then show ?thesis
    by (rule map_sorted_distinct_set_unique) (simp_all add: sorted_members distinct_members set_members assms)
qed

definition map_values :: "('a \<Rightarrow> 'b) \<Rightarrow> (str \<times> 'a) list \<Rightarrow> (str \<times> 'b) list" where
  "map_values f kvs = map (\<lambda>p. (fst p, f (snd p))) kvs"

lemma map_values_simps [simp]:
  "map_values f [] = []" "map_values f ((k, v) # kvs) = (k, f v) # map_values f kvs"
  "map fst (map_values f kvs) = map fst kvs" "fst ` set (map_values f kvs) = fst ` set kvs"
  by (simp_all add: map_values_def image_image comp_def)

lemma map_values_comp [simp]: "map_values f (map_values g kvs) = map_values (\<lambda>x. f (g x)) kvs"
  by (simp add: map_values_def comp_def)

lemma set_map_values: "set (map_values f kvs) = (\<lambda>p. (fst p, f (snd p))) ` set kvs"
  by (simp add: map_values_def)

lemma map_values_cong:
  "(\<And>k v. (k, v) \<in> set kvs \<Longrightarrow> f v = g v) \<Longrightarrow> map_values f kvs = map_values g kvs"
  by (auto simp: map_values_def)

lemma entries_map_values: "entries (map_values f kvs) = map_values f (entries kvs)"
  by (induction kvs rule: entries.induct) simp_all

lemma members_map_values [simp]: "members (map_values f kvs) = map_values f (members kvs)"
  by (rule members_unique)
    (simp_all add: entries_map_values set_map_values set_members distinct_members sorted_members)

lemma members_members [simp]: "members (members kvs) = members kvs"
  by (rule members_id) (simp_all add: distinct_members sorted_members)

lemma normal_obj [simp]: "normal (JObj kvs) = JObj (map_values normal (members kvs))"
  by (simp add: map_values_def case_prod_beta)

lemma canonical_obj [simp]:
  "canonical (JObj kvs) = [123] @ join [44] (map (\<lambda>p. encode_string (fst p) @ [58] @ snd p) (map_values canonical (members kvs))) @ [125]"
  by (simp add: map_values_def case_prod_unfold comp_def)

declare normal.simps(2) [simp del] canonical.simps(1) [simp del]

lemma normal_idem [simp]: "normal (normal v) = normal v"
proof (induction v rule: normal.induct)
  case (2 kvs)
  then have "map_values (\<lambda>v. normal (normal v)) (members kvs) = map_values normal (members kvs)"
    by (intro map_values_cong) auto
  then show ?case by simp
qed auto

lemma canonical_normal [simp]: "canonical (normal v) = canonical v"
proof (induction v rule: normal.induct)
  case (1 xs)
  then show ?case by (simp cong: map_cong)
next
  case (2 kvs)
  then have "map_values (\<lambda>v. canonical (normal v)) (members kvs) = map_values canonical (members kvs)"
    by (intro map_values_cong) auto
  then show ?case by simp
qed auto

text \<open>What a map holds determines its members.\<close>

lemma members_eq_iff: "members kvs = members kvs' \<longleftrightarrow> get kvs = get kvs'"
proof -
  have get: "get kvs = map_of (entries kvs)" for kvs :: "(str \<times> 'a) list"
    by (rule ext) (simp add: get_def)
  have "members kvs = members kvs' \<longleftrightarrow> set (entries kvs) = set (entries kvs')"
    using members_unique [of "members kvs'" kvs] by (metis set_members distinct_members sorted_members)
  then show ?thesis by (simp add: get map_of_inject_set)
qed

lemma get_members [simp]: "get (members kvs) = get kvs"
  by (simp flip: members_eq_iff)

lemma get_map_values [simp]: "get (map_values f kvs) k = map_option f (get kvs k)"
proof -
  have "get (map_values f kvs) k = map_of (map_values f (entries kvs)) k"
    by (simp add: get_def entries_map_values)
  also have "\<dots> = map_option f (map_of (entries kvs) k)"
    using map_of_map [of f "entries kvs"] by (simp add: map_values_def case_prod_unfold)
  finally show ?thesis by (simp add: get_def)
qed

end
