(* ===== verification/Wire.thy ===== *)
theory Wire
  imports Canonical
begin

text \<open>
  What an engine sends to the chat server: the payload builders of \<open>internal/util/json_payloads.go\<close>, the nick
  selectors of \<open>internal/util/identity.go\<close>, the moderation protocol of \<open>internal/core/moderation_operations.go\<close> and the
  message texts and older payloads of \<open>internal/core/engine_impl.go\<close>.  A payload is the text that goes to the
  transport.
\<close>

section \<open>Payload builders\<close>

definition upper_hex :: "int \<Rightarrow> rune" where
  "upper_hex d = (if d < 10 then 48 + d else 55 + d)"

definition escape_char :: "rune \<Rightarrow> str" where
  "escape_char c =
     (if c = 34 then [92, 34] else if c = 92 then [92, 92]
      else if c = 8 then [92, 98] else if c = 9 then [92, 116] else if c = 10 then [92, 110]
      else if c = 12 then [92, 102] else if c = 13 then [92, 114]
      else if c < 32 then [92, 117, 48, 48, upper_hex (c div 16), upper_hex (c mod 16)]
      else [c])"

definition escape_json_string :: "str \<Rightarrow> str" where
  "escape_json_string s = concat (map escape_char s)"

definition command_only :: "str \<Rightarrow> str" where
  "command_only cmd = lit ''{ \"cmd\": \"'' @ escape_json_string cmd @ lit ''\"}''"

definition command_with_value :: "str \<Rightarrow> str \<Rightarrow> str \<Rightarrow> str" where
  "command_with_value cmd key v =
     lit ''{ \"cmd\": \"'' @ escape_json_string cmd @ lit ''\", \"'' @ escape_json_string key @ lit ''\": \"''
       @ escape_json_string v @ lit ''\"}''"

definition command_with_values :: "str \<Rightarrow> str \<Rightarrow> str \<Rightarrow> str \<Rightarrow> str \<Rightarrow> str" where
  "command_with_values cmd k1 v1 k2 v2 =
     lit ''{ \"cmd\": \"'' @ escape_json_string cmd @ lit ''\", \"'' @ escape_json_string k1 @ lit ''\": \"''
       @ escape_json_string v1 @ lit ''\", \"'' @ escape_json_string k2 @ lit ''\": \"''
       @ escape_json_string v2 @ lit ''\" }''"

text \<open>\<open>json.Marshal\<close> of a struct or a map whose members are strings, in the order of the members\<close>

definition marshal_strings :: "(str \<times> str) list \<Rightarrow> str" where
  "marshal_strings kvs =
     [123] @ join [44] (map (\<lambda>(k, v). encode_string k @ [58] @ encode_string v) kvs) @ [125]"

section \<open>Nick selectors\<close>

text \<open>An error is \<open>None\<close>, as is a nil pointer.\<close>

definition normalize_nick_target :: "str option \<Rightarrow> str option" where
  "normalize_nick_target raw =
     (case raw of None \<Rightarrow> None
      | Some r \<Rightarrow>
          (let v = trim_space r;
               w = (if has_prefix v (lit ''@'') then trim_space (drop 1 v) else v)
           in if w = [] then None else Some w))"

definition canonical_nick :: "str option \<Rightarrow> str option" where
  "canonical_nick raw = map_option to_lower (normalize_nick_target raw)"

definition same_nick :: "str option \<Rightarrow> str option \<Rightarrow> bool" where
  "same_nick l r \<longleftrightarrow> l \<noteq> None \<and> r \<noteq> None \<and> canonical_nick l \<noteq> None \<and> canonical_nick l = canonical_nick r"

section \<open>Moderation protocol\<close>

datatype moderation_op =
    Ban_nick str | Unban_hash str | Unban_all | Lock_room | Unlock_room | Enable_captcha | Disable_captcha
  | Authorize_trip str | Deauthorize_trip str | Mute_nick str | Unmute_hash str | Force_flair str str
  | Force_color str str | Kick_nick str | Kick_nick_to str str | Overflow_nick str

record moderation_payload =
  mp_command :: str
  mp_nick :: str
  mp_hash :: str
  mp_trip :: str
  mp_flair :: str
  mp_color :: str
  mp_to :: str

definition payload_of :: "str \<Rightarrow> moderation_payload" where
  "payload_of cmd = \<lparr>mp_command = cmd, mp_nick = [], mp_hash = [], mp_trip = [], mp_flair = [], mp_color = [], mp_to = []\<rparr>"

text \<open>The members after \<open>omitempty\<close>\<close>

definition payload_members :: "moderation_payload \<Rightarrow> (str \<times> str) list" where
  "payload_members p =
     (lit ''cmd'', mp_command p)
       # filter (\<lambda>(k, v). v \<noteq> [])
           [(lit ''nick'', mp_nick p), (lit ''hash'', mp_hash p), (lit ''trip'', mp_trip p),
            (lit ''flair'', mp_flair p), (lit ''color'', mp_color p), (lit ''to'', mp_to p)]"

datatype send_error = Send_context | Send_blank_nick | Send_blank_target | Send_inactive | Send_transport str

text \<open>\<open>validateModerationNick\<close> and the payload of each operation\<close>

definition validate_moderation_nick :: "str \<Rightarrow> send_error option" where
  "validate_moderation_nick nick = (if trim_space nick = [] then Some Send_blank_nick else None)"

fun op_target :: "moderation_op \<Rightarrow> str option" where
  "op_target (Ban_nick n) = Some n"
| "op_target (Mute_nick n) = Some n"
| "op_target (Force_flair n f) = Some n"
| "op_target (Force_color n c) = Some n"
| "op_target (Kick_nick n) = Some n"
| "op_target (Kick_nick_to n ch) = Some n"
| "op_target (Overflow_nick n) = Some n"
| "op_target _ = None"

fun op_payload :: "moderation_op \<Rightarrow> moderation_payload" where
  "op_payload (Ban_nick n) = (payload_of (lit ''ban''))\<lparr>mp_nick := n\<rparr>"
| "op_payload (Unban_hash h) = (payload_of (lit ''unban''))\<lparr>mp_hash := h\<rparr>"
| "op_payload Unban_all = payload_of (lit ''unbanall'')"
| "op_payload Lock_room = payload_of (lit ''lockroom'')"
| "op_payload Unlock_room = payload_of (lit ''unlockroom'')"
| "op_payload Enable_captcha = payload_of (lit ''enablecaptcha'')"
| "op_payload Disable_captcha = payload_of (lit ''disablecaptcha'')"
| "op_payload (Authorize_trip t) = (payload_of (lit ''authtrip''))\<lparr>mp_trip := t\<rparr>"
| "op_payload (Deauthorize_trip t) = (payload_of (lit ''deauthtrip''))\<lparr>mp_trip := t\<rparr>"
| "op_payload (Mute_nick n) = (payload_of (lit ''mute''))\<lparr>mp_nick := n\<rparr>"
| "op_payload (Unmute_hash h) = (payload_of (lit ''unmute''))\<lparr>mp_hash := h\<rparr>"
| "op_payload (Force_flair n f) = (payload_of (lit ''forceflair''))\<lparr>mp_nick := n, mp_flair := f\<rparr>"
| "op_payload (Force_color n c) = (payload_of (lit ''forcecolor''))\<lparr>mp_nick := n, mp_color := c\<rparr>"
| "op_payload (Kick_nick n) = (payload_of (lit ''kick''))\<lparr>mp_nick := n\<rparr>"
| "op_payload (Kick_nick_to n ch) = (payload_of (lit ''kick''))\<lparr>mp_nick := n, mp_to := ch\<rparr>"
| "op_payload (Overflow_nick n) = (payload_of (lit ''overflow''))\<lparr>mp_nick := n\<rparr>"

text \<open>The text handed to the transport, or the error before it\<close>

definition send_raw_moderation :: "bool \<Rightarrow> moderation_payload \<Rightarrow> send_error + str" where
  "send_raw_moderation ctx_ended p =
     (if ctx_ended then Inl Send_context else Inr (marshal_strings (payload_members p)))"

definition moderation_send :: "bool \<Rightarrow> moderation_op \<Rightarrow> send_error + str" where
  "moderation_send ctx_ended m =
     (case Option.bind (op_target m) validate_moderation_nick of
        Some e \<Rightarrow> Inl e
      | None \<Rightarrow> send_raw_moderation ctx_ended (op_payload m))"

text \<open>\<open>sendModerationCommand\<close>: a map, which \<open>Marshal\<close> writes in the order of its keys\<close>

definition send_moderation_command :: "bool \<Rightarrow> str \<Rightarrow> (str \<times> str) list \<Rightarrow> send_error + str" where
  "send_moderation_command ctx_ended cmd vs =
     (if ctx_ended then Inl Send_context else Inr (marshal_strings (members ((lit ''cmd'', cmd) # vs))))"

definition unmute_target :: "bool \<Rightarrow> str \<Rightarrow> send_error + str" where
  "unmute_target ctx_ended hash =
     (if ctx_ended then Inl Send_context
      else if trim_space hash = [] then Inl Send_blank_target
      else send_moderation_command ctx_ended (lit ''unmute'') [(lit ''hash'', hash)])"

section \<open>Chat messages\<close>

definition chat_text :: "str \<Rightarrow> str \<Rightarrow> bool \<Rightarrow> str" where
  "chat_text author message whisper =
     (if author \<noteq> [] \<and> whisper then lit ''/whisper @'' @ author @ lit '' .'' @ [10] @ message
      else if author \<noteq> [] then lit ''@'' @ author @ lit '' '' @ message
      else message)"

definition whisper_text :: "str \<Rightarrow> str \<Rightarrow> str" where
  "whisper_text author payload = lit ''/whisper @'' @ author @ lit '' '' @ payload"

definition addressed_text :: "str \<Rightarrow> str \<Rightarrow> bool \<Rightarrow> str" where
  "addressed_text author payload whisper =
     (if whisper then lit ''/whisper @'' @ author @ lit '' '' @ payload else lit ''@'' @ author @ lit '' '' @ payload)"

definition chat_payload :: "str \<Rightarrow> str" where
  "chat_payload message = command_with_value (lit ''chat'') (lit ''text'') message"

definition join_payload :: "str \<Rightarrow> str \<Rightarrow> str \<Rightarrow> str" where
  "join_payload channel name password =
     marshal_strings [(lit ''cmd'', lit ''join''), (lit ''channel'', channel), (lit ''nick'', name @ lit ''#'' @ password)]"

text \<open>The older operations format their payload without escaping.\<close>

definition old_kick :: "str \<Rightarrow> str \<Rightarrow> str" where
  "old_kick name channel =
     lit ''{ \"cmd\": \"kick\", \"nick\": \"'' @ name @ lit ''\", \"to\": \"'' @ channel @ lit ''\" }''"

definition old_ban :: "str \<Rightarrow> str" where
  "old_ban name = lit ''{ \"cmd\": \"ban\", \"nick\": \"'' @ name @ lit ''\" }''"

definition old_unban :: "str \<Rightarrow> str" where
  "old_unban hash = lit ''{ \"cmd\": \"unban\", \"hash\": \"'' @ hash @ lit ''\" }''"

section \<open>Payloads decode to their fields\<close>

text \<open>A rune encoder whose output the decoder of JSON strings reads back as the rune\<close>

locale string_encoder =
  fixes enc :: "rune \<Rightarrow> str"
  assumes enc_step: "0 \<le> c \<Longrightarrow> parse_chars (Suc n) (enc c @ r) = map_option (\<lambda>(t, r'). (c # t, r')) (parse_chars n r)"
    and enc_length: "0 < length (enc c)"
begin

definition quoted :: "str \<Rightarrow> str" where
  "quoted s = [34] @ concat (map enc s) @ [34]"

lemma length_concat_enc: "length s \<le> length (concat (map enc s))"
proof (induction s)
  case (Cons c s)
  then show ?case using enc_length [of c] by (simp only: list.map concat.simps length_append list.size)
qed simp

lemma parse_quoted:
  "list_all (\<lambda>c. 0 \<le> c) s \<Longrightarrow> length s < n \<Longrightarrow>
     parse_chars n (concat (map enc s) @ 34 # r) = Some (s, r)"
proof (induction s arbitrary: n)
  case Nil
  then show ?case by (cases n) auto
next
  case (Cons c s)
  then obtain m where m: "n = Suc m" "length s < m" by (cases n) auto
  with Cons show ?case by (simp add: enc_step)
qed

lemma parse_quoted_all:
  "list_all (\<lambda>c. 0 \<le> c) s \<Longrightarrow>
     parse_chars (Suc (length (concat (map enc s) @ 34 # r))) (concat (map enc s) @ 34 # r) = Some (s, r)"
  by (rule parse_quoted) (use length_concat_enc [of s] in auto)

lemma parse_string:
  assumes "list_all (\<lambda>c. 0 \<le> c) s" and "skip_ws w = []"
  shows "parse_value (Suc n) (w @ quoted s @ r) = Some (JStr s, r)"
proof -
  have skip: "skip_ws (w @ x) = skip_ws x" for x
    using assms(2) by (induction w) (auto split: if_splits)
  show ?thesis
    using parse_quoted_all [OF assms(1), of r] by (simp add: skip quoted_def)
qed

lemma parse_member:
  assumes "list_all (\<lambda>c. 0 \<le> c) k" "list_all (\<lambda>c. 0 \<le> c) v" "skip_ws w = []" "skip_ws w1 = []"
  shows "parse_members (Suc (Suc n)) (w @ quoted k @ [58] @ w1 @ quoted v @ r) =
     (case skip_ws r of [] \<Rightarrow> None
      | d # r3 \<Rightarrow> if d = 125 then Some ([(k, JStr v)], r3)
          else if d = 44 then map_option (\<lambda>(ms, t). ((k, JStr v) # ms, t)) (parse_members (Suc n) r3) else None)"
proof -
  have skip: "skip_ws (w @ x) = skip_ws x" for x
    using assms(3) by (induction w) (auto split: if_splits)
  show ?thesis
    using parse_quoted_all [OF assms(1), of "[58] @ w1 @ quoted v @ r"] parse_string [OF assms(2,4), of n r]
    by (simp add: skip quoted_def [of k] del: parse_value.simps)
qed

lemma parse_fields:
  assumes "\<forall>(k, v) \<in> set kvs. list_all (\<lambda>c. 0 \<le> c) k \<and> list_all (\<lambda>c. 0 \<le> c) v" and "kvs \<noteq> []" and "length kvs < n"
  shows "parse_members n (join [44] (map (\<lambda>(k, v). quoted k @ [58] @ quoted v) kvs) @ 125 # r)
       = Some (map (\<lambda>(k, v). (k, JStr v)) kvs, r)"
  using assms
proof (induction kvs arbitrary: n)
  case (Cons kv kvs)
  obtain k v where kv: "kv = (k, v)" by force
  obtain m where m: "n = Suc (Suc m)" using Cons.prems(3) by (cases n; cases "n - 1") auto
  have one: "parse_members n ([] @ quoted k @ [58] @ [] @ quoted v @ x) = (case skip_ws x of [] \<Rightarrow> None
      | d # r3 \<Rightarrow> if d = 125 then Some ([(k, JStr v)], r3)
          else if d = 44 then map_option (\<lambda>(ms, t). ((k, JStr v) # ms, t)) (parse_members (Suc m) r3) else None)" for x
    unfolding m by (rule parse_member) (use Cons.prems kv in auto)
  show ?case
  proof (cases kvs)
    case Nil
    then show ?thesis using one [of "125 # r"] by (simp add: kv)
  next
    case (Cons kv1 rest)
    then have "parse_members (Suc m) (join [44] (map (\<lambda>(k, v). quoted k @ [58] @ quoted v) kvs) @ 125 # r)
        = Some (map (\<lambda>(k, v). (k, JStr v)) kvs, r)"
      using Cons.IH [of "Suc m"] Cons.prems m by auto
    then show ?thesis
      using one [of "44 # join [44] (map (\<lambda>(k, v). quoted k @ [58] @ quoted v) kvs) @ 125 # r"] by (simp add: kv Cons)
  qed
qed simp

end

text \<open>Both encoders of the program are such encoders.\<close>

lemma hex_digit_upper: "0 \<le> d \<Longrightarrow> d < 16 \<Longrightarrow> hex_digit (upper_hex d) = Some d"
  by (auto simp: hex_digit_def upper_hex_def)

lemma hex_digit_lower: "0 \<le> d \<Longrightarrow> d < 16 \<Longrightarrow> hex_digit (hex_char d) = Some d"
  by (auto simp: hex_digit_def hex_char_def)

lemma hex4_unit:
  assumes "0 \<le> c" "c < 256" "hex_digit x = Some (c div 16)" "hex_digit y = Some (c mod 16)"
  shows "hex4 (48 # 48 # x # y # r) = Some (c, r)" "unit_rune c r = (c, r)"
proof -
  have "c div 16 * 16 + c mod 16 = c" by (rule div_mult_mod_eq)
  then show "hex4 (48 # 48 # x # y # r) = Some (c, r)" using assms(3,4) by (simp add: hex4_def hex_digit_def [of 48])
  show "unit_rune c r = (c, r)" using assms(2) by (simp add: unit_rune_def)
qed

lemma escape_rune_simps [simp]:
  "escape_rune 34 = Some 34" "escape_rune 92 = Some 92" "escape_rune 98 = Some 8" "escape_rune 102 = Some 12"
  "escape_rune 110 = Some 10" "escape_rune 114 = Some 13" "escape_rune 116 = Some 9"
  by (simp_all add: escape_rune_def)

interpretation escaped: string_encoder escape_char
proof
  fix c :: rune and n r
  assume c: "0 \<le> c"
  have hex: "hex4 (48 # 48 # upper_hex (c div 16) # upper_hex (c mod 16) # r) = Some (c, r)" "unit_rune c r = (c, r)"
    if "c < 32"
    using hex4_unit [of c "upper_hex (c div 16)" "upper_hex (c mod 16)" r] hex_digit_upper c that by auto
  show "parse_chars (Suc n) (escape_char c @ r) = map_option (\<lambda>(t, r'). (c # t, r')) (parse_chars n r)"
    using hex by (simp add: escape_char_def)
next
  show "0 < length (escape_char d)" for d by (simp add: escape_char_def)
qed

interpretation marshalled: string_encoder encode_rune
  rewrites "string_encoder.quoted encode_rune = encode_string"
proof -
  show enc: "string_encoder encode_rune"
  proof
    fix c :: rune and n r
    assume c: "0 \<le> c"
    have hex: "hex4 (48 # 48 # hex_char (c div 16) # hex_char (c mod 16) # r) = Some (c, r)" "unit_rune c r = (c, r)"
      if "c < 64"
      using hex4_unit [of c "hex_char (c div 16)" "hex_char (c mod 16)" r] hex_digit_lower c that by auto
    have line: "hex4 (lit ''2028'' @ r) = Some (0x2028, r)" "hex4 (lit ''2029'' @ r) = Some (0x2029, r)"
      "unit_rune 0x2028 r = (0x2028, r)" "unit_rune 0x2029 r = (0x2029, r)"
      by (simp_all add: hex4_def hex_digit_def unit_rune_def)
    show "parse_chars (Suc n) (encode_rune c @ r) = map_option (\<lambda>(t, r'). (c # t, r')) (parse_chars n r)"
      using hex line by (auto simp: encode_rune_def)
  next
    show "0 < length (encode_rune d)" for d by (simp add: encode_rune_def)
  qed
  show "string_encoder.quoted encode_rune = encode_string"
    by (rule ext) (simp add: string_encoder.quoted_def [OF enc] encode_string_def)
qed

section \<open>Every payload is exact\<close>

definition decodes_to :: "str \<Rightarrow> (str \<times> str) list \<Rightarrow> bool" where
  "decodes_to payload fs \<longleftrightarrow> parse_json payload = Some (JObj (map (\<lambda>(k, v). (k, JStr v)) fs))"

abbreviation runes :: "str \<Rightarrow> bool" where
  "runes s \<equiv> list_all (\<lambda>c. 0 \<le> c) s"

lemma of_char_nonneg: "0 \<le> (of_char c :: int)"
  using of_nat_of_char [of c, where 'a = int] of_nat_0_le_iff by metis

lemma runes_lit [simp]: "runes (lit s)"
  by (simp add: lit_def list_all_iff of_char_nonneg)

lemma marshal_decodes:
  assumes "\<forall>(k, v) \<in> set kvs. runes k \<and> runes v" and "kvs \<noteq> []"
  shows "decodes_to (marshal_strings kvs) kvs"
proof -
  let ?body = "join [44] (map (\<lambda>(k, v). encode_string k @ [58] @ encode_string v) kvs)"
  have len: "length kvs \<le> length ?body"
    by (induction kvs rule: induct_list012) (auto simp: encode_string_def)
  have quote: "\<exists>x. ?body = 34 # x" using assms(2)
    by (cases kvs rule: remdups_adj.cases) (auto simp: encode_string_def)
  have "parse_members n (?body @ [125]) = Some (map (\<lambda>(k, v). (k, JStr v)) kvs, [])" if "length kvs < n" for n
    using marshalled.parse_fields [OF assms that, of "[]"] by simp
  from this [of "2 * length (marshal_strings kvs)"] len quote show ?thesis
    by (auto simp: decodes_to_def parse_json_def marshal_strings_def simp del: parse_members.simps)
qed

declare parse_members.simps [simp del]

text \<open>The head of the builders, a further member, and the last one\<close>

lemma quoted_escaped: "escaped.quoted s = 34 # escape_json_string s @ [34]"
  by (simp add: escaped.quoted_def escape_json_string_def)

lemma quoted_cmd: "escaped.quoted (lit ''cmd'') = lit ''\"cmd\"''"
  by (simp add: quoted_escaped escape_json_string_def escape_char_def)

lemma command_head:
  assumes "runes cmd" and rest: "\<And>n. 4 \<le> n \<Longrightarrow> parse_members n rest = Some (ms, [])" and "rest \<noteq> []"
  shows "parse_json (lit ''{ \"cmd\": \"'' @ escape_json_string cmd @ lit ''\",'' @ rest) = Some (JObj ((lit ''cmd'', JStr cmd) # ms))"
proof -
  define whole where "whole = [32] @ escaped.quoted (lit ''cmd'') @ [58] @ [32] @ escaped.quoted cmd @ [44] @ rest"
  have shape: "lit ''{ \"cmd\": \"'' @ escape_json_string cmd @ lit ''\",'' @ rest = 123 # whole"
    unfolding whole_def quoted_cmd quoted_escaped by (simp add: escape_json_string_def escape_char_def)
  have all: "parse_members n whole = Some ((lit ''cmd'', JStr cmd) # ms, [])" if "5 \<le> n" for n
  proof -
    obtain m where m: "n = Suc (Suc m)" "4 \<le> Suc m" using \<open>5 \<le> n\<close> by (cases n; cases "n - 1") auto
    show ?thesis unfolding m(1) whole_def
      using escaped.parse_member [of "lit ''cmd''" cmd "[32]" "[32]" m "[44] @ rest"] assms(1) rest [OF m(2)]
      by (simp del: lit_simps parse_members.simps)
  qed
  have skip: "skip_ws whole = 34 # drop 2 whole" unfolding whole_def quoted_cmd by simp
  have "5 \<le> 2 * length (123 # whole)" unfolding whole_def quoted_cmd by simp
  from all [OF this] show ?thesis
    unfolding shape by (simp add: parse_json_def skip del: lit_simps parse_members.simps)
qed

lemma last_member:
  assumes "runes k" "runes v" "2 \<le> n" "skip_ws w = [125]"
  shows "parse_members n ([32] @ escaped.quoted k @ [58] @ [32] @ escaped.quoted v @ w) = Some ([(k, JStr v)], [])"
proof -
  obtain m where "n = Suc (Suc m)" using assms(3) by (cases n; cases "n - 1") auto
  then show ?thesis using escaped.parse_member [of k v "[32]" "[32]" m w] assms by simp
qed

lemma next_member:
  assumes "runes k" "runes v" "4 \<le> n" "\<And>n. 3 \<le> n \<Longrightarrow> parse_members n rest = Some (ms, [])"
  shows "parse_members n ([32] @ escaped.quoted k @ [58] @ [32] @ escaped.quoted v @ [44] @ rest)
       = Some ((k, JStr v) # ms, [])"
proof -
  obtain m where m: "n = Suc (Suc m)" "3 \<le> Suc m" using assms(3) by (cases n; cases "n - 1") auto
  show ?thesis unfolding m(1)
    using escaped.parse_member [of k v "[32]" "[32]" m "[44] @ rest"] assms(1,2,4) m by simp
qed

lemma command_with_value_decodes:
  assumes "runes cmd" "runes k" "runes v"
  shows "decodes_to (command_with_value cmd k v) [(lit ''cmd'', cmd), (k, v)]"
  using command_head [OF assms(1), of "[32] @ escaped.quoted k @ [58] @ [32] @ escaped.quoted v @ [125]"]
    last_member [OF assms(2,3), of _ "[125]"]
  by (simp add: decodes_to_def command_with_value_def quoted_escaped)

lemma command_with_values_decodes:
  assumes "runes cmd" "runes k1" "runes v1" "runes k2" "runes v2"
  shows "decodes_to (command_with_values cmd k1 v1 k2 v2) [(lit ''cmd'', cmd), (k1, v1), (k2, v2)]"
proof -
  let ?two = "[32] @ escaped.quoted k2 @ [58] @ [32] @ escaped.quoted v2 @ [32, 125]"
  let ?one = "[32] @ escaped.quoted k1 @ [58] @ [32] @ escaped.quoted v1 @ [44] @ ?two"
  have two: "parse_members n ?two = Some ([(k2, JStr v2)], [])" if "3 \<le> n" for n
    using last_member [OF assms(4,5) _, of n "[32, 125]"] that by simp
  have one: "parse_members n ?one = Some ([(k1, JStr v1), (k2, JStr v2)], [])" if "4 \<le> n" for n
    using next_member [OF assms(2,3) that, of ?two] two by simp
  show ?thesis
    using command_head [OF assms(1), of ?one] one
    by (simp add: decodes_to_def command_with_values_def quoted_escaped)
qed

lemma members_single: "k \<noteq> lit ''cmd'' \<Longrightarrow> set (members [(lit ''cmd'', c), (k, v)]) = {(lit ''cmd'', c), (k, v)}"
  by (auto simp: members_def)

lemma send_moderation_decodes:
  assumes "send_moderation_command ended c [(k, v)] = Inr out" "runes c" "runes k" "runes v" "k \<noteq> lit ''cmd''"
  shows "decodes_to out (members [(lit ''cmd'', c), (k, v)])"
proof -
  have ne: "members [(lit ''cmd'', c), (k, v)] \<noteq> []"
    using members_single [OF assms(5), of c v] by force
  have "\<forall>(k, v) \<in> set (members [(lit ''cmd'', c), (k, v)]). runes k \<and> runes v"
    unfolding members_single [OF assms(5)] using assms by simp
  from marshal_decodes [OF this ne] show ?thesis
    using assms(1) by (simp add: send_moderation_command_def split: if_splits)
qed

text \<open>The selectors are equivalence relations on what they accept, and a selector with or without one \<open>@\<close> is the same.\<close>

lemma same_nick_sym: "same_nick l r \<Longrightarrow> same_nick r l"
  unfolding same_nick_def by metis

lemma same_nick_trans: "same_nick l r \<Longrightarrow> same_nick r s \<Longrightarrow> same_nick l s"
  unfolding same_nick_def by metis

lemma normalize_nick_trimmed:
  "normalize_nick_target raw = Some n \<Longrightarrow> n \<noteq> [] \<and> trim_space n = n"
  by (auto simp: normalize_nick_target_def Let_def split: option.splits if_splits)

text \<open>
  C31. Nothing that goes into a message can change its meaning on the wire: whatever the text, the room, the name
  and the password are, the payload of a chat message and of a join parses to exactly the object with the
  intended members, and so does the payload of every moderation operation, which is sent iff the context is live
  and the nick, if it has one, is not blank.
\<close>

theorem outbound_is_exact:
  assumes "runes message" "runes channel" "runes name" "runes password"
    and "\<forall>(k, v) \<in> set (payload_members (op_payload m)). runes v"
  shows "decodes_to (chat_payload message) [(lit ''cmd'', lit ''chat''), (lit ''text'', message)]
    \<and> decodes_to (join_payload channel name password)
        [(lit ''cmd'', lit ''join''), (lit ''channel'', channel), (lit ''nick'', name @ lit ''#'' @ password)]
    \<and> (case moderation_send ended m of
         Inr out \<Rightarrow> decodes_to out (payload_members (op_payload m)) \<and> \<not> ended
           \<and> (\<forall>n. op_target m = Some n \<longrightarrow> trim_space n \<noteq> [])
       | Inl e \<Rightarrow> if \<exists>n. op_target m = Some n \<and> trim_space n = [] then e = Send_blank_nick else ended \<and> e = Send_context)"
proof -
  have "\<forall>(k, v) \<in> set (payload_members (op_payload m)). runes k \<and> runes v"
    using assms(5) by (auto simp: payload_members_def simp del: lit_simps)
  then have "decodes_to (marshal_strings (payload_members (op_payload m))) (payload_members (op_payload m))"
    by (rule marshal_decodes) (simp add: payload_members_def)
  then have "case moderation_send ended m of
         Inr out \<Rightarrow> decodes_to out (payload_members (op_payload m)) \<and> \<not> ended
           \<and> (\<forall>n. op_target m = Some n \<longrightarrow> trim_space n \<noteq> [])
       | Inl e \<Rightarrow> if \<exists>n. op_target m = Some n \<and> trim_space n = [] then e = Send_blank_nick else ended \<and> e = Send_context"
    by (auto simp: moderation_send_def send_raw_moderation_def validate_moderation_nick_def split: bind_splits option.splits sum.splits)
  moreover have "decodes_to (join_payload channel name password)
      [(lit ''cmd'', lit ''join''), (lit ''channel'', channel), (lit ''nick'', name @ lit ''#'' @ password)]"
    unfolding join_payload_def by (rule marshal_decodes) (use assms in \<open>simp_all del: lit_simps\<close>)
  ultimately show ?thesis
    using command_with_value_decodes [of "lit ''chat''" "lit ''text''" message] assms(1)
    by (simp add: chat_payload_def del: lit_simps)
qed

theorem outbound_is_exact_witness:
  "decodes_to (chat_payload (lit ''\",\"cmd\":\"ban''))
     [(lit ''cmd'', lit ''chat''), (lit ''text'', lit ''\",\"cmd\":\"ban'')]
   \<and> moderation_send False (Kick_nick_to (lit ''eve'') (lit ''purgatory''))
     = Inr (lit ''{\"cmd\":\"kick\",\"nick\":\"eve\",\"to\":\"purgatory\"}'')"
proof
  show "decodes_to (chat_payload (lit ''\",\"cmd\":\"ban''))
     [(lit ''cmd'', lit ''chat''), (lit ''text'', lit ''\",\"cmd\":\"ban'')]"
    using outbound_is_exact [of "lit ''\",\"cmd\":\"ban''" "[]" "[]" "[]" Unban_all False]
    by (simp add: payload_members_def payload_of_def del: lit_simps)
qed code_simp

text \<open>The older payloads are not: a name with a quote adds members, and the last one counts.\<close>

lemma old_ban_injects:
  "parse_json (old_ban (lit ''x\",\"cmd\":\"lockroom''))
   = Some (JObj [(lit ''cmd'', JStr (lit ''ban'')), (lit ''nick'', JStr (lit ''x'')), (lit ''cmd'', JStr (lit ''lockroom''))])"
  by code_simp

end
