(* ===== verification/Model.thy ===== *)
theory Model
  imports Json
begin

text \<open>
  The data model of \<open>internal/model\<close>: room users, chat messages, roles and the identity key.
\<close>

record user =
  u_channel :: str
  u_isme :: bool
  u_name :: str
  u_trip :: str
  u_utype :: str
  u_hash :: str
  u_level :: int
  u_color :: str
  u_flair :: json
  u_userid :: int
  u_isbot :: bool

record chat_message =
  m_whisper :: bool
  m_is_whisper :: bool
  m_cmd :: str
  m_name :: str
  m_trip :: str
  m_hash :: str
  m_time :: nat
  m_channel :: str
  m_text :: str
  m_type :: str
  m_mod :: bool
  m_flair :: json
  m_color :: str

definition get_arguments :: "chat_message \<Rightarrow> str list" where
  "get_arguments m = str_fields (m_text m)"

datatype role = ADMIN | MODERATOR | TRUSTED | USER | REGULAR | PEST

fun role_name :: "role \<Rightarrow> str" where
  "role_name ADMIN = lit ''Admin''"
| "role_name MODERATOR = lit ''Moderator''"
| "role_name TRUSTED = lit ''Trusted''"
| "role_name USER = lit ''User''"
| "role_name REGULAR = lit ''Regular''"
| "role_name PEST = lit ''Pest''"

text \<open>The constants of \<open>Role\<close> are numbered by \<open>iota\<close>, so a smaller role is a more powerful one.\<close>

fun role_rank :: "role \<Rightarrow> int" where
  "role_rank ADMIN = 0"
| "role_rank MODERATOR = 1"
| "role_rank TRUSTED = 2"
| "role_rank USER = 3"
| "role_rank REGULAR = 4"
| "role_rank PEST = 5"

instantiation role :: linorder
begin

definition less_eq_role :: "role \<Rightarrow> role \<Rightarrow> bool" where
  "less_eq_role a b \<longleftrightarrow> role_rank a \<le> role_rank b"

definition less_role :: "role \<Rightarrow> role \<Rightarrow> bool" where
  "less_role a b \<longleftrightarrow> role_rank a < role_rank b"

instance
proof
  fix a b :: role
  show "a \<le> b \<Longrightarrow> b \<le> a \<Longrightarrow> a = b"
    by (cases a; cases b) (simp_all add: less_eq_role_def)
qed (auto simp: less_eq_role_def less_role_def)

end

definition identity_key :: "str \<Rightarrow> str \<Rightarrow> str \<Rightarrow> str" where
  "identity_key trip hash nick =
     (if trim_space trip \<noteq> [] then lit ''trip:'' @ trim_space trip
      else if trim_space hash \<noteq> [] then lit ''hash:'' @ trim_space hash
      else lit ''nick:'' @ to_lower (trim_space nick))"

lemma identity_key_tagged:
  "take 5 (identity_key trip hash nick) \<in> {lit ''trip:'', lit ''hash:'', lit ''nick:''}"
  by (auto simp: identity_key_def)

end
