(* ===== verification/Room.thy ===== *)
theory Room
  imports Wire Model Transition
begin

text \<open>
  The state an engine keeps of its room, \<open>internal/core/engine_impl.go\<close>: the users that are present, the AFK sessions
  with their mentions, the subscribed trips and the last banished user; the listeners that change it
  (\<open>internal/listener\<close>); and the routing of a payload to a listener.  Each operation runs under one mutex.  A Go map
  keyed by pointers is the list of its records in the order in which a loop meets them, which the operations do not
  choose: every property holds for any order.
\<close>

section \<open>State\<close>

record afk_session =
  af_user :: user
  af_reason :: str
  af_mention :: "(str \<times> str) option"

record room =
  rm_name :: str
  rm_channel :: str
  rm_active :: "user list"
  rm_afk :: "afk_session list"
  rm_subscribers :: "str list"
  rm_kicked_user :: str
  rm_kicked_channel :: str
  rm_prefix :: str
  rm_prefixes :: "str list"

section \<open>Users\<close>

definition put_user :: "user \<Rightarrow> user list \<Rightarrow> user list" where
  "put_user u us = filter (\<lambda>v. u_name v \<noteq> u_name u) us @ [u]"

definition replace_active_users :: "user option list \<Rightarrow> room \<Rightarrow> room" where
  "replace_active_users us rm =
     rm\<lparr>rm_active := fold (\<lambda>u acc. case u of None \<Rightarrow> acc | Some v \<Rightarrow> put_user v acc) us []\<rparr>"

definition add_active_user :: "user option \<Rightarrow> room \<Rightarrow> room" where
  "add_active_user joined rm = (case joined of None \<Rightarrow> rm | Some u \<Rightarrow> rm\<lparr>rm_active := put_user u (rm_active rm)\<rparr>)"

fun remove_first :: "('a \<Rightarrow> bool) \<Rightarrow> 'a list \<Rightarrow> 'a list" where
  "remove_first p [] = []"
| "remove_first p (x # xs) = (if p x then xs else x # remove_first p xs)"

definition remove_active_user :: "user option \<Rightarrow> room \<Rightarrow> room" where
  "remove_active_user left rm =
     (case left of None \<Rightarrow> rm
      | Some u \<Rightarrow> rm\<lparr>rm_active := remove_first (\<lambda>v. equal_fold (u_name v) (u_name u)) (rm_active rm)\<rparr>)"

definition active_user_by_name :: "str \<Rightarrow> room \<Rightarrow> user option" where
  "active_user_by_name name rm = find (\<lambda>u. equal_fold (u_name u) (trim_space name)) (rm_active rm)"

definition active_user_names :: "room \<Rightarrow> str list" where
  "active_user_names rm = map u_name (rm_active rm)"

section \<open>Subscribers\<close>

definition subscribe_trip :: "str \<Rightarrow> room \<Rightarrow> bool \<times> room" where
  "subscribe_trip trip rm =
     (let t = trim_space trip
      in if t = [] \<or> t \<in> set (rm_subscribers rm) then (False, rm)
         else (True, rm\<lparr>rm_subscribers := rm_subscribers rm @ [t]\<rparr>))"

definition unsubscribe_trip :: "str \<Rightarrow> room \<Rightarrow> bool \<times> room" where
  "unsubscribe_trip trip rm =
     (let t = trim_space trip
      in if t \<in> set (rm_subscribers rm) then (True, rm\<lparr>rm_subscribers := filter (\<lambda>x. x \<noteq> t) (rm_subscribers rm)\<rparr>)
         else (False, rm))"

definition is_subscribed_trip :: "str \<Rightarrow> room \<Rightarrow> bool" where
  "is_subscribed_trip trip rm \<longleftrightarrow> trim_space trip \<in> set (rm_subscribers rm)"

section \<open>AFK sessions\<close>

definition add_afk_user :: "user option \<Rightarrow> str \<Rightarrow> room \<Rightarrow> room" where
  "add_afk_user u reason rm =
     (case u of None \<Rightarrow> rm
      | Some v \<Rightarrow> rm\<lparr>rm_afk := filter (\<lambda>a. u_name (af_user a) \<noteq> u_name v) (rm_afk rm)
            @ [\<lparr>af_user = v, af_reason = reason, af_mention = None\<rparr>]\<rparr>)"

definition rename_afk_user :: "str \<Rightarrow> str \<Rightarrow> room \<Rightarrow> room" where
  "rename_afk_user before after rm =
     rm\<lparr>rm_afk := map (\<lambda>a. if equal_fold (u_name (af_user a)) (trim_space before)
                        then a\<lparr>af_user := (af_user a)\<lparr>u_name := trim_space after\<rparr>\<rparr> else a) (rm_afk rm)\<rparr>"

definition afk_matches :: "user \<Rightarrow> afk_session \<Rightarrow> bool" where
  "afk_matches u a \<longleftrightarrow> u_name (af_user a) = u_name u \<and> u_trip (af_user a) = u_trip u"

definition away_text :: "str \<times> str \<Rightarrow> str" where
  "away_text m = lit ''While you were away, '' @ fst m @ lit '' mentioned you:'' @ [10] @ snd m"

text \<open>The room afterwards and the texts of the messages sent, in order; a failed send changes nothing.\<close>

definition remove_if_afk :: "user option \<Rightarrow> room \<Rightarrow> room \<times> str list" where
  "remove_if_afk u rm =
     (case u of None \<Rightarrow> (rm, [])
      | Some v \<Rightarrow>
          (case find (afk_matches v) (rm_afk rm) of
             None \<Rightarrow> (rm, [])
           | Some a \<Rightarrow>
               (rm\<lparr>rm_afk := remove_first (afk_matches v) (rm_afk rm)\<rparr>,
                (case af_mention a of None \<Rightarrow> [] | Some m \<Rightarrow> [whisper_text (u_name v) (away_text m)])
                  @ [chat_text (u_name v) (lit '' is not afk anymore - welcome back.'') False])))"

definition is_whisper_message :: "chat_message \<Rightarrow> bool" where
  "is_whisper_message m \<longleftrightarrow> m_is_whisper m \<or> m_whisper m \<or> m_type m = lit ''whisper''"

definition mention_tokens :: "str \<Rightarrow> str list" where
  "mention_tokens s =
     fields_func (\<lambda>r. \<not> is_letter r \<and> \<not> is_digit r \<and> \<not> is_mark r \<and> r \<notin> set (lit ''_-+/'')) s"

definition mentions :: "chat_message \<Rightarrow> afk_session \<Rightarrow> bool" where
  "mentions m a \<longleftrightarrow>
     (let u = af_user a
      in \<not> equal_fold (m_name m) (u_name u)
       \<and> (\<exists>tok \<in> set (mention_tokens (m_text m)).
            (u_trip u \<noteq> [] \<and> tok = u_trip u)
            \<or> (u_name u \<noteq> [] \<and> equal_fold tok (trim_prefix (u_name u) (lit ''@'')))))"

definition notify_afk :: "chat_message \<Rightarrow> room \<Rightarrow> room \<times> str list" where
  "notify_afk m rm =
     (if is_whisper_message m then (rm, [])
      else
        (rm\<lparr>rm_afk := map (\<lambda>a. if mentions m a then a\<lparr>af_mention := Some (m_name m, m_text m)\<rparr> else a) (rm_afk rm)\<rparr>,
         map (\<lambda>a. chat_text (m_name m)
                (lit '' user: '' @ u_name (af_user a) @ lit '' is afk, reason: '' @ af_reason a) False)
           (filter (mentions m) (rm_afk rm))))"

section \<open>Prefixes\<close>

definition current_prefixes :: "room \<Rightarrow> str list" where
  "current_prefixes rm = (if rm_prefixes rm = [] then [rm_prefix rm] else rm_prefixes rm)"

fun normalize_from :: "str list \<Rightarrow> str list \<Rightarrow> str list option" where
  "normalize_from acc [] = Some acc"
| "normalize_from acc (p # ps) =
     (if p = [] \<or> (\<exists>c \<in> set p. is_space c \<or> is_control c) then None
      else normalize_from (if p \<in> set acc then acc else acc @ [p]) ps)"

definition normalize_prefixes :: "str list \<Rightarrow> str list option" where
  "normalize_prefixes ps = (if ps = [] then None else normalize_from [] ps)"

definition set_prefixes :: "str list \<Rightarrow> room \<Rightarrow> room" where
  "set_prefixes ps rm = rm\<lparr>rm_prefixes := ps, rm_prefix := hd ps\<rparr>"

text \<open>The host and the rooms of its managed replicas\<close>

definition update_prefix :: "str list \<Rightarrow> room \<Rightarrow> room list \<Rightarrow> (str \<times> room \<times> room list) option" where
  "update_prefix ps host replicas =
     map_option (\<lambda>n. (join (lit '' '') (current_prefixes host), set_prefixes n host, map (set_prefixes n) replicas))
       (normalize_prefixes ps)"

definition match_command_prefix :: "str \<Rightarrow> str list \<Rightarrow> str" where
  "match_command_prefix s ps =
     foldl (\<lambda>best p. if utf8_len best < utf8_len p \<and> has_prefix s p then p else best) [] ps"

section \<open>Autonomous moderation\<close>

definition active_principal :: "str \<Rightarrow> room \<Rightarrow> send_error + str" where
  "active_principal who rm =
     (case active_user_by_name who rm of
        None \<Rightarrow> Inl Send_inactive
      | Some u \<Rightarrow> if trim_space (u_name u) = [] then Inl Send_inactive else Inr (u_name u))"

definition principal_command :: "bool \<Rightarrow> str \<Rightarrow> str \<Rightarrow> (str \<Rightarrow> str) \<Rightarrow> str \<Rightarrow> room \<Rightarrow> send_error + str" where
  "principal_command ended cmd key fmt who rm =
     (case active_principal who rm of
        Inl e \<Rightarrow> Inl e
      | Inr name \<Rightarrow> send_moderation_command ended cmd [(key, fmt name)])"

definition warn_flood :: "bool \<Rightarrow> str \<Rightarrow> room \<Rightarrow> send_error + str" where
  "warn_flood ended = principal_command ended (lit ''chat'') (lit ''text'') (\<lambda>n. lit ''@'' @ n @ lit '' Please stop flooding.'')"

definition mute_principal :: "bool \<Rightarrow> str \<Rightarrow> room \<Rightarrow> send_error + str" where
  "mute_principal ended = principal_command ended (lit ''mute'') (lit ''nick'') (\<lambda>n. n)"

definition kick_principal :: "bool \<Rightarrow> str \<Rightarrow> room \<Rightarrow> send_error + str" where
  "kick_principal ended = principal_command ended (lit ''kick'') (lit ''nick'') (\<lambda>n. n)"

definition is_managed_bot_name :: "str \<Rightarrow> room \<Rightarrow> str list \<Rightarrow> bool" where
  "is_managed_bot_name name rm replicas \<longleftrightarrow>
     equal_fold (trim_space name) (trim_space (rm_name rm)) \<or> (\<exists>r \<in> set replicas. equal_fold r name)"

section \<open>Routing of payloads\<close>

datatype listener = Online_set | User_joined | User_left | User_chat | User_info

text \<open>\<open>DispatchMessageContext\<close>: which listener is notified of the payload\<close>

definition dispatch_message :: "str \<Rightarrow> listener option" where
  "dispatch_message payload =
     (case parse_json payload of
        None \<Rightarrow> None
      | Some v \<Rightarrow>
          if \<not> finite_numbers v then None
          else (case as_object v of
             None \<Rightarrow> None
           | Some kvs \<Rightarrow>
               (case get kvs (lit ''cmd'') of
                  Some (JStr cmd) \<Rightarrow>
                    map_of [(lit ''onlineSet'', Online_set), (lit ''onlineAdd'', User_joined),
                            (lit ''onlineRemove'', User_left), (lit ''chat'', User_chat), (lit ''info'', User_info)] cmd
                | _ \<Rightarrow> None)))"

section \<open>Information messages\<close>

record info_message =
  im_text :: str
  im_from :: str

fun cut_at :: "str \<Rightarrow> str \<Rightarrow> (str \<times> str) option" where
  "cut_at sep [] = (if sep = [] then Some ([], []) else None)"
| "cut_at sep (c # s) =
     (if has_prefix (c # s) sep then Some ([], drop (length sep) (c # s))
      else map_option (\<lambda>(a, b). (c # a, b)) (cut_at sep s))"

definition capture_banished :: "info_message \<Rightarrow> room \<Rightarrow> room" where
  "capture_banished m rm =
     (case cut_at (lit '' was banished to ?'') (im_text m) of
        None \<Rightarrow> rm
      | Some (name, channel) \<Rightarrow> rm\<lparr>rm_kicked_user := name, rm_kicked_channel := channel\<rparr>)"

definition ignore_self_whisper :: "info_message \<Rightarrow> bool" where
  "ignore_self_whisper m \<longleftrightarrow> cut_at (lit ''You whispered'') (im_text m) = None"

definition rename_users :: "info_message \<Rightarrow> room \<Rightarrow> room" where
  "rename_users m rm =
     (case cut_at (lit '' is now '') (im_text m) of
        None \<Rightarrow> rm
      | Some (a, b) \<Rightarrow>
          (let before = trim_space a; after = trim_space b;
               rm1 = (if equal_fold (rm_name rm) before then rm\<lparr>rm_name := after\<rparr> else rm)
           in rename_afk_user before after rm1))"

text \<open>A whisper becomes a chat message of the active user it names, with that user's own trip and hash.\<close>

definition convert_whisper :: "info_message \<Rightarrow> room \<Rightarrow> chat_message option" where
  "convert_whisper m rm =
     (if im_from m = lit ''<nil>'' \<or> im_from m = [] then None
      else case cut_at (im_from m @ lit '' whispered: '') (im_text m) of
        None \<Rightarrow> None
      | Some (a, body) \<Rightarrow>
          map_option (\<lambda>u. \<lparr>m_whisper = True, m_is_whisper = True, m_cmd = [], m_name = u_name u, m_trip = u_trip u,
              m_hash = u_hash u, m_time = 0, m_channel = rm_channel rm, m_text = body, m_type = lit ''whisper'',
              m_mod = False, m_flair = JNull, m_color = []\<rparr>)
            (find (\<lambda>u. equal_fold (u_name u) (im_from m)) (rm_active rm)))"

section \<open>Lemmas\<close>

lemma remove_first_filter: "distinct xs \<Longrightarrow> (\<And>x y. x \<in> set xs \<Longrightarrow> y \<in> set xs \<Longrightarrow> p x \<Longrightarrow> p y \<Longrightarrow> x = y) \<Longrightarrow>
    remove_first p xs = filter (\<lambda>x. \<not> p x) xs"
proof (induction xs)
  case (Cons x xs)
  show ?case
  proof (cases "p x")
    case True
    then have "\<forall>y \<in> set xs. \<not> p y" using Cons.prems by auto
    then show ?thesis using True by simp
  next
    case False
    have "remove_first p xs = filter (\<lambda>x. \<not> p x) xs"
    proof (rule Cons.IH)
      show "distinct xs" using Cons.prems(1) by simp
      show "\<And>x y. x \<in> set xs \<Longrightarrow> y \<in> set xs \<Longrightarrow> p x \<Longrightarrow> p y \<Longrightarrow> x = y" using Cons.prems(2) by simp
    qed
    then show ?thesis using False by simp
  qed
qed simp

lemma set_remove_first: "set (remove_first p xs) \<subseteq> set xs"
  by (induction xs) auto

lemma distinct_map_remove_first: "distinct (map f xs) \<Longrightarrow> distinct (map f (remove_first p xs))"
  by (induction xs) (use set_remove_first in \<open>force+\<close>)

lemma names_put_user: "distinct (map u_name us) \<Longrightarrow> distinct (map u_name (put_user u us))"
  by (auto simp: put_user_def distinct_map_filter)

lemma put_user_in: "u \<in> set (put_user u us)"
  by (simp add: put_user_def)

text \<open>The invariant of the room and the operations that may happen to it; a loop over a map may meet it in any order.\<close>

definition names_ok :: "room \<Rightarrow> bool" where
  "names_ok rm \<longleftrightarrow> distinct (map u_name (rm_active rm))
     \<and> distinct (rm_subscribers rm) \<and> (\<forall>x \<in> set (rm_subscribers rm). x \<noteq> [] \<and> trim_space x = x)
     \<and> rm_prefix rm \<noteq> []
     \<and> (\<forall>p \<in> set (rm_prefixes rm). p \<noteq> [] \<and> (\<forall>c \<in> set p. \<not> is_space c \<and> \<not> is_control c))"

inductive room_change :: "room \<Rightarrow> room \<Rightarrow> bool" where
  "room_change rm (replace_active_users us rm)"
| "room_change rm (add_active_user u rm)"
| "room_change rm (remove_active_user u rm)"
| "room_change rm (snd (subscribe_trip trip rm))"
| "room_change rm (snd (unsubscribe_trip trip rm))"
| "room_change rm (add_afk_user u reason rm)"
| "room_change rm (fst (remove_if_afk u rm))"
| "room_change rm (fst (notify_afk m rm))"
| "room_change rm (capture_banished im rm)"
| "room_change rm (rename_users im rm)"
| "normalize_prefixes ps = Some n \<Longrightarrow> room_change rm (set_prefixes n rm)"
| "mset us = mset (rm_active rm) \<Longrightarrow> room_change rm (rm\<lparr>rm_active := us\<rparr>)"
| "mset ss = mset (rm_afk rm) \<Longrightarrow> room_change rm (rm\<lparr>rm_afk := ss\<rparr>)"
| "mset ts = mset (rm_subscribers rm) \<Longrightarrow> room_change rm (rm\<lparr>rm_subscribers := ts\<rparr>)"

lemma normalize_from_Some:
  "normalize_from acc ps = Some n \<Longrightarrow> distinct acc \<Longrightarrow>
     distinct n \<and> set n = set acc \<union> set ps
     \<and> (\<forall>p \<in> set ps. p \<noteq> [] \<and> (\<forall>c \<in> set p. \<not> is_space c \<and> \<not> is_control c))"
proof (induction acc ps rule: normalize_from.induct)
  case (2 acc p ps)
  from "2.prems"(1) have p: "p \<noteq> []" "\<forall>c \<in> set p. \<not> is_space c \<and> \<not> is_control c"
    and n: "normalize_from (if p \<in> set acc then acc else acc @ [p]) ps = Some n"
    by (auto split: if_splits)
  have "distinct (if p \<in> set acc then acc else acc @ [p])" using "2.prems"(2) by simp
  from "2.IH" [OF _ n this] p show ?case by (auto split: if_splits)
qed simp

lemma normalize_prefixes_Some:
  assumes "normalize_prefixes ps = Some n"
  shows "n \<noteq> []" "distinct n" "set n = set ps"
    "\<forall>p \<in> set n. p \<noteq> [] \<and> (\<forall>c \<in> set p. \<not> is_space c \<and> \<not> is_control c)"
proof -
  from assms have ps: "ps \<noteq> []" and n: "normalize_from [] ps = Some n"
    by (auto simp: normalize_prefixes_def split: if_splits)
  from normalize_from_Some [OF n] show "distinct n" "set n = set ps"
    "\<forall>p \<in> set n. p \<noteq> [] \<and> (\<forall>c \<in> set p. \<not> is_space c \<and> \<not> is_control c)" by auto
  with ps show "n \<noteq> []" by force
qed

lemma names_ok_users:
  "names_ok rm \<Longrightarrow> distinct (map u_name us) \<Longrightarrow> names_ok (rm\<lparr>rm_active := us\<rparr>)"
  by (simp add: names_ok_def)

lemma names_ok_other [simp]:
  "names_ok (rm\<lparr>rm_afk := a\<rparr>) = names_ok rm" "names_ok (rm\<lparr>rm_name := n\<rparr>) = names_ok rm"
  "names_ok (rm\<lparr>rm_kicked_user := n, rm_kicked_channel := ch\<rparr>) = names_ok rm"
  by (simp_all add: names_ok_def)

lemma names_ok_trips:
  "names_ok rm \<Longrightarrow> distinct ts \<Longrightarrow> \<forall>x \<in> set ts. x \<noteq> [] \<and> trim_space x = x \<Longrightarrow> names_ok (rm\<lparr>rm_subscribers := ts\<rparr>)"
  by (simp add: names_ok_def)

lemma distinct_replaced:
  "distinct (map u_name acc) \<Longrightarrow>
     distinct (map u_name (fold (\<lambda>u acc. case u of None \<Rightarrow> acc | Some v \<Rightarrow> put_user v acc) us acc))"
  by (induction us arbitrary: acc) (auto simp: names_put_user split: option.splits)

lemma room_change_ok:
  assumes "names_ok rm" "room_change rm rm'"
  shows "names_ok rm'"
  using assms(2)
proof cases
  case (1 us)
  then show ?thesis using assms(1) distinct_replaced [of "[]" us] by (simp add: replace_active_users_def names_ok_users)
next
  case (2 u)
  then show ?thesis using assms(1)
    by (auto simp: add_active_user_def names_ok_def names_put_user split: option.splits)
next
  case (3 u)
  then show ?thesis using assms(1)
    by (auto simp: remove_active_user_def names_ok_def distinct_map_remove_first split: option.splits)
next
  case (4 trip)
  then show ?thesis using assms(1) by (auto simp: subscribe_trip_def Let_def intro!: names_ok_trips) (auto simp: names_ok_def)
next
  case (5 trip)
  then show ?thesis using assms(1) by (auto simp: unsubscribe_trip_def Let_def intro!: names_ok_trips) (auto simp: names_ok_def)
next
  case (11 ps n)
  then show ?thesis using assms(1) normalize_prefixes_Some [OF 11(2)] hd_in_set [of n]
    by (auto simp: set_prefixes_def names_ok_def simp del: hd_in_set)
next
  case (12 us)
  then show ?thesis using assms(1) by (metis mset_map mset_eq_imp_distinct_iff names_ok_def names_ok_users)
next
  case (14 ts)
  then show ?thesis using assms(1) by (metis mset_eq_imp_distinct_iff mset_eq_setD names_ok_def names_ok_trips)
qed (use assms(1) in \<open>auto simp: add_afk_user_def remove_if_afk_def notify_afk_def capture_banished_def rename_users_def
      rename_afk_user_def Let_def split: option.splits prod.splits\<close>)

interpretation room_names: invariant_of names_ok room_change names_ok
  by unfold_locales (auto intro: room_change_ok)

text \<open>The prefix of a command is the longest configured one, whatever the order of the list.\<close>

definition longer_prefix :: "str \<Rightarrow> str \<Rightarrow> str \<Rightarrow> str" where
  "longer_prefix s best p = (if utf8_len best < utf8_len p \<and> has_prefix s p then p else best)"

lemma match_prefix_fold:
  fixes s b ps
  defines "r \<equiv> foldl (longer_prefix s) b ps"
  shows "r = b \<or> r \<in> set ps \<and> has_prefix s r" "utf8_len b \<le> utf8_len r"
    "\<And>p. p \<in> set ps \<Longrightarrow> has_prefix s p \<Longrightarrow> utf8_len p \<le> utf8_len r"
proof -
  have "(r = b \<or> r \<in> set ps \<and> has_prefix s r) \<and> utf8_len b \<le> utf8_len r
      \<and> (\<forall>p \<in> set ps. has_prefix s p \<longrightarrow> utf8_len p \<le> utf8_len r)"
    unfolding r_def
  proof (induction ps arbitrary: b)
    case (Cons a ps)
    have "utf8_len b \<le> utf8_len (longer_prefix s b a)" "has_prefix s a \<Longrightarrow> utf8_len a \<le> utf8_len (longer_prefix s b a)"
      "longer_prefix s b a = b \<or> longer_prefix s b a = a \<and> has_prefix s a"
      by (auto simp: longer_prefix_def)
    with Cons [of "longer_prefix s b a"] show ?case by (auto intro: le_trans)
  qed simp
  then show "r = b \<or> r \<in> set ps \<and> has_prefix s r" "utf8_len b \<le> utf8_len r"
    "\<And>p. p \<in> set ps \<Longrightarrow> has_prefix s p \<Longrightarrow> utf8_len p \<le> utf8_len r" by auto
qed

lemma match_prefix_longest:
  "match_command_prefix s ps = [] \<or> match_command_prefix s ps \<in> set ps"
  "has_prefix s (match_command_prefix s ps)"
  "p \<in> set ps \<Longrightarrow> has_prefix s p \<Longrightarrow> utf8_len p \<le> utf8_len (match_command_prefix s ps)"
  using match_prefix_fold [where s = s and b = "[]" and ps = ps]
  by (auto simp: match_command_prefix_def longer_prefix_def [abs_def] has_prefix_def [of s "[]"])

lemma prefix_utf8: "prefix p q \<Longrightarrow> utf8_len p = utf8_len q \<Longrightarrow> p = q"
  using utf8_len_pos by (fastforce simp: prefix_def)

lemma match_prefix_unique:
  assumes "set ps = set qs"
  shows "match_command_prefix s ps = match_command_prefix s qs"
proof -
  let ?p = "match_command_prefix s ps" and ?q = "match_command_prefix s qs"
  have le: "utf8_len (match_command_prefix s xs) \<le> utf8_len (match_command_prefix s ys)" if "set xs = set ys" for xs ys
    using match_prefix_longest [of s xs] match_prefix_longest(3) [of "match_command_prefix s xs" ys s] that
    by (cases "match_command_prefix s xs = []") auto
  have "prefix ?p s" "prefix ?q s" using match_prefix_longest(2) has_prefix_iff by auto
  then have "prefix ?p ?q \<or> prefix ?q ?p" using prefix_same_cases by blast
  then show ?thesis using le [OF assms] le [OF assms [symmetric]] prefix_utf8 by (metis le_antisym)
qed

text \<open>AFK sessions: the last public mention is kept, and told once when the user is back.\<close>

definition last_mention :: "chat_message list \<Rightarrow> afk_session \<Rightarrow> (str \<times> str) option" where
  "last_mention ms a =
     fold (\<lambda>m r. if \<not> is_whisper_message m \<and> mentions m a then Some (m_name m, m_text m) else r) ms (af_mention a)"

lemma mentions_same_user: "af_user a = af_user b \<Longrightarrow> mentions m a = mentions m b"
  by (simp add: mentions_def)

lemma sessions_after:
  "rm_afk (fold (\<lambda>m r. fst (notify_afk m r)) ms rm) = map (\<lambda>a. a\<lparr>af_mention := last_mention ms a\<rparr>) (rm_afk rm)"
proof (induction ms arbitrary: rm)
  case Nil
  have "a\<lparr>af_mention := af_mention a\<rparr> = a" for a :: afk_session by simp
  then show ?case by (simp add: last_mention_def)
next
  case (Cons m ms)
  define b where "b a = (if \<not> is_whisper_message m \<and> mentions m a then a\<lparr>af_mention := Some (m_name m, m_text m)\<rparr> else a)"
    for a
  have b: "rm_afk (fst (notify_afk m rm)) = map b (rm_afk rm)"
    by (auto simp: notify_afk_def b_def intro!: map_idI [symmetric])
  have user: "af_user (b a) = af_user a" "(b a)\<lparr>af_mention := x\<rparr> = a\<lparr>af_mention := x\<rparr>" for a x
    by (simp_all add: b_def)
  have "last_mention ms (b a) = last_mention (m # ms) a" for a
    using mentions_same_user [OF user(1)] by (auto simp: last_mention_def b_def intro!: arg_cong [of _ _ "\<lambda>f. fold f _ _"])
  then show ?case using Cons.IH [of "fst (notify_afk m rm)"] by (simp add: b user(2))
qed

lemma find_map: "find p (map f xs) = map_option f (find (\<lambda>x. p (f x)) xs)"
  by (induction xs) auto

text \<open>
  A user who is back is told the last public message that mentioned him or her since the session began, in one
  whisper, and welcomed; without a mention there is only the welcome; whispers and the user's own messages never
  count as mentions; and the session and its mention are gone, so that nothing is told twice.
\<close>

theorem afk_mention_told_once:
  assumes "rm_afk rm = before @ a # after" "afk_matches u a" "\<forall>b \<in> set before. \<not> afk_matches u b" "af_mention a = None"
  shows "let rm1 = fold (\<lambda>m r. fst (notify_afk m r)) ms rm;
             said = filter (\<lambda>m. \<not> is_whisper_message m \<and> mentions m a) ms
    in remove_if_afk (Some u) rm1 =
     (rm1\<lparr>rm_afk := map (\<lambda>b. b\<lparr>af_mention := last_mention ms b\<rparr>) (before @ after)\<rparr>,
      (if said = [] then []
       else [whisper_text (u_name u) (away_text (m_name (last said), m_text (last said)))])
        @ [chat_text (u_name u) (lit '' is not afk anymore - welcome back.'') False])"
proof -
  let ?f = "\<lambda>b. b\<lparr>af_mention := last_mention ms b\<rparr>"
  define rm1 where "rm1 = fold (\<lambda>m r. fst (notify_afk m r)) ms rm"
  define said where "said = filter (\<lambda>m. \<not> is_whisper_message m \<and> mentions m a) ms"
  have rm1: "rm_afk rm1 = map ?f before @ ?f a # map ?f after"
    unfolding rm1_def by (subst sessions_after) (simp add: assms(1))
  have same: "afk_matches u (?f b) = afk_matches u b" for b by (simp add: afk_matches_def)
  have skip: "find (afk_matches u) (map ?f bs @ c # cs) = Some c" "remove_first (afk_matches u) (map ?f bs @ c # cs) = map ?f bs @ cs"
    if "\<forall>b \<in> set bs. \<not> afk_matches u b" "afk_matches u c" for bs c cs
    using that by (induction bs) (auto simp: same)
  have fold_last: "fold (\<lambda>m r. if p m then Some (g m) else r) xs y
      = (if filter p xs = [] then y else Some (g (last (filter p xs))))" for p :: "chat_message \<Rightarrow> bool" and g :: "_ \<Rightarrow> str \<times> str" and xs y
    by (induction xs arbitrary: y) auto
  have "last_mention ms a = (if said = [] then None else Some (m_name (last said), m_text (last said)))"
    unfolding last_mention_def said_def assms(4)
    using fold_last [of "\<lambda>m. \<not> is_whisper_message m \<and> mentions m a" "\<lambda>m. (m_name m, m_text m)" ms None] by simp
  moreover have "find (afk_matches u) (rm_afk rm1) = Some (?f a)"
    "remove_first (afk_matches u) (rm_afk rm1) = map ?f (before @ after)"
    unfolding rm1 map_append by (rule skip [OF assms(3)]; simp only: same assms(2))+
  ultimately show ?thesis
    by (simp add: remove_if_afk_def del: lit_simps flip: rm1_def said_def)
qed

definition demo_user :: "str \<Rightarrow> str \<Rightarrow> user" where
  "demo_user name trip = \<lparr>u_channel = [], u_isme = False, u_name = name, u_trip = trip, u_utype = [], u_hash = [],
     u_level = 0, u_color = [], u_flair = JNull, u_userid = 0, u_isbot = False\<rparr>"

definition demo_message :: "str \<Rightarrow> str \<Rightarrow> chat_message" where
  "demo_message name body = \<lparr>m_whisper = False, m_is_whisper = False, m_cmd = lit ''chat'', m_name = name, m_trip = [],
     m_hash = [], m_time = 0, m_channel = [], m_text = body, m_type = [], m_mod = False, m_flair = JNull, m_color = []\<rparr>"

definition demo_room :: room where
  "demo_room = \<lparr>rm_name = lit ''bot'', rm_channel = lit ''lounge'', rm_active = [], rm_afk = [], rm_subscribers = [],
     rm_kicked_user = [], rm_kicked_channel = [], rm_prefix = lit ''!'', rm_prefixes = []\<rparr>"

theorem afk_mention_told_once_witness:
  "snd (remove_if_afk (Some (demo_user (lit ''ann'') []))
     (fold (\<lambda>m r. fst (notify_afk m r))
       [demo_message (lit ''bob'') (lit ''where is ann?''), demo_message (lit ''bob'') (lit ''hi'')]
       (add_afk_user (Some (demo_user (lit ''ann'') [])) (lit ''tea'') demo_room)))
   = [lit ''/whisper @ann While you were away, bob mentioned you:'' @ [10] @ lit ''where is ann?'',
      lit ''@ann  is not afk anymore - welcome back.'']"
proof -
  let ?rm = "add_afk_user (Some (demo_user (lit ''ann'') [])) (lit ''tea'') demo_room"
  let ?a = "\<lparr>af_user = demo_user (lit ''ann'') [], af_reason = lit ''tea'', af_mention = None\<rparr>"
  let ?ms = "[demo_message (lit ''bob'') (lit ''where is ann?''), demo_message (lit ''bob'') (lit ''hi'')]"
  have rm: "rm_afk ?rm = [] @ ?a # []" by (simp add: add_afk_user_def demo_room_def)
  have m: "filter (\<lambda>m. \<not> is_whisper_message m \<and> mentions m ?a) ?ms = [demo_message (lit ''bob'') (lit ''where is ann?'')]"
    by code_simp
  show ?thesis
    using afk_mention_told_once [OF rm, of "demo_user (lit ''ann'') []" ?ms]
    unfolding m Let_def by (simp add: afk_matches_def demo_user_def demo_message_def whisper_text_def away_text_def chat_text_def)
qed

end
