(* ===== verification/Coordinator.thy ===== *)
theory Coordinator
  imports Prelude Transition
begin

text \<open>
  \<open>internal/listener/snapshot/coordinator.go\<close>: the workflows that join a room for a moment, apply one
  operation to its roster and leave.  Every workflow is a goroutine \<open>run\<close> with a program counter;
  \<open>receive\<close> and \<open>fail\<close> are called by the transport, by \<open>Cancel\<close> and by the session at any time.
  Sessions, operations, sinks and the parser are interfaces: a step takes what they return as an argument.
  An error is the list of the texts \<open>errors.Join\<close> has collected, none being \<open>nil\<close>.
\<close>

section \<open>Data\<close>

type_synonym errs = "str list"

definition err_string :: "errs \<Rightarrow> str" where
  "err_string es = join [10] es"

datatype outcome = Out_success | Out_empty | Out_absent | Out_skipped | Out_failed

datatype wf_state = St_pending | St_running | St_completed | St_failed | St_cancelled | St_timed_out

record op_result =
  or_outcome :: outcome
  or_reply :: str
  or_data :: str
  or_observed :: bool
  or_actions :: int
  or_deliveries :: int
  or_unknown :: bool
  or_error :: errs

text \<open>\<open>result\<close> and the constructors on it; a missing reply is the empty one.\<close>

definition new_result :: "outcome \<Rightarrow> str \<Rightarrow> op_result" where
  "new_result oc rep = \<lparr>or_outcome = oc, or_reply = rep, or_data = [], or_observed = False,
     or_actions = 0, or_deliveries = 0, or_unknown = False, or_error = []\<rparr>"

record room_request =
  rq_id :: str
  rq_author :: str
  rq_source :: str
  rq_target :: str
  rq_reply :: str
  rq_has_operation :: bool

text \<open>\<open>validate\<close>: which of several blank fields is named depends on the order of a map.\<close>

definition request_ok :: "room_request \<Rightarrow> bool" where
  "request_ok r \<longleftrightarrow> rq_id r \<noteq> [] \<and> rq_author r \<noteq> [] \<and> rq_source r \<noteq> [] \<and> rq_target r \<noteq> [] \<and> rq_has_operation r"

text \<open>\<open>context.Context\<close> with a deadline: the first reason to end stays.\<close>

datatype ctx_state = Live | Ctx_canceled | Ctx_deadline

fun ctx_err :: "ctx_state \<Rightarrow> errs" where
  "ctx_err Live = []"
| "ctx_err Ctx_canceled = [lit ''context canceled'']"
| "ctx_err Ctx_deadline = [lit ''context deadline exceeded'']"

definition end_ctx :: "ctx_state \<Rightarrow> ctx_state \<Rightarrow> ctx_state" where
  "end_ctx why c = (if c = Live then why else c)"

text \<open>Where \<open>run\<close> is: before \<open>Create\<close>, between it and \<open>Start\<close>, in \<open>Start\<close>, in the \<open>select\<close>, in the operation,
  and in the deferred function: before the cleanup of the session, before the reply, before the
  decision under \<open>w.mu\<close>, before the registration under \<open>c.mu\<close>, before the sinks, returned.\<close>

datatype wf_pc = W_create | W_created | W_start | W_wait | W_apply | W_clean | W_reply | W_settle | W_record | W_report | W_done

record workflow =
  w_request :: room_request
  w_ctx :: ctx_state
  w_session :: "str option"
  w_payload :: "str option"
  w_claimed :: bool
  w_terminal :: bool
  w_failure :: "(wf_state \<times> errs) option"
  w_pc :: wf_pc
  w_result :: op_result
  w_started :: bool
  w_dispatched :: bool
  w_actions :: int
  w_deliveries :: int
  w_unknown :: bool
  w_action_err :: errs
  w_final :: wf_state
  w_submit :: "errs option"

definition new_workflow :: "room_request \<Rightarrow> ctx_state \<Rightarrow> workflow" where
  "new_workflow r parent = \<lparr>w_request = r, w_ctx = parent, w_session = None, w_payload = None, w_claimed = False,
     w_terminal = False, w_failure = None, w_pc = W_create, w_result = new_result Out_success [], w_started = False,
     w_dispatched = False, w_actions = 0, w_deliveries = 0, w_unknown = False, w_action_err = [],
     w_final = St_pending, w_submit = None\<rparr>"

record coordinator =
  c_active :: "str \<Rightarrow> nat option"
  c_states :: "str \<Rightarrow> wf_state option"
  c_retained :: "str list"
  c_workflows :: "workflow list"
  c_outcomes :: "(nat \<times> op_result) list"

definition new_coordinator :: coordinator where
  "new_coordinator = \<lparr>c_active = Map.empty, c_states = Map.empty, c_retained = [], c_workflows = [], c_outcomes = []\<rparr>"

section \<open>Calls of the coordinator\<close>

datatype submit_error = Bad_request | Already_active

text \<open>\<open>Submit\<close> up to the start of \<open>run\<close>; what it finally returns is \<open>w_submit\<close>.\<close>

definition submit_room :: "room_request \<Rightarrow> ctx_state \<Rightarrow> coordinator \<Rightarrow> submit_error option \<times> coordinator" where
  "submit_room r parent s =
     (if \<not> request_ok r then (Some Bad_request, s)
      else if c_active s (rq_id r) \<noteq> None then (Some Already_active, s)
      else (None, s\<lparr>c_active := (c_active s)(rq_id r \<mapsto> length (c_workflows s)),
              c_states := (c_states s)(rq_id r \<mapsto> St_pending),
              c_workflows := c_workflows s @ [new_workflow r parent]\<rparr>))"

definition receive :: "str \<Rightarrow> workflow \<Rightarrow> bool \<times> workflow" where
  "receive payload w =
     (if w_claimed w \<or> w_terminal w \<or> w_ctx w \<noteq> Live then (False, w)
      else (True, w\<lparr>w_claimed := True, w_payload := Some payload\<rparr>))"

definition fail :: "wf_state \<Rightarrow> errs \<Rightarrow> workflow \<Rightarrow> bool \<times> workflow" where
  "fail st e w =
     (if w_terminal w \<or> w_failure w \<noteq> None then (False, w)
      else (True, w\<lparr>w_failure := Some (st, if e = [] then [lit ''snapshot transport failed''] else e),
                    w_ctx := end_ctx Ctx_canceled (w_ctx w)\<rparr>))"

definition on_wf :: "nat \<Rightarrow> (workflow \<Rightarrow> workflow) \<Rightarrow> coordinator \<Rightarrow> coordinator" where
  "on_wf i f s = s\<lparr>c_workflows := (c_workflows s)[i := f (c_workflows s ! i)]\<rparr>"

abbreviation wf :: "coordinator \<Rightarrow> nat \<Rightarrow> workflow" where
  "wf s i \<equiv> c_workflows s ! i"

abbreviation wf_id :: "workflow \<Rightarrow> str" where
  "wf_id w \<equiv> rq_id (w_request w)"

text \<open>\<open>find\<close> returns one of these, in the order of a map.\<close>

definition find_session :: "str \<Rightarrow> coordinator \<Rightarrow> nat list" where
  "find_session sid s =
     filter (\<lambda>i. c_active s (wf_id (wf s i)) = Some i \<and> w_session (wf s i) = Some sid) [0..<length (c_workflows s)]"

definition on_snapshot :: "nat option \<Rightarrow> str \<Rightarrow> coordinator \<Rightarrow> bool \<times> coordinator" where
  "on_snapshot found payload s =
     (case found of None \<Rightarrow> (False, s)
      | Some i \<Rightarrow> (fst (receive payload (wf s i)), on_wf i (\<lambda>w. snd (receive payload w)) s))"

definition on_transport_error :: "nat option \<Rightarrow> errs \<Rightarrow> coordinator \<Rightarrow> bool \<times> coordinator" where
  "on_transport_error found e s =
     (case found of None \<Rightarrow> (False, s)
      | Some i \<Rightarrow> (fst (fail St_failed e (wf s i)), on_wf i (\<lambda>w. snd (fail St_failed e w)) s))"

definition on_closed :: "nat option \<Rightarrow> str \<Rightarrow> coordinator \<Rightarrow> bool \<times> coordinator" where
  "on_closed found reason s = on_transport_error found [reason] s"

definition cancel_workflow :: "str \<Rightarrow> str \<Rightarrow> coordinator \<Rightarrow> bool \<times> coordinator" where
  "cancel_workflow wid reason s =
     (case c_active s wid of None \<Rightarrow> (False, s)
      | Some i \<Rightarrow> (fst (fail St_cancelled [reason] (wf s i)), on_wf i (\<lambda>w. snd (fail St_cancelled [reason] w)) s))"

section \<open>The goroutine of a workflow\<close>

definition stop_with :: "errs \<Rightarrow> workflow \<Rightarrow> workflow" where
  "stop_with e w = w\<lparr>w_result := (w_result w)\<lparr>or_error := e\<rparr>, w_pc := W_clean\<rparr>"

definition run_create :: "str option \<Rightarrow> errs \<Rightarrow> workflow \<Rightarrow> workflow" where
  "run_create session e w =
     (let err = (if e = [] \<and> session = None then [lit ''session factory returned nil session''] else e);
          w1 = w\<lparr>w_session := session\<rparr>
      in if err \<noteq> [] then stop_with err w1 else w1\<lparr>w_pc := W_created\<rparr>)"

definition run_check :: "workflow \<Rightarrow> workflow" where
  "run_check w = (if w_ctx w \<noteq> Live then stop_with (ctx_err (w_ctx w)) w else w\<lparr>w_pc := W_start\<rparr>)"

definition run_start :: "errs \<Rightarrow> workflow \<Rightarrow> workflow" where
  "run_start e w =
     (if e \<noteq> [] then stop_with e w else w\<lparr>w_started := True, w_submit := Some [], w_pc := W_wait\<rparr>)"

text \<open>The \<open>select\<close>: the end of the context, or the payload, which the parser reads.\<close>

definition run_ended :: "workflow \<Rightarrow> workflow" where
  "run_ended w = w\<lparr>w_pc := W_clean\<rparr>"

definition run_payload :: "(str \<Rightarrow> str + 'snap) \<Rightarrow> workflow \<Rightarrow> workflow" where
  "run_payload parse w =
     (let w1 = w\<lparr>w_payload := None\<rparr>
      in if w_ctx w \<noteq> Live then stop_with (ctx_err (w_ctx w)) w1
         else case parse (the (w_payload w)) of
           Inl e \<Rightarrow> stop_with [e] w1
         | Inr snap \<Rightarrow> w1\<lparr>w_dispatched := True, w_pc := W_apply\<rparr>)"

text \<open>What the operation may do: send a frame (refused once the context has ended), reply, return, panic.\<close>

definition op_send :: "errs \<Rightarrow> workflow \<Rightarrow> errs \<times> workflow" where
  "op_send e w =
     (if w_ctx w \<noteq> Live then (ctx_err (w_ctx w), w)
      else if e \<noteq> [] then (e, w\<lparr>w_unknown := True, w_action_err := w_action_err w @ e\<rparr>)
      else ([], w\<lparr>w_actions := w_actions w + 1\<rparr>))"

definition op_reply :: "errs \<Rightarrow> workflow \<Rightarrow> workflow" where
  "op_reply e w =
     (if e \<noteq> [] then w\<lparr>w_unknown := True, w_action_err := w_action_err w @ e\<rparr>
      else w\<lparr>w_deliveries := w_deliveries w + 1, w_actions := w_actions w + 1\<rparr>)"

definition op_return :: "op_result \<Rightarrow> errs \<Rightarrow> workflow \<Rightarrow> workflow" where
  "op_return r e w = w\<lparr>w_result := r\<lparr>or_error := or_error r @ e\<rparr>, w_pc := W_clean\<rparr>"

definition run_panic :: "str \<Rightarrow> workflow \<Rightarrow> workflow" where
  "run_panic v w =
     w\<lparr>w_result := (w_result w)\<lparr>or_outcome := Out_failed, or_error := [lit ''snapshot operation panic: '' @ v]\<rparr>,
       w_unknown := True, w_pc := W_clean\<rparr>"

text \<open>The deferred function\<close>

definition run_clean :: "errs \<Rightarrow> errs \<Rightarrow> workflow \<Rightarrow> workflow" where
  "run_clean flush close w =
     (let r = w_result w;
          r1 = r\<lparr>or_actions := w_actions w, or_deliveries := or_deliveries r + w_deliveries w,
                 or_unknown := (or_unknown r \<or> w_unknown w), or_error := or_error r @ w_action_err w\<rparr>;
          r2 = (if w_session w = None then r1
                else r1\<lparr>or_error := or_error r1 @ flush @ close, or_unknown := (or_unknown r1 \<or> flush \<noteq> [])\<rparr>)
      in w\<lparr>w_result := r2, w_pc := W_reply\<rparr>)"

definition reply_text :: "workflow \<Rightarrow> str" where
  "reply_text w =
     (let r = w_result w
      in if or_outcome r = Out_failed \<or> or_error r \<noteq> [] \<or> w_ctx w \<noteq> Live then rq_reply (w_request w) else or_reply r)"

definition run_reply :: "bool \<Rightarrow> errs \<Rightarrow> workflow \<Rightarrow> workflow" where
  "run_reply has_sink e w =
     (let r = w_result w
      in w\<lparr>w_pc := W_settle, w_result :=
           (if reply_text w = [] \<or> \<not> has_sink then r
            else if e \<noteq> [] then r\<lparr>or_error := or_error r @ e, or_outcome := Out_failed, or_unknown := True\<rparr>
            else r\<lparr>or_deliveries := or_deliveries r + 1, or_actions := or_actions r + 1\<rparr>)\<rparr>)"

text \<open>The failure a workflow ends with, and the state that goes with it\<close>

definition settled_failure :: "workflow \<Rightarrow> wf_state option \<times> errs" where
  "settled_failure w =
     (case w_failure w of
        Some (st, e) \<Rightarrow> (Some st, e)
      | None \<Rightarrow>
          (case w_ctx w of
             Live \<Rightarrow> (None, [])
           | Ctx_canceled \<Rightarrow> (Some St_cancelled, ctx_err Ctx_canceled)
           | Ctx_deadline \<Rightarrow> (Some St_timed_out, ctx_err Ctx_deadline)))"

definition run_settle :: "workflow \<Rightarrow> workflow" where
  "run_settle w =
     (let (state, failure) = settled_failure w;
          r1 = (w_result w)\<lparr>or_error := or_error (w_result w) @ failure\<rparr>;
          r2 = (if failure \<noteq> [] \<and> w_dispatched w then r1\<lparr>or_unknown := True\<rparr> else r1);
          r3 = (if or_error r2 \<noteq> [] then
                  (if or_outcome r2 \<noteq> Out_failed then r2\<lparr>or_reply := err_string (or_error r2)\<rparr> else r2)
                    \<lparr>or_outcome := Out_failed\<rparr>
                else r2);
          r4 = (if or_outcome r3 = Out_failed \<and> or_reply r3 = []
                then r3\<lparr>or_reply := err_string (or_error r3)\<rparr> else r3);
          final = (if or_outcome r3 = Out_failed then (case state of None \<Rightarrow> St_failed | Some st \<Rightarrow> st) else St_completed)
      in w\<lparr>w_terminal := True, w_result := r4, w_final := final, w_pc := W_record\<rparr>)"

text \<open>The registration of the outcome: at most 256 finished workflows stay queryable.\<close>

definition max_retained :: nat where
  "max_retained = 256"

definition evict :: "str list \<Rightarrow> (str \<Rightarrow> nat option) \<Rightarrow> (str \<Rightarrow> wf_state option) \<Rightarrow> str list \<times> (str \<Rightarrow> wf_state option)" where
  "evict kept active states =
     (if max_retained < length kept
      then (tl kept, if active (hd kept) = None then states(hd kept := None) else states)
      else (kept, states))"

definition record_outcome :: "nat \<Rightarrow> coordinator \<Rightarrow> coordinator" where
  "record_outcome i s =
     (let w = wf s i; nm = wf_id w;
          active = (c_active s)(nm := None);
          states = (c_states s)(nm \<mapsto> w_final w);
          (kept, states') = evict (remove1 nm (c_retained s) @ [nm]) active states
      in on_wf i (\<lambda>w. w\<lparr>w_ctx := end_ctx Ctx_canceled (w_ctx w), w_pc := W_report\<rparr>)
           (s\<lparr>c_active := active, c_states := states', c_retained := kept\<rparr>))"

definition report :: "nat \<Rightarrow> coordinator \<Rightarrow> coordinator" where
  "report i s =
     on_wf i (\<lambda>w. w\<lparr>w_pc := W_done, w_submit := (if w_started w then w_submit w else Some (or_error (w_result w)))\<rparr>)
       (s\<lparr>c_outcomes := c_outcomes s @ [(i, w_result (wf s i))]\<rparr>)"


section \<open>Steps\<close>

definition check_ctx :: "nat \<Rightarrow> coordinator \<Rightarrow> coordinator" where
  "check_ctx i s =
     (if w_ctx (wf s i) \<noteq> Live then on_wf i run_check s
      else on_wf i run_check (s\<lparr>c_states := (c_states s)(wf_id (wf s i) \<mapsto> St_running)\<rparr>))"

definition at_pc :: "coordinator \<Rightarrow> nat \<Rightarrow> wf_pc \<Rightarrow> bool" where
  "at_pc s i p \<longleftrightarrow> i < length (c_workflows s) \<and> w_pc (wf s i) = p"

text \<open>The goroutine of a workflow, whatever the interfaces it calls return\<close>

inductive run_step :: "(str \<Rightarrow> str + 'snap) \<Rightarrow> bool \<Rightarrow> coordinator \<Rightarrow> coordinator \<Rightarrow> bool"
  for parse :: "str \<Rightarrow> str + 'snap" and has_sink :: bool where
  Create: "at_pc s i W_create \<Longrightarrow> run_step parse has_sink s (on_wf i (run_create session e) s)"
| Check: "at_pc s i W_created \<Longrightarrow> run_step parse has_sink s (check_ctx i s)"
| Start: "at_pc s i W_start \<Longrightarrow> run_step parse has_sink s (on_wf i (run_start e) s)"
| Ended: "at_pc s i W_wait \<Longrightarrow> w_ctx (wf s i) \<noteq> Live \<Longrightarrow> run_step parse has_sink s (on_wf i run_ended s)"
| Payload: "at_pc s i W_wait \<Longrightarrow> w_payload (wf s i) \<noteq> None \<Longrightarrow> run_step parse has_sink s (on_wf i (run_payload parse) s)"
| Return: "at_pc s i W_apply \<Longrightarrow> run_step parse has_sink s (on_wf i (op_return r e) s)"
| Panic: "at_pc s i p \<Longrightarrow> p \<in> {W_create, W_start, W_apply} \<Longrightarrow> run_step parse has_sink s (on_wf i (run_panic v) s)"
| Parse_panic: "at_pc s i W_wait \<Longrightarrow> w_payload (wf s i) \<noteq> None \<Longrightarrow>
    run_step parse has_sink s (on_wf i (\<lambda>w. run_panic v (w\<lparr>w_payload := None\<rparr>)) s)"
| Clean: "at_pc s i W_clean \<Longrightarrow> run_step parse has_sink s (on_wf i (run_clean flush close) s)"
| Reply: "at_pc s i W_reply \<Longrightarrow> run_step parse has_sink s (on_wf i (run_reply has_sink e) s)"
| Settle: "at_pc s i W_settle \<Longrightarrow> run_step parse has_sink s (on_wf i run_settle s)"
| Record: "at_pc s i W_record \<Longrightarrow> run_step parse has_sink s (record_outcome i s)"
| Report: "at_pc s i W_report \<Longrightarrow> run_step parse has_sink s (report i s)"

text \<open>What callers, sessions, timers and the operation do\<close>

inductive env_step :: "bool \<Rightarrow> coordinator \<Rightarrow> coordinator \<Rightarrow> bool" for has_sink :: bool where
  Submit: "env_step has_sink s (snd (submit_room r parent s))"
| Receive: "i < length (c_workflows s) \<Longrightarrow> env_step has_sink s (on_wf i (\<lambda>w. snd (receive payload w)) s)"
| Transport: "i < length (c_workflows s) \<Longrightarrow> env_step has_sink s (on_wf i (\<lambda>w. snd (fail St_failed e w)) s)"
| Snapshot: "i \<in> set (find_session sid s) \<Longrightarrow> env_step has_sink s (snd (on_snapshot (Some i) payload s))"
| Transport_error: "i \<in> set (find_session sid s) \<Longrightarrow> env_step has_sink s (snd (on_transport_error (Some i) e s))"
| Closed: "i \<in> set (find_session sid s) \<Longrightarrow> env_step has_sink s (snd (on_closed (Some i) reason s))"
| Cancel: "env_step has_sink s (snd (cancel_workflow wid reason s))"
| Ctx_end: "i < length (c_workflows s) \<Longrightarrow> why \<noteq> Live \<Longrightarrow> env_step has_sink s (on_wf i (\<lambda>w. w\<lparr>w_ctx := end_ctx why (w_ctx w)\<rparr>) s)"
| Send: "at_pc s i W_apply \<Longrightarrow> env_step has_sink s (on_wf i (\<lambda>w. snd (op_send e w)) s)"
| Op_reply: "at_pc s i W_apply \<Longrightarrow> has_sink \<Longrightarrow> env_step has_sink s (on_wf i (op_reply e) s)"

definition room_step :: "(str \<Rightarrow> str + 'snap) \<Rightarrow> bool \<Rightarrow> coordinator \<Rightarrow> coordinator \<Rightarrow> bool" where
  "room_step parse has_sink s t \<longleftrightarrow> run_step parse has_sink s t \<or> env_step has_sink s t"

section \<open>Invariant\<close>

text \<open>Of one workflow: what holds throughout, and what its control point says about the rest of its state\<close>

definition calls_ok :: "workflow \<Rightarrow> bool" where
  "calls_ok w \<longleftrightarrow>
     (w_payload w \<noteq> None \<longrightarrow> w_claimed w) \<and>
     (w_dispatched w \<longrightarrow> w_claimed w \<and> w_started w \<and> w_payload w = None) \<and>
     (w_ctx w = Live \<longrightarrow> w_failure w = None) \<and>
     (w_failure w \<noteq> None \<longrightarrow> snd (the (w_failure w)) \<noteq> [] \<and>
        fst (the (w_failure w)) \<in> {St_failed, St_cancelled})"

definition fresh :: "bool \<Rightarrow> bool \<Rightarrow> workflow \<Rightarrow> bool" where
  "fresh started dispatched w \<longleftrightarrow> w_result w = new_result Out_success [] \<and> \<not> w_terminal w \<and>
     w_started w = started \<and> w_dispatched w = dispatched \<and> w_submit w = (if started then Some [] else None)"

definition ending :: "workflow \<Rightarrow> bool" where
  "ending w \<longleftrightarrow> \<not> w_terminal w \<and> (\<not> w_dispatched w \<longrightarrow> or_error (w_result w) \<noteq> [] \<or> w_ctx w \<noteq> Live)"

definition counted :: "bool \<Rightarrow> workflow \<Rightarrow> bool" where
  "counted returned w \<longleftrightarrow> set (w_action_err w) \<subseteq> set (or_error (w_result w)) \<and>
     (\<not> w_started w \<longrightarrow> or_error (w_result w) \<noteq> []) \<and>
     w_submit w = (if w_started w then Some [] else if returned then Some (or_error (w_result w)) else None)"

definition settled :: "workflow \<Rightarrow> bool" where
  "settled w \<longleftrightarrow> w_terminal w \<and>
     (w_final w = St_completed \<longleftrightarrow> or_outcome (w_result w) \<noteq> Out_failed) \<and>
     (w_final w = St_completed \<longrightarrow> or_error (w_result w) = [] \<and> w_dispatched w) \<and>
     (w_failure w \<noteq> None \<longrightarrow> w_final w = fst (the (w_failure w)) \<and>
        set (snd (the (w_failure w))) \<subseteq> set (or_error (w_result w)) \<and> (w_dispatched w \<longrightarrow> or_unknown (w_result w))) \<and>
     (w_ctx w = Live \<longrightarrow> w_final w \<noteq> St_cancelled) \<and> (w_ctx w \<noteq> Ctx_deadline \<longrightarrow> w_final w \<noteq> St_timed_out) \<and>
     w_final w \<notin> {St_pending, St_running}"

fun phase_ok :: "wf_pc \<Rightarrow> workflow \<Rightarrow> bool" where
  "phase_ok W_create w = fresh False False w"
| "phase_ok W_created w = fresh False False w"
| "phase_ok W_start w = fresh False False w"
| "phase_ok W_wait w = fresh True False w"
| "phase_ok W_apply w = fresh True True w"
| "phase_ok W_clean w =
     (ending w \<and> (\<not> w_started w \<longrightarrow> or_error (w_result w) \<noteq> []) \<and> w_submit w = (if w_started w then Some [] else None))"
| "phase_ok W_reply w = (ending w \<and> counted False w)"
| "phase_ok W_settle w = (ending w \<and> counted False w)"
| "phase_ok W_record w = (settled w \<and> counted False w)"
| "phase_ok W_report w = (settled w \<and> counted False w)"
| "phase_ok W_done w = (settled w \<and> counted True w)"

definition wf_ok :: "workflow \<Rightarrow> bool" where
  "wf_ok w \<longleftrightarrow> calls_ok w \<and> phase_ok (w_pc w) w"

lemmas wf_ok_defs = wf_ok_def calls_ok_def fresh_def ending_def counted_def settled_def

lemma new_workflow_ok: "wf_ok (new_workflow r parent)"
  by (simp add: wf_ok_defs new_workflow_def)

lemma receive_ok:
  assumes "wf_ok w"
  shows "wf_ok (snd (receive payload w))"
proof (cases "w_claimed w \<or> w_terminal w \<or> w_ctx w \<noteq> Live")
  case False
  let ?w = "w\<lparr>w_claimed := True, w_payload := Some payload\<rparr>"
  have "phase_ok (w_pc w) ?w = phase_ok (w_pc w) w"
    by (cases "w_pc w") (simp_all add: fresh_def ending_def counted_def settled_def)
  with assms False show ?thesis by (auto simp: wf_ok_def calls_ok_def receive_def)
qed (use assms in \<open>simp add: receive_def\<close>)

lemma terminal_phase: "phase_ok p w \<Longrightarrow> w_terminal w \<longleftrightarrow> p \<in> {W_record, W_report, W_done}"
  by (cases p) (simp_all add: fresh_def ending_def settled_def)

lemma phase_fail: "phase_ok p w \<Longrightarrow> \<not> w_terminal w \<Longrightarrow> why \<noteq> Live \<Longrightarrow> phase_ok p (w\<lparr>w_failure := f, w_ctx := end_ctx why (w_ctx w)\<rparr>)"
  by (cases p) (simp_all add: fresh_def ending_def counted_def settled_def end_ctx_def)

lemma phase_ctx: "phase_ok p w \<Longrightarrow> phase_ok p (w\<lparr>w_ctx := end_ctx why (w_ctx w)\<rparr>)"
  by (cases p) (simp_all add: fresh_def ending_def counted_def settled_def end_ctx_def)

lemma fail_ok:
  assumes "wf_ok w" "st \<in> {St_failed, St_cancelled}"
  shows "wf_ok (snd (fail st e w))"
proof (cases "w_terminal w \<or> w_failure w \<noteq> None")
  case False
  with assms phase_fail [of "w_pc w" w Ctx_canceled] show ?thesis
    by (simp add: wf_ok_def fail_def calls_ok_def end_ctx_def)
qed (use assms in \<open>simp add: fail_def\<close>)

lemma ctx_end_ok: "wf_ok w \<Longrightarrow> wf_ok (w\<lparr>w_ctx := end_ctx why (w_ctx w)\<rparr>)"
  using phase_ctx [of "w_pc w" w why] by (simp add: wf_ok_def calls_ok_def end_ctx_def)

lemma op_send_ok: "wf_ok w \<Longrightarrow> w_pc w = W_apply \<Longrightarrow> wf_ok (snd (op_send e w))"
  by (simp add: wf_ok_defs op_send_def)

lemma op_reply_ok: "wf_ok w \<Longrightarrow> w_pc w = W_apply \<Longrightarrow> wf_ok (op_reply e w)"
  by (simp add: wf_ok_defs op_reply_def)

lemma stop_with_ok:
  assumes "wf_ok w" "w_pc w \<in> {W_create, W_created, W_start, W_wait}" "e \<noteq> []"
  shows "wf_ok (stop_with e w)"
  using assms by (cases "w_pc w") (simp_all add: wf_ok_defs stop_with_def)

lemma run_create_ok: "wf_ok w \<Longrightarrow> w_pc w = W_create \<Longrightarrow> wf_ok (run_create session e w)"
  unfolding run_create_def Let_def
  by (simp split: if_split) (simp add: wf_ok_defs stop_with_def)

lemma ctx_err_Nil [simp]: "ctx_err c = [] \<longleftrightarrow> c = Live"
  by (cases c) simp_all

lemma run_check_ok: "wf_ok w \<Longrightarrow> w_pc w = W_created \<Longrightarrow> wf_ok (run_check w)"
  unfolding run_check_def by (simp add: stop_with_ok) (simp add: wf_ok_defs)

lemma run_start_ok: "wf_ok w \<Longrightarrow> w_pc w = W_start \<Longrightarrow> wf_ok (run_start e w)"
  unfolding run_start_def by (simp add: stop_with_ok) (simp add: wf_ok_defs)

lemma run_ended_ok: "wf_ok w \<Longrightarrow> w_pc w = W_wait \<Longrightarrow> w_ctx w \<noteq> Live \<Longrightarrow> wf_ok (run_ended w)"
  by (simp add: wf_ok_defs run_ended_def)

lemma drop_payload_ok: "wf_ok w \<Longrightarrow> wf_ok (w\<lparr>w_payload := None\<rparr>)"
  by (cases "w_pc w") (simp_all add: wf_ok_defs)

lemma run_payload_ok:
  assumes "wf_ok w" "w_pc w = W_wait" "w_payload w \<noteq> None"
  shows "wf_ok (run_payload parse w)"
proof -
  have "wf_ok (w\<lparr>w_payload := None, w_dispatched := True, w_pc := W_apply\<rparr>)"
    using assms by (auto simp: wf_ok_defs)
  moreover have "wf_ok (stop_with e (w\<lparr>w_payload := None\<rparr>))" if "e \<noteq> []" for e
    using that assms(1,2) by (simp add: stop_with_ok drop_payload_ok)
  ultimately show ?thesis by (simp add: run_payload_def Let_def split: sum.split)
qed

lemma op_return_ok: "wf_ok w \<Longrightarrow> w_pc w = W_apply \<Longrightarrow> wf_ok (op_return r e w)"
  by (simp add: wf_ok_defs op_return_def)

lemma run_panic_ok: "wf_ok w \<Longrightarrow> w_pc w \<in> {W_create, W_start, W_wait, W_apply} \<Longrightarrow> wf_ok (run_panic v w)"
  by (cases "w_pc w") (simp_all add: wf_ok_defs run_panic_def)

lemma run_clean_ok: "wf_ok w \<Longrightarrow> w_pc w = W_clean \<Longrightarrow> wf_ok (run_clean flush close w)"
  by (auto simp: wf_ok_defs run_clean_def Let_def)

lemma run_reply_ok: "wf_ok w \<Longrightarrow> w_pc w = W_reply \<Longrightarrow> wf_ok (run_reply has_sink e w)"
  by (simp add: wf_ok_defs run_reply_def Let_def) auto

lemma run_settle_sel [simp]:
  "w_pc (run_settle w) = W_record" "w_payload (run_settle w) = w_payload w" "w_claimed (run_settle w) = w_claimed w"
  "w_dispatched (run_settle w) = w_dispatched w" "w_started (run_settle w) = w_started w" "w_terminal (run_settle w)"
  "w_failure (run_settle w) = w_failure w" "w_ctx (run_settle w) = w_ctx w" "w_submit (run_settle w) = w_submit w"
  "w_action_err (run_settle w) = w_action_err w" "w_request (run_settle w) = w_request w"
  "or_error (w_result (run_settle w)) = or_error (w_result w) @ snd (settled_failure w)"
  by (simp_all add: run_settle_def Let_def split: prod.split)

lemma settled_failure_facts:
  assumes "calls_ok w" "settled_failure w = (state, failure)"
  shows "w_failure w \<noteq> None \<Longrightarrow> state = Some (fst (the (w_failure w))) \<and> failure = snd (the (w_failure w))"
    "failure = [] \<longleftrightarrow> w_ctx w = Live" "state = None \<longleftrightarrow> w_ctx w = Live"
    "state = Some St_cancelled \<Longrightarrow> w_ctx w \<noteq> Live" "state = Some St_timed_out \<Longrightarrow> w_ctx w = Ctx_deadline"
    "state \<noteq> Some St_pending" "state \<noteq> Some St_running" "state \<noteq> Some St_completed"
  using assms by (auto simp: calls_ok_def settled_failure_def split: option.splits ctx_state.splits)

lemma settle_settled:
  assumes "calls_ok w" "ending w"
  shows "settled (run_settle w)"
proof -
  obtain state failure where f: "settled_failure w = (state, failure)" by (cases "settled_failure w")
  note facts = settled_failure_facts [OF assms(1) f]
  show ?thesis
    using assms(2) facts by (cases state; cases "failure = []") (auto simp: settled_def ending_def run_settle_def f Let_def)
qed

lemma run_settle_ok: "wf_ok w \<Longrightarrow> w_pc w = W_settle \<Longrightarrow> wf_ok (run_settle w)"
  using settle_settled [of w] by (auto simp: wf_ok_def calls_ok_def counted_def)

lemma record_ok: "wf_ok w \<Longrightarrow> w_pc w = W_record \<Longrightarrow> wf_ok (w\<lparr>w_ctx := end_ctx Ctx_canceled (w_ctx w), w_pc := W_report\<rparr>)"
  by (simp add: wf_ok_defs end_ctx_def)

lemma report_ok:
  "wf_ok w \<Longrightarrow> w_pc w = W_report \<Longrightarrow>
     wf_ok (w\<lparr>w_pc := W_done, w_submit := (if w_started w then w_submit w else Some (or_error (w_result w)))\<rparr>)"
  by (simp add: wf_ok_defs)

text \<open>Of the coordinator: unfinished workflows are registered under their names, one at a time\<close>

definition recorded :: "workflow \<Rightarrow> bool" where
  "recorded w \<longleftrightarrow> w_pc w = W_report \<or> w_pc w = W_done"

definition registered :: "coordinator \<Rightarrow> bool" where
  "registered s \<longleftrightarrow>
     (\<forall>nm i. c_active s nm = Some i \<longleftrightarrow> i < length (c_workflows s) \<and> wf_id (wf s i) = nm \<and> \<not> recorded (wf s i))"

definition last_of :: "coordinator \<Rightarrow> str \<Rightarrow> nat \<Rightarrow> bool" where
  "last_of s nm i \<longleftrightarrow> i < length (c_workflows s) \<and> wf_id (wf s i) = nm \<and>
     (\<forall>j. i < j \<and> j < length (c_workflows s) \<longrightarrow> wf_id (wf s j) \<noteq> nm)"

definition states_ok :: "coordinator \<Rightarrow> bool" where
  "states_ok s \<longleftrightarrow>
     dom (c_states s) = dom (c_active s) \<union> set (c_retained s) \<and> distinct (c_retained s) \<and>
     length (c_retained s) \<le> max_retained \<and>
     (\<forall>nm i. c_active s nm = Some i \<longrightarrow> c_states s nm \<in> {Some St_pending, Some St_running} \<and> last_of s nm i) \<and>
     (\<forall>nm st. c_active s nm = None \<and> c_states s nm = Some st \<longrightarrow> (\<exists>i. last_of s nm i \<and> w_final (wf s i) = st))"

definition reports_of :: "coordinator \<Rightarrow> nat \<Rightarrow> op_result list" where
  "reports_of s i = map snd (filter (\<lambda>oc. fst oc = i) (c_outcomes s))"

definition reports_ok :: "coordinator \<Rightarrow> bool" where
  "reports_ok s \<longleftrightarrow>
     (\<forall>i. reports_of s i = (if i < length (c_workflows s) \<and> w_pc (wf s i) = W_done then [w_result (wf s i)] else []))"

definition room_ok :: "coordinator \<Rightarrow> bool" where
  "room_ok s \<longleftrightarrow> list_all wf_ok (c_workflows s) \<and> registered s \<and> states_ok s \<and> reports_ok s"

lemma new_coordinator_ok: "room_ok new_coordinator"
  by (simp add: room_ok_def registered_def states_ok_def reports_ok_def reports_of_def new_coordinator_def)

lemma room_wf_ok: "room_ok s \<Longrightarrow> i < length (c_workflows s) \<Longrightarrow> wf_ok (wf s i)"
  by (simp add: room_ok_def list_all_length)

lemma states_okD:
  "states_ok s \<Longrightarrow> c_active s nm = None \<Longrightarrow> c_states s nm = Some st \<Longrightarrow> \<exists>i. last_of s nm i \<and> w_final (wf s i) = st"
  by (simp add: states_ok_def)

text \<open>A change of one workflow that the coordinator does not see\<close>

definition unseen :: "workflow \<Rightarrow> workflow \<Rightarrow> bool" where
  "unseen w w' \<longleftrightarrow> w_request w' = w_request w \<and> recorded w' = recorded w \<and> (w_pc w' = W_done \<longleftrightarrow> w_pc w = W_done) \<and>
     (recorded w \<longrightarrow> w_result w' = w_result w \<and> w_final w' = w_final w)"

lemma on_wf_sel [simp]:
  "c_active (on_wf i f s) = c_active s" "c_states (on_wf i f s) = c_states s" "c_retained (on_wf i f s) = c_retained s"
  "c_outcomes (on_wf i f s) = c_outcomes s" "length (c_workflows (on_wf i f s)) = length (c_workflows s)"
  by (simp_all add: on_wf_def)

lemma on_wf_nth: "i < length (c_workflows s) \<Longrightarrow> wf (on_wf i f s) j = (if j = i then f (wf s i) else wf s j)"
  by (simp add: on_wf_def nth_list_update)

lemma list_all_update: "list_all p xs \<Longrightarrow> p x \<Longrightarrow> list_all p (xs[i := x])"
  by (auto simp: list_all_iff dest!: subsetD [OF set_update_subset_insert])

lemma registeredD: "registered s \<Longrightarrow> i < length (c_workflows s) \<Longrightarrow> \<not> recorded (wf s i) \<Longrightarrow> c_active s (wf_id (wf s i)) = Some i"
  by (simp add: registered_def)

lemma unseen_registered: "registered s \<Longrightarrow> i < length (c_workflows s) \<Longrightarrow> unseen (wf s i) (f (wf s i)) \<Longrightarrow> registered (on_wf i f s)"
  by (auto simp: registered_def on_wf_nth unseen_def)

lemma unseen_last_of: "i < length (c_workflows s) \<Longrightarrow> unseen (wf s i) (f (wf s i)) \<Longrightarrow> last_of (on_wf i f s) nm j = last_of s nm j"
  by (auto simp: last_of_def on_wf_nth unseen_def)

lemma unseen_states:
  assumes "registered s" "states_ok s" "i < length (c_workflows s)" "unseen (wf s i) (f (wf s i))"
  shows "states_ok (on_wf i f s)"
proof -
  have "w_final (wf (on_wf i f s) j) = w_final (wf s j)" if "last_of s nm j" "c_active s nm = None" for nm j
  proof -
    have "recorded (wf s j)" using that registeredD [OF assms(1), of j] by (auto simp: last_of_def)
    then show ?thesis using assms(3,4) by (auto simp: on_wf_nth unseen_def)
  qed
  with assms show ?thesis by (simp add: states_ok_def unseen_last_of) blast
qed

lemma unseen_reports: "reports_ok s \<Longrightarrow> i < length (c_workflows s) \<Longrightarrow> unseen (wf s i) (f (wf s i)) \<Longrightarrow> reports_ok (on_wf i f s)"
  by (auto simp: reports_ok_def reports_of_def on_wf_nth unseen_def recorded_def)

lemma unseen_ok:
  assumes "room_ok s" "i < length (c_workflows s)" "unseen (wf s i) (f (wf s i))" "wf_ok (f (wf s i))"
  shows "room_ok (on_wf i f s)"
  using assms unseen_registered [of s i f] unseen_states [of s i f] unseen_reports [of s i f]
  by (simp add: room_ok_def) (simp add: on_wf_def list_all_update)


lemma last_of_append:
  assumes "c_workflows t = c_workflows s @ [w]"
  shows "last_of t nm j \<longleftrightarrow> (if nm = wf_id w then j = length (c_workflows s) else last_of s nm j)"
proof -
  let ?n = "length (c_workflows s)"
  have len: "length (c_workflows t) = Suc ?n" using assms by simp
  have old: "k < ?n \<Longrightarrow> wf t k = wf s k" for k using assms by (simp add: nth_append)
  have new: "wf t ?n = w" using assms by simp
  show ?thesis
  proof (cases "nm = wf_id w")
    case True
    have "last_of t nm j \<Longrightarrow> \<not> j < ?n"
      using True new len by (auto simp: last_of_def)
    then show ?thesis using True new len by (auto simp: last_of_def)
  next
    case False
    have "last_of t nm j \<longleftrightarrow> j < ?n \<and> wf_id (wf t j) = nm \<and> (\<forall>k. j < k \<and> k < ?n \<longrightarrow> wf_id (wf t k) \<noteq> nm)"
      using False new by (auto simp: last_of_def len less_Suc_eq)
    also have "\<dots> \<longleftrightarrow> last_of s nm j" using old by (auto simp: last_of_def)
    finally show ?thesis using False by simp
  qed
qed

lemma submit_room_ok:
  assumes "room_ok s"
  shows "room_ok (snd (submit_room r parent s))"
proof (cases "request_ok r \<and> c_active s (rq_id r) = None")
  case True
  let ?n = "length (c_workflows s)" and ?w = "new_workflow r parent"
  let ?t = "s\<lparr>c_active := (c_active s)(rq_id r \<mapsto> ?n), c_states := (c_states s)(rq_id r \<mapsto> St_pending),
      c_workflows := c_workflows s @ [?w]\<rparr>"
  have new: "wf_id ?w = rq_id r" "\<not> recorded ?w" "w_pc ?w = W_create"
    by (simp_all add: new_workflow_def recorded_def)
  have reg: "registered s" and st: "states_ok s" and rep: "reports_ok s" and all: "list_all wf_ok (c_workflows s)"
    using assms by (simp_all add: room_ok_def)
  have free: "recorded (wf s j)" if "j < ?n" "wf_id (wf s j) = rq_id r" for j
    using registeredD [OF reg that(1)] that(2) True by auto
  have "registered ?t" using reg free True new by (auto simp: registered_def nth_append less_Suc_eq)
  moreover have last: "last_of ?t nm j \<longleftrightarrow> (if nm = rq_id r then j = ?n else last_of s nm j)" for nm j
    using last_of_append [of ?t s ?w] new by simp
  have old: "wf ?t j = wf s j" if "last_of s nm j" for nm j
    using that by (simp add: last_of_def nth_append)
  have inactive: "\<exists>j. last_of ?t nm j \<and> w_final (wf ?t j) = st"
    if "c_active ?t nm = None" "c_states ?t nm = Some st" for nm st
  proof -
    have other: "nm \<noteq> rq_id r" using that(1) by auto
    have "\<exists>j. last_of s nm j \<and> w_final (wf s j) = st" using states_okD [OF st, of nm st] that other by simp
    then obtain j where "last_of s nm j" "w_final (wf s j) = st" by blast
    then show ?thesis using other old by (metis last)
  qed
  have "states_ok ?t"
    unfolding states_ok_def using st inactive by (simp add: states_ok_def last)
  moreover have "reports_ok ?t"
    using rep new by (simp add: reports_ok_def reports_of_def nth_append less_Suc_eq)
  ultimately show ?thesis using True all by (simp add: room_ok_def submit_room_def new_workflow_ok)
qed (use assms in \<open>auto simp: submit_room_def\<close>)

lemma evict_ok:
  assumes "evict kept active states = (kept', states')" "distinct kept" "dom states = dom active \<union> set kept"
    "length kept \<le> Suc max_retained"
  shows "distinct kept'" "length kept' \<le> max_retained" "dom states' = dom active \<union> set kept'"
    "states' nm = Some st \<Longrightarrow> states nm = Some st" "active nm \<noteq> None \<Longrightarrow> states' nm = states nm"
proof -
  have "distinct kept' \<and> length kept' \<le> max_retained \<and> dom states' = dom active \<union> set kept' \<and>
    (states' nm = Some st \<longrightarrow> states nm = Some st) \<and> (active nm \<noteq> None \<longrightarrow> states' nm = states nm)"
  proof (cases "max_retained < length kept")
    case True
    then obtain x xs where k: "kept = x # xs" by (cases kept) auto
    have e: "kept' = xs" "states' = (if active x = None then states(x := None) else states)"
      using assms(1) True by (auto simp: evict_def k)
    have "dom states' = dom active \<union> set xs"
    proof (cases "active x = None")
      case True
      then have "dom states' = dom states - {x}" "x \<notin> dom active" "x \<notin> set xs"
        using assms(2) by (simp_all add: e k dom_fun_upd domIff)
      then show ?thesis using assms(3) by (simp add: k)
    next
      case False
      then have "states' = states" "x \<in> dom active" by (auto simp: e)
      then show ?thesis using assms(3) by (auto simp: k)
    qed
    moreover have "active nm \<noteq> None \<longrightarrow> states' nm = states nm" "states' nm = Some st \<longrightarrow> states nm = Some st"
      by (auto simp: e)
    ultimately show ?thesis using assms(2,4) by (simp add: e k)
  next
    case False
    then show ?thesis using assms by (auto simp: evict_def)
  qed
  then show "distinct kept'" "length kept' \<le> max_retained" "dom states' = dom active \<union> set kept'"
    "states' nm = Some st \<Longrightarrow> states nm = Some st" "active nm \<noteq> None \<Longrightarrow> states' nm = states nm"
    by simp_all
qed

definition close_wf :: "workflow \<Rightarrow> workflow" where
  "close_wf w = w\<lparr>w_ctx := end_ctx Ctx_canceled (w_ctx w), w_pc := W_report\<rparr>"

lemma close_wf_sel [simp]:
  "w_request (close_wf w) = w_request w" "w_pc (close_wf w) = W_report" "w_final (close_wf w) = w_final w" "recorded (close_wf w)"
  by (simp_all add: close_wf_def recorded_def)

lemma record_outcome_eq:
  "record_outcome i s =
     (let e = evict (remove1 (wf_id (wf s i)) (c_retained s) @ [wf_id (wf s i)]) ((c_active s)(wf_id (wf s i) := None))
            ((c_states s)(wf_id (wf s i) \<mapsto> w_final (wf s i)))
      in on_wf i close_wf (s\<lparr>c_active := (c_active s)(wf_id (wf s i) := None), c_states := snd e, c_retained := fst e\<rparr>))"
  by (simp add: record_outcome_def close_wf_def [abs_def] Let_def split: prod.split)

lemma record_states:
  assumes reg: "registered s" and st: "states_ok s" and i: "at_pc s i W_record"
  shows "states_ok (record_outcome i s)"
proof -
  let ?nm = "wf_id (wf s i)"
  let ?act = "(c_active s)(?nm := None)" and ?sts = "(c_states s)(?nm \<mapsto> w_final (wf s i))"
  let ?kept = "remove1 ?nm (c_retained s) @ [?nm]"
  let ?t = "record_outcome i s"
  obtain kept' states' where e: "evict ?kept ?act ?sts = (kept', states')" by (cases "evict ?kept ?act ?sts")
  have len: "i < length (c_workflows s)" using i by (simp add: at_pc_def)
  have act: "c_active s ?nm = Some i" using registeredD [OF reg len] i by (simp add: at_pc_def recorded_def)
  have st': "dom (c_states s) = dom (c_active s) \<union> set (c_retained s)" "distinct (c_retained s)" "length (c_retained s) \<le> max_retained"
    "\<And>nm j. c_active s nm = Some j \<Longrightarrow> c_states s nm \<in> {Some St_pending, Some St_running} \<and> last_of s nm j"
    using st by (auto simp: states_ok_def)
  have kept: "distinct ?kept" "length ?kept \<le> Suc max_retained" "set ?kept = insert ?nm (set (c_retained s))"
    using st'(2,3) by (auto simp: length_remove1)
  have "dom ?sts = dom ?act \<union> set ?kept"
    using st'(1) kept(3) by (auto simp: dom_fun_upd)
  note ev = evict_ok [OF e kept(1) this kept(2)]
  have t: "c_active ?t = ?act" "c_states ?t = states'" "c_retained ?t = kept'"
    by (simp_all add: record_outcome_eq e Let_def)
  have wf_t: "w_final (wf ?t j) = w_final (wf s j)" "last_of ?t nm j = last_of s nm j" for nm j
    using len by (auto simp: record_outcome_eq Let_def on_wf_def nth_list_update last_of_def)
  have "\<exists>j. last_of ?t nm j \<and> w_final (wf ?t j) = x" if "?act nm = None" "states' nm = Some x" for nm x
  proof (cases "nm = ?nm")
    case True
    with ev(4) [OF that(2)] have "x = w_final (wf s i)" by simp
    then show ?thesis using True st'(4) [OF act] by (auto simp: wf_t)
  next
    case False
    with ev(4) [OF that(2)] that(1) states_okD [OF st, of nm x] show ?thesis by (simp add: wf_t)
  qed
  moreover have "states' nm \<in> {Some St_pending, Some St_running} \<and> last_of ?t nm j" if "?act nm = Some j" for nm j
    using that ev(5) [of nm] st'(4) [of nm j] by (simp add: wf_t split: if_splits)
  ultimately show ?thesis
    using ev(1-3) unfolding states_ok_def t by blast
qed

lemma record_room_ok:
  assumes ok: "room_ok s" and i: "at_pc s i W_record"
  shows "room_ok (record_outcome i s)"
proof -
  have len: "i < length (c_workflows s)" and pc: "w_pc (wf s i) = W_record" using i by (simp_all add: at_pc_def)
  have reg: "registered s" and st: "states_ok s" and rep: "reports_ok s" and all: "list_all wf_ok (c_workflows s)"
    using ok by (simp_all add: room_ok_def)
  have act: "c_active s (wf_id (wf s i)) = Some i" using registeredD [OF reg len] pc by (simp add: recorded_def)
  have wfs: "c_workflows (record_outcome i s) = (c_workflows s)[i := close_wf (wf s i)]"
    "c_active (record_outcome i s) = (c_active s)(wf_id (wf s i) := None)" "c_outcomes (record_outcome i s) = c_outcomes s"
    by (simp_all add: record_outcome_eq Let_def on_wf_def)
  have "j = i" if "j < length (c_workflows s)" "\<not> recorded (wf s j)" "wf_id (wf s j) = wf_id (wf s i)" for j
    using registeredD [OF reg that(1,2)] that(3) act by simp
  then have "registered (record_outcome i s)"
    using reg act len by (auto simp: registered_def wfs nth_list_update)
  moreover have "reports_ok (record_outcome i s)"
    using rep len pc by (auto simp: reports_ok_def reports_of_def wfs nth_list_update)
  moreover have "list_all wf_ok (c_workflows (record_outcome i s))"
    using all record_ok [OF room_wf_ok [OF ok len] pc] by (simp add: wfs list_all_update close_wf_def)
  ultimately show ?thesis using record_states [OF reg st i] by (simp add: room_ok_def)
qed

definition finish_wf :: "workflow \<Rightarrow> workflow" where
  "finish_wf w = w\<lparr>w_pc := W_done, w_submit := (if w_started w then w_submit w else Some (or_error (w_result w)))\<rparr>"

lemma finish_wf_sel [simp]:
  "w_request (finish_wf w) = w_request w" "w_pc (finish_wf w) = W_done" "w_final (finish_wf w) = w_final w" "recorded (finish_wf w)"
  "w_result (finish_wf w) = w_result w"
  by (simp_all add: finish_wf_def recorded_def)

lemma report_room_ok:
  assumes ok: "room_ok s" and i: "at_pc s i W_report"
  shows "room_ok (report i s)"
proof -
  let ?t = "report i s"
  have len: "i < length (c_workflows s)" and pc: "w_pc (wf s i) = W_report" using i by (simp_all add: at_pc_def)
  have reg: "registered s" and st: "states_ok s" and rep: "reports_ok s" and all: "list_all wf_ok (c_workflows s)"
    using ok by (simp_all add: room_ok_def)
  have t: "c_workflows ?t = (c_workflows s)[i := finish_wf (wf s i)]" "c_active ?t = c_active s" "c_states ?t = c_states s"
    "c_retained ?t = c_retained s" "c_outcomes ?t = c_outcomes s @ [(i, w_result (wf s i))]"
    by (simp_all add: report_def on_wf_def finish_wf_def)
  have "registered ?t" using reg len pc by (auto simp: t registered_def nth_list_update recorded_def [of "wf s i"])
  moreover have "last_of ?t nm j = last_of s nm j" "w_final (wf ?t j) = w_final (wf s j)" for nm j
    using len by (auto simp: t last_of_def nth_list_update)
  then have "states_ok ?t" using st by (simp add: states_ok_def t(2-4))
  moreover have "reports_ok ?t"
    using rep len pc by (auto simp: reports_ok_def reports_of_def t nth_list_update)
  moreover have "list_all wf_ok (c_workflows ?t)"
    using all report_ok [OF room_wf_ok [OF ok len] pc] by (simp only: t list_all_update finish_wf_def)
  ultimately show ?thesis by (simp add: room_ok_def)
qed

lemma running_ok:
  assumes "room_ok s" "c_active s nm = Some i"
  shows "room_ok (s\<lparr>c_states := (c_states s)(nm \<mapsto> St_running)\<rparr>)"
proof -
  let ?t = "s\<lparr>c_states := (c_states s)(nm \<mapsto> St_running)\<rparr>"
  have st: "states_ok s" using assms by (simp add: room_ok_def)
  have last: "last_of ?t = last_of s" by (intro ext) (simp add: last_of_def)
  have "dom (c_states ?t) = dom (c_states s)"
    using assms(2) st by (auto simp: states_ok_def)
  then have "states_ok ?t"
    using st assms(2) by (simp add: states_ok_def last) blast
  then show ?thesis using assms(1) by (simp add: room_ok_def registered_def reports_ok_def reports_of_def)
qed

text \<open>Every step of a goroutine before its registration, and every call, is such a change.\<close>

lemma unseen_run:
  "w_pc w = W_create \<Longrightarrow> unseen w (run_create session e w)" "w_pc w = W_created \<Longrightarrow> unseen w (run_check w)"
  "w_pc w = W_start \<Longrightarrow> unseen w (run_start e w)" "w_pc w = W_wait \<Longrightarrow> unseen w (run_ended w)"
  "w_pc w = W_wait \<Longrightarrow> unseen w (run_payload parse w)" "w_pc w = W_apply \<Longrightarrow> unseen w (op_return r e w)"
  "w_pc w \<in> {W_create, W_start, W_wait, W_apply} \<Longrightarrow> unseen w (run_panic v w)"
  "w_pc w = W_wait \<Longrightarrow> unseen w (run_panic v (w\<lparr>w_payload := None\<rparr>))"
  "w_pc w = W_clean \<Longrightarrow> unseen w (run_clean flush close w)" "w_pc w = W_reply \<Longrightarrow> unseen w (run_reply has_sink e w)"
  "w_pc w = W_settle \<Longrightarrow> unseen w (run_settle w)"
  by (auto simp: unseen_def recorded_def run_create_def stop_with_def run_check_def run_start_def run_ended_def
      run_payload_def op_return_def run_panic_def run_clean_def run_reply_def Let_def split: sum.split)

lemma unseen_calls:
  "unseen w (snd (receive payload w))" "unseen w (snd (fail st e w))" "unseen w (w\<lparr>w_ctx := end_ctx why (w_ctx w)\<rparr>)"
  "unseen w (snd (op_send e w))" "unseen w (op_reply e w)"
  by (simp_all add: unseen_def recorded_def receive_def fail_def op_send_def op_reply_def)

lemma check_ctx_ok:
  assumes "room_ok s" "at_pc s i W_created"
  shows "room_ok (check_ctx i s)"
proof -
  have i: "i < length (c_workflows s)" "w_pc (wf s i) = W_created" using assms(2) by (simp_all add: at_pc_def)
  have "c_active s (wf_id (wf s i)) = Some i"
    using registeredD [of s i] i assms(1) by (simp add: room_ok_def recorded_def)
  from running_ok [OF assms(1) this] assms(1) show ?thesis
    unfolding check_ctx_def
    by (auto intro!: unseen_ok unseen_run run_check_ok simp: i room_wf_ok)
qed

lemma run_step_ok: "run_step parse has_sink s t \<Longrightarrow> room_ok s \<Longrightarrow> room_ok t"
proof (induction rule: run_step.induct)
  case (Panic s i p v)
  then show ?case
    by (auto intro!: unseen_ok unseen_run run_panic_ok simp: at_pc_def room_wf_ok)
next
  case (Parse_panic s i v)
  then show ?case
    by (auto intro!: unseen_ok unseen_run run_panic_ok drop_payload_ok simp: at_pc_def room_wf_ok)
qed (simp_all add: check_ctx_ok record_room_ok report_room_ok unseen_ok unseen_run room_wf_ok at_pc_def
    run_create_ok run_start_ok run_ended_ok run_payload_ok op_return_ok run_clean_ok run_reply_ok run_settle_ok)

lemma env_step_ok: "env_step has_sink s t \<Longrightarrow> room_ok s \<Longrightarrow> room_ok t"
proof (induction rule: env_step.induct)
  case (Cancel s wid reason)
  show ?case
  proof (cases "c_active s wid")
    case (Some i)
    then have "i < length (c_workflows s)" using Cancel by (simp add: room_ok_def registered_def)
    then show ?thesis using Cancel Some
      by (auto simp: cancel_workflow_def intro!: unseen_ok unseen_calls fail_ok room_wf_ok)
  qed (use Cancel in \<open>simp add: cancel_workflow_def\<close>)
qed (auto simp: submit_room_ok on_snapshot_def on_closed_def on_transport_error_def find_session_def at_pc_def
    intro!: unseen_ok unseen_calls receive_ok fail_ok ctx_end_ok op_send_ok op_reply_ok room_wf_ok)

interpretation room: invariant_of "\<lambda>s. s = new_coordinator" "room_step parse has_sink" room_ok for parse has_sink
  by unfold_locales (auto simp: new_coordinator_ok room_step_def run_step_ok env_step_ok)

end
