(* ===== verification/Roster.thy ===== *)
theory Roster
  imports Room Coordinator "HOL-Library.Product_Lexorder"
begin

text \<open>
  Rosters of rooms: how a user is decoded (\<open>internal/model/user.go\<close>), the snapshot of a room and the store of the
  last one (\<open>internal/listener/snapshot/snapshot.go\<close>), the four operations that a workflow of the coordinator applies to a
  snapshot (\<open>list_operation.go\<close>, \<open>nuke_operation.go\<close>, \<open>kick_or_resurrect_operation.go\<close>, \<open>remote_message_operation.go\<close>), and
  the listeners for rosters, joins and leaves (\<open>online_set_listener.go\<close>, \<open>user_joined_listener.go\<close>,
  \<open>user_left_listener.go\<close>).  What a context, a sender or a service answers is an argument.
\<close>

section \<open>Decoding users\<close>

definition zero_user :: user where
  "zero_user = \<lparr>u_channel = [], u_isme = False, u_name = [], u_trip = [], u_utype = [], u_hash = [], u_level = 0, u_color = [],
     u_flair = JNull, u_userid = 0, u_isbot = False\<rparr>"

text \<open>One member of the object: a field is found by its name up to case, \<open>null\<close> leaves it alone (and empties an
  interface), a value of another type is an error, an unknown name is skipped.\<close>

definition user_member :: "str \<times> json \<Rightarrow> user \<Rightarrow> user option" where
  "user_member m u =
     (case m of (k, v) \<Rightarrow>
        let is_field = (\<lambda>name. equal_fold k (lit name));
            text1 = (\<lambda>set1. case v of JNull \<Rightarrow> Some u | JStr s \<Rightarrow> Some (set1 s) | _ \<Rightarrow> None);
            flag = (\<lambda>set1. case v of JNull \<Rightarrow> Some u | JBool b \<Rightarrow> Some (set1 b) | _ \<Rightarrow> None);
            number = (\<lambda>set1. case v of JNull \<Rightarrow> Some u | JNum s \<Rightarrow> map_option set1 (parse_int s) | _ \<Rightarrow> None)
        in if is_field ''channel'' then text1 (\<lambda>s. u\<lparr>u_channel := s\<rparr>)
           else if is_field ''isme'' then flag (\<lambda>b. u\<lparr>u_isme := b\<rparr>)
           else if is_field ''nick'' then text1 (\<lambda>s. u\<lparr>u_name := s\<rparr>)
           else if is_field ''trip'' then text1 (\<lambda>s. u\<lparr>u_trip := s\<rparr>)
           else if is_field ''uType'' then text1 (\<lambda>s. u\<lparr>u_utype := s\<rparr>)
           else if is_field ''hash'' then text1 (\<lambda>s. u\<lparr>u_hash := s\<rparr>)
           else if is_field ''level'' then number (\<lambda>n. u\<lparr>u_level := n\<rparr>)
           else if is_field ''color'' then text1 (\<lambda>s. u\<lparr>u_color := s\<rparr>)
           else if is_field ''flair'' then (if finite_numbers v then Some (u\<lparr>u_flair := v\<rparr>) else None)
           else if is_field ''userId'' then number (\<lambda>n. u\<lparr>u_userid := n\<rparr>)
           else if is_field ''isBot'' then flag (\<lambda>b. u\<lparr>u_isbot := b\<rparr>)
           else Some u)"

fun user_members :: "(str \<times> json) list \<Rightarrow> user \<Rightarrow> user option" where
  "user_members [] u = Some u"
| "user_members (m # ms) u = Option.bind (user_member m u) (user_members ms)"

definition get_user :: "str \<Rightarrow> user option" where
  "get_user payload = Option.bind (parse_json payload) (\<lambda>v. Option.bind (as_object v) (\<lambda>ms. user_members ms zero_user))"

text \<open>An element of a slice of pointers, decoded into the pointer that is there\<close>

definition decode_element :: "user option \<Rightarrow> json \<Rightarrow> user option option" where
  "decode_element old v =
     (case v of
        JNull \<Rightarrow> Some None
      | JObj ms \<Rightarrow> map_option Some (user_members ms (case old of None \<Rightarrow> zero_user | Some u \<Rightarrow> u))
      | _ \<Rightarrow> None)"

fun decode_elements :: "user option list \<Rightarrow> json list \<Rightarrow> user option list option" where
  "decode_elements old [] = Some []"
| "decode_elements old (v # vs) =
     Option.bind (decode_element (case old of [] \<Rightarrow> None | u # us \<Rightarrow> u) v)
       (\<lambda>u. map_option (\<lambda>us. u # us) (decode_elements (drop 1 old) vs))"

text \<open>The slice itself: \<open>null\<close> makes it nil.\<close>

definition decode_users :: "user option list option \<Rightarrow> json \<Rightarrow> user option list option option" where
  "decode_users old v =
     (case v of
        JNull \<Rightarrow> Some None
      | JArr vs \<Rightarrow> map_option Some (decode_elements (case old of None \<Rightarrow> [] | Some us \<Rightarrow> us) vs)
      | _ \<Rightarrow> None)"

text \<open>\<open>GetUsers\<close>: the member \<open>Users\<close>; an error is reported as nil.\<close>

fun users_members :: "(str \<times> json) list \<Rightarrow> user option list option \<Rightarrow> user option list option option" where
  "users_members [] us = Some us"
| "users_members ((k, v) # ms) us =
     (if equal_fold k (lit ''Users'') then Option.bind (decode_users us v) (users_members ms) else users_members ms us)"

definition get_users :: "str \<Rightarrow> user option list option" where
  "get_users payload =
     (case Option.bind (parse_json payload) (\<lambda>v. Option.bind (as_object v) (\<lambda>ms. users_members ms None)) of
        None \<Rightarrow> None | Some us \<Rightarrow> us)"

section \<open>Snapshots\<close>

record snapshot =
  sn_users :: "user option list"
  sn_agent :: bool

definition parse_snapshot :: "str \<Rightarrow> bool \<Rightarrow> str + snapshot" where
  "parse_snapshot payload agent =
     (case Option.bind (parse_json payload) as_object of
        None \<Rightarrow> Inl (lit ''malformed JSON'')
      | Some rootms \<Rightarrow>
          if get rootms (lit ''cmd'') \<noteq> Some (JStr (lit ''onlineSet'')) then Inl (lit ''cmd must be onlineSet'')
          else if agent then
            (case get rootms (lit ''nicks'') of
               None \<Rightarrow> Inl (lit ''missing nicks array'')
             | Some raw \<Rightarrow>
                 (case as_strings raw of
                    None \<Rightarrow> Inl (lit ''nicks must be strings'')
                  | Some nicks \<Rightarrow>
                      if [] \<in> set nicks then Inl (lit ''blank nick'')
                      else Inr \<lparr>sn_users = map (\<lambda>n. Some (zero_user\<lparr>u_name := n\<rparr>)) nicks, sn_agent = True\<rparr>))
          else
            (case get rootms (lit ''users'') of
               None \<Rightarrow> Inl (lit ''missing users array'')
             | Some raw \<Rightarrow>
                 (case decode_users None raw of
                    None \<Rightarrow> Inl (lit ''users must be an array'')
                  | Some us \<Rightarrow>
                      if list_ex (\<lambda>u. case u of None \<Rightarrow> True | Some v \<Rightarrow> u_name v = []) (case us of None \<Rightarrow> [] | Some x \<Rightarrow> x)
                      then Inl (lit ''users must have a nonblank nick'')
                      else Inr \<lparr>sn_users = (case us of None \<Rightarrow> [] | Some x \<Rightarrow> x), sn_agent = False\<rparr>)))"

text \<open>The store keeps the last user of each identity; a snapshot that was parsed holds no nil user.\<close>

type_synonym roster_store = "str \<Rightarrow> user option"

definition store_users :: "user option list \<Rightarrow> roster_store" where
  "store_users us = fold (\<lambda>u m. case u of None \<Rightarrow> m | Some v \<Rightarrow> m(identity_key (u_trip v) (u_hash v) (u_name v) \<mapsto> v)) us Map.empty"

definition apply_snapshot :: "str \<Rightarrow> bool \<Rightarrow> roster_store \<Rightarrow> str option \<times> roster_store" where
  "apply_snapshot payload agent s =
     (case parse_snapshot payload agent of
        Inl e \<Rightarrow> (Some (lit ''snapshot decode: onlineSet: '' @ e), s)
      | Inr sn \<Rightarrow> (None, store_users (sn_users sn)))"

section \<open>Operations on a snapshot\<close>

subsection \<open>Listing\<close>

text \<open>The first record of each nick\<close>

fun first_names :: "str set \<Rightarrow> user option list \<Rightarrow> user list" where
  "first_names seen [] = []"
| "first_names seen (u # us) =
     (case u of None \<Rightarrow> first_names seen us
      | Some v \<Rightarrow> if u_name v \<in> seen then first_names seen us else v # first_names (insert (u_name v) seen) us)"

definition roster_order :: "user \<Rightarrow> str \<times> str \<times> str \<times> str" where
  "roster_order u = (u_hash u, to_lower (u_name u), u_name u, u_trip u)"

definition ordered_unique_users :: "user option list \<Rightarrow> user list" where
  "ordered_unique_users us = sort_key roster_order (first_names {} us)"

definition user_line :: "user \<Rightarrow> str" where
  "user_line u = u_hash u @ lit '' - '' @ (if u_trip u = [] then lit ''------'' else u_trip u) @ lit '' - '' @ u_name u @ [10]"

definition format_ordered :: "user list \<Rightarrow> str" where
  "format_ordered us = [10] @ lit ''Users online: '' @ [10] @ concat (map user_line us) @ [10]"

definition format_users :: "user option list \<Rightarrow> str" where
  "format_users us = format_ordered (ordered_unique_users us)"

definition roster_json :: "str \<Rightarrow> str list \<Rightarrow> str" where
  "roster_json target names =
     lit ''{\"room\":'' @ encode_string target @ lit '',\"users\":['' @ join [44] (map encode_string names)
       @ lit ''],\"count\":'' @ itoa (int (length names)) @ lit '',\"returnedCount\":'' @ itoa (int (length names))
       @ lit '',\"truncated\":false}''"

definition list_room :: "str \<Rightarrow> snapshot \<Rightarrow> op_result" where
  "list_room target sn =
     (let us = ordered_unique_users (sn_users sn)
      in (new_result Out_success (format_ordered us))\<lparr>or_data := roster_json target (map u_name us), or_observed := True\<rparr>)"

subsection \<open>Emptying a room\<close>

text \<open>What happens around the \<open>i\<close>-th request: the context has ended before it, the sender fails with a text, the wait after it is
  interrupted.\<close>

record op_round =
  rd_ended :: bool
  rd_error :: "str option"
  rd_interrupted :: bool

definition context_ended :: str where "context_ended = lit ''context ended''"

text \<open>The result: the payloads given to the sender, how many it accepted, and the failure with the flag of an unknown outcome\<close>

fun nuke_users :: "bool \<Rightarrow> bool \<Rightarrow> (nat \<Rightarrow> op_round) \<Rightarrow> nat \<Rightarrow> user option list \<Rightarrow> str list \<times> nat \<times> (bool \<times> str) option" where
  "nuke_users sender delay rounds i [] =
     (if rd_ended (rounds i) then ([], 0, Some (False, context_ended))
      else if \<not> sender then ([], 0, Some (False, lit ''snapshot raw sender is not configured''))
      else case rd_error (rounds i) of
        Some e \<Rightarrow> ([marshal_strings [(lit ''cmd'', lit ''lockroom'')]], 0, Some (True, e))
      | None \<Rightarrow> ([marshal_strings [(lit ''cmd'', lit ''lockroom'')]], 1, None))"
| "nuke_users sender delay rounds i (u # us) =
     (if rd_ended (rounds i) then ([], 0, Some (False, context_ended))
      else case u of
        None \<Rightarrow> ([], 0, Some (False, lit ''snapshot contains nil user''))
      | Some v \<Rightarrow>
          if trim_space (u_name v) = [] then ([], 0, Some (False, lit ''Nick target cannot be blank''))
          else if \<not> sender then ([], 0, Some (False, lit ''snapshot raw sender is not configured''))
          else
            let p = marshal_strings [(lit ''cmd'', lit ''ban''), (lit ''nick'', u_name v)]
            in case rd_error (rounds i) of
                 Some e \<Rightarrow> ([p], 0, Some (True, e))
               | None \<Rightarrow>
                   if delay \<and> rd_interrupted (rounds i) then ([p], 1, Some (False, context_ended))
                   else (case nuke_users sender delay rounds (i + 1) us of (ps, n, f) \<Rightarrow> (p # ps, n + 1, f)))"

definition nuke_room :: "str \<Rightarrow> bool \<Rightarrow> bool \<Rightarrow> (nat \<Rightarrow> op_round) \<Rightarrow> snapshot \<Rightarrow> op_result \<times> errs \<times> str list" where
  "nuke_room target sender delay rounds sn =
     (case nuke_users sender delay rounds 0 (sn_users sn) of
        (ps, n, None) \<Rightarrow> ((new_result Out_success [])\<lparr>or_actions := int n\<rparr>, [], ps)
      | (ps, n, Some (unknown, e)) \<Rightarrow>
          ((new_result Out_failed (lit ''Failed to nuke '' @ target))\<lparr>or_actions := int n, or_unknown := unknown\<rparr>, [e], ps))"

subsection \<open>Moving one user\<close>

definition kick_or_resurrect ::
  "str \<Rightarrow> str \<Rightarrow> bool \<Rightarrow> bool \<Rightarrow> str option \<Rightarrow> snapshot \<Rightarrow> op_result \<times> errs \<times> str list" where
  "kick_or_resurrect target destination ended sender send_error sn =
     (if ended then (new_result Out_failed [], [context_ended], [])
      else case find (\<lambda>u. case u of None \<Rightarrow> False | Some v \<Rightarrow> equal_fold (u_name v) target) (sn_users sn) of
        Some (Some v) \<Rightarrow>
          if \<not> sender then (new_result Out_failed [], [lit ''snapshot raw sender is not configured''], [])
          else
            let p = marshal_strings [(lit ''cmd'', lit ''kick''), (lit ''nick'', u_name v), (lit ''to'', destination)]
            in (case send_error of
                  Some e \<Rightarrow> ((new_result Out_failed [])\<lparr>or_unknown := True\<rparr>, [e], [p])
                | None \<Rightarrow> ((new_result Out_success [])\<lparr>or_actions := 1\<rparr>, [], [p]))
      | _ \<Rightarrow> (new_result Out_absent (lit '' '' @ target @ lit '' isn'' @ [39] @ lit ''t in the room''), [], []))"

subsection \<open>A message for a room\<close>

definition only_me :: "user option list \<Rightarrow> bool" where
  "only_me us \<longleftrightarrow> list_all (\<lambda>u. case u of None \<Rightarrow> True | Some v \<Rightarrow> u_isme v) us"

definition remote_message ::
  "str \<Rightarrow> str \<Rightarrow> bool \<Rightarrow> bool \<Rightarrow> str option \<Rightarrow> snapshot \<Rightarrow> op_result \<times> errs \<times> str list" where
  "remote_message msg target ended sender send_error sn =
     (if ended then (new_result Out_failed [], [context_ended], [])
      else if None \<in> set (sn_users sn) then (new_result Out_failed [], [lit ''snapshot contains nil user''], [])
      else if trim_space msg = [] then (new_result Out_empty [], [], [])
      else if only_me (sn_users sn) then (new_result Out_empty (lit '' '' @ target @ lit '' is empty''), [], [])
      else if \<not> sender then (new_result Out_failed [], [lit ''snapshot raw sender is not configured''], [])
      else
        let p = marshal_strings [(lit ''cmd'', lit ''chat''), (lit ''nick'', lit ''*''), (lit ''text'', msg)]
        in (case send_error of
              Some e \<Rightarrow> ((new_result Out_failed [])\<lparr>or_unknown := True\<rparr>, [e], [p])
            | None \<Rightarrow> ((new_result Out_success (lit ''sent successfully.''))\<lparr>or_actions := 1, or_deliveries := 1\<rparr>, [], [p])))"

section \<open>Listeners\<close>

text \<open>Both fields of the root object; another spelling of their name is the first one.\<close>

fun online_members ::
  "(str \<times> json) list \<Rightarrow> user option list option \<times> user option list option \<Rightarrow> (user option list option \<times> user option list option) option"
where
  "online_members [] r = Some r"
| "online_members ((k, v) # ms) r =
     (if k = lit ''Users'' then Option.bind (decode_users (snd r) v) (\<lambda>us. online_members ms (fst r, us))
      else if equal_fold k (lit ''users'') then Option.bind (decode_users (fst r) v) (\<lambda>us. online_members ms (us, snd r))
      else online_members ms r)"

definition online_users :: "str \<Rightarrow> user option list option" where
  "online_users payload =
     (case Option.bind (parse_json payload) (\<lambda>v. Option.bind (as_object v) (\<lambda>ms. online_members ms (None, None))) of
        None \<Rightarrow> None
      | Some (users, legacy) \<Rightarrow>
          let us = (case (case users of None \<Rightarrow> legacy | Some x \<Rightarrow> Some x) of None \<Rightarrow> [] | Some x \<Rightarrow> x)
          in if list_ex (\<lambda>u. case u of None \<Rightarrow> True | Some v \<Rightarrow> u_name v = []) us then None else Some us)"

text \<open>The room afterwards, and whether the callback is called\<close>

definition notify_online_set :: "str \<Rightarrow> room \<Rightarrow> room \<times> bool" where
  "notify_online_set payload rm =
     (case online_users payload of None \<Rightarrow> (rm, False) | Some us \<Rightarrow> (replace_active_users us rm, True))"

definition snapshot_online_set :: "str \<Rightarrow> str option" where
  "snapshot_online_set payload = (if online_users payload = None then None else Some payload)"

text \<open>What a join causes, in order\<close>

datatype join_effect =
    Moderate user
  | Tell str str
  | Kick_banned str
  | Audit_presence str str str str str
  | Announce str
  | Move_automatically user

text \<open>The services: \<open>None\<close> is a service that is missing or fails\<close>

record join_services =
  js_moderation :: bool
  js_auto_move :: bool
  js_user_data :: "str \<Rightarrow> str \<Rightarrow> str option"
  js_banned :: "user \<Rightarrow> bool option"
  js_seen :: "user \<Rightarrow> str option"

definition share_user_info :: "join_services \<Rightarrow> user \<Rightarrow> room \<Rightarrow> join_effect list" where
  "share_user_info js u rm =
     (if rm_subscribers rm = [] then []
      else case js_user_data js (u_hash u) (u_trip u) of
        None \<Rightarrow> []
      | Some d \<Rightarrow>
          map (\<lambda>a. Tell (u_name a) (addressed_text (u_name a) (lit '' -'' @ [10, 10] @ d) True))
            (filter (\<lambda>a. is_subscribed_trip (u_trip a) rm) (rm_active rm)))"

definition kick_if_banned :: "join_services \<Rightarrow> user \<Rightarrow> join_effect list" where
  "kick_if_banned js u = (if js_banned js u = Some True then [Kick_banned (u_name u)] else [])"

definition notify_seen :: "join_services \<Rightarrow> str list \<Rightarrow> user \<Rightarrow> room \<Rightarrow> join_effect list" where
  "notify_seen js replicas u rm =
     (if u_isme u \<or> equal_fold (u_name u) (rm_name rm) \<or> is_managed_bot_name (u_name u) rm replicas then []
      else case js_seen js u of None \<Rightarrow> [] | Some m \<Rightarrow> if m = [] then [] else [Announce (chat_text [] m False)])"

definition user_joined :: "join_services \<Rightarrow> str list \<Rightarrow> str \<Rightarrow> room \<Rightarrow> room \<times> join_effect list" where
  "user_joined js replicas payload rm =
     (case get_user payload of
        None \<Rightarrow> (rm, [])
      | Some u \<Rightarrow>
          let rm1 = add_active_user (Some u) rm
          in (rm1, (if js_moderation js then [Moderate u] else [])
                @ share_user_info js u rm1 @ kick_if_banned js u
                @ [Audit_presence (u_trip u) (u_name u) (u_hash u) (lit ''joined'') (rm_channel rm1)]
                @ notify_seen js replicas u rm1
                @ (if js_auto_move js then [Move_automatically u] else [])))"

definition user_left :: "str \<Rightarrow> room \<Rightarrow> room \<times> join_effect list" where
  "user_left payload rm =
     (case get_user payload of
        None \<Rightarrow> (rm, [])
      | Some u \<Rightarrow>
          (case active_user_by_name (u_name u) rm of
             None \<Rightarrow> (rm, [])
           | Some v \<Rightarrow>
               (remove_active_user (Some v) rm,
                [Audit_presence (u_trip v) (u_name v) (u_hash v) (lit ''left'') (rm_channel rm)])))"

section \<open>Lemmas\<close>

subsection \<open>The list of a room\<close>

definition names_of :: "user option list \<Rightarrow> str set" where
  "names_of us = {u_name v |v. Some v \<in> set us}"

lemma names_of_simps [simp]:
  "names_of [] = {}" "names_of (None # us) = names_of us" "names_of (Some v # us) = insert (u_name v) (names_of us)"
  by (auto simp: names_of_def)

lemma first_names_set: "u_name ` set (first_names seen us) = names_of us - seen"
  by (induction seen us rule: first_names.induct) (auto split: option.splits)

lemma first_names_distinct: "distinct (map u_name (first_names seen us))"
proof (induction seen us rule: first_names.induct)
  case (2 seen u us)
  show ?case
  proof (cases u)
    case (Some v)
    have "u_name v \<notin> u_name ` set (first_names (insert (u_name v) seen) us)" by (simp add: first_names_set)
    then show ?thesis using 2 Some by simp
  qed (use 2 in simp)
qed simp

lemma first_names_in: "set (first_names seen us) \<subseteq> {v. Some v \<in> set us}"
  by (induction seen us rule: first_names.induct) (auto split: option.splits if_splits)

text \<open>A listing of a room names each nick of the roster exactly once, whatever nil or repeated records the roster holds, in the
  order of hash, nick and trip; the reply has one line per nick, and the count is the number of nicks.\<close>

theorem room_list_is_exact:
  "let us = ordered_unique_users (sn_users sn); r = list_room target sn
   in set (map u_name us) = names_of (sn_users sn) \<and> distinct (map u_name us) \<and> set us \<subseteq> {v. Some v \<in> set (sn_users sn)}
    \<and> sorted (map roster_order us) \<and> length us = card (names_of (sn_users sn))
    \<and> or_outcome r = Out_success \<and> or_actions r = 0 \<and> or_data r = roster_json target (map u_name us)
    \<and> or_reply r = [10] @ lit ''Users online: '' @ [10] @ concat (map user_line us) @ [10]"
proof -
  let ?f = "first_names {} (sn_users sn)" and ?us = "ordered_unique_users (sn_users sn)"
  have perm: "mset ?us = mset ?f" by (simp add: ordered_unique_users_def)
  have names: "set (map u_name ?us) = names_of (sn_users sn)"
    using first_names_set [of "{}" "sn_users sn"] by (simp add: ordered_unique_users_def)
  have dist: "distinct (map u_name ?us)"
    using first_names_distinct [of "{}" "sn_users sn"] perm by (metis mset_eq_imp_distinct_iff mset_map)
  have "length ?us = card (set (map u_name ?us))" using dist by (metis distinct_card length_map)
  moreover have "set ?us \<subseteq> {v. Some v \<in> set (sn_users sn)}"
    using first_names_in [of "{}" "sn_users sn"] by (simp add: ordered_unique_users_def)
  moreover have "sorted (map roster_order ?us)" by (simp add: ordered_unique_users_def)
  ultimately show ?thesis
    using names dist by (simp add: Let_def list_room_def format_ordered_def new_result_def)
qed

text \<open>The order of the records does not matter when no nick is repeated.\<close>

lemma first_names_all: "distinct (map u_name us) \<Longrightarrow> u_name ` set us \<inter> seen = {} \<Longrightarrow> first_names seen (map Some us) = us"
  by (induction us arbitrary: seen) auto

lemma room_list_order:
  assumes "distinct (map u_name us)" "mset us = mset vs"
  shows "ordered_unique_users (map Some us) = ordered_unique_users (map Some vs)"
proof -
  have "distinct (map u_name vs)" using assms by (metis mset_eq_imp_distinct_iff mset_map)
  moreover have "inj_on roster_order (set us)" using assms(1) by (auto simp: inj_on_def roster_order_def distinct_map)
  ultimately show ?thesis
    using assms first_names_all [of us "{}"] first_names_all [of vs "{}"]
    unfolding ordered_unique_users_def
    by (simp add: properties_for_sort_key [where f = roster_order] sort_key_eq_sort_key)
qed

subsection \<open>Emptying a room\<close>

definition ban_payload :: "user \<Rightarrow> str" where
  "ban_payload v = marshal_strings [(lit ''cmd'', lit ''ban''), (lit ''nick'', u_name v)]"

definition lock_payload :: str where
  "lock_payload = marshal_strings [(lit ''cmd'', lit ''lockroom'')]"

text \<open>The requests in the order in which they are to be made\<close>

definition nuke_plan :: "user option list \<Rightarrow> str list" where
  "nuke_plan us = map ban_payload (List.map_filter id us) @ [lock_payload]"

lemma nuke_plan_simps [simp]:
  "nuke_plan [] = [lock_payload]" "nuke_plan (Some v # us) = ban_payload v # nuke_plan us" "nuke_plan (None # us) = nuke_plan us"
  by (simp_all add: nuke_plan_def List.map_filter_simps)

lemma nuke_users_plan:
  "nuke_users sender delay rounds i us = (ps, n, f) \<Longrightarrow>
     prefix ps (nuke_plan us) \<and> n \<le> length ps
     \<and> (f = None \<longrightarrow> ps = nuke_plan us \<and> n = length ps \<and> None \<notin> set us)
     \<and> (\<forall>e. f = Some (True, e) \<longrightarrow> length ps = n + 1 \<and> rd_error (rounds (i + n)) = Some e)
     \<and> (\<forall>e. f = Some (False, e) \<longrightarrow> length ps = n \<and> n \<le> length us)"
proof (induction us arbitrary: i ps n f)
  case Nil
  then show ?case by (auto simp: lock_payload_def split: if_splits option.splits)
next
  case (Cons u us)
  show ?case
  proof (cases u)
    case None
    then show ?thesis using Cons.prems by (auto split: if_splits)
  next
    case (Some v)
    show ?thesis
    proof (cases "rd_ended (rounds i) \<or> trim_space (u_name v) = [] \<or> \<not> sender \<or> rd_error (rounds i) \<noteq> None
        \<or> delay \<and> rd_interrupted (rounds i)")
      case True
      then show ?thesis using Cons.prems Some by (auto simp: Let_def ban_payload_def split: if_splits option.splits)
    next
      case False
      obtain ps' n' f' where r: "nuke_users sender delay rounds (i + 1) us = (ps', n', f')" by (cases "nuke_users sender delay rounds (i + 1) us")
      then have "ps = ban_payload v # ps'" "n = n' + 1" "f = f'"
        using Cons.prems Some False by (auto simp: Let_def ban_payload_def)
      then show ?thesis using Cons.IH [OF r] Some by auto
    qed
  qed
qed

text \<open>Emptying a room makes its requests one after the other, in the order of the roster and the lock last: whatever fails or
  ends, the requests made are an initial part of that plan, the reported number of actions is the number of accepted
  ones, the operation succeeds exactly if the whole plan was accepted, and it reports an unknown outcome exactly if the
  last request was handed to the sender and failed.\<close>

theorem nuke_follows_plan:
  "case nuke_room target sender delay rounds sn of (r, es, ps) \<Rightarrow>
     prefix ps (nuke_plan (sn_users sn)) \<and> 0 \<le> or_actions r
     \<and> (or_outcome r = Out_success \<longleftrightarrow> es = []) \<and> (or_outcome r = Out_failed \<longleftrightarrow> es \<noteq> [])
     \<and> (or_outcome r = Out_success \<longrightarrow> ps = nuke_plan (sn_users sn) \<and> or_actions r = int (length ps))
     \<and> or_actions r = int (length ps) - (if or_unknown r then 1 else 0)
     \<and> (or_unknown r \<longrightarrow> es \<noteq> [] \<and> rd_error (rounds (length ps - 1)) = Some (hd es))
     \<and> (lock_payload \<in> set ps \<longrightarrow> ps = nuke_plan (sn_users sn))"
proof -
  obtain ps n f where r: "nuke_users sender delay rounds 0 (sn_users sn) = (ps, n, f)"
    by (cases "nuke_users sender delay rounds 0 (sn_users sn)")
  note plan = nuke_users_plan [OF r]
  have "encode_rune 98 = [98]" "encode_rune 108 = [108]" by code_simp+
  then have ban: "ban_payload v \<noteq> lock_payload" for v
    by (simp add: ban_payload_def lock_payload_def marshal_strings_def encode_string_def)
  have lock: "ps = nuke_plan (sn_users sn)" if "lock_payload \<in> set ps"
  proof -
    let ?b = "map ban_payload (List.map_filter id (sn_users sn))"
    have "prefix ps (?b @ [lock_payload])" using plan by (simp add: nuke_plan_def)
    then have "prefix ps ?b \<or> ps = ?b @ [lock_payload]" unfolding prefix_snoc by blast
    moreover have "lock_payload \<notin> set ?b" using ban by (metis (no_types, lifting) imageE list.set_map)
    ultimately show ?thesis using that set_mono_prefix [of ps ?b] unfolding nuke_plan_def by blast
  qed
  show ?thesis
    using plan lock by (cases f) (auto simp: nuke_room_def r new_result_def split: prod.splits if_splits)
qed

subsection \<open>One request\<close>

lemma kick_targets_present:
  assumes "kick_or_resurrect target destination ended sender err sn = (r, es, ps)"
  shows "length ps \<le> 1"
    and "ps = [p] \<Longrightarrow> \<exists>v. Some v \<in> set (sn_users sn) \<and> equal_fold (u_name v) target
           \<and> p = marshal_strings [(lit ''cmd'', lit ''kick''), (lit ''nick'', u_name v), (lit ''to'', destination)]"
    and "or_outcome r = Out_absent \<Longrightarrow> \<forall>v. Some v \<in> set (sn_users sn) \<longrightarrow> \<not> equal_fold (u_name v) target"
    and "or_outcome r = Out_success \<longleftrightarrow> ps \<noteq> [] \<and> es = []" and "or_actions r = 1 \<longleftrightarrow> or_outcome r = Out_success"
    and "or_unknown r \<longleftrightarrow> ps \<noteq> [] \<and> es \<noteq> []"
proof -
  let ?q = "\<lambda>u. case u of None \<Rightarrow> False | Some v \<Rightarrow> equal_fold (u_name v) target"
  have found: "\<exists>v. x = Some v \<and> Some v \<in> set (sn_users sn) \<and> equal_fold (u_name v) target" if "find ?q (sn_users sn) = Some x" for x
  proof -
    have "?q x \<and> x \<in> set (sn_users sn)" using that by (auto simp: find_Some_iff)
    then show ?thesis by (cases x) auto
  qed
  consider (none) "find ?q (sn_users sn) = None" | (some) v where "find ?q (sn_users sn) = Some (Some v)"
    "Some v \<in> set (sn_users sn)" "equal_fold (u_name v) target"
    using found by (cases "find ?q (sn_users sn)") auto
  then have c: "length ps \<le> 1 \<and> (ps = [p] \<longrightarrow> (\<exists>v. Some v \<in> set (sn_users sn) \<and> equal_fold (u_name v) target
           \<and> p = marshal_strings [(lit ''cmd'', lit ''kick''), (lit ''nick'', u_name v), (lit ''to'', destination)]))
       \<and> (or_outcome r = Out_absent \<longrightarrow> find ?q (sn_users sn) = None)
       \<and> (or_outcome r = Out_success \<longleftrightarrow> ps \<noteq> [] \<and> es = []) \<and> (or_actions r = 1 \<longleftrightarrow> or_outcome r = Out_success)
       \<and> (or_unknown r \<longleftrightarrow> ps \<noteq> [] \<and> es \<noteq> [])" for p
    using assms by cases (auto simp: kick_or_resurrect_def new_result_def Let_def simp del: lit_simps split: if_splits option.splits)
  show "length ps \<le> 1" "or_outcome r = Out_success \<longleftrightarrow> ps \<noteq> [] \<and> es = []" "or_actions r = 1 \<longleftrightarrow> or_outcome r = Out_success"
    "or_unknown r \<longleftrightarrow> ps \<noteq> [] \<and> es \<noteq> []" using c by blast+
  show "ps = [p] \<Longrightarrow> \<exists>v. Some v \<in> set (sn_users sn) \<and> equal_fold (u_name v) target
           \<and> p = marshal_strings [(lit ''cmd'', lit ''kick''), (lit ''nick'', u_name v), (lit ''to'', destination)]" using c by blast
  show "or_outcome r = Out_absent \<Longrightarrow> \<forall>v. Some v \<in> set (sn_users sn) \<longrightarrow> \<not> equal_fold (u_name v) target"
    using c by (fastforce simp: find_None_iff)
qed

lemma remote_message_sends:
  assumes "remote_message msg target ended sender err sn = (r, es, ps)"
  shows "ps \<noteq> [] \<longleftrightarrow> \<not> ended \<and> None \<notin> set (sn_users sn) \<and> trim_space msg \<noteq> [] \<and> \<not> only_me (sn_users sn) \<and> sender"
    and "or_deliveries r = 1 \<longleftrightarrow> ps \<noteq> [] \<and> err = None" and "or_unknown r \<longleftrightarrow> ps \<noteq> [] \<and> err \<noteq> None"
    and "or_outcome r = Out_failed \<longleftrightarrow> es \<noteq> []"
  using assms by (auto simp: remote_message_def new_result_def Let_def simp del: lit_simps split: if_splits option.splits)

subsection \<open>Joins and leaves\<close>

lemma online_set_names_ok:
  assumes "names_ok rm"
  shows "names_ok (fst (notify_online_set payload rm))"
proof -
  have "distinct (map u_name (fold (\<lambda>u acc. case u of None \<Rightarrow> acc | Some v \<Rightarrow> put_user v acc) us acc))"
    if "distinct (map u_name acc)" for us acc
    using that by (induction us arbitrary: acc) (auto simp: names_put_user split: option.splits)
  then show ?thesis
    using assms by (auto simp: notify_online_set_def replace_active_users_def intro: names_ok_users split: option.splits)
qed

text \<open>A join is handled completely and in order: the user is in the room before anything else happens; he is kicked exactly if
  the shadow-ban service matches him, at most once and before his presence is audited; only active users whose trip is
  subscribed are told about him; an alias notice is never sent about the bot itself or one of its replicas; and there is
  exactly one audit record.\<close>

theorem join_is_handled:
  assumes "get_user payload = Some u" and "user_joined js replicas payload rm = (rm', effects)"
  shows "u \<in> set (rm_active rm') \<and> (\<forall>v \<in> set (rm_active rm). u_name v \<noteq> u_name u \<longrightarrow> v \<in> set (rm_active rm'))
    \<and> filter (\<lambda>e. case e of Kick_banned n \<Rightarrow> True | _ \<Rightarrow> False) effects = (if js_banned js u = Some True then [Kick_banned (u_name u)] else [])
    \<and> filter (\<lambda>e. case e of Audit_presence t n h k c \<Rightarrow> True | _ \<Rightarrow> False) effects
        = [Audit_presence (u_trip u) (u_name u) (u_hash u) (lit ''joined'') (rm_channel rm)]
    \<and> (\<forall>n t. Tell n t \<in> set effects \<longrightarrow> (\<exists>v \<in> set (rm_active rm'). u_name v = n \<and> is_subscribed_trip (u_trip v) rm))
    \<and> (\<forall>t. Announce t \<in> set effects \<longrightarrow> \<not> is_managed_bot_name (u_name u) rm replicas \<and> js_seen js u = Some t)
    \<and> (\<forall>i j n t nm h k c. i < length effects \<longrightarrow> j < length effects \<longrightarrow> effects ! i = Kick_banned n \<longrightarrow>
         effects ! j = Audit_presence t nm h k c \<longrightarrow> i < j)"
proof -
  let ?rm = "add_active_user (Some u) rm"
  let ?a = "(if js_moderation js then [Moderate u] else []) @ share_user_info js u ?rm @ kick_if_banned js u"
  let ?audit = "Audit_presence (u_trip u) (u_name u) (u_hash u) (lit ''joined'') (rm_channel ?rm)"
  let ?b = "notify_seen js replicas u ?rm @ (if js_auto_move js then [Move_automatically u] else [])"
  have r: "rm' = ?rm" "effects = ?a @ ?audit # ?b" using assms by (auto simp: user_joined_def Let_def)
  have same: "rm_subscribers ?rm = rm_subscribers rm" "rm_channel ?rm = rm_channel rm" "rm_name ?rm = rm_name rm"
    by (simp_all add: add_active_user_def)
  have share: "set (share_user_info js u ?rm) \<subseteq> {Tell (u_name v) t |v t. v \<in> set (rm_active ?rm) \<and> is_subscribed_trip (u_trip v) rm}"
    by (auto simp: share_user_info_def is_subscribed_trip_def same split: option.splits)
  have seen: "set (notify_seen js replicas u ?rm) \<subseteq> {Announce t |t. \<not> is_managed_bot_name (u_name u) rm replicas \<and> js_seen js u = Some t}"
    by (auto simp: notify_seen_def is_managed_bot_name_def same chat_text_def split: option.splits)
  have kick: "kick_if_banned js u = (if js_banned js u = Some True then [Kick_banned (u_name u)] else [])"
    by (simp add: kick_if_banned_def)
  have tells: "filter p (share_user_info js u ?rm) = []" if "\<And>n t. \<not> p (Tell n t)" for p
    using share that by (auto simp: filter_empty_conv)
  have news: "filter p (notify_seen js replicas u ?rm) = []" if "\<And>t. \<not> p (Announce t)" for p
    using seen that by (auto simp: filter_empty_conv)
  have no_kick: "Kick_banned n \<notin> set (?audit # ?b)" for n using seen by auto
  have no_audit: "Audit_presence t nm h k c \<notin> set ?a" for t nm h k c using share by (auto simp: kick)
  have order: "i < j" if "i < length effects" "j < length effects" "effects ! i = Kick_banned n" "effects ! j = Audit_presence t nm h k c"
    for i j n t nm h k c
  proof -
    have "i < length ?a"
    proof (rule ccontr)
      assume "\<not> i < length ?a"
      then have "effects ! i = (?audit # ?b) ! (i - length ?a)" "i - length ?a < length (?audit # ?b)"
        using that(1) unfolding r(2) nth_append by auto
      then show False using no_kick [of n] that(3) nth_mem by metis
    qed
    moreover have "length ?a \<le> j"
    proof (rule ccontr)
      assume j: "\<not> length ?a \<le> j"
      then have "effects ! j = ?a ! j" unfolding r(2) using nth_append [of ?a "?audit # ?b" j] by (simp only: not_le if_True)
      then have "?a ! j = Audit_presence t nm h k c" using that(4) by simp
      moreover have "?a ! j \<in> set ?a" by (rule nth_mem) (use j in linarith)
      ultimately show False using no_audit [of t nm h k c] by (metis (no_types, lifting))
    qed
    ultimately show ?thesis by simp
  qed
  have "u \<in> set (rm_active rm')" "\<forall>v \<in> set (rm_active rm). u_name v \<noteq> u_name u \<longrightarrow> v \<in> set (rm_active rm')"
    unfolding r(1) by (auto simp: add_active_user_def put_user_def)
  moreover have "filter (\<lambda>e. case e of Kick_banned n \<Rightarrow> True | _ \<Rightarrow> False) effects
      = (if js_banned js u = Some True then [Kick_banned (u_name u)] else [])"
    unfolding r(2) by (simp add: kick tells news)
  moreover have "filter (\<lambda>e. case e of Audit_presence t n h k c \<Rightarrow> True | _ \<Rightarrow> False) effects = [?audit]"
    unfolding r(2) by (simp add: kick tells news)
  moreover have "\<exists>v \<in> set (rm_active rm'). u_name v = n \<and> is_subscribed_trip (u_trip v) rm" if "Tell n t \<in> set effects" for n t
    using that share seen unfolding r by (auto simp: kick split: if_splits)
  moreover have "\<not> is_managed_bot_name (u_name u) rm replicas \<and> js_seen js u = Some t" if "Announce t \<in> set effects" for t
    using that share seen unfolding r(2) by (auto simp: kick split: if_splits)
  ultimately show ?thesis using order unfolding same by blast
qed

text \<open>A leave takes at most one user out of the room, the one whose audit record is written.\<close>

lemma leave_removes_one:
  assumes "user_left payload rm = (rm', effects)"
  shows "effects = [] \<and> rm' = rm
    \<or> (\<exists>v. v \<in> set (rm_active rm) \<and> effects = [Audit_presence (u_trip v) (u_name v) (u_hash v) (lit ''left'') (rm_channel rm)]
         \<and> Suc (length (rm_active rm')) = length (rm_active rm) \<and> set (rm_active rm') \<subseteq> set (rm_active rm))"
proof -
  have len: "Suc (length (remove_first p xs)) = length xs" if "x \<in> set xs" "p x" for p x and xs :: "user list"
    using that by (induction xs) auto
  show ?thesis
  proof (cases "\<exists>u v. get_user payload = Some u \<and> active_user_by_name (u_name u) rm = Some v")
    case True
    then obtain u v where uv: "get_user payload = Some u" "active_user_by_name (u_name u) rm = Some v" by blast
    then have v: "v \<in> set (rm_active rm)" by (auto simp: active_user_by_name_def find_Some_iff)
    have "rm' = rm\<lparr>rm_active := remove_first (\<lambda>w. equal_fold (u_name w) (u_name v)) (rm_active rm)\<rparr>"
      "effects = [Audit_presence (u_trip v) (u_name v) (u_hash v) (lit ''left'') (rm_channel rm)]"
      using assms uv by (auto simp: user_left_def remove_active_user_def)
    then show ?thesis using v len [OF v, of "\<lambda>w. equal_fold (u_name w) (u_name v)"] set_remove_first [of _ "rm_active rm"] by auto
  next
    case False
    then show ?thesis using assms by (auto simp: user_left_def split: option.splits)
  qed
qed

section \<open>Examples\<close>

definition demo_rounds :: "nat \<Rightarrow> op_round" where
  "demo_rounds i = \<lparr>rd_ended = False, rd_error = (if i = 1 then Some (lit ''closed'') else None), rd_interrupted = False\<rparr>"

definition demo_roster :: snapshot where
  "demo_roster = \<lparr>sn_users = [Some (demo_user (lit ''ann'') []), Some (demo_user (lit ''bob'') []), Some (demo_user (lit ''eve'') [])], sn_agent = False\<rparr>"

theorem nuke_follows_plan_witness:
  "case nuke_room (lit ''lounge'') True True demo_rounds demo_roster of (r, es, ps) \<Rightarrow>
     prefix ps (nuke_plan (sn_users demo_roster)) \<and> length ps = 2 \<and> or_actions r = 1 \<and> or_unknown r \<and> or_outcome r = Out_failed"
proof -
  have "case nuke_room (lit ''lounge'') True True demo_rounds demo_roster of (r, es, ps) \<Rightarrow> length ps = 2 \<and> or_unknown r \<and> es \<noteq> []"
    by code_simp
  then show ?thesis
    using nuke_follows_plan [where target = "lit ''lounge''" and sender = True and delay = True and rounds = demo_rounds and sn = demo_roster] by (auto split: prod.splits)
qed

definition demo_services :: join_services where
  "demo_services = \<lparr>js_moderation = True, js_auto_move = False, js_user_data = (\<lambda>h t. Some (lit ''seen'')),
     js_banned = (\<lambda>u. Some (u_hash u = lit ''h1'')), js_seen = (\<lambda>u. None)\<rparr>"

definition demo_payload :: str where
  "demo_payload = lit ''{\"cmd\":\"onlineAdd\",\"nick\":\"eve\",\"hash\":\"h1\",\"userid\":7}''"

theorem join_is_handled_witness:
  "get_user demo_payload = Some (zero_user\<lparr>u_name := lit ''eve'', u_hash := lit ''h1'', u_userid := 7\<rparr>)
   \<and> filter (\<lambda>e. case e of Kick_banned n \<Rightarrow> True | _ \<Rightarrow> False) (snd (user_joined demo_services [] demo_payload demo_room)) = [Kick_banned (lit ''eve'')]"
proof -
  have u: "get_user demo_payload = Some (zero_user\<lparr>u_name := lit ''eve'', u_hash := lit ''h1'', u_userid := 7\<rparr>)" by code_simp
  have b: "js_banned demo_services (zero_user\<lparr>u_name := lit ''eve'', u_hash := lit ''h1'', u_userid := 7\<rparr>) = Some True" by code_simp
  obtain rm es where r: "user_joined demo_services [] demo_payload demo_room = (rm, es)" by fastforce
  show ?thesis using join_is_handled [OF u r] u b r by (simp del: lit_simps)
qed

end
