(* ===== verification/ShadowBans.thy ===== *)
theory ShadowBans
  imports Bytes Roster
begin

text \<open>
  Shadow bans: the table \<open>banned_users\<close> of \<open>internal/repository/sqlite/shadow_ban.go\<close>, the service in
  \<open>internal/service/shadow_ban.go\<close>, and the check of a user who joins.  A record names an identity by trip, nick and
  hash, any of them absent; the hash is stored in base64 of its UTF-8 bytes.  The argument \<open>broken\<close> of an operation says
  that the database is missing or the statement fails, which changes nothing.
\<close>

section \<open>The table\<close>

record ban_record =
  sb_trip :: str
  sb_name :: str
  sb_hash :: str
  sb_reason :: str

record ban_row =
  br_id :: nat
  br_trip :: "str option"
  br_name :: "str option"
  br_hash :: "str option"
  br_reason :: "str option"
  br_created :: int

record ban_table =
  bt_rows :: "ban_row list"
  bt_next :: nat

text \<open>A blank field is stored as NULL; \<open>=\<close> on NULL is never true.\<close>

definition nullable :: "str \<Rightarrow> str option" where
  "nullable s = (if s = [] then None else Some s)"

definition sql_equal :: "str option \<Rightarrow> str option \<Rightarrow> bool" where
  "sql_equal a b \<longleftrightarrow> a \<noteq> None \<and> a = b"

definition insert_ban :: "str option \<Rightarrow> str option \<Rightarrow> str option \<Rightarrow> str option \<Rightarrow> int \<Rightarrow> ban_table \<Rightarrow> ban_table" where
  "insert_ban trip name hash reason now t =
     t\<lparr>bt_rows := bt_rows t @ [\<lparr>br_id = bt_next t, br_trip = trip, br_name = name, br_hash = hash, br_reason = reason, br_created = now\<rparr>],
       bt_next := bt_next t + 1\<rparr>"

definition persist_record :: "bool \<Rightarrow> int \<Rightarrow> ban_record \<Rightarrow> ban_table \<Rightarrow> bool \<times> ban_table" where
  "persist_record broken now r t =
     (if broken then (False, t)
      else (True, insert_ban (nullable (sb_trip r)) (nullable (sb_name r))
              (nullable (if sb_hash r = [] then [] else b64_text (sb_hash r))) (nullable (sb_reason r)) now t))"

definition persist_user :: "bool \<Rightarrow> int \<Rightarrow> user \<Rightarrow> str \<Rightarrow> ban_table \<Rightarrow> bool \<times> ban_table" where
  "persist_user broken now u reason =
     persist_record broken now \<lparr>sb_trip = u_trip u, sb_name = u_name u, sb_hash = u_hash u, sb_reason = reason\<rparr>"

definition persist_selector :: "bool \<Rightarrow> int \<Rightarrow> str \<Rightarrow> str \<Rightarrow> ban_table \<Rightarrow> bool \<times> ban_table" where
  "persist_selector broken now name reason t =
     (if broken \<or> trim_space name = [] then (False, t)
      else (True, insert_ban None (Some (trim_space name)) None (Some reason) now t))"

definition sql_nonblank :: "str \<Rightarrow> str option" where
  "sql_nonblank s = (if trim_space s = [] then None else Some s)"

definition row_matches :: "str option \<Rightarrow> str option \<Rightarrow> str option \<Rightarrow> ban_row \<Rightarrow> bool" where
  "row_matches trip name hash r \<longleftrightarrow>
     sql_equal trip (br_trip r) \<or> sql_equal name (br_name r) \<or> sql_equal hash (br_hash r)"

definition has_match :: "bool \<Rightarrow> str \<Rightarrow> str \<Rightarrow> str \<Rightarrow> ban_table \<Rightarrow> bool option" where
  "has_match broken trip name hash t =
     (if broken then None
      else Some (\<exists>r \<in> set (bt_rows t).
        row_matches (sql_nonblank trip) (sql_nonblank name) (map_option b64_text (sql_nonblank hash)) r))"

text \<open>A stored hash that is no base64 fails the listing; the older listing shows it as it is.\<close>

definition column :: "str option \<Rightarrow> str" where
  "column v = (case v of None \<Rightarrow> [] | Some s \<Rightarrow> s)"

definition read_row :: "ban_row \<Rightarrow> ban_record option" where
  "read_row r =
     map_option (\<lambda>h. \<lparr>sb_trip = column (br_trip r), sb_name = column (br_name r), sb_hash = h, sb_reason = column (br_reason r)\<rparr>)
       (case br_hash r of None \<Rightarrow> Some [] | Some h \<Rightarrow> map_option utf8_text (b64_decode h))"

fun read_rows :: "ban_row list \<Rightarrow> ban_record list option" where
  "read_rows [] = Some []"
| "read_rows (r # rs) =
     (case read_row r of None \<Rightarrow> None | Some x \<Rightarrow> map_option (\<lambda>xs. x # xs) (read_rows rs))"

definition list_bans :: "bool \<Rightarrow> ban_table \<Rightarrow> ban_record list option" where
  "list_bans broken t = (if broken then None else read_rows (bt_rows t))"

definition legacy_hash :: "str \<Rightarrow> str" where
  "legacy_hash h = (if h = [] then [] else case b64_decode h of None \<Rightarrow> h | Some bs \<Rightarrow> utf8_text bs)"

definition list_legacy :: "bool \<Rightarrow> ban_table \<Rightarrow> (nat \<times> ban_record \<times> int) list option" where
  "list_legacy broken t =
     (if broken then None
      else Some (map (\<lambda>r. (br_id r, \<lparr>sb_trip = column (br_trip r), sb_name = column (br_name r),
             sb_hash = legacy_hash (column (br_hash r)), sb_reason = column (br_reason r)\<rparr>, br_created r))
           (sort_key br_id (bt_rows t))))"

text \<open>Removal names the nick without its mention mark, and the trip and the hash as they were given.\<close>

definition delete_bans :: "(ban_row \<Rightarrow> bool) \<Rightarrow> ban_table \<Rightarrow> nat \<times> ban_table" where
  "delete_bans p t = (length (filter p (bt_rows t)), t\<lparr>bt_rows := filter (\<lambda>r. \<not> p r) (bt_rows t)\<rparr>)"

definition remove_by_target :: "bool \<Rightarrow> str \<Rightarrow> ban_table \<Rightarrow> nat option \<times> ban_table" where
  "remove_by_target broken target t =
     (case (broken, normalize_nick_target (Some target)) of
        (False, Some n) \<Rightarrow>
          (let (k, t1) = delete_bans (row_matches (Some target) (Some n) (Some (b64_text target))) t in (Some k, t1))
      | _ \<Rightarrow> (None, t))"

definition remove_legacy :: "bool \<Rightarrow> str \<Rightarrow> ban_table \<Rightarrow> bool \<times> ban_table" where
  "remove_legacy broken target t =
     (let s = trim_space target
      in if broken then (False, t) else (True, snd (delete_bans (row_matches (Some s) (Some s) (Some (b64_text s))) t)))"

definition remove_all_bans :: "bool \<Rightarrow> ban_table \<Rightarrow> nat option \<times> ban_table" where
  "remove_all_bans broken t =
     (if broken then (None, t) else (let (k, t1) = delete_bans (\<lambda>r. True) t in (Some k, t1)))"

section \<open>The service\<close>

text \<open>
  The service without a repository fails.  The flag of a change is what \<open>RecordCommittedMutation\<close> records for the
  invocation: a removal that removed nothing is none.
\<close>

definition service_matches :: "bool \<Rightarrow> bool \<Rightarrow> user option \<Rightarrow> ban_table \<Rightarrow> bool option" where
  "service_matches configured broken u t =
     (case u of None \<Rightarrow> Some False
      | Some v \<Rightarrow> if configured then has_match broken (u_trip v) (u_name v) (u_hash v) t else None)"

definition service_persist :: "bool \<Rightarrow> bool \<Rightarrow> int \<Rightarrow> ban_record \<Rightarrow> ban_table \<Rightarrow> bool \<times> bool \<times> ban_table" where
  "service_persist configured broken now r t =
     (if configured then (let (ok, t1) = persist_record broken now r t in (ok, ok, t1)) else (False, False, t))"

definition service_list :: "bool \<Rightarrow> bool \<Rightarrow> ban_table \<Rightarrow> ban_record list option" where
  "service_list configured broken t = (if configured then list_bans broken t else None)"

definition service_remove :: "bool \<Rightarrow> bool \<Rightarrow> str \<Rightarrow> ban_table \<Rightarrow> nat option \<times> bool \<times> ban_table" where
  "service_remove configured broken target t =
     (if configured then (let (k, t1) = remove_by_target broken target t in (k, k \<noteq> None \<and> k \<noteq> Some 0, t1))
      else (None, False, t))"

definition service_remove_all :: "bool \<Rightarrow> bool \<Rightarrow> ban_table \<Rightarrow> nat option \<times> bool \<times> ban_table" where
  "service_remove_all configured broken t =
     (if configured then (let (k, t1) = remove_all_bans broken t in (k, k \<noteq> None \<and> k \<noteq> Some 0, t1))
      else (None, False, t))"

section \<open>Lemmas\<close>

lemma nonblank_some [simp]: "sql_nonblank s = Some x \<longleftrightarrow> trim_space s \<noteq> [] \<and> x = s"
  by (auto simp: sql_nonblank_def)

lemma nullable_some [simp]: "nullable s = Some x \<longleftrightarrow> s \<noteq> [] \<and> x = s"
  by (auto simp: nullable_def)

lemma sql_equal_some: "sql_equal (sql_nonblank s) (nullable x) \<longleftrightarrow> trim_space s \<noteq> [] \<and> s = x"
  by (auto simp: sql_equal_def sql_nonblank_def nullable_def)

lemma b64_text_Nil: "b64_text s = [] \<longleftrightarrow> s = []"
proof
  assume "b64_text s = []"
  then have "utf8_bytes s = []" unfolding b64_text_def by (cases "utf8_bytes s" rule: b64_encode.cases) auto
  then show "s = []" by (cases s) (auto simp: utf8_bytes_def utf8_rune_nonempty)
qed (simp add: b64_text_def utf8_bytes_def)

text \<open>The identity of a record and one that a user presents share a part that is not blank.\<close>

definition shares_identity :: "ban_record \<Rightarrow> str \<Rightarrow> str \<Rightarrow> str \<Rightarrow> bool" where
  "shares_identity r trip name hash \<longleftrightarrow>
     trim_space trip \<noteq> [] \<and> trip = sb_trip r \<or> trim_space name \<noteq> [] \<and> name = sb_name r
     \<or> trim_space hash \<noteq> [] \<and> hash = sb_hash r"

definition scalar_record :: "ban_record \<Rightarrow> bool" where
  "scalar_record r \<longleftrightarrow> list_all is_scalar (sb_hash r)"

definition stored :: "int \<Rightarrow> ban_record \<Rightarrow> ban_table \<Rightarrow> ban_table" where
  "stored now r t = snd (persist_record False now r t)"

lemma persist_works: "persist_record False now r t = (True, stored now r t)"
  by (simp add: stored_def persist_record_def)

lemma stored_hash_matches:
  assumes "list_all is_scalar h" "list_all is_scalar x"
  shows "sql_equal (map_option b64_text (sql_nonblank h)) (nullable (if x = [] then [] else b64_text x))
     \<longleftrightarrow> trim_space h \<noteq> [] \<and> h = x"
  using assms b64_text_inj [of h x] b64_text_Nil [of x]
  by (auto simp: sql_equal_def sql_nonblank_def nullable_def)

lemma has_match_stored:
  assumes "scalar_record r" "list_all is_scalar hash"
  shows "has_match False trip name hash (stored now r t)
    = Some (shares_identity r trip name hash \<or> has_match False trip name hash t = Some True)"
  using assms stored_hash_matches [of hash "sb_hash r"]
  by (auto simp: has_match_def stored_def persist_record_def insert_ban_def row_matches_def sql_equal_some
      shares_identity_def scalar_record_def)

lemma read_stored: "scalar_record r \<Longrightarrow> read_rows (bt_rows (stored now r t)) = map_option (\<lambda>rs. rs @ [r]) (read_rows (bt_rows t))"
proof -
  assume sc: "scalar_record r"
  define row where "row = \<lparr>br_id = bt_next t, br_trip = nullable (sb_trip r), br_name = nullable (sb_name r),
      br_hash = nullable (if sb_hash r = [] then [] else b64_text (sb_hash r)), br_reason = nullable (sb_reason r), br_created = now\<rparr>"
  have "map_option utf8_text (b64_decode (b64_text (sb_hash r))) = Some (sb_hash r)"
    using sc by (simp add: scalar_record_def b64_text_exact)
  then have one: "read_row row = Some r"
    using b64_text_Nil [of "sb_hash r"]
    by (cases r) (auto simp: read_row_def row_def nullable_def column_def)
  have rows: "bt_rows (stored now r t) = bt_rows t @ [row]"
    by (simp add: stored_def persist_record_def insert_ban_def row_def)
  have "read_rows (rs @ [row]) = map_option (\<lambda>xs. xs @ [r]) (read_rows rs)" for rs
    by (induction rs) (auto simp: one option.map_comp comp_def split: option.splits)
  then show ?thesis by (simp add: rows)
qed

lemma has_match_kept: "has_match False trip name hash t = Some True \<Longrightarrow> has_match False trip name hash (stored now r t) = Some True"
  by (auto simp: has_match_def stored_def persist_record_def insert_ban_def)

lemma has_match_saved:
  assumes "shares_identity r trip name hash"
  shows "has_match False trip name hash (stored now r t) = Some True"
proof -
  have "sql_equal (map_option b64_text (sql_nonblank hash)) (nullable (if sb_hash r = [] then [] else b64_text (sb_hash r)))"
    if "trim_space hash \<noteq> []" "hash = sb_hash r"
    using that b64_text_Nil [of hash] by (auto simp: sql_equal_def sql_nonblank_def nullable_def)
  then show ?thesis using assms
    by (auto simp: has_match_def stored_def persist_record_def insert_ban_def row_matches_def sql_equal_some shares_identity_def)
qed

text \<open>What a removal names: the nick without its mark, the trip and the hash as given.\<close>

definition named_by :: "str \<Rightarrow> ban_row \<Rightarrow> bool" where
  "named_by target row \<longleftrightarrow>
     (\<exists>n. normalize_nick_target (Some target) = Some n \<and> br_name row = Some n)
     \<or> br_trip row = Some target \<or> br_hash row = Some (b64_text target)"

lemma remove_works:
  assumes "normalize_nick_target (Some target) = Some n"
  shows "remove_by_target False target t
    = (Some (length (filter (named_by target) (bt_rows t))), t\<lparr>bt_rows := filter (\<lambda>r. \<not> named_by target r) (bt_rows t)\<rparr>)"
proof -
  have "row_matches (Some target) (Some n) (Some (b64_text target)) = named_by target"
    using assms by (auto simp: fun_eq_iff row_matches_def named_by_def sql_equal_def)
  then show ?thesis using assms by (simp add: remove_by_target_def delete_bans_def)
qed

lemma has_match_member:
  "has_match False trip name hash t = Some True
     \<longleftrightarrow> (\<exists>r \<in> set (bt_rows t). row_matches (sql_nonblank trip) (sql_nonblank name) (map_option b64_text (sql_nonblank hash)) r)"
  by (simp add: has_match_def)

lemma removed_rows_forget:
  assumes "normalize_nick_target (Some target) = Some n"
  shows "has_match False trip name hash (snd (remove_by_target False target t)) = Some True
    \<longleftrightarrow> (\<exists>r \<in> set (bt_rows t). \<not> named_by target r
          \<and> row_matches (sql_nonblank trip) (sql_nonblank name) (map_option b64_text (sql_nonblank hash)) r)"
  unfolding has_match_member remove_works [OF assms] by auto

lemma forgotten_nick:
  assumes n: "normalize_nick_target (Some target) = Some n"
  shows "has_match False [] n [] (snd (remove_by_target False target t)) = Some False"
proof -
  have "\<not> has_match False [] n [] (snd (remove_by_target False target t)) = Some True"
    unfolding removed_rows_forget [OF n] using n by (auto simp: row_matches_def sql_equal_def sql_nonblank_def named_by_def)
  then show ?thesis by (simp add: has_match_def)
qed

text \<open>C38. The table of shadow bans recognises exactly the banned.  After a record is stored, an identity matches if and
  only if it shares a trip, a nick or a hash that is not blank with the record, or matched before; the listing shows
  the record as it was given, its hash decoded, after the earlier ones; and a removal forgets every record that its
  operand names by nick, trip or hash, counts them, and keeps the others.\<close>

theorem shadow_bans_recognise:
  assumes "scalar_record r" "list_all is_scalar hash" "normalize_nick_target (Some target) = Some n"
  shows "has_match False trip name hash (snd (persist_record False now r t))
      = Some (shares_identity r trip name hash \<or> has_match False trip name hash t = Some True)
   \<and> list_bans False (snd (persist_record False now r t)) = map_option (\<lambda>rs. rs @ [r]) (list_bans False t)
   \<and> remove_by_target False target t
      = (Some (length (filter (named_by target) (bt_rows t))), t\<lparr>bt_rows := filter (\<lambda>x. \<not> named_by target x) (bt_rows t)\<rparr>)
   \<and> has_match False [] n [] (snd (remove_by_target False target t)) = Some False"
  using has_match_stored [OF assms(1,2)] read_stored [OF assms(1)] remove_works [OF assms(3)] forgotten_nick [OF assms(3)]
  by (simp add: stored_def list_bans_def)

definition demo_ban :: ban_record where
  "demo_ban = \<lparr>sb_trip = lit ''trip01'', sb_name = lit ''merc'', sb_hash = lit ''h4sh'', sb_reason = []\<rparr>"

definition no_bans :: ban_table where
  "no_bans = \<lparr>bt_rows = [], bt_next = 1\<rparr>"

theorem shadow_bans_recognise_witness:
  "has_match False [] (lit ''eve'') (lit ''h4sh'') (snd (persist_record False 7 demo_ban no_bans)) = Some True
   \<and> has_match False [] (lit ''eve'') [] (snd (persist_record False 7 demo_ban no_bans)) = Some False
   \<and> list_bans False (snd (persist_record False 7 demo_ban no_bans)) = Some [demo_ban]"
proof -
  have sc: "scalar_record demo_ban" "list_all is_scalar (lit ''h4sh'')" "list_all is_scalar []" by code_simp+
  have n: "normalize_nick_target (Some (lit ''merc'')) = Some (lit ''merc'')" by code_simp
  have old: "has_match False trip name hash no_bans = Some False" "list_bans False no_bans = Some []" for trip name hash
    by (simp_all add: has_match_def no_bans_def list_bans_def)
  have share: "shares_identity demo_ban [] (lit ''eve'') (lit ''h4sh'')" "\<not> shares_identity demo_ban [] (lit ''eve'') []"
    by code_simp+
  show ?thesis
    using shadow_bans_recognise [OF sc(1,2) n, of "[]" "lit ''eve''" 7 no_bans]
      shadow_bans_recognise [OF sc(1,3) n, of "[]" "lit ''eve''" 7 no_bans] old share
    by (simp del: lit_simps)
qed

section \<open>The check of a user who joins\<close>

text \<open>The listener of joins with the shadow-ban service of its bundle\<close>

definition with_bans :: "bool \<Rightarrow> bool \<Rightarrow> ban_table \<Rightarrow> join_services \<Rightarrow> join_services" where
  "with_bans configured broken t js = js\<lparr>js_banned := \<lambda>u. service_matches configured broken (Some u) t\<rparr>"

lemma banned_join_is_kicked:
  assumes "get_user payload = Some v" "has_match False (u_trip v) (u_name v) (u_hash v) t = Some True"
  shows "Kick_banned (u_name v) \<in> set (snd (user_joined (with_bans True False t js) replicas payload rm))"
  using assms by (simp add: user_joined_def Let_def kick_if_banned_def with_bans_def service_matches_def)

end
