(* ===== verification/Handlers.thy ===== *)
theory Handlers
  imports ShadowBans
begin

text \<open>
  The command handlers of \<open>internal/command\<close>.  A handler is a program of effects: it checks its context, sends a reply,
  asks the engine for an operation, reads or writes a repository, and stops at the first effect that fails.  What an
  effect answers, and when the context ends, is up to the world: \<open>w_accepts\<close> decides it for each effect from all that
  happened before, so that a theorem over all worlds covers every failure at every point.
\<close>

section \<open>Effects\<close>

datatype room_operation = List_room | Nuke_room | Remote_message str | Kick_or_resurrect str

text \<open>The fields of \<open>RoomSnapshotRequest\<close> that a handler fills in\<close>

record snapshot_form =
  rr_author :: str
  rr_whisper :: bool
  rr_source :: str
  rr_target :: str
  rr_destination :: str
  rr_reply :: str
  rr_remote :: str
  rr_operation :: room_operation

datatype query = Q_workflow str | Q_bans | Q_notes str | Q_last_online str | Q_registered | Q_nicks str

text \<open>
  \<open>Checked\<close> is a look at \<open>ctx.Err()\<close>, \<open>Said\<close> a call of \<open>SendChatMessage\<close> with author, text and whisper, \<open>Murmured\<close> one
  whose error the handler ignores, \<open>Observed\<close> the record of an observation for the agent, \<open>Asked\<close> an operation of the
  moderation interface, \<open>Queued\<close> a letter with its text, owner and receiver.
\<close>

datatype handler_event =
    Checked
  | Said str str bool
  | Murmured str str bool
  | Observed str bool
  | Asked moderation_op
  | Read_data query
  | Snapshot_asked snapshot_form
  | Snapshot_awaited
  | Moved str str str
  | Went_away user str
  | Subscribed str
  | Unsubscribed str
  | Ban_saved ban_record
  | Bans_dropped "str option"
  | Note_saved str str
  | Notes_cleared str
  | Queued str str str
  | Prefixes_set "str list"
  | Auto_move_set bool
  | Auto_move_rooms str str
  | Lifecycle_asked str
  | Prompt_submitted str
  | Vibe_submitted
  | Identity_deleted str

datatype facility =
    Moderation_operations | Snapshot_submitter | Room_mover | Ban_service | Note_service | Mail_service | User_queries
  | Prefix_controller | Auto_move_controller | Lifecycle_controller | Structured_lifecycle | Agent_owned | Agent_runtime
  | User_service | Kick_operation

datatype stop =
    Declined
  | Failed_at handler_event
  | Missing facility
  | Bad_input
  | Nothing_found

text \<open>
  What an effect that succeeds returns is data of the world: the room, the rows a repository lists, the number of rows a
  removal deletes, whether the host moved a user itself, the answer to a queued letter, the admission of a lifecycle
  request (whether it joined an earlier one, and its result if it ended).
\<close>

datatype queue_answer = Queue_ok str | Queue_blank | Queue_unregistered

record world =
  w_accepts :: "handler_event list \<Rightarrow> handler_event \<Rightarrow> bool"
  w_capable :: "facility \<Rightarrow> bool"
  w_room :: room
  w_bans :: "ban_record list"
  w_dropped :: "str option \<Rightarrow> nat"
  w_notes :: "str list"
  w_last_online :: "str option"
  w_registered :: "(str \<times> str) list"
  w_nicks :: "str list"
  w_moved :: bool
  w_queued :: queue_answer
  w_admission :: "bool \<times> bool option"
  w_auto_move :: "bool \<times> str list \<times> str"

text \<open>A run continues, \<open>None\<close>, until it stops; the events are in the order of the calls.\<close>

type_synonym act = "handler_event list \<Rightarrow> stop option \<times> handler_event list"

text \<open>Calls without an error result\<close>

fun unfailing :: "handler_event \<Rightarrow> bool" where
  "unfailing (Murmured a t b) \<longleftrightarrow> True"
| "unfailing (Observed t b) \<longleftrightarrow> True"
| "unfailing (Went_away u r) \<longleftrightarrow> True"
| "unfailing (Subscribed t) \<longleftrightarrow> True"
| "unfailing (Unsubscribed t) \<longleftrightarrow> True"
| "unfailing _ \<longleftrightarrow> False"

definition succeeds :: "world \<Rightarrow> handler_event list \<Rightarrow> handler_event \<Rightarrow> bool" where
  "succeeds w tr e \<longleftrightarrow> unfailing e \<or> w_accepts w tr e"

definition perform :: "world \<Rightarrow> handler_event \<Rightarrow> act" where
  "perform w e tr = (if succeeds w tr e then None else Some (Failed_at e), tr @ [e])"

definition halt :: "stop \<Rightarrow> act" where
  "halt s tr = (Some s, tr)"

definition need :: "world \<Rightarrow> facility \<Rightarrow> act" where
  "need w c tr = (if w_capable w c then None else Some (Missing c), tr)"

fun steps :: "act list \<Rightarrow> act" where
  "steps [] tr = (None, tr)"
| "steps (a # as) tr = (case a tr of (None, tr1) \<Rightarrow> steps as tr1 | (Some s, tr1) \<Rightarrow> (Some s, tr1))"

text \<open>A handler that has to say something after a failure reports the failure whatever becomes of the reply.\<close>

definition excuse :: "act \<Rightarrow> act \<Rightarrow> act" where
  "excuse a b tr =
     (case a tr of
        (Some (Failed_at e), tr1) \<Rightarrow> (Some (Failed_at e), snd (b tr1))
      | r \<Rightarrow> r)"

section \<open>Helpers of the handlers\<close>

definition split_token :: "str \<Rightarrow> str \<times> str" where
  "split_token s =
     (let t = trim_left is_space s
      in (takeWhile (\<lambda>c. \<not> is_space c) t, drop 1 (dropWhile (\<lambda>c. \<not> is_space c) t)))"

definition command_body :: "chat_message \<Rightarrow> str" where
  "command_body m = trim_space (snd (split_token (m_text m)))"

definition command_args :: "chat_message \<Rightarrow> str list" where
  "command_args m = tl (get_arguments m)"

definition room_selector :: "str \<Rightarrow> str option" where
  "room_selector raw = (let room = trim_prefix (trim_space raw) (lit ''?'') in if room = [] then None else Some room)"

definition tell :: "world \<Rightarrow> chat_message \<Rightarrow> str \<Rightarrow> act" where
  "tell w m s = steps [perform w Checked, perform w (Said (m_name m) s (is_whisper_message m))]"

definition decline :: "world \<Rightarrow> chat_message \<Rightarrow> str \<Rightarrow> act" where
  "decline w m s = steps [tell w m s, halt Declined]"

definition observe_and_reply :: "world \<Rightarrow> chat_message \<Rightarrow> str \<Rightarrow> bool \<Rightarrow> act" where
  "observe_and_reply w m s whisper =
     steps [perform w (Observed s whisper), perform w Checked, perform w (Said (m_name m) s whisper)]"

definition murmur :: "world \<Rightarrow> chat_message \<Rightarrow> str \<Rightarrow> act" where
  "murmur w m s = perform w (Murmured (m_name m) s (is_whisper_message m))"

definition usage :: "world \<Rightarrow> str \<Rightarrow> str \<Rightarrow> str" where
  "usage w before after = before @ rm_prefix (w_room w) @ after"

text \<open>An active user by the exact name, else by the folded one\<close>

definition canonical_target :: "world \<Rightarrow> str \<Rightarrow> user option" where
  "canonical_target w name =
     (case active_user_by_name name (w_room w) of
        Some u \<Rightarrow> Some u
      | None \<Rightarrow> find (\<lambda>u. equal_fold (u_name u) name) (rm_active (w_room w)))"

text \<open>\<open>Inl\<close> where the nick is blank\<close>

definition active_target :: "world \<Rightarrow> str \<Rightarrow> unit + user option" where
  "active_target w raw =
     (case normalize_nick_target (Some raw) of None \<Rightarrow> Inl () | Some n \<Rightarrow> Inr (canonical_target w n))"

section \<open>Room and user commands\<close>

definition say_command :: "world \<Rightarrow> chat_message \<Rightarrow> act" where
  "say_command w m = steps [perform w Checked, perform w (Said [] (command_body m) False)]"

definition afk_command :: "world \<Rightarrow> chat_message \<Rightarrow> act" where
  "afk_command w m = steps [perform w Checked,
     (if trim_space (m_trip m) = [] then decline w m (lit ''Set your trip in order to use this command'')
      else
        (let caller = active_user_by_name (m_name m) (w_room w)
         in steps [perform w Checked,
              (case caller of
                 None \<Rightarrow> decline w m (lit ''Unable to verify the active caller.'')
               | Some u \<Rightarrow>
                   if u_trip u \<noteq> m_trip m \<or> \<not> equal_fold (u_name u) (trim_space (m_name m))
                   then decline w m (lit ''Unable to verify the active caller.'')
                   else steps [perform w (Went_away u (command_body m)), tell w m (lit '' is afk'')])]))]"

definition info_command :: "world \<Rightarrow> chat_message \<Rightarrow> act" where
  "info_command w m = steps [perform w Checked,
     (let example = usage w ([10] @ lit '' Example: '') (lit ''info merc'')
      in case command_args m of
           [] \<Rightarrow> decline w m example
         | a # _ \<Rightarrow>
             (case normalize_nick_target (Some a) of
                None \<Rightarrow> decline w m example
              | Some target \<Rightarrow>
                  (case find (\<lambda>u. equal_fold target (u_name u)) (rm_active (w_room w)) of
                     None \<Rightarrow> decline w m ([10] @ lit '' target with nick:  '' @ target @ lit '' not found!'')
                   | Some u \<Rightarrow>
                       observe_and_reply w m
                         ([10] @ lit '' User trip: '' @ u_trip u @ [10] @ lit '' User hash: '' @ u_hash u)
                         (is_whisper_message m))))]"

definition list_command :: "world \<Rightarrow> chat_message \<Rightarrow> act" where
  "list_command w m = steps [perform w Checked,
     (let here = format_users (map Some (rm_active (w_room w)));
          example = usage w (lit ''Example: '') (lit ''list programming'')
      in case command_args m of
           [] \<Rightarrow> steps [tell w m here, decline w m example]
         | [a] \<Rightarrow>
             (case room_selector a of
                None \<Rightarrow> decline w m example
              | Some channel \<Rightarrow>
                  if channel = rm_channel (w_room w) then tell w m here
                  else steps [need w Snapshot_submitter,
                    perform w (Read_data (Q_workflow (lit ''list-''))),
                    perform w (Snapshot_asked \<lparr>rr_author = m_name m, rr_whisper = is_whisper_message m,
                      rr_source = rm_channel (w_room w), rr_target = channel, rr_destination = [],
                      rr_reply = lit ''Unable to list users in the requested room.'', rr_remote = [],
                      rr_operation = List_room\<rparr>),
                    (if w_capable w Agent_owned then steps [] else perform w Snapshot_awaited)])
         | _ \<Rightarrow> decline w m example)]"

definition subscribe_command :: "world \<Rightarrow> chat_message \<Rightarrow> act" where
  "subscribe_command w m = steps [perform w Checked,
     (if m_trip m = [] then decline w m (lit ''you have to set your trip to use this command.'')
      else steps [perform w (Subscribed (m_trip m)),
        tell w m (lit ''your trip will be whispered hashes and nicks for each new joining user. '')])]"

definition unsubscribe_command :: "world \<Rightarrow> chat_message \<Rightarrow> act" where
  "unsubscribe_command w m = steps [perform w Checked,
     (if m_trip m = [] \<or> \<not> is_subscribed_trip (m_trip m) (w_room w)
      then decline w m (usage w (lit ''you are not subscribed, please set your trip and use '') (lit '' sub command.''))
      else steps [perform w (Unsubscribed (m_trip m)),
        tell w m (lit ''your trip will no longer receive hashes and nicks for each new joining user. '')])]"

definition prefix_command :: "world \<Rightarrow> chat_message \<Rightarrow> act" where
  "prefix_command w m = steps [perform w Checked,
     (case command_args m of
        [] \<Rightarrow> tell w m (lit ''Active prefixes: '' @ join (lit '' '') (current_prefixes (w_room w)))
      | a # as \<Rightarrow> steps [need w Prefix_controller,
          (case normalize_prefixes (a # as) of
             None \<Rightarrow> decline w m (lit ''command prefixes must be nonempty tokens without whitespace or control characters'')
           | Some ps \<Rightarrow> steps [perform w (Prefixes_set ps),
               tell w m (lit ''prefixes changed from '' @ join (lit '' '') (current_prefixes (w_room w))
                 @ lit '' to '' @ join (lit '' '') ps)])])]"

definition remote_body :: "str \<Rightarrow> str \<Rightarrow> str" where
  "remote_body channel message =
     (if sublist (lit ''![]('') message then message @ [10] @ lit '' anonymous mail from: ?'' @ channel
      else lit ''anonymous mail from: ?'' @ channel @ lit '' message: '' @ message)"

definition msg_channel_command :: "world \<Rightarrow> chat_message \<Rightarrow> act" where
  "msg_channel_command w m = steps [perform w Checked,
     (let (target, rest) = split_token (command_body m); message = trim_space rest; here = rm_channel (w_room w)
      in if target = [] \<or> message = []
         then decline w m (usage w (lit '' Example: '') (lit ''msgroom your-room your message''))
         else case room_selector target of
                None \<Rightarrow> decline w m (lit ''Room name cannot be blank.'')
              | Some to \<Rightarrow>
                  (let body = remote_body here message
                   in if to = here then perform w (Said (m_name m @ lit '' '') body (m_is_whisper m))
                      else steps [need w Snapshot_submitter, perform w (Read_data (Q_workflow [])),
                        perform w (Snapshot_asked \<lparr>rr_author = m_name m, rr_whisper = is_whisper_message m,
                          rr_source = here, rr_target = to, rr_destination = [],
                          rr_reply = lit ''Unable to complete room operation.'', rr_remote = body,
                          rr_operation = Remote_message body\<rparr>)]))]"

definition last_online_command :: "world \<Rightarrow> chat_message \<Rightarrow> act" where
  "last_online_command w m = steps [perform w Checked,
     (let example = usage w ([10] @ lit '' Example: '') (lit ''lastseen merc'')
      in case command_args m of
           [] \<Rightarrow> decline w m example
         | a # _ \<Rightarrow>
             (let target = trim_space a
              in if target = [] \<or> target = lit ''@'' then decline w m example
                 else steps [need w User_queries, perform w (Read_data (Q_last_online target)),
                   (case w_last_online w of
                      Some s \<Rightarrow> observe_and_reply w m s (is_whisper_message m)
                    | None \<Rightarrow> steps [observe_and_reply w m
                          (lit ''No public history found for nickname or trip: '' @ target @ lit ''.'') (is_whisper_message m),
                        halt Nothing_found])]))]"

definition nicks_command :: "world \<Rightarrow> chat_message \<Rightarrow> act" where
  "nicks_command w m = steps [perform w Checked,
     (let example = usage w (lit ''Example: '') (lit ''t2n QLnV66'')
      in case command_args m of
           [a] \<Rightarrow>
             (if trim_space a = [] then decline w m example
              else steps [need w User_queries, perform w (Read_data (Q_nicks (trim_space a))),
                observe_and_reply w m
                  (if w_nicks w = [] then lit ''No nicknames found for trip: '' @ trim_space a @ lit ''.''
                   else join (lit '','') (w_nicks w)) (is_whisper_message m)])
         | _ \<Rightarrow> decline w m example)]"

section \<open>Notes and mail\<close>

definition note_command :: "world \<Rightarrow> chat_message \<Rightarrow> act" where
  "note_command w m = steps [perform w Checked,
     (if command_body m = [] then decline w m (usage w (lit ''Example: '') (lit ''note Jedi am I?!''))
      else if trim_space (m_trip m) = [] then decline w m (lit ''Set your trip before saving a note.'')
      else steps [need w Note_service, perform w (Note_saved (m_trip m) (command_body m)),
        tell w m (lit ''note successfully saved!'')])]"

definition notes_text :: "str list \<Rightarrow> str" where
  "notes_text ns =
     (if ns = [] then lit ''No saved notes found.''
      else [39] @ lit ''s notes: '' @ [10] @ lit '' ```Text '' @ [10] @ lit ''['' @ join (lit '' '') ns @ lit '']'' @ [10] @ lit ''```'')"

definition notes_command :: "world \<Rightarrow> chat_message \<Rightarrow> act" where
  "notes_command w m = steps [perform w Checked,
     (if 1 < length (command_args m) \<or> (length (command_args m) = 1 \<and> hd (command_args m) \<notin> {lit ''purge'', lit ''clear''})
      then decline w m (usage w (lit ''Usage: '') (lit ''notes [purge|clear]''))
      else if trim_space (m_trip m) = []
      then decline w m (usage w ([10] @ lit '' Set your trip first. Example: '') (lit ''notes''))
      else steps [need w Note_service,
        (if command_args m \<noteq> []
         then steps [perform w (Notes_cleared (m_trip m)), tell w m ([39] @ lit ''s notes has been deleted'')]
         else steps [perform w (Read_data (Q_notes (m_trip m))), observe_and_reply w m (notes_text (w_notes w)) True])])]"

definition directory :: "(str \<times> str) list \<Rightarrow> str" where
  "directory us = concat (map (\<lambda>(name, trip). name @ lit '' '' @ trip @ [10]) us)"

definition mail_command :: "world \<Rightarrow> chat_message \<Rightarrow> act" where
  "mail_command w m = steps [perform w Checked,
     (let (receiver, rest) = split_token (command_body m); body = trim_space rest
      in if receiver = [] then decline w m (lit ''Example: -mail merc message'')
         else steps [need w Mail_service,
           perform w (Queued body (m_name m @ lit ''#'' @ m_trip m) receiver),
           (case w_queued w of
              Queue_ok receivers \<Rightarrow> tell w m (lit ''trips: '' @ receivers @ lit '' will receive your message as soon they chat'')
            | Queue_blank \<Rightarrow> decline w m (lit ''Receiver cannot be blank.'')
            | Queue_unregistered \<Rightarrow> steps [perform w (Read_data Q_registered),
                decline w m (lit ''User you specified is not registered. Please use a name from provided list to send a message to respective trip. ''
                  @ [10] @ directory (w_registered w))])])]"

section \<open>Rooms, host and agent\<close>

definition nuke_command :: "world \<Rightarrow> chat_message \<Rightarrow> act" where
  "nuke_command w m = steps [perform w Checked,
     (let example = usage w ([10] @ lit '' Example: '') (lit ''nuke hotlinks'')
      in case command_args m of
           [] \<Rightarrow> decline w m example
         | a # _ \<Rightarrow>
             (case room_selector a of
                None \<Rightarrow> decline w m example
              | Some target \<Rightarrow> steps [need w Snapshot_submitter, perform w (Read_data (Q_workflow (lit ''nuke-''))),
                  perform w (Snapshot_asked \<lparr>rr_author = m_name m, rr_whisper = is_whisper_message m,
                    rr_source = m_channel m, rr_target = target, rr_destination = [],
                    rr_reply = lit ''Unable to complete room operation.'', rr_remote = [], rr_operation = Nuke_room\<rparr>)]))]"

definition resurrect_command :: "world \<Rightarrow> chat_message \<Rightarrow> act" where
  "resurrect_command w m = steps [perform w Checked,
     (let example = usage w (lit '' '') (lit ''move <nick> <from> <to>'')
      in case command_args m of
           [raw, source, destination] \<Rightarrow>
             (case normalize_nick_target (Some raw) of
                None \<Rightarrow> decline w m example
              | Some nick \<Rightarrow> steps [need w Room_mover, perform w (Moved source nick destination),
                  (if w_moved w then steps []
                   else steps [need w Snapshot_submitter, perform w (Read_data (Q_workflow (lit ''resurrect-''))),
                     perform w (Snapshot_asked \<lparr>rr_author = m_name m, rr_whisper = is_whisper_message m,
                       rr_source = source, rr_target = source, rr_destination = destination,
                       rr_reply = lit ''Unable to complete room operation.'', rr_remote = [],
                       rr_operation = Kick_or_resurrect nick\<rparr>)])])
         | _ \<Rightarrow> decline w m example)]"

definition bool_name :: "bool \<Rightarrow> str" where
  "bool_name b = (if b then lit ''true'' else lit ''false'')"

definition rooms_text :: "str list \<Rightarrow> str" where
  "rooms_text rs = lit ''['' @ join (lit '' '') rs @ lit '']''"

definition automove_command :: "world \<Rightarrow> chat_message \<Rightarrow> act" where
  "automove_command w m = steps [perform w Checked,
     (let as = command_args m;
          switch = (\<lambda>on word. steps [need w Auto_move_controller, perform w (Auto_move_set on),
             murmur w m (usage w (lit '' '') (lit ''automove is '' @ word))])
      in if as \<noteq> [] \<and> equal_fold (hd as) (lit ''on'') then switch True (lit ''enabled'')
         else if as \<noteq> [] \<and> equal_fold (hd as) (lit ''off'') then switch False (lit ''disabled'')
         else case as of
           [source, destination] \<Rightarrow>
             steps [need w Auto_move_controller, perform w (Auto_move_rooms source destination),
               murmur w m (lit ''Set source channel: '' @ rooms_text (fst (snd (w_auto_move w))) @ lit '' , destination channel: ''
                 @ snd (snd (w_auto_move w)) @ lit ''. Make sure bot'' @ [39] @ lit ''s REPLICA is serving source channels.'')]
         | _ \<Rightarrow>
             (let (enabled, sources, destination) =
                (if w_capable w Auto_move_controller then w_auto_move w else (False, [lit ''purgatory''], lit ''lounge''))
              in steps [murmur w m (usage w [] (lit ''automove [on|off]'')),
                   murmur w m (lit ''Current status: '' @ bool_name enabled @ lit '' , Source rooms: '' @ rooms_text sources
                     @ lit '' , Destination room: '' @ destination),
                   murmur w m (usage w (lit ''To set source: hell, destination: heaven - use: '') (lit ''automove hell heaven'')),
                   halt Declined]))]"

text \<open>The observation of an admitted lifecycle request carries its fields; the two shown fields are its status words.\<close>

definition lifecycle_ack :: "str \<Rightarrow> bool \<times> bool option \<Rightarrow> str" where
  "lifecycle_ack operation ad =
     lit ''Host '' @ operation @ lit '' request ''
       @ (if fst ad then lit ''coalesced with an existing request'' else lit ''accepted'') @ lit ''; ''
       @ (case snd ad of None \<Rightarrow> lit ''completion is unconfirmed''
          | Some ok \<Rightarrow> lit ''source reports completion '' @ (if ok then lit ''succeeded'' else lit ''failed'')) @ lit ''.''"

definition lifecycle_observation :: "str \<Rightarrow> bool \<times> bool option \<Rightarrow> str" where
  "lifecycle_observation operation ad =
     marshal_strings ([(lit ''operation'', operation), (lit ''scope'', lit ''host''),
         (lit ''requestStatus'', if fst ad then lit ''coalesced'' else lit ''accepted''),
         (lit ''completionStatus'', case snd ad of None \<Rightarrow> lit ''not_observed''
            | Some ok \<Rightarrow> if ok then lit ''succeeded'' else lit ''failed'')]
       @ (if snd ad = Some False then [(lit ''failureCode'', lit ''HOST_LIFECYCLE_FAILED'')] else []))"

definition lifecycle_command :: "str \<Rightarrow> world \<Rightarrow> chat_message \<Rightarrow> act" where
  "lifecycle_command operation w m = steps [perform w Checked, need w Lifecycle_controller, perform w (Lifecycle_asked operation),
     (if w_capable w Structured_lifecycle
      then steps [perform w (Observed (lifecycle_observation operation (w_admission w)) (is_whisper_message m)),
        tell w m (lifecycle_ack operation (w_admission w))]
      else steps [])]"

definition direct_command :: "world \<Rightarrow> chat_message \<Rightarrow> act" where
  "direct_command w m = steps [perform w Checked,
     (if command_body m = [] then halt Bad_input else perform w (Prompt_submitted (command_body m)))]"

definition vibe_command :: "world \<Rightarrow> chat_message \<Rightarrow> act" where
  "vibe_command w m = steps [perform w Checked,
     (if command_body m \<noteq> [] then decline w m (usage w (lit ''Use '') (lit ''vibe without arguments.''))
      else if is_whisper_message m
      then decline w m (lit ''Use vibe in the room so I can read its recent public conversation.'')
      else if \<not> w_capable w Agent_runtime
      then decline w m (lit ''Vibe checks are unavailable while the room'' @ [39] @ lit ''s LLM agent is disabled.'')
      else excuse (perform w Vibe_submitted)
        (steps [perform w Checked,
           tell w m (lit ''Couldn'' @ [39] @ lit ''t start a vibe check right now; the agent may be busy or unavailable. Try again shortly.'')]))]"

definition remove_command :: "world \<Rightarrow> chat_message \<Rightarrow> act" where
  "remove_command w m = steps [perform w Checked,
     (case command_args m of
        [] \<Rightarrow> steps [tell w m (usage w (lit ''Example: '') (lit ''remove [merc|g0KY09]'')), halt Bad_input]
      | a # _ \<Rightarrow>
          (if trim_space a = [] then steps [tell w m (usage w (lit ''Example: '') (lit ''remove [merc|g0KY09]'')), halt Bad_input]
           else steps [need w User_service,
             excuse (perform w (Identity_deleted (trim_space a))) (tell w m (lit ''Something went wrong deleting the user'')),
             tell w m (lit ''User has been removed successfully'')]))]"

section \<open>What every handler keeps\<close>

text \<open>All the effects of a stretch of events after \<open>tr\<close> succeeded.\<close>

fun all_done :: "world \<Rightarrow> handler_event list \<Rightarrow> handler_event list \<Rightarrow> bool" where
  "all_done w tr [] \<longleftrightarrow> True"
| "all_done w tr (e # es) \<longleftrightarrow> succeeds w tr e \<and> all_done w (tr @ [e]) es"

definition is_excuse :: "handler_event \<Rightarrow> bool" where
  "is_excuse e \<longleftrightarrow> (case e of Checked \<Rightarrow> True | Said a t b \<Rightarrow> True | _ \<Rightarrow> False)"

definition ended_well :: "world \<Rightarrow> handler_event list \<Rightarrow> stop option \<Rightarrow> handler_event list \<Rightarrow> bool" where
  "ended_well w tr s zs \<longleftrightarrow>
     (case s of
        Some (Failed_at e) \<Rightarrow>
          (\<exists>ys xs. zs = ys @ e # xs \<and> all_done w tr ys \<and> \<not> succeeds w (tr @ ys) e \<and> list_all is_excuse xs)
      | _ \<Rightarrow> all_done w tr zs)"

definition orderly :: "world \<Rightarrow> act \<Rightarrow> bool" where
  "orderly w a \<longleftrightarrow> (\<forall>tr. \<exists>zs. snd (a tr) = tr @ zs \<and> ended_well w tr (fst (a tr)) zs)"

lemma all_done_append: "all_done w tr (xs @ ys) \<longleftrightarrow> all_done w tr xs \<and> all_done w (tr @ xs) ys"
  by (induction xs arbitrary: tr) auto

lemma orderly_perform: "orderly w (perform w e)"
  by (fastforce simp: orderly_def perform_def ended_well_def)

lemma orderly_need: "orderly w (need w c)"
  by (auto simp: orderly_def need_def ended_well_def)

lemma orderly_halt: "(\<And>e. s \<noteq> Failed_at e) \<Longrightarrow> orderly w (halt s)"
  by (auto simp: orderly_def halt_def ended_well_def split: stop.splits)

lemma ended_well_append:
  assumes "all_done w tr xs" "ended_well w (tr @ xs) s ys"
  shows "ended_well w tr s (xs @ ys)"
proof (cases "\<exists>e. s = Some (Failed_at e)")
  case True
  then obtain e where s: "s = Some (Failed_at e)" ..
  with assms(2) obtain ys1 xs1 where "ys = ys1 @ e # xs1" "all_done w (tr @ xs) ys1" "\<not> succeeds w ((tr @ xs) @ ys1) e"
      "list_all is_excuse xs1"
    by (auto simp: ended_well_def)
  then have "xs @ ys = (xs @ ys1) @ e # xs1" "all_done w tr (xs @ ys1)" "\<not> succeeds w (tr @ (xs @ ys1)) e" "list_all is_excuse xs1"
    using assms(1) by (simp_all add: all_done_append)
  then show ?thesis unfolding s ended_well_def by (simp only: option.case stop.case) blast
next
  case False
  then show ?thesis using assms by (auto simp: ended_well_def all_done_append split: option.splits stop.splits)
qed

lemma steps_go: "fst (a tr) = None \<Longrightarrow> steps (a # as) tr = steps as (snd (a tr))"
  by (cases "a tr") auto

lemma steps_stop: "fst (a tr) = Some s \<Longrightarrow> steps (a # as) tr = a tr"
  by (cases "a tr") auto

lemma orderly_steps_Nil: "orderly w (steps [])"
  by (simp add: orderly_def ended_well_def)

lemma orderly_steps_Cons:
  assumes "orderly w a" "orderly w (steps as)"
  shows "orderly w (steps (a # as))"
  unfolding orderly_def
proof
  fix tr
  obtain zs where z: "snd (a tr) = tr @ zs" "ended_well w tr (fst (a tr)) zs"
    using assms by (auto simp: orderly_def)
  show "\<exists>zs. snd (steps (a # as) tr) = tr @ zs \<and> ended_well w tr (fst (steps (a # as) tr)) zs"
  proof (cases "fst (a tr)")
    case None
    then have d: "all_done w tr zs" using z by (simp add: ended_well_def)
    obtain ys where "snd (steps as (tr @ zs)) = (tr @ zs) @ ys" "ended_well w (tr @ zs) (fst (steps as (tr @ zs))) ys"
      using assms(2) by (metis orderly_def)
    then show ?thesis using None z ended_well_append [OF d] by (auto simp: steps_go simp del: steps.simps)
  next
    case (Some s)
    then show ?thesis using z by (auto simp: steps_stop simp del: steps.simps)
  qed
qed

text \<open>All the events of a handler satisfy a predicate.\<close>

definition emits :: "(handler_event \<Rightarrow> bool) \<Rightarrow> act \<Rightarrow> bool" where
  "emits P a \<longleftrightarrow> (\<forall>tr. \<exists>zs. snd (a tr) = tr @ zs \<and> list_all P zs)"

lemma emits_perform: "P e \<Longrightarrow> emits P (perform w e)"
  by (simp add: emits_def perform_def)

lemma emits_need: "emits P (need w c)"
  by (simp add: emits_def need_def)

lemma emits_halt: "emits P (halt s)"
  by (simp add: emits_def halt_def)

lemma emits_steps_Nil: "emits P (steps [])"
  by (simp add: emits_def)

lemma emits_steps_Cons:
  assumes "emits P a" "emits P (steps as)"
  shows "emits P (steps (a # as))"
  unfolding emits_def
proof
  fix tr
  obtain xs where x: "snd (a tr) = tr @ xs" "list_all P xs" using assms(1) by (auto simp: emits_def)
  obtain ys where y: "snd (steps as (tr @ xs)) = (tr @ xs) @ ys" "list_all P ys" using assms(2) by (metis emits_def)
  show "\<exists>zs. snd (steps (a # as) tr) = tr @ zs \<and> list_all P zs"
    using x y by (cases "fst (a tr)") (simp_all add: steps_go steps_stop del: steps.simps)
qed

lemma emits_excuse:
  assumes "emits P a" "emits P b"
  shows "emits P (excuse a b)"
  unfolding emits_def
proof
  fix tr
  obtain xs where x: "snd (a tr) = tr @ xs" "list_all P xs" using assms(1) by (auto simp: emits_def)
  obtain ys where y: "snd (b (tr @ xs)) = (tr @ xs) @ ys" "list_all P ys" using assms(2) by (metis emits_def)
  show "\<exists>zs. snd (excuse a b tr) = tr @ zs \<and> list_all P zs"
    using x y by (cases "a tr") (auto simp: excuse_def split: option.splits stop.splits)
qed

text \<open>
  The contract of a property of handlers: it holds of each admitted event and of the atomic steps, and passes to a
  sequence.  It then holds of everything a handler is made of.
\<close>

locale handler_property =
  fixes w :: world and admitted :: "handler_event \<Rightarrow> bool" and good :: "act \<Rightarrow> bool"
  assumes good_perform: "admitted e \<Longrightarrow> good (perform w e)"
    and good_need: "good (need w c)"
    and good_halt: "(\<And>e. s \<noteq> Failed_at e) \<Longrightarrow> good (halt s)"
    and good_Nil: "good (steps [])"
    and good_Cons: "good a \<Longrightarrow> good (steps as) \<Longrightarrow> good (steps (a # as))"
begin

lemma good_if: "(c \<Longrightarrow> good a) \<Longrightarrow> (\<not> c \<Longrightarrow> good b) \<Longrightarrow> good (if c then a else b)"
  by simp

lemma good_option: "good a \<Longrightarrow> (\<And>x. v = Some x \<Longrightarrow> good (f x)) \<Longrightarrow> good (case v of None \<Rightarrow> a | Some x \<Rightarrow> f x)"
  by (simp split: option.split)

lemma good_list: "good a \<Longrightarrow> (\<And>x xs. v = x # xs \<Longrightarrow> good (f x xs)) \<Longrightarrow> good (case v of [] \<Rightarrow> a | x # xs \<Rightarrow> f x xs)"
  by (simp split: list.split)

lemma good_prod: "(\<And>x y. v = (x, y) \<Longrightarrow> good (f x y)) \<Longrightarrow> good (case v of (x, y) \<Rightarrow> f x y)"
  by (simp split: prod.split)

lemma good_sum:
  "(\<And>x. v = Inl x \<Longrightarrow> good (f x)) \<Longrightarrow> (\<And>x. v = Inr x \<Longrightarrow> good (g x)) \<Longrightarrow> good (case v of Inl x \<Rightarrow> f x | Inr y \<Rightarrow> g y)"
  by (simp split: sum.split)

lemma good_queue:
  "(\<And>r. good (f r)) \<Longrightarrow> good a \<Longrightarrow> good b
     \<Longrightarrow> good (case v of Queue_ok r \<Rightarrow> f r | Queue_blank \<Rightarrow> a | Queue_unregistered \<Rightarrow> b)"
  by (simp split: queue_answer.split)

lemma good_each: "(\<And>x. x \<in> set xs \<Longrightarrow> good (f x)) \<Longrightarrow> good (steps (map f xs))"
  by (induction xs) (simp_all add: good_Nil good_Cons del: steps.simps)

lemma good_tell: "admitted Checked \<Longrightarrow> admitted (Said (m_name m) s (is_whisper_message m)) \<Longrightarrow> good (tell w m s)"
  unfolding tell_def by (intro good_Cons good_Nil good_perform)

lemma good_decline: "admitted Checked \<Longrightarrow> admitted (Said (m_name m) s (is_whisper_message m)) \<Longrightarrow> good (decline w m s)"
  unfolding decline_def by (intro good_Cons good_Nil good_tell good_halt) simp_all

lemma good_observe:
  "admitted Checked \<Longrightarrow> admitted (Observed s b) \<Longrightarrow> admitted (Said (m_name m) s b) \<Longrightarrow> good (observe_and_reply w m s b)"
  unfolding observe_and_reply_def by (intro good_Cons good_Nil good_perform)

lemma good_murmur: "admitted (Murmured (m_name m) s (is_whisper_message m)) \<Longrightarrow> good (murmur w m s)"
  unfolding murmur_def by (intro good_perform)

lemmas good_intros = good_perform good_need good_halt good_Nil good_Cons good_if good_option good_list good_prod good_sum
  good_queue good_each good_tell good_decline good_observe good_murmur

end

interpretation kept: handler_property w "\<lambda>e. True" "orderly w" for w
  by unfold_locales (auto intro: orderly_perform orderly_need orderly_halt orderly_steps_Nil orderly_steps_Cons)

interpretation sent: handler_property w P "emits P" for w P
  by unfold_locales (auto intro: emits_perform emits_need emits_halt emits_steps_Nil emits_steps_Cons)

text \<open>An excuse of checks and replies keeps a handler orderly.\<close>

abbreviation says_only :: "act \<Rightarrow> bool" where
  "says_only \<equiv> emits is_excuse"

lemma says_only_tell: "says_only (tell w m s)"
  by (rule sent.good_tell) (simp_all add: is_excuse_def)

lemma orderly_excuse:
  assumes "orderly w a" "says_only b"
  shows "orderly w (excuse a b)"
  unfolding orderly_def
proof
  fix tr
  obtain zs where z: "snd (a tr) = tr @ zs" "ended_well w tr (fst (a tr)) zs" using assms(1) by (auto simp: orderly_def)
  show "\<exists>zs. snd (excuse a b tr) = tr @ zs \<and> ended_well w tr (fst (excuse a b tr)) zs"
  proof (cases "\<exists>e. fst (a tr) = Some (Failed_at e)")
    case True
    then obtain e where e: "a tr = (Some (Failed_at e), tr @ zs)" using z by (metis prod.collapse)
    obtain xs where x: "snd (b (tr @ zs)) = (tr @ zs) @ xs" "list_all is_excuse xs"
      using assms(2) unfolding emits_def by metis
    from z e obtain ys us where "zs = ys @ e # us" "all_done w tr ys" "\<not> succeeds w (tr @ ys) e" "list_all is_excuse us"
      by (auto simp: ended_well_def)
    then have "zs @ xs = ys @ e # (us @ xs)" "all_done w tr ys" "\<not> succeeds w (tr @ ys) e" "list_all is_excuse (us @ xs)"
      using x by simp_all
    then have "ended_well w tr (Some (Failed_at e)) (zs @ xs)"
      unfolding ended_well_def by (simp only: option.case stop.case) blast
    then show ?thesis using e x by (auto simp: excuse_def)
  next
    case False
    then have "excuse a b tr = a tr" by (auto simp: excuse_def split: prod.splits option.splits stop.splits)
    then show ?thesis using z by auto
  qed
qed

lemmas orderly_intros = kept.good_intros orderly_excuse

lemmas emits_intros = sent.good_intros emits_excuse

end
