(* ===== verification/ModHandlers.thy ===== *)
theory ModHandlers
  imports Handlers
begin

text \<open>
  The moderation handlers of \<open>internal/command\<close>: operations on users of the room (\<open>mute.go\<close>, \<open>overflow.go\<close>,
  \<open>profile.go\<close>, \<open>simpleBanCommand\<close>, \<open>kickCommand\<close>), on hashes, trips and the room (\<open>unmute.go\<close>, \<open>captcha.go\<close>,
  \<open>moderation_simple.go\<close>), the shadow bans, and \<open>newCommand\<close>, which picks the handler of a command.
\<close>

section \<open>Operations on a user of the room\<close>

definition mute_command :: "world \<Rightarrow> chat_message \<Rightarrow> act" where
  "mute_command w m = steps [perform w Checked,
     (let example = usage w (lit ''Example: '') (lit ''mute merc'')
      in case command_args m of
           [] \<Rightarrow> decline w m example
         | a # _ \<Rightarrow>
             (case normalize_nick_target (Some a) of
                None \<Rightarrow> decline w m example
              | Some nick \<Rightarrow>
                  (case canonical_target w nick of
                     None \<Rightarrow> decline w m (nick @ lit '' is not in the room'')
                   | Some u \<Rightarrow> steps [need w Moderation_operations, perform w (Asked (Mute_nick (u_name u))),
                       tell w m (lit ''Mute request sent for '' @ u_name u @ lit '' '' @ u_hash u
                         @ lit ''; server application is unconfirmed.'')])))]"

definition overflow_command :: "world \<Rightarrow> chat_message \<Rightarrow> act" where
  "overflow_command w m = steps [perform w Checked,
     (case command_args m of
        [a] \<Rightarrow>
          (case active_target w a of
             Inl _ \<Rightarrow> halt Bad_input
           | Inr None \<Rightarrow> halt Declined
           | Inr (Some u) \<Rightarrow> steps [perform w Checked, need w Moderation_operations,
               perform w (Asked (Overflow_nick (u_name u)))])
      | _ \<Rightarrow> decline w m (usage w (lit ''target nick isn'' @ [39] @ lit ''t set! Example: '') (lit ''shoot @merc'')))]"

definition ban_command :: "world \<Rightarrow> chat_message \<Rightarrow> act" where
  "ban_command w m = steps [perform w Checked,
     (let example = usage w (lit ''Example: '') (lit ''ban merc'')
      in case command_args m of
           [a] \<Rightarrow>
             (case active_target w a of
                Inl _ \<Rightarrow> decline w m example
              | Inr None \<Rightarrow> halt Declined
              | Inr (Some u) \<Rightarrow> steps [perform w Checked, need w Moderation_operations,
                  perform w (Asked (Ban_nick (u_name u))),
                  tell w m (lit ''Permanent-ban request sent for '' @ u_name u @ lit ''; server application is unconfirmed.'')])
         | _ \<Rightarrow> decline w m example)]"

definition appearance_command :: "bool \<Rightarrow> world \<Rightarrow> chat_message \<Rightarrow> act" where
  "appearance_command flair w m = steps [perform w Checked,
     (let kind = (if flair then lit ''flair'' else lit ''color'');
          example = (if flair then lit ''trusted'' else lit ''00ff00'')
      in case command_args m of
           a # value # _ \<Rightarrow>
             (case normalize_nick_target (Some a) of
                None \<Rightarrow> decline w m (usage w [] (kind @ lit '' merc '' @ example))
              | Some nick \<Rightarrow>
                  (case canonical_target w nick of
                     None \<Rightarrow> decline w m (lit ''User '' @ nick @ lit '' is not in the room, '' @ kind @ lit '' was not applied.'')
                   | Some u \<Rightarrow> steps [need w Moderation_operations,
                       perform w (Asked (if flair then Force_flair (u_name u) value else Force_color (u_name u) value)),
                       (if flair then tell w m ([10] @ lit '' Flair request sent; server application is unconfirmed.'') else steps [])]))
         | _ \<Rightarrow> decline w m (usage w ([10] @ lit '' Example: '') (kind @ lit '' merc '' @ example)))]"

section \<open>Selections\<close>

datatype selection = Exact | Multiple | Contains

definition has_mode :: "str list \<Rightarrow> bool" where
  "has_mode as \<longleftrightarrow> lit ''-m'' \<in> set as \<or> lit ''-c'' \<in> set as"

definition parse_kick :: "str list \<Rightarrow> (selection \<times> str list) option" where
  "parse_kick as =
     (case as of
        [] \<Rightarrow> None
      | a # rest \<Rightarrow>
          if a = lit ''-m'' then (if rest = [] \<or> has_mode rest then None else Some (Multiple, rest))
          else if a = lit ''-c'' then (if length rest \<noteq> 1 \<or> has_mode rest then None else Some (Contains, rest))
          else if rest \<noteq> [] then None else Some (Exact, as))"

text \<open>The names that contain a fragment, sorted without regard to case first\<close>

definition names_containing :: "world \<Rightarrow> str \<Rightarrow> str list" where
  "names_containing w fragment =
     sort_key (\<lambda>n. (to_lower n, n)) (filter (\<lambda>n. sublist fragment n) (map u_name (rm_active (w_room w))))"

text \<open>The targets of a list of names, one for each lower-case name\<close>

fun pick_targets :: "world \<Rightarrow> selection \<Rightarrow> str list \<Rightarrow> str list \<Rightarrow> stop + user list" where
  "pick_targets w mode seen [] = Inr []"
| "pick_targets w mode seen (raw # rest) =
     (case (if mode = Contains then Inr (canonical_target w raw) else active_target w raw) of
        Inl _ \<Rightarrow> Inl Bad_input
      | Inr None \<Rightarrow> if mode = Exact then Inl Nothing_found else pick_targets w mode seen rest
      | Inr (Some u) \<Rightarrow>
          if to_lower (u_name u) \<in> set seen then pick_targets w mode seen rest
          else (case pick_targets w mode (to_lower (u_name u) # seen) rest of Inl s \<Rightarrow> Inl s | Inr us \<Rightarrow> Inr (u # us)))"

definition resolve_kick :: "world \<Rightarrow> selection \<Rightarrow> str list \<Rightarrow> stop + user list" where
  "resolve_kick w mode raws =
     (case pick_targets w mode [] (if mode = Contains then names_containing w (hd raws) else raws) of
        Inl s \<Rightarrow> Inl s
      | Inr us \<Rightarrow> if us = [] then Inl Nothing_found else Inr us)"

definition kick_command :: "world \<Rightarrow> chat_message \<Rightarrow> act" where
  "kick_command w m = steps [perform w Checked,
     (case parse_kick (command_args m) of
        None \<Rightarrow> halt Declined
      | Some (mode, raws) \<Rightarrow>
          (case resolve_kick w mode raws of
             Inl s \<Rightarrow> halt s
           | Inr us \<Rightarrow> steps [need w Moderation_operations,
               steps (map (\<lambda>u. steps [perform w Checked, perform w (Asked (Kick_nick (u_name u))), perform w Checked]) us)]))]"

section \<open>Operations on hashes, trips and the room\<close>

definition unmute_command :: "world \<Rightarrow> chat_message \<Rightarrow> act" where
  "unmute_command w m = steps [perform w Checked,
     (case command_args m of
        [] \<Rightarrow> decline w m (usage w (lit ''Example: '') (lit ''unmute jJ4M4fsECSazzlj''))
      | hash # _ \<Rightarrow> steps [need w Moderation_operations, perform w (Asked (Unmute_hash hash)),
          tell w m (lit ''Unmute request sent for hash '' @ hash @ lit ''; server application is unconfirmed.'')])]"

definition identity_command :: "bool \<Rightarrow> world \<Rightarrow> chat_message \<Rightarrow> act" where
  "identity_command deauthorize w m = steps [perform w Checked,
     (case command_args m of
        [] \<Rightarrow> decline w m (usage w (lit '' example: '') ((if deauthorize then lit ''deauth'' else lit ''auth'') @ lit '' cmdTV+''))
      | trip # _ \<Rightarrow> steps [need w Moderation_operations,
          perform w (Asked (if deauthorize then Deauthorize_trip trip else Authorize_trip trip)),
          tell w m ((if deauthorize then lit '' deauthorization request sent'' else lit '' authorization request sent'')
            @ lit '' for trip: '' @ trip)])]"

definition unban_command :: "world \<Rightarrow> chat_message \<Rightarrow> act" where
  "unban_command w m = steps [perform w Checked,
     (let example = usage w (lit ''Example: '') (lit ''unban HjkUEWNlIRH35Xk'')
      in case command_args m of
           [] \<Rightarrow> decline w m example
         | hash # _ \<Rightarrow>
             (if trim_space hash = [] then decline w m example
              else steps [need w Moderation_operations, perform w (Asked (Unban_hash hash)),
                tell w m (lit ''Unban request sent for hash '' @ hash @ lit ''; server application is unconfirmed.'')]))]"

definition unban_all_command :: "world \<Rightarrow> chat_message \<Rightarrow> act" where
  "unban_all_command w m = steps [perform w Checked, need w Moderation_operations, perform w (Asked Unban_all),
     tell w m (lit ''Unban-all request sent; server application is unconfirmed.'')]"

definition lock_command :: "world \<Rightarrow> chat_message \<Rightarrow> act" where
  "lock_command w m = steps [perform w Checked,
     (let a = (case command_args m of [] \<Rightarrow> [] | a # _ \<Rightarrow> a)
      in if a = lit ''on'' then steps [need w Moderation_operations, perform w (Asked Lock_room),
           tell w m (lit '' Room-lock request sent; server application is unconfirmed.'')]
         else if a = lit ''off'' then steps [need w Moderation_operations, perform w (Asked Unlock_room),
           tell w m (lit '' Room-unlock request sent; server application is unconfirmed.'')]
         else decline w m (usage w [] (lit ''lock [on|off]'')))]"

definition captcha_command :: "world \<Rightarrow> chat_message \<Rightarrow> act" where
  "captcha_command w m = steps [perform w Checked, need w Moderation_operations,
     (if command_args m = [] \<or> hd (command_args m) = lit ''on''
      then steps [perform w (Asked Enable_captcha),
        tell w m (lit '' Captcha-enable request sent; server application is unconfirmed.'')]
      else if hd (command_args m) = lit ''off''
      then steps [perform w (Asked Disable_captcha),
        tell w m (lit '' Captcha-disable request sent; server application is unconfirmed.'')]
      else decline w m (usage w [] (lit ''captcha [on|off]'')))]"

section \<open>Shadow bans\<close>

definition parse_shadow_ban :: "str list \<Rightarrow> (selection \<times> str) option" where
  "parse_shadow_ban as =
     (case as of
        [a] \<Rightarrow> if a = lit ''-c'' then None else Some (Exact, a)
      | [a, b] \<Rightarrow> if a = lit ''-c'' \<and> b \<noteq> lit ''-c'' then Some (Contains, b) else None
      | _ \<Rightarrow> None)"

definition shadow_ban_present :: "world \<Rightarrow> user \<Rightarrow> act" where
  "shadow_ban_present w u =
     steps [need w Ban_service,
       perform w (Ban_saved \<lparr>sb_trip = u_trip u, sb_name = u_name u, sb_hash = u_hash u, sb_reason = []\<rparr>),
       perform w Checked, need w Kick_operation, perform w (Asked (Kick_nick (u_name u)))]"

definition shadow_ban_containing :: "world \<Rightarrow> chat_message \<Rightarrow> str \<Rightarrow> act" where
  "shadow_ban_containing w m pattern =
     (case pick_targets w Contains [] (names_containing w pattern) of
        Inl s \<Rightarrow> halt s
      | Inr us \<Rightarrow>
          if us = [] then halt Declined
          else steps [steps (map (\<lambda>u. steps [perform w Checked, shadow_ban_present w u, perform w Checked]) us),
            tell w m (lit ''Shadow-ban records saved for '' @ itoa (int (length us)) @ lit '' users; ''
              @ itoa (int (length us)) @ lit '' kick requests sent, server application unconfirmed.'')])"

definition shadow_ban_single :: "world \<Rightarrow> chat_message \<Rightarrow> str \<Rightarrow> act" where
  "shadow_ban_single w m target =
     (case normalize_nick_target (Some target) of
        None \<Rightarrow> halt Bad_input
      | Some nick \<Rightarrow> steps [perform w Checked,
          (case canonical_target w nick of
             Some u \<Rightarrow> steps [shadow_ban_present w u, perform w Checked,
               tell w m (lit ''Shadow-ban record saved for '' @ nick @ lit '' trip: '' @ u_trip u @ lit '' hash: '' @ u_hash u
                 @ lit ''; kick request sent, server application unconfirmed.'')]
           | None \<Rightarrow> steps [need w Ban_service,
               perform w (Ban_saved \<lparr>sb_trip = [], sb_name = nick, sb_hash = [], sb_reason = []\<rparr>), perform w Checked,
               tell w m (lit ''Shadow-ban record saved for '' @ nick @ lit ''.'')])])"

definition shadow_ban_command :: "world \<Rightarrow> chat_message \<Rightarrow> act" where
  "shadow_ban_command w m = steps [perform w Checked,
     (case parse_shadow_ban (command_args m) of
        None \<Rightarrow> decline w m (usage w (lit ''Example: '') (lit ''shadowban merc''))
      | Some (mode, target) \<Rightarrow>
          (if mode = Contains then shadow_ban_containing w m target else shadow_ban_single w m target))]"

definition unshadow_ban_command :: "world \<Rightarrow> chat_message \<Rightarrow> act" where
  "unshadow_ban_command w m = steps [perform w Checked,
     (case command_args m of
        [target] \<Rightarrow> steps [need w Ban_service,
          (let who = (if target = lit ''-all'' then None else Some target); n = w_dropped w who
           in steps [perform w (Bans_dropped who),
             (if n = 0
              then decline w m (case who of None \<Rightarrow> lit ''No shadow-ban records matched.''
                     | Some s \<Rightarrow> lit ''No shadow-ban records matched '' @ s @ lit ''.'')
              else steps [perform w Checked, tell w m (lit ''Removed shadow-ban records: '' @ itoa (int n))])])]
      | _ \<Rightarrow> decline w m (usage w (lit ''Example: '') (lit ''unban merc'')))]"

definition ban_line :: "ban_record \<Rightarrow> str" where
  "ban_line r = sb_hash r @ lit '' - '' @ (if sb_trip r = [] then lit ''------'' else sb_trip r) @ lit '' - '' @ sb_name r @ [10]"

definition shadow_ban_list_command :: "world \<Rightarrow> chat_message \<Rightarrow> act" where
  "shadow_ban_list_command w m = steps [perform w Checked, need w Ban_service, perform w (Read_data Q_bans),
     observe_and_reply w m
       (if w_bans w = [] then lit ''No shadow-ban records found.''
        else lit ''Banned hashes, trips, names: '' @ [10] @ concat (map ban_line (w_bans w)))
       (is_whisper_message m)]"

section \<open>The handler of a command\<close>

definition handlers :: "(str \<times> (world \<Rightarrow> chat_message \<Rightarrow> act)) list" where
  "handlers =
     [(lit ''sub'', subscribe_command), (lit ''unsub'', unsubscribe_command), (lit ''mail'', mail_command),
      (lit ''note'', note_command), (lit ''notes'', notes_command), (lit ''say'', say_command), (lit ''afk'', afk_command),
      (lit ''vibe'', vibe_command), (lit ''list'', list_command), (lit ''info'', info_command),
      (lit ''lastonline'', last_online_command), (lit ''shadowbanlist'', shadow_ban_list_command),
      (lit ''shadowban'', shadow_ban_command), (lit ''unshadowban'', unshadow_ban_command), (lit ''mute'', mute_command),
      (lit ''unmute'', unmute_command), (lit ''color'', appearance_command False), (lit ''flair'', appearance_command True),
      (lit ''nicks'', nicks_command), (lit ''nuke'', nuke_command), (lit ''resurrect'', resurrect_command),
      (lit ''ban'', ban_command), (lit ''kick'', kick_command), (lit ''unban'', unban_command),
      (lit ''unbanall'', unban_all_command), (lit ''authorize'', identity_command False),
      (lit ''deauthorize'', identity_command True), (lit ''remove'', remove_command), (lit ''lock'', lock_command),
      (lit ''captcha'', captcha_command), (lit ''overflow'', overflow_command), (lit ''prefix'', prefix_command),
      (lit ''automove'', automove_command), (lit ''msgchannel'', msg_channel_command),
      (lit ''restart'', lifecycle_command (lit ''restart'')), (lit ''shutdown'', lifecycle_command (lit ''shutdown''))]"

definition new_command :: "str \<Rightarrow> (world \<Rightarrow> chat_message \<Rightarrow> act) option" where
  "new_command name = map_of handlers name"

section \<open>Lemmas\<close>

lemmas handler_defs = subscribe_command_def unsubscribe_command_def mail_command_def note_command_def notes_command_def
  say_command_def afk_command_def vibe_command_def list_command_def info_command_def last_online_command_def
  shadow_ban_list_command_def shadow_ban_command_def unshadow_ban_command_def mute_command_def unmute_command_def
  appearance_command_def nicks_command_def nuke_command_def resurrect_command_def ban_command_def kick_command_def
  unban_command_def unban_all_command_def identity_command_def remove_command_def lock_command_def captcha_command_def
  overflow_command_def prefix_command_def automove_command_def msg_channel_command_def lifecycle_command_def

lemma handler_cases: "new_command name = Some h \<Longrightarrow> h \<in> set (map snd handlers)"
  by (force simp: new_command_def dest: map_of_SomeD)

lemma pick_targets_stop: "pick_targets w mode seen raws = Inl s \<Longrightarrow> s \<noteq> Failed_at e"
  by (induction w mode seen raws rule: pick_targets.induct) (auto split: sum.splits option.splits if_splits)

lemma resolve_kick_stop: "resolve_kick w mode raws = Inl s \<Longrightarrow> s \<noteq> Failed_at e"
  using pick_targets_stop by (fastforce simp: resolve_kick_def split: sum.splits if_splits)







section \<open>A failure ends a command\<close>

lemma all_done_split: "all_done w tr zs \<Longrightarrow> zs = ys @ e # xs \<Longrightarrow> succeeds w (tr @ ys) e"
  by (simp add: all_done_append)




section \<open>What a command may do\<close>

lemma canonical_target_active: "canonical_target w n = Some u \<Longrightarrow> u \<in> set (rm_active (w_room w))"
  by (auto simp: canonical_target_def active_user_by_name_def find_Some_iff split: option.splits)

lemma active_target_active: "active_target w raw = Inr (Some u) \<Longrightarrow> u \<in> set (rm_active (w_room w))"
  by (auto simp: active_target_def canonical_target_active split: option.splits)

lemma pick_targets_active: "pick_targets w mode seen raws = Inr us \<Longrightarrow> u \<in> set us \<Longrightarrow> u \<in> set (rm_active (w_room w))"
  by (induction w mode seen raws arbitrary: us rule: pick_targets.induct)
    (auto split: sum.splits option.splits if_splits dest: canonical_target_active active_target_active)

lemma resolve_kick_active: "resolve_kick w mode raws = Inr us \<Longrightarrow> u \<in> set us \<Longrightarrow> u \<in> set (rm_active (w_room w))"
  by (auto simp: resolve_kick_def dest: pick_targets_active split: sum.splits if_splits)

text \<open>
  An operation on a nick names a user of the room; replies go to the caller or to the room; notes, subscriptions, the AFK
  session and the owner of a letter are the caller's.
\<close>

fun within_rights :: "world \<Rightarrow> chat_message \<Rightarrow> handler_event \<Rightarrow> bool" where
  "within_rights w m (Asked op) \<longleftrightarrow>
     (case op_target op of None \<Rightarrow> True | Some n \<Rightarrow> n \<in> set (active_user_names (w_room w)))"
| "within_rights w m (Said a s b) \<longleftrightarrow> a \<in> {[], m_name m, m_name m @ lit '' ''}"
| "within_rights w m (Murmured a s b) \<longleftrightarrow> a = m_name m"
| "within_rights w m (Went_away u r) \<longleftrightarrow> u \<in> set (rm_active (w_room w)) \<and> u_trip u = m_trip m"
| "within_rights w m (Subscribed t) \<longleftrightarrow> t = m_trip m"
| "within_rights w m (Unsubscribed t) \<longleftrightarrow> t = m_trip m"
| "within_rights w m (Note_saved t s) \<longleftrightarrow> t = m_trip m"
| "within_rights w m (Notes_cleared t) \<longleftrightarrow> t = m_trip m"
| "within_rights w m (Read_data q) \<longleftrightarrow> (case q of Q_notes t \<Rightarrow> t = m_trip m | _ \<Rightarrow> True)"
| "within_rights w m (Queued body owner receiver) \<longleftrightarrow> owner = m_name m @ lit ''#'' @ m_trip m"
| "within_rights w m (Snapshot_asked r) \<longleftrightarrow> rr_author r = m_name m"
| "within_rights w m _ \<longleftrightarrow> True"

lemma rights_active: "u \<in> set (rm_active (w_room w)) \<Longrightarrow> u_name u \<in> set (active_user_names (w_room w))"
  by (simp add: active_user_names_def)

lemma rights_present: "u \<in> set (rm_active (w_room w)) \<Longrightarrow> emits (within_rights w m) (shadow_ban_present w u)"
  unfolding shadow_ban_present_def by (intro emits_intros) (simp_all add: rights_active)

lemma rights_containing: "emits (within_rights w m) (shadow_ban_containing w m pattern)"
  unfolding shadow_ban_containing_def
  by (intro emits_intros rights_present) (auto dest: pick_targets_active simp: pick_targets_stop)

lemma rights_single: "emits (within_rights w m) (shadow_ban_single w m target)"
  unfolding shadow_ban_single_def
  by (intro emits_intros rights_present) (auto dest: canonical_target_active)

lemma rights_kick: "emits (within_rights w m) (kick_command w m)"
  unfolding kick_command_def
  by (intro emits_intros) (auto intro: rights_active dest: resolve_kick_active simp: resolve_kick_stop)

lemma afk_caller: "active_user_by_name n (w_room w) = Some u \<Longrightarrow> u \<in> set (rm_active (w_room w))"
  by (auto simp: active_user_by_name_def find_Some_iff)

lemma rights_plain:
  "h \<in> set (map snd handlers) \<Longrightarrow> h = kick_command \<or> h = shadow_ban_command \<or> emits (within_rights w m) (h w m)"
  unfolding handlers_def
  by (auto simp: handler_defs Let_def simp del: steps.simps lit_simps
      intro!: emits_intros rights_active; erule canonical_target_active active_target_active afk_caller)

lemma rights_shadow_ban: "emits (within_rights w m) (shadow_ban_command w m)"
  unfolding shadow_ban_command_def by (intro emits_intros rights_single rights_containing) simp_all

text \<open>C39. A command acts within its caller's rights, whatever fails: an operation on a nick names a user who is in the
  room, replies go to the caller or the room, and notes, subscriptions, the AFK session and the sender of a letter are
  the caller's own.\<close>

theorem command_within_rights:
  assumes "new_command name = Some h" "h w m [] = (s, tr)"
  shows "list_all (within_rights w m) tr"
proof -
  have "emits (within_rights w m) (h w m)"
    using rights_plain [OF handler_cases [OF assms(1)]] rights_kick rights_shadow_ban by blast
  then obtain zs where "snd (h w m []) = [] @ zs" "list_all (within_rights w m) zs" unfolding emits_def by blast
  then show ?thesis using assms(2) by simp
qed

section \<open>Runs that succeed\<close>

text \<open>The events of a successful run\<close>

definition yields :: "act \<Rightarrow> handler_event list \<Rightarrow> bool" where
  "yields a zs \<longleftrightarrow> (\<forall>tr tr1. a tr = (None, tr1) \<longrightarrow> tr1 = tr @ zs)"



lemma yields_halt: "yields (halt s) zs"
  by (simp add: yields_def halt_def)






section \<open>The targets of a kick\<close>









section \<open>A shadow ban outlives its kick\<close>

text \<open>The table after a run: the changes that succeeded, in order\<close>

definition ban_step :: "world \<Rightarrow> int \<Rightarrow> handler_event list \<Rightarrow> handler_event \<Rightarrow> ban_table \<Rightarrow> ban_table" where
  "ban_step w now tr e t =
     (if succeeds w tr e
      then (case e of
              Ban_saved r \<Rightarrow> snd (persist_record False now r t)
            | Bans_dropped None \<Rightarrow> snd (remove_all_bans False t)
            | Bans_dropped (Some target) \<Rightarrow> snd (remove_by_target False target t)
            | _ \<Rightarrow> t)
      else t)"

fun ban_effects :: "world \<Rightarrow> int \<Rightarrow> handler_event list \<Rightarrow> handler_event list \<Rightarrow> ban_table \<Rightarrow> ban_table" where
  "ban_effects w now tr [] t = t"
| "ban_effects w now tr (e # es) t = ban_effects w now (tr @ [e]) es (ban_step w now tr e t)"

definition ban_of :: "user \<Rightarrow> ban_record" where
  "ban_of u = \<lparr>sb_trip = u_trip u, sb_name = u_name u, sb_hash = u_hash u, sb_reason = []\<rparr>"

definition keeps_bans :: "handler_event \<Rightarrow> bool" where
  "keeps_bans e \<longleftrightarrow> (case e of Bans_dropped v \<Rightarrow> False | _ \<Rightarrow> True)"

lemma ban_effects_append: "ban_effects w now tr (xs @ ys) t = ban_effects w now (tr @ xs) ys (ban_effects w now tr xs t)"
  by (induction xs arbitrary: tr t) auto

lemma ban_step_keeps:
  "keeps_bans e \<Longrightarrow> has_match False trip name hash t = Some True \<Longrightarrow> has_match False trip name hash (ban_step w now tr e t) = Some True"
  by (cases e) (auto simp: ban_step_def keeps_bans_def has_match_kept simp flip: stored_def)

lemma ban_effects_keep:
  "list_all keeps_bans es \<Longrightarrow> has_match False trip name hash t = Some True
    \<Longrightarrow> has_match False trip name hash (ban_effects w now tr es t) = Some True"
  by (induction es arbitrary: tr t) (simp_all add: ban_step_keeps)

text \<open>Every kick in a stretch of events follows the stored record of the user it names.\<close>

definition recorded_kicks :: "world \<Rightarrow> handler_event list \<Rightarrow> handler_event list \<Rightarrow> bool" where
  "recorded_kicks w tr zs \<longleftrightarrow>
     (\<forall>n. Asked (Kick_nick n) \<in> set zs
        \<longrightarrow> (\<exists>u ys xs. zs = ys @ Ban_saved (ban_of u) # xs \<and> u \<in> set (rm_active (w_room w)) \<and> u_name u = n
              \<and> succeeds w (tr @ ys) (Ban_saved (ban_of u))))"

definition records_first :: "world \<Rightarrow> act \<Rightarrow> bool" where
  "records_first w a \<longleftrightarrow> (\<forall>tr. \<exists>zs. snd (a tr) = tr @ zs \<and> recorded_kicks w tr zs)"

lemma recorded_kicks_append:
  assumes "recorded_kicks w tr xs" "recorded_kicks w (tr @ xs) ys"
  shows "recorded_kicks w tr (xs @ ys)"
  unfolding recorded_kicks_def
proof (intro allI impI)
  fix n assume "Asked (Kick_nick n) \<in> set (xs @ ys)"
  then consider "Asked (Kick_nick n) \<in> set xs" | "Asked (Kick_nick n) \<in> set ys" by auto
  then show "\<exists>u bs cs. xs @ ys = bs @ Ban_saved (ban_of u) # cs \<and> u \<in> set (rm_active (w_room w)) \<and> u_name u = n
      \<and> succeeds w (tr @ bs) (Ban_saved (ban_of u))"
  proof cases
    case 1
    then show ?thesis using assms(1) unfolding recorded_kicks_def by (metis append_Cons append_assoc)
  next
    case 2
    then show ?thesis using assms(2) unfolding recorded_kicks_def by (metis append_assoc)
  qed
qed

lemma records_first_Cons:
  assumes "records_first w a" "records_first w (steps as)"
  shows "records_first w (steps (a # as))"
  unfolding records_first_def
proof
  fix tr
  obtain xs where x: "snd (a tr) = tr @ xs" "recorded_kicks w tr xs" using assms(1) by (auto simp: records_first_def)
  obtain ys where y: "snd (steps as (tr @ xs)) = (tr @ xs) @ ys" "recorded_kicks w (tr @ xs) ys"
    using assms(2) by (metis records_first_def)
  show "\<exists>zs. snd (steps (a # as) tr) = tr @ zs \<and> recorded_kicks w tr zs"
    using x y recorded_kicks_append [OF x(2) y(2)]
    by (cases "fst (a tr)") (simp_all add: steps_go steps_stop del: steps.simps)
qed

lemma records_first_perform: "(\<And>n. e \<noteq> Asked (Kick_nick n)) \<Longrightarrow> records_first w (perform w e)"
  by (simp add: records_first_def perform_def recorded_kicks_def) metis

lemma records_first_Nil: "records_first w (steps [])"
  by (simp add: records_first_def recorded_kicks_def)

lemma records_first_need: "records_first w (need w c)"
  by (simp add: records_first_def need_def recorded_kicks_def)

lemma records_first_halt: "records_first w (halt s)"
  by (simp add: records_first_def halt_def recorded_kicks_def)

interpretation recorded: handler_property w "\<lambda>e. \<forall>n. e \<noteq> Asked (Kick_nick n)" "records_first w" for w
  by unfold_locales (auto intro: records_first_perform records_first_need records_first_halt records_first_Nil records_first_Cons)

lemma records_first_present:
  assumes "u \<in> set (rm_active (w_room w))"
  shows "records_first w (shadow_ban_present w u)"
  unfolding records_first_def
proof
  fix tr
  define es where "es = [Ban_saved (ban_of u), Checked, Asked (Kick_nick (u_name u))]"
  have "recorded_kicks w tr es" if "succeeds w tr (Ban_saved (ban_of u))"
    unfolding recorded_kicks_def
  proof (intro allI impI)
    fix n assume "Asked (Kick_nick n) \<in> set es"
    then have "es = [] @ Ban_saved (ban_of u) # tl es" "u_name u = n" by (simp_all add: es_def)
    then show "\<exists>u ys xs. es = ys @ Ban_saved (ban_of u) # xs \<and> u \<in> set (rm_active (w_room w)) \<and> u_name u = n
        \<and> succeeds w (tr @ ys) (Ban_saved (ban_of u))"
      using that assms by (metis append_Nil2)
  qed
  moreover have "recorded_kicks w tr (take k es)" if "k < 3" for k
    using that by (cases k) (auto simp: recorded_kicks_def es_def take_Cons split: nat.splits)
  ultimately have "snd (shadow_ban_present w u tr) \<in> {tr @ zs |zs. recorded_kicks w tr zs}"
    by (auto simp: shadow_ban_present_def ban_of_def perform_def need_def recorded_kicks_def es_def)
  then show "\<exists>zs. snd (shadow_ban_present w u tr) = tr @ zs \<and> recorded_kicks w tr zs" by blast
qed

lemma shadow_ban_records_first: "records_first w (shadow_ban_command w m)"
  unfolding shadow_ban_command_def shadow_ban_single_def shadow_ban_containing_def
  by (intro recorded.good_intros records_first_present)
    (auto dest: pick_targets_active canonical_target_active simp: pick_targets_stop)

lemma shadow_ban_keeps_bans: "emits keeps_bans (shadow_ban_command w m)"
  unfolding shadow_ban_command_def shadow_ban_single_def shadow_ban_containing_def shadow_ban_present_def
  by (intro emits_intros) (simp_all add: keeps_bans_def pick_targets_stop)

text \<open>C8. Whoever is shadow-banned out of the room stays out.  In any run of the shadow-ban command, whatever fails in it,
  a kick names a user of the room whose record was stored before; after the run, every identity that shares that user's
  trip, nick or hash is recognised, and if one of them joins again the listener asks for its kick.\<close>

theorem shadow_banned_stay_out:
  assumes "shadow_ban_command w m [] = (s, tr)" "Asked (Kick_nick n) \<in> set tr"
  shows "\<exists>u. u \<in> set (rm_active (w_room w)) \<and> u_name u = n
     \<and> (\<forall>v payload. shares_identity (ban_of u) (u_trip v) (u_name v) (u_hash v) \<and> get_user payload = Some v
          \<longrightarrow> Kick_banned (u_name v) \<in> set (snd (user_joined (with_bans True False (ban_effects w now [] tr t) js) replicas payload rm)))"
proof -
  have "recorded_kicks w [] tr" "list_all keeps_bans tr"
    using shadow_ban_records_first [of w m] shadow_ban_keeps_bans [of w m] assms(1)
    unfolding records_first_def emits_def by (metis append_Nil snd_conv)+
  then obtain u ys xs where tr: "tr = ys @ Ban_saved (ban_of u) # xs" and u: "u \<in> set (rm_active (w_room w))" "u_name u = n"
      and ok: "succeeds w ys (Ban_saved (ban_of u))" and keep: "list_all keeps_bans xs"
    using assms(2) unfolding recorded_kicks_def by fastforce
  have "has_match False (u_trip v) (u_name v) (u_hash v) (ban_effects w now [] tr t) = Some True"
    if "shares_identity (ban_of u) (u_trip v) (u_name v) (u_hash v)" for v :: user
  proof -
    have "has_match False (u_trip v) (u_name v) (u_hash v) (ban_step w now ys (Ban_saved (ban_of u)) (ban_effects w now [] ys t)) = Some True"
      using ok has_match_saved [OF that] by (simp add: ban_step_def flip: stored_def)
    from ban_effects_keep [OF keep this] show ?thesis unfolding tr by (simp add: ban_effects_append)
  qed
  then show ?thesis using u banned_join_is_kicked by blast
qed

section \<open>Examples\<close>

definition merc :: user where
  "merc = zero_user\<lparr>u_name := lit ''merc'', u_trip := lit ''t1'', u_hash := lit ''h1''\<rparr>"

definition mercury :: user where
  "mercury = zero_user\<lparr>u_name := lit ''Mercury'', u_trip := lit ''t2'', u_hash := lit ''h2''\<rparr>"

text \<open>A room of two, and a world where everything but a reply succeeds\<close>

definition mod_room :: room where
  "mod_room = \<lparr>rm_name = lit ''bot'', rm_channel = lit ''lounge'', rm_active = [merc, mercury], rm_afk = [], rm_subscribers = [],
     rm_kicked_user = [], rm_kicked_channel = [], rm_prefix = lit ''*'', rm_prefixes = []\<rparr>"

definition mod_world :: world where
  "mod_world = \<lparr>w_accepts = (\<lambda>tr e. case e of Said a s b \<Rightarrow> False | _ \<Rightarrow> True), w_capable = (\<lambda>c. True), w_room = mod_room,
     w_bans = [], w_dropped = (\<lambda>v. 0), w_notes = [], w_last_online = None, w_registered = [], w_nicks = [], w_moved = False,
     w_queued = Queue_blank, w_admission = (False, None), w_auto_move = (False, [], [])\<rparr>"

definition mod_message :: "str \<Rightarrow> chat_message" where
  "mod_message s = \<lparr>m_whisper = False, m_is_whisper = False, m_cmd = lit ''chat'', m_name = lit ''mod'', m_trip = lit ''t9'',
     m_hash = [], m_time = 0, m_channel = lit ''lounge'', m_text = s, m_type = [], m_mod = True, m_flair = JNull, m_color = []\<rparr>"


lemma kick_run:
  "kick_command mod_world (mod_message (lit ''*kick -c erc'')) []
  = (None, [Checked, Checked, Asked (Kick_nick (lit ''merc'')), Checked, Checked, Asked (Kick_nick (lit ''Mercury'')), Checked])"
  by code_simp

definition shadow_reply :: handler_event where
  "shadow_reply = Said (lit ''mod'')
     (lit ''Shadow-ban record saved for merc trip: t1 hash: h1; kick request sent, server application unconfirmed.'') False"

lemma shadow_ban_run:
  "shadow_ban_command mod_world (mod_message (lit ''*shadowban @merc'')) []
    = (Some (Failed_at shadow_reply),
       [Checked, Checked, Ban_saved (ban_of merc), Checked, Asked (Kick_nick (lit ''merc'')), Checked, Checked, shadow_reply])"
  by code_simp

lemma example_handlers: "new_command (lit ''mute'') = Some mute_command" "new_command (lit ''kick'') = Some kick_command"
  by (simp_all add: new_command_def handlers_def)


theorem command_within_rights_witness:
  "list_all (within_rights mod_world (mod_message (lit ''*kick -c erc'')))
     [Checked, Checked, Asked (Kick_nick (lit ''merc'')), Checked, Checked, Asked (Kick_nick (lit ''Mercury'')), Checked]"
  by (rule command_within_rights [OF example_handlers(2) kick_run])


theorem shadow_banned_stay_out_witness:
  "Kick_banned (lit ''eve'') \<in> set (snd (user_joined
      (with_bans True False
         (ban_effects mod_world 5 [] (snd (shadow_ban_command mod_world (mod_message (lit ''*shadowban @merc'')) [])) no_bans)
         demo_services) [] demo_payload mod_room))"
proof -
  let ?tr = "snd (shadow_ban_command mod_world (mod_message (lit ''*shadowban @merc'')) [])"
  let ?v = "zero_user\<lparr>u_name := lit ''eve'', u_hash := lit ''h1'', u_userid := 7\<rparr>"
  have p: "get_user demo_payload = Some ?v" by code_simp
  have k: "Asked (Kick_nick (lit ''merc'')) \<in> set ?tr" by (simp add: shadow_ban_run del: lit_simps)
  obtain u where u: "u \<in> set (rm_active (w_room mod_world))" "u_name u = lit ''merc''"
    and out: "\<And>v payload. shares_identity (ban_of u) (u_trip v) (u_name v) (u_hash v) \<Longrightarrow> get_user payload = Some v
        \<Longrightarrow> Kick_banned (u_name v) \<in> set (snd (user_joined (with_bans True False (ban_effects mod_world 5 [] ?tr no_bans) demo_services) [] payload mod_room))"
    using shadow_banned_stay_out [OF prod.collapse [symmetric] k] by blast
  have "u = merc" using u by (auto simp: mod_world_def mod_room_def merc_def mercury_def)
  then have "shares_identity (ban_of u) (u_trip ?v) (u_name ?v) (u_hash ?v)" by (simp del: lit_simps) code_simp
  from out [OF this p] show ?thesis by (simp del: lit_simps)
qed

end
