(* ===== verification/Unicode_Graphic.thy ===== *)
theory Unicode_Graphic
  imports Unicode_Tables
begin

text \<open>
  The code points above ASCII of the general categories P, S and Zs (version 14.0, as closed ranges): together with letters,
  marks and numbers they are what \<open>strconv.QuoteToGraphic\<close> prints as they are.
\<close>

definition symbol_ranges :: "(rune \<times> rune) list" where
  "symbol_ranges = [
    (160, 169), (171, 172), (174, 177), (180, 180), (182, 184), (187, 187), (191, 191), (215, 215), (247, 247), (706, 709),
    (722, 735), (741, 747), (749, 749), (751, 767), (885, 885), (894, 894), (900, 901), (903, 903), (1014, 1014),
    (1154, 1154), (1370, 1375), (1417, 1418), (1421, 1423), (1470, 1470), (1472, 1472), (1475, 1475), (1478, 1478),
    (1523, 1524), (1542, 1551), (1563, 1563), (1565, 1567), (1642, 1645), (1748, 1748), (1758, 1758), (1769, 1769),
    (1789, 1790), (1792, 1805), (2038, 2041), (2046, 2047), (2096, 2110), (2142, 2142), (2184, 2184), (2404, 2405),
    (2416, 2416), (2546, 2547), (2554, 2555), (2557, 2557), (2678, 2678), (2800, 2801), (2928, 2928), (3059, 3066),
    (3191, 3191), (3199, 3199), (3204, 3204), (3407, 3407), (3449, 3449), (3572, 3572), (3647, 3647), (3663, 3663),
    (3674, 3675), (3841, 3863), (3866, 3871), (3892, 3892), (3894, 3894), (3896, 3896), (3898, 3901), (3973, 3973),
    (4030, 4037), (4039, 4044), (4046, 4058), (4170, 4175), (4254, 4255), (4347, 4347), (4960, 4968), (5008, 5017),
    (5120, 5120), (5741, 5742), (5760, 5760), (5787, 5788), (5867, 5869), (5941, 5942), (6100, 6102), (6104, 6107),
    (6144, 6154), (6464, 6464), (6468, 6469), (6622, 6655), (6686, 6687), (6816, 6822), (6824, 6829), (7002, 7018),
    (7028, 7038), (7164, 7167), (7227, 7231), (7294, 7295), (7360, 7367), (7379, 7379), (8125, 8125), (8127, 8129),
    (8141, 8143), (8157, 8159), (8173, 8175), (8189, 8190), (8192, 8202), (8208, 8231), (8239, 8287), (8314, 8318),
    (8330, 8334), (8352, 8384), (8448, 8449), (8451, 8454), (8456, 8457), (8468, 8468), (8470, 8472), (8478, 8483),
    (8485, 8485), (8487, 8487), (8489, 8489), (8494, 8494), (8506, 8507), (8512, 8516), (8522, 8525), (8527, 8527),
    (8586, 8587), (8592, 9254), (9280, 9290), (9372, 9449), (9472, 10101), (10132, 11123), (11126, 11157), (11159, 11263),
    (11493, 11498), (11513, 11516), (11518, 11519), (11632, 11632), (11776, 11822), (11824, 11869), (11904, 11929),
    (11931, 12019), (12032, 12245), (12272, 12283), (12288, 12292), (12296, 12320), (12336, 12336), (12342, 12343),
    (12349, 12351), (12443, 12444), (12448, 12448), (12539, 12539), (12688, 12689), (12694, 12703), (12736, 12771),
    (12800, 12830), (12842, 12871), (12880, 12880), (12896, 12927), (12938, 12976), (12992, 13311), (19904, 19967),
    (42128, 42182), (42238, 42239), (42509, 42511), (42611, 42611), (42622, 42622), (42738, 42743), (42752, 42774),
    (42784, 42785), (42889, 42890), (43048, 43051), (43062, 43065), (43124, 43127), (43214, 43215), (43256, 43258),
    (43260, 43260), (43310, 43311), (43359, 43359), (43457, 43469), (43486, 43487), (43612, 43615), (43639, 43641),
    (43742, 43743), (43760, 43761), (43867, 43867), (43882, 43883), (44011, 44011), (64297, 64297), (64434, 64450),
    (64830, 64847), (64975, 64975), (65020, 65023), (65040, 65049), (65072, 65106), (65108, 65126), (65128, 65131),
    (65281, 65295), (65306, 65312), (65339, 65344), (65371, 65381), (65504, 65510), (65512, 65518), (65532, 65533),
    (65792, 65794), (65847, 65855), (65913, 65929), (65932, 65934), (65936, 65948), (65952, 65952), (66000, 66044),
    (66463, 66463), (66512, 66512), (66927, 66927), (67671, 67671), (67703, 67704), (67871, 67871), (67903, 67903),
    (68176, 68184), (68223, 68223), (68296, 68296), (68336, 68342), (68409, 68415), (68505, 68508), (69293, 69293),
    (69461, 69465), (69510, 69513), (69703, 69709), (69819, 69820), (69822, 69825), (69952, 69955), (70004, 70005),
    (70085, 70088), (70093, 70093), (70107, 70107), (70109, 70111), (70200, 70205), (70313, 70313), (70731, 70735),
    (70746, 70747), (70749, 70749), (70854, 70854), (71105, 71127), (71233, 71235), (71264, 71276), (71353, 71353),
    (71484, 71487), (71739, 71739), (72004, 72006), (72162, 72162), (72255, 72262), (72346, 72348), (72350, 72354),
    (72769, 72773), (72816, 72817), (73463, 73464), (73685, 73713), (73727, 73727), (74864, 74868), (77809, 77810),
    (92782, 92783), (92917, 92917), (92983, 92991), (92996, 92997), (93847, 93850), (94178, 94178), (113820, 113820),
    (113823, 113823), (118608, 118723), (118784, 119029), (119040, 119078), (119081, 119140), (119146, 119148),
    (119171, 119172), (119180, 119209), (119214, 119274), (119296, 119361), (119365, 119365), (119552, 119638),
    (120513, 120513), (120539, 120539), (120571, 120571), (120597, 120597), (120629, 120629), (120655, 120655),
    (120687, 120687), (120713, 120713), (120745, 120745), (120771, 120771), (120832, 121343), (121399, 121402),
    (121453, 121460), (121462, 121475), (121477, 121483), (123215, 123215), (123647, 123647), (125278, 125279),
    (126124, 126124), (126128, 126128), (126254, 126254), (126704, 126705), (126976, 127019), (127024, 127123),
    (127136, 127150), (127153, 127167), (127169, 127183), (127185, 127221), (127245, 127405), (127462, 127490),
    (127504, 127547), (127552, 127560), (127568, 127569), (127584, 127589), (127744, 128727), (128733, 128748),
    (128752, 128764), (128768, 128883), (128896, 128984), (128992, 129003), (129008, 129008), (129024, 129035),
    (129040, 129095), (129104, 129113), (129120, 129159), (129168, 129197), (129200, 129201), (129280, 129619),
    (129632, 129645), (129648, 129652), (129656, 129660), (129664, 129670), (129680, 129708), (129712, 129722),
    (129728, 129733), (129744, 129753), (129760, 129767), (129776, 129782), (129792, 129938), (129940, 129994)
    ]"

end
