(* ===== verification/Regex.thy ===== *)
theory Regex
  imports Prelude "HOL-Library.Sublist"
begin

text \<open>
  The part of Go's package \<open>regexp\<close> that the program uses.  A pattern of the code is a value of \<open>regex\<close>; the lengths of its
  matches at a place are listed in the order in which a backtracking matcher of Perl tries them, of which Go takes
  the first.  No pattern of the program has a loop over a group that matches the empty text.
\<close>

section \<open>Patterns\<close>

datatype regex =
    Empty
  | Class "rune \<Rightarrow> bool"
  | Start
  | Stop
  | Word_boundary
  | Seq regex regex
  | Or regex regex
  | Many regex

text \<open>\<open>\s\<close>, \<open>\d\<close>, \<open>\w\<close>, and a rune of the pattern under the flag \<open>i\<close>\<close>

definition re_space :: "rune \<Rightarrow> bool" where
  "re_space c \<longleftrightarrow> c = 9 \<or> c = 10 \<or> c = 12 \<or> c = 13 \<or> c = 32"

definition re_word :: "rune \<Rightarrow> bool" where
  "re_word c \<longleftrightarrow> is_digit_ascii c \<or> is_upper_ascii c \<or> is_lower_ascii c \<or> c = 95"

definition re_folded :: "rune \<Rightarrow> rune \<Rightarrow> bool" where
  "re_folded c d \<longleftrightarrow> fold_rune c = fold_rune d"

definition re_text :: "str \<Rightarrow> regex" where
  "re_text s = foldr (\<lambda>c. Seq (Class (\<lambda>d. d = c))) s Empty"

definition re_fold_text :: "str \<Rightarrow> regex" where
  "re_fold_text s = foldr (\<lambda>c. Seq (Class (re_folded c))) s Empty"

fun re_any :: "regex list \<Rightarrow> regex" where
  "re_any [] = Class (\<lambda>_. False)"
| "re_any [r] = r"
| "re_any (r # rs) = Or r (re_any rs)"

fun re_seq :: "regex list \<Rightarrow> regex" where
  "re_seq [] = Empty"
| "re_seq [r] = r"
| "re_seq (r # rs) = Seq r (re_seq rs)"

abbreviation re_opt :: "regex \<Rightarrow> regex" where "re_opt r \<equiv> Or r Empty"
abbreviation re_some :: "regex \<Rightarrow> regex" where "re_some r \<equiv> Seq r (Many r)"

text \<open>Between \<open>m\<close> and \<open>m + k\<close> times, as many as possible\<close>

primrec re_upto :: "nat \<Rightarrow> regex \<Rightarrow> regex" where
  "re_upto 0 r = Empty"
| "re_upto (Suc k) r = re_opt (Seq r (re_upto k r))"

section \<open>Matching\<close>

text \<open>The rune before a place is \<open>None\<close> at the start of the text.\<close>

definition after :: "rune option \<Rightarrow> str \<Rightarrow> nat \<Rightarrow> rune option" where
  "after p s n = (if n = 0 \<or> s = [] then p else Some (s ! (min n (length s) - 1)))"

definition chain_ends ::
  "(rune option \<Rightarrow> str \<Rightarrow> nat list) \<Rightarrow> (rune option \<Rightarrow> str \<Rightarrow> nat list) \<Rightarrow> rune option \<Rightarrow> str \<Rightarrow> nat list" where
  "chain_ends f g p s = concat (map (\<lambda>n. map (\<lambda>k. n + k) (g (after p s n) (drop n s))) (f p s))"

primrec loop_ends :: "(rune option \<Rightarrow> str \<Rightarrow> nat list) \<Rightarrow> nat \<Rightarrow> rune option \<Rightarrow> str \<Rightarrow> nat list" where
  "loop_ends f 0 = (\<lambda>p s. [0])"
| "loop_ends f (Suc fuel) = (\<lambda>p s. chain_ends (\<lambda>p s. filter (\<lambda>n. 0 < n) (f p s)) (loop_ends f fuel) p s @ [0])"

definition word_at :: "rune option \<Rightarrow> bool" where
  "word_at p = (case p of None \<Rightarrow> False | Some c \<Rightarrow> re_word c)"

definition next_rune :: "str \<Rightarrow> rune option" where
  "next_rune s = (case s of [] \<Rightarrow> None | c # cs \<Rightarrow> Some c)"

primrec ends :: "regex \<Rightarrow> rune option \<Rightarrow> str \<Rightarrow> nat list" where
  "ends Empty = (\<lambda>p s. [0])"
| "ends (Class q) = (\<lambda>p s. case s of [] \<Rightarrow> [] | c # cs \<Rightarrow> if q c then [1] else [])"
| "ends Start = (\<lambda>p s. if p = None then [0] else [])"
| "ends Stop = (\<lambda>p s. if s = [] then [0] else [])"
| "ends Word_boundary = (\<lambda>p s. if word_at p \<noteq> word_at (next_rune s) then [0] else [])"
| "ends (Seq r1 r2) = chain_ends (ends r1) (ends r2)"
| "ends (Or r1 r2) = (\<lambda>p s. ends r1 p s @ ends r2 p s)"
| "ends (Many r) = (\<lambda>p s. loop_ends (ends r) (length s) p s)"

text \<open>\<open>MatchString\<close>\<close>

fun matches_from :: "regex \<Rightarrow> rune option \<Rightarrow> str \<Rightarrow> bool" where
  "matches_from r p s \<longleftrightarrow> ends r p s \<noteq> [] \<or> (case s of [] \<Rightarrow> False | c # cs \<Rightarrow> matches_from r (Some c) cs)"

declare matches_from.simps [simp del]

definition match_string :: "regex \<Rightarrow> str \<Rightarrow> bool" where
  "match_string r s = matches_from r None s"

text \<open>\<open>FindAllString\<close> for patterns that match no empty text: each match with the rune before it and the text after it\<close>

function find_all :: "regex \<Rightarrow> rune option \<Rightarrow> str \<Rightarrow> (rune option \<times> str \<times> str) list" where
  "find_all r p s =
     (case s of [] \<Rightarrow> []
      | c # cs \<Rightarrow>
          (case ends r p s of
             [] \<Rightarrow> find_all r (Some c) cs
           | n # _ \<Rightarrow>
               if n = 0 then find_all r (Some c) cs
               else (p, take n s, drop n s) # find_all r (after p s n) (drop n s)))"
  by pat_completeness auto
termination by (relation "measure (\<lambda>(r, p, s). length s)") auto

declare find_all.simps [simp del]

text \<open>\<open>ReplaceAllStringFunc\<close>\<close>

function replace_from :: "regex \<Rightarrow> (str \<Rightarrow> str) \<Rightarrow> rune option \<Rightarrow> str \<Rightarrow> str" where
  "replace_from r f p s =
     (case s of [] \<Rightarrow> []
      | c # cs \<Rightarrow>
          (case ends r p s of
             [] \<Rightarrow> c # replace_from r f (Some c) cs
           | n # _ \<Rightarrow>
               if n = 0 then c # replace_from r f (Some c) cs
               else f (take n s) @ replace_from r f (after p s n) (drop n s)))"
  by pat_completeness auto
termination by (relation "measure (\<lambda>(r, f, p, s). length s)") auto

declare replace_from.simps [simp del]

definition replace_all :: "regex \<Rightarrow> (str \<Rightarrow> str) \<Rightarrow> str \<Rightarrow> str" where
  "replace_all r f s = replace_from r f None s"

section \<open>Lemmas\<close>

lemma ends_class: "ends (Class q) p s = (if s \<noteq> [] \<and> q (hd s) then [1] else [])"
  by (cases s) auto

lemma chain_ends_single: "f p s = [n] \<Longrightarrow> chain_ends f g p s = map (\<lambda>k. n + k) (g (after p s n) (drop n s))"
  by (simp add: chain_ends_def)

lemma chain_ends_none: "f p s = [] \<Longrightarrow> chain_ends f g p s = []"
  by (simp add: chain_ends_def)

lemma ends_text: "ends (re_text t) p s = (if has_prefix s t then [length t] else [])"
proof (induction t arbitrary: p s)
  case (Cons c t)
  show ?case
    using Cons by (cases s) (auto simp: re_text_def chain_ends_def has_prefix_def)
qed (simp add: re_text_def has_prefix_def)

lemma ends_fold_text:
  "ends (re_fold_text t) p s = (if equal_fold (take (length t) s) t \<and> length t \<le> length s then [length t] else [])"
proof (induction t arbitrary: p s)
  case (Cons c t)
  show ?case
    using Cons by (cases s) (auto simp: re_fold_text_def chain_ends_def equal_fold_def re_folded_def)
qed (simp add: re_fold_text_def equal_fold_def)

lemma re_any_Cons: "rs \<noteq> [] \<Longrightarrow> re_any (r # rs) = Or r (re_any rs)"
  by (cases rs) auto

lemma ends_any: "ends (re_any rs) p s = concat (map (\<lambda>r. ends r p s) rs)"
proof (induction rs)
  case (Cons r rs)
  then show ?case
    by (cases "rs = []") (simp_all add: re_any_Cons)
qed (simp split: list.split)

lemma after_Suc: "after p (c # cs) (Suc n) = after (Some c) cs n"
  by (cases cs; cases n) (auto simp: after_def min_def)

lemma matches_from_iff: "matches_from r p s \<longleftrightarrow> (\<exists>n \<le> length s. ends r (after p s n) (drop n s) \<noteq> [])"
proof (induction s arbitrary: p)
  case Nil
  show ?case
    by (subst matches_from.simps) (simp add: after_def)
next
  case (Cons c s)
  have "(\<exists>n \<le> length (c # s). Q n) \<longleftrightarrow> Q 0 \<or> (\<exists>n \<le> length s. Q (Suc n))" for Q
    by (metis Suc_le_mono le0 length_Cons not0_implies_Suc)
  then show ?case
    by (subst matches_from.simps) (simp add: Cons after_Suc after_def [of _ _ 0])
qed

text \<open>A text of the pattern is found exactly if it is a part of the text searched.\<close>

lemma match_text: "match_string (re_text t) s \<longleftrightarrow> sublist t s"
proof -
  have "match_string (re_text t) s \<longleftrightarrow> (\<exists>n \<le> length s. \<exists>v. drop n s = t @ v)"
    by (simp add: match_string_def matches_from_iff ends_text has_prefix_def) (metis append_eq_conv_conj append_take_drop_id)
  also have "\<dots> \<longleftrightarrow> sublist t s"
  proof
    assume "sublist t s"
    then obtain u v where "s = u @ t @ v"
      by (auto simp: sublist_def)
    then have "length u \<le> length s \<and> drop (length u) s = t @ v"
      by simp
    then show "\<exists>n \<le> length s. \<exists>v. drop n s = t @ v"
      by blast
  qed (metis append_take_drop_id sublist_def)
  finally show ?thesis .
qed

lemma loop_ends_bound:
  assumes "\<And>p s n. n \<in> set (f p s) \<Longrightarrow> n \<le> length s"
  shows "n \<in> set (loop_ends f k p s) \<Longrightarrow> n \<le> length s"
proof (induction k arbitrary: n p s)
  case (Suc k)
  have "a + b \<le> length s" if "a \<in> set (f p s)" "b \<in> set (loop_ends f k q (drop a s))" for a b q
    using assms [OF that(1)] Suc.IH [OF that(2)] by simp
  then show ?case
    using Suc.prems by (auto simp: chain_ends_def)
qed simp

lemma ends_bound: "n \<in> set (ends r p s) \<Longrightarrow> n \<le> length s"
proof (induction r arbitrary: n p s)
  case (Seq r1 r2)
  have "a + b \<le> length s" if "a \<in> set (ends r1 p s)" "b \<in> set (ends r2 q (drop a s))" for a b q
    using Seq.IH(1) [OF that(1)] Seq.IH(2) [OF that(2)] by simp
  then show ?case
    using Seq.prems by (auto simp: chain_ends_def)
next
  case (Many r)
  then show ?case
    using loop_ends_bound [of "ends r"] by auto
qed (auto split: list.splits if_splits)

text \<open>Replacing matches by parts of them brings no new rune into a text.\<close>

lemma replace_from_subset: "(\<And>m. set (f m) \<subseteq> set m) \<Longrightarrow> set (replace_from r f p s) \<subseteq> set s"
proof (induction r f p s rule: replace_from.induct)
  case (1 r f p s)
  have *: "set (f (take n s)) \<subseteq> set s" "set (drop n s) \<subseteq> set s" for n
    using 1(4) [of "take n s"] set_take_subset [of n s] set_drop_subset [of n s] by auto
  show ?case
  proof (cases s)
    case (Cons c cs)
    show ?thesis
    proof (cases "\<exists>n ns. ends r p s = n # ns \<and> n \<noteq> 0")
      case True
      then obtain n ns where n: "ends r p s = n # ns" "n \<noteq> 0"
        by blast
      then show ?thesis
        using 1(3) [OF Cons n 1(4)] * [of n] Cons by (subst replace_from.simps) auto
    next
      case False
      then have "set (replace_from r f (Some c) cs) \<subseteq> set cs"
        using 1(1,2) [OF Cons] 1(4) by (cases "ends r p s") auto
      then show ?thesis
        using False Cons by (subst replace_from.simps) (auto split: list.splits)
    qed
  qed (subst replace_from.simps, simp)
qed

lemma replace_all_subset: "(\<And>m. set (f m) \<subseteq> set m) \<Longrightarrow> set (replace_all r f s) \<subseteq> set s"
  by (simp add: replace_all_def replace_from_subset)

end
