(* ===== verification/Schema.thy ===== *)
theory Schema
  imports Canonical
begin

text \<open>
  \<open>internal/agent/tool/contract/schema.go\<close>: which JSON schemas a tool may declare, and whether a value
  conforms to one.  A \<open>RawMessage\<close> inside a schema or a value is a decoded \<open>json\<close>; only the outermost texts
  are parsed.  Of an error only its existence is modelled, not its message, so a check is a boolean
  and the checks that loop over a Go map do not depend on its order.
\<close>

section \<open>Sizes\<close>

lemma size_prod_snd: "size_prod (\<lambda>_. 0) size = (\<lambda>x. Suc (size (snd x)))"
  by (rule ext) (metis add_0 add_Suc_right prod.collapse prod.size(1) size_prod_simp add.right_neutral)

lemma get_size: "get kvs k = Some x \<Longrightarrow> size x < size (JObj kvs :: 'n jsonv)"
  using size_member [of k x kvs] by (simp add: get_eq set_members size_prod_snd)

lemma as_object_member_size:
  "as_object v = Some kvs \<Longrightarrow> (k, x) \<in> set (members kvs) \<Longrightarrow> size x < size (v :: 'n jsonv)"
  using size_member [of k x kvs] by (auto simp: as_object_def members_def size_prod_snd split: jsonv.splits)

lemma as_object_get_size: "as_object v = Some kvs \<Longrightarrow> get kvs k = Some x \<Longrightarrow> size x < size (v :: 'n jsonv)"
  using as_object_member_size [of v kvs k x] by (simp add: get_eq set_members)

lemma as_list_size: "as_list v = Some xs \<Longrightarrow> x \<in> set xs \<Longrightarrow> size x < size (v :: 'n jsonv)"
  by (auto simp: as_list_def less_Suc_eq_le size_list_estimation' split: jsonv.splits)

section \<open>Types\<close>

definition supported :: "str \<Rightarrow> bool" where
  "supported t \<longleftrightarrow> t \<in> set (map lit [''any'', ''string'', ''boolean'', ''number'', ''integer'', ''object'', ''array'', ''null''])"

definition supported_schema_keyword :: "str \<Rightarrow> bool" where
  "supported_schema_keyword k \<longleftrightarrow> k \<in> set (map lit [''type'', ''description'', ''enum'', ''const'', ''oneOf'', ''required'',
     ''additionalProperties'', ''properties'', ''items'', ''minItems'', ''maxItems'', ''minLength'', ''maxLength'',
     ''minimum'', ''maximum''])"

text \<open>\<open>validateDecodedType\<close>, on the value decoded with \<open>UseNumber\<close>\<close>

definition decoded_type :: "str \<Rightarrow> json \<Rightarrow> bool" where
  "decoded_type typ v =
     (if typ = lit ''any'' then True
      else if typ = lit ''string'' then (case v of JStr _ \<Rightarrow> True | _ \<Rightarrow> False)
      else if typ = lit ''boolean'' then (case v of JBool _ \<Rightarrow> True | _ \<Rightarrow> False)
      else if typ = lit ''number'' then (case v of JNum _ \<Rightarrow> True | _ \<Rightarrow> False)
      else if typ = lit ''integer'' then
        (case v of JNum s \<Rightarrow> (case parse_float s of None \<Rightarrow> False
           | Some f \<Rightarrow> float_is_integer f) | _ \<Rightarrow> False)
      else if typ = lit ''object'' then (case v of JObj _ \<Rightarrow> True | _ \<Rightarrow> False)
      else if typ = lit ''array'' then (case v of JArr _ \<Rightarrow> True | _ \<Rightarrow> False)
      else if typ = lit ''null'' then (case v of JNull \<Rightarrow> True | _ \<Rightarrow> False)
      else False)"

section \<open>Schemas\<close>

type_synonym schema = "(str \<times> json) list"

text \<open>\<open>json.Unmarshal(s[name], \<dots>)\<close> where a missing keyword is an error\<close>

definition keyword_as :: "(json \<Rightarrow> 'a option) \<Rightarrow> schema \<Rightarrow> string \<Rightarrow> 'a option" where
  "keyword_as f s name = Option.bind (get s (lit name)) f"

text \<open>\<open>integerConstraint\<close> and \<open>numberConstraint\<close>: \<open>None\<close> is an error, \<open>Some None\<close> the absent keyword.\<close>

definition integer_constraint :: "schema \<Rightarrow> string \<Rightarrow> int option option" where
  "integer_constraint s name =
     (case get s (lit name) of None \<Rightarrow> Some None
      | Some raw \<Rightarrow> (case as_int raw of Some i \<Rightarrow> if i < 0 then None else Some (Some i) | None \<Rightarrow> None))"

definition number_constraint :: "schema \<Rightarrow> string \<Rightarrow> rat option option" where
  "number_constraint s name =
     (case get s (lit name) of None \<Rightarrow> Some None
      | Some raw \<Rightarrow> (case as_float raw of Some f \<Rightarrow> Some (Some f) | None \<Rightarrow> None))"

definition ordered_bounds :: "'a::linorder option option \<Rightarrow> 'a option option \<Rightarrow> bool \<Rightarrow> bool" where
  "ordered_bounds lo hi allowed =
     (case (lo, hi) of
        (Some l, Some h) \<Rightarrow>
          ((l \<noteq> None \<or> h \<noteq> None) \<longrightarrow> allowed)
          \<and> (case (l, h) of (Some x, Some y) \<Rightarrow> x \<le> y | _ \<Rightarrow> True)
      | _ \<Rightarrow> False)"

definition integer_bounds :: "schema \<Rightarrow> string \<Rightarrow> string \<Rightarrow> bool \<Rightarrow> bool" where
  "integer_bounds s min_name max_name allowed =
     ordered_bounds (integer_constraint s min_name) (integer_constraint s max_name) allowed"

definition number_bounds :: "schema \<Rightarrow> bool \<Rightarrow> bool" where
  "number_bounds s allowed =
     ordered_bounds (number_constraint s ''minimum'') (number_constraint s ''maximum'') allowed"

text \<open>The keywords of one node that are not schemas themselves\<close>

definition required_ok :: "schema \<Rightarrow> str \<Rightarrow> schema \<Rightarrow> bool" where
  "required_ok s typ properties =
     (case get s (lit ''required'') of None \<Rightarrow> True
      | Some raw \<Rightarrow> typ = lit ''object'' \<and>
          (case as_strings raw of None \<Rightarrow> False
           | Some names \<Rightarrow> distinct names
               \<and> list_all (\<lambda>name. trim_space name \<noteq> [] \<and> get properties name \<noteq> None) names))"

definition additional_ok :: "schema \<Rightarrow> str \<Rightarrow> bool" where
  "additional_ok s typ =
     (case get s (lit ''additionalProperties'') of None \<Rightarrow> True
      | Some raw \<Rightarrow> typ = lit ''object'' \<and> as_bool False raw \<noteq> None)"

definition values_ok :: "schema \<Rightarrow> str \<Rightarrow> bool" where
  "values_ok s typ \<longleftrightarrow>
     (case get s (lit ''enum'') of None \<Rightarrow> True
      | Some raw \<Rightarrow> (case as_list raw of None \<Rightarrow> False
           | Some vs \<Rightarrow> vs \<noteq> [] \<and> list_all (decoded_type typ) vs))
     \<and> (case get s (lit ''const'') of None \<Rightarrow> True | Some v \<Rightarrow> decoded_type typ v)"

definition bounds_ok :: "schema \<Rightarrow> str \<Rightarrow> bool" where
  "bounds_ok s typ \<longleftrightarrow>
     integer_bounds s ''minLength'' ''maxLength'' (typ = lit ''string'')
     \<and> integer_bounds s ''minItems'' ''maxItems'' (typ = lit ''array'')
     \<and> number_bounds s (typ = lit ''number'' \<or> typ = lit ''integer'')"

text \<open>The common type of the branches of \<open>oneOf\<close>\<close>

fun common_type :: "str \<Rightarrow> str option list \<Rightarrow> str option" where
  "common_type c [] = Some c"
| "common_type c (None # bs) = None"
| "common_type c (Some t # bs) = common_type (if c = [] then t else if c \<noteq> t then lit ''any'' else c) bs"

text \<open>\<open>validateSchemaNode\<close>: the type of the node, or \<open>None\<close> for an error\<close>

function (sequential) schema_node :: "json \<Rightarrow> str option" where
  "schema_node (JObj s) =
     (if \<not> list_all (\<lambda>(k, _). supported_schema_keyword k) s then None
      else case get s (lit ''oneOf'') of
        Some raw \<Rightarrow>
          if \<not> list_all (\<lambda>(k, _). k = lit ''oneOf'' \<or> k = lit ''description'') s then None
          else (case as_list raw of None \<Rightarrow> None
                | Some bs \<Rightarrow> if length bs < 2 then None else common_type [] (map schema_node bs))
      | None \<Rightarrow>
          (case keyword_as as_string s ''type'' of None \<Rightarrow> None
           | Some typ \<Rightarrow>
               if \<not> supported typ then None
               else
                 let properties = (case get s (lit ''properties'') of None \<Rightarrow> []
                       | Some p \<Rightarrow> (case as_object p of None \<Rightarrow> [] | Some ps \<Rightarrow> ps))
                 in if (case get s (lit ''properties'') of None \<Rightarrow> True
                        | Some p \<Rightarrow> typ = lit ''object'' \<and> p \<noteq> JNull \<and>
                            (case as_object p of None \<Rightarrow> False
                             | Some ps \<Rightarrow> list_all (\<lambda>(name, q). trim_space name \<noteq> [] \<and> schema_node q \<noteq> None) (members ps)))
                       \<and> additional_ok s typ
                       \<and> required_ok s typ properties
                       \<and> (case get s (lit ''items'') of None \<Rightarrow> True
                          | Some q \<Rightarrow> typ = lit ''array'' \<and> schema_node q \<noteq> None)
                       \<and> bounds_ok s typ
                       \<and> values_ok s typ
                    then Some typ else None))"
| "schema_node _ = None"
  by pat_completeness auto
termination
  by (relation "measure size")
    (auto dest!: get_size as_list_size as_object_member_size simp del: jsonv.size)

declare schema_node.simps [simp del]

text \<open>\<open>ValidateSchema\<close>: the root of a parameter schema declares its own type.\<close>

definition validate_schema :: "json \<Rightarrow> bool \<Rightarrow> bool" where
  "validate_schema raw parameters =
     (case schema_node raw of None \<Rightarrow> False
      | Some typ \<Rightarrow>
          parameters \<longrightarrow>
            typ = lit ''object'' \<and>
            (case raw of JObj s \<Rightarrow> keyword_as as_string s ''type'' = Some (lit ''object'') | _ \<Rightarrow> False))"

section \<open>Values\<close>

text \<open>\<open>bytes.Equal(CanonicalJSON(a), CanonicalJSON(b))\<close>; a value whose numbers overflow is compared as it is.\<close>

definition canonical_form :: "json \<Rightarrow> str + json" where
  "canonical_form v = (case floats v of Some w \<Rightarrow> Inl (canonical w) | None \<Rightarrow> Inr v)"

definition type_keyword :: "schema \<Rightarrow> str" where
  "type_keyword s = (case keyword_as as_string s ''type'' of Some t \<Rightarrow> t | None \<Rightarrow> [])"

definition constant_ok :: "schema \<Rightarrow> json \<Rightarrow> bool" where
  "constant_ok s v \<longleftrightarrow>
     (case get s (lit ''const'') of None \<Rightarrow> True | Some c \<Rightarrow> canonical_form c = canonical_form v)
     \<and> (case keyword_as as_list s ''enum'' of None \<Rightarrow> True
        | Some es \<Rightarrow> es = [] \<or> list_ex (\<lambda>e. canonical_form e = canonical_form v) es)"

definition at_least :: "'a::linorder option \<Rightarrow> 'a \<Rightarrow> bool" where
  "at_least lo x = (case lo of None \<Rightarrow> True | Some l \<Rightarrow> \<not> x < l)"

definition at_most :: "'a::linorder option \<Rightarrow> 'a \<Rightarrow> bool" where
  "at_most hi x = (case hi of None \<Rightarrow> True | Some h \<Rightarrow> \<not> h < x)"

text \<open>The bounds of strings, numbers and arrays\<close>

definition size_ok :: "schema \<Rightarrow> json \<Rightarrow> bool" where
  "size_ok s v =
     (case v of
        JStr t \<Rightarrow> at_least (keyword_as as_int s ''minLength'') (int (length t))
                   \<and> at_most (keyword_as as_int s ''maxLength'') (int (length t))
      | JNum n \<Rightarrow> (case parse_float n of None \<Rightarrow> False
          | Some f \<Rightarrow> at_least (keyword_as as_float s ''minimum'') (float_value f)
                   \<and> at_most (keyword_as as_float s ''maximum'') (float_value f))
      | JArr xs \<Rightarrow> at_least (keyword_as as_int s ''minItems'') (int (length xs))
                   \<and> at_most (keyword_as as_int s ''maxItems'') (int (length xs))
      | _ \<Rightarrow> True)"

definition properties_of :: "schema \<Rightarrow> schema" where
  "properties_of s = (case keyword_as as_object s ''properties'' of Some ps \<Rightarrow> ps | None \<Rightarrow> [])"

definition required_of :: "schema \<Rightarrow> str list" where
  "required_of s = (case keyword_as as_strings s ''required'' of Some ns \<Rightarrow> ns | None \<Rightarrow> [])"

definition additional_of :: "schema \<Rightarrow> bool" where
  "additional_of s = (case keyword_as (as_bool True) s ''additionalProperties'' of Some b \<Rightarrow> b | None \<Rightarrow> True)"

lemma branch_size:
  "as_object raw = Some s \<Longrightarrow> get s k = Some a \<Longrightarrow> as_list a = Some bs \<Longrightarrow> b \<in> set bs \<Longrightarrow> size b < size raw"
  using as_object_get_size as_list_size less_trans by blast

lemma member_size:
  "as_object raw = Some s \<Longrightarrow> get s k = Some p \<Longrightarrow> as_object p = Some ps \<Longrightarrow> (n, q) \<in> set (members ps) \<Longrightarrow>
    size q < size raw"
  using as_object_get_size as_object_member_size less_trans by blast

lemma property_size: "as_object raw = Some s \<Longrightarrow> get (properties_of s) name = Some p \<Longrightarrow> size p < size raw"
  using as_object_get_size [of raw s] as_object_get_size [of _ _ name p]
  by (auto simp: properties_of_def keyword_as_def get_def bind_eq_Some_conv split: option.splits) (meson less_trans)

text \<open>\<open>validateValue\<close>; members and items are encoded again before they are checked, which sorts them.\<close>

function (sequential) validate_value :: "json \<Rightarrow> json \<Rightarrow> bool" where
  "validate_value raw v =
     (case as_object raw of None \<Rightarrow> False
      | Some s \<Rightarrow>
        (case get s (lit ''oneOf'') of
           Some alternatives \<Rightarrow>
             (case as_list alternatives of None \<Rightarrow> False
              | Some bs \<Rightarrow> length (filter (\<lambda>b. validate_value b v) bs) = 1)
         | None \<Rightarrow>
             decoded_type (type_keyword s) v \<and> constant_ok s v \<and> size_ok s v
             \<and> (case v of
                  JObj kvs \<Rightarrow>
                    list_all (\<lambda>name. get kvs name \<noteq> None) (required_of s)
                    \<and> list_all (\<lambda>(name, x).
                         (case get (properties_of s) name of None \<Rightarrow> additional_of s
                          | Some p \<Rightarrow> validate_value p (normal x))) (members kvs)
                | JArr xs \<Rightarrow>
                    (case get s (lit ''items'') of None \<Rightarrow> True
                     | Some q \<Rightarrow> list_all (\<lambda>x. validate_value q (normal x)) xs)
                | _ \<Rightarrow> True)))"
  by pat_completeness auto
termination
  by (relation "measure (\<lambda>(raw, v). size raw)")
    (auto simp del: jsonv.size intro: branch_size property_size as_object_get_size)

declare validate_value.simps [simp del]

text \<open>\<open>ValidateArguments\<close> and \<open>ValidateResult\<close> on texts\<close>

definition validate_arguments :: "json \<Rightarrow> str \<Rightarrow> bool" where
  "validate_arguments sch raw \<longleftrightarrow> validate_schema sch True
     \<and> (let text1 = (if trim_space raw = [] then lit ''{}'' else raw)
        in case parse_json text1 of None \<Rightarrow> False | Some v \<Rightarrow> validate_value sch v)"

definition validate_result :: "json \<Rightarrow> str \<Rightarrow> bool" where
  "validate_result sch raw \<longleftrightarrow> validate_schema sch False
     \<and> (case parse_json raw of None \<Rightarrow> False | Some v \<Rightarrow> validate_value sch v)"

section \<open>Strict provider schemas\<close>

text \<open>\<open>supportsStrictNode\<close>\<close>

function (sequential) strict_node :: "json \<Rightarrow> bool" where
  "strict_node raw =
     (case as_object raw of None \<Rightarrow> False
      | Some s \<Rightarrow>
          get s (lit ''oneOf'') = None
          \<and> (case keyword_as as_string s ''type'' of None \<Rightarrow> False
             | Some typ \<Rightarrow>
                 typ \<noteq> lit ''any''
                 \<and> (typ = lit ''object'' \<longrightarrow>
                      keyword_as (as_bool False) s ''additionalProperties'' = Some False
                      \<and> (case get s (lit ''properties'') of None \<Rightarrow> False
                         | Some p \<Rightarrow> p \<noteq> JNull \<and>
                            (case as_object p of None \<Rightarrow> False
                             | Some ps \<Rightarrow>
                                (case get s (lit ''required'') of None \<Rightarrow> members ps = []
                                 | Some r \<Rightarrow> (case as_strings r of None \<Rightarrow> False
                                     | Some names \<Rightarrow> length names = length (members ps)))
                                \<and> list_all (\<lambda>(_, q). strict_node q) (members ps))))
                 \<and> (typ = lit ''array'' \<longrightarrow>
                      (case get s (lit ''items'') of None \<Rightarrow> False | Some q \<Rightarrow> strict_node q))))"
  by pat_completeness auto
termination
  by (relation "measure size")
    (auto simp del: jsonv.size intro: member_size as_object_get_size)

declare strict_node.simps [simp del]

text \<open>\<open>SupportsStrictParameters\<close>; the literal comparison of the root type is that of its value.\<close>

definition supports_strict :: "json \<Rightarrow> bool" where
  "supports_strict raw \<longleftrightarrow> validate_schema raw True
     \<and> (case as_object raw of None \<Rightarrow> False
        | Some s \<Rightarrow> get s (lit ''type'') = Some (JStr (lit ''object''))) \<and> strict_node raw"

section \<open>Validation sees canonical values\<close>

lemma finite_obj: "finite_numbers (JObj kvs) \<longleftrightarrow> (\<forall>(k, v) \<in> set kvs. finite_numbers v)"
  by (auto simp: list_all_iff)

lemma finite_member: "finite_numbers (JObj kvs) \<Longrightarrow> (k, v) \<in> set (members kvs) \<Longrightarrow> finite_numbers v"
  using set_entries [of kvs] unfolding finite_obj set_members by blast

lemma finite_normal: "finite_numbers v \<Longrightarrow> finite_numbers (normal v)"
proof (induction v rule: normal.induct)
  case (2 kvs)
  then show ?case using finite_member [OF 2(2)] by (auto simp: finite_obj set_map_values simp del: finite_numbers.simps)
qed (auto simp: list_all_iff)

definition canon :: "json \<Rightarrow> float64 jsonv" where
  "canon v = normal (map_jsonv (\<lambda>s. the (parse_float s)) v)"

lemma map_jsonv_obj: "map_jsonv g (JObj kvs) = JObj (map_values (map_jsonv g) kvs)"
  by (simp add: map_values_def map_prod_def case_prod_beta)

lemma canon_simps [simp]:
  "canon JNull = JNull" "canon (JBool b) = JBool b" "canon (JNum n) = JNum (the (parse_float n))" "canon (JStr s) = JStr s"
  "canon (JArr xs) = JArr (map canon xs)"
  "canon (JObj kvs) = JObj (map_values canon (members kvs))"
  unfolding canon_def map_jsonv_obj by (simp_all add: canon_def)

lemma canon_normal [simp]: "canon (normal v) = canon v"
proof (induction v rule: normal.induct)
  case (2 kvs)
  then have "map_values (\<lambda>v. canon (normal v)) (members kvs) = map_values canon (members kvs)"
    by (intro map_values_cong) auto
  then show ?case by simp
qed (auto simp: canon_def)

text \<open>Values that are the same to a decoder: equal as maps, slices and floats\<close>

definition same_value :: "json \<Rightarrow> json \<Rightarrow> bool" where
  "same_value v w \<longleftrightarrow> finite_numbers v \<and> finite_numbers w \<and> canon v = canon w"

lemma same_value_normal: "same_value v w \<Longrightarrow> same_value (normal v) (normal w)"
  by (simp add: same_value_def finite_normal)

lemma same_value_obj:
  assumes "same_value (JObj kvs) w"
  obtains kvs' where "w = JObj kvs'" "\<And>k. get kvs k = None \<longleftrightarrow> get kvs' k = None"
    "map fst (members kvs) = map fst (members kvs')"
    "list_all2 (\<lambda>p q. fst p = fst q \<and> same_value (snd p) (snd q)) (members kvs) (members kvs')"
proof -
  obtain kvs' where w: "w = JObj kvs'" using assms by (cases w) (auto simp: same_value_def)
  have eq: "map_values canon (members kvs) = map_values canon (members kvs')"
    using assms by (simp add: same_value_def w)
  have "map_option canon (get kvs k) = map_option canon (get kvs' k)" for k
    using arg_cong [OF eq, of "\<lambda>m. get m k"] by simp
  then have "get kvs k = None \<longleftrightarrow> get kvs' k = None" for k by (metis option.map_disc_iff)
  moreover have "map fst (members kvs) = map fst (members kvs')"
    using arg_cong [OF eq, of "map fst"] by simp
  moreover have "list_all2 (\<lambda>p q. fst p = fst q \<and> same_value (snd p) (snd q)) (members kvs) (members kvs')"
  proof (rule list_all2_all_nthI)
    show len: "length (members kvs) = length (members kvs')"
      using arg_cong [OF eq, of length] by (simp add: map_values_def)
    fix n assume n: "n < length (members kvs)"
    then have "fst (members kvs ! n) = fst (members kvs' ! n) \<and> canon (snd (members kvs ! n)) = canon (snd (members kvs' ! n))"
      using arg_cong [OF eq, of "\<lambda>m. m ! n"] len by (simp add: map_values_def)
    moreover have "finite_numbers (snd (members kvs ! n))" "finite_numbers (snd (members kvs' ! n))"
    proof -
      have "finite_numbers (JObj kvs)" "finite_numbers (JObj kvs')"
        using assms by (simp_all only: same_value_def w)
      moreover have "(fst (members kvs ! n), snd (members kvs ! n)) \<in> set (members kvs)"
        "(fst (members kvs' ! n), snd (members kvs' ! n)) \<in> set (members kvs')"
        using n len by simp_all
      ultimately show "finite_numbers (snd (members kvs ! n))" "finite_numbers (snd (members kvs' ! n))"
        using finite_member by blast+
    qed
    ultimately show "fst (members kvs ! n) = fst (members kvs' ! n) \<and> same_value (snd (members kvs ! n)) (snd (members kvs' ! n))"
      by (simp add: same_value_def)
  qed
  ultimately show thesis using that w by blast
qed

lemma same_value_arr:
  assumes "same_value (JArr xs) w"
  obtains ys where "w = JArr ys" "list_all2 same_value xs ys"
proof -
  obtain ys where w: "w = JArr ys" using assms by (cases w) (auto simp: same_value_def)
  then have "list_all2 same_value xs ys"
    using assms by (auto simp: same_value_def list_all2_conv_all_nth list_all_length list_eq_iff_nth_eq)
  then show thesis using that w by blast
qed

lemma same_value_num:
  "same_value (JNum n) w \<Longrightarrow> \<exists>m. w = JNum m \<and> parse_float n = parse_float m \<and> parse_float n \<noteq> None"
  by (cases w) (auto simp: same_value_def)

lemma canonical_form_same: "same_value v w \<Longrightarrow> canonical_form v = canonical_form w"
proof -
  have "finite_numbers v \<Longrightarrow> canonical_form v = Inl (canonical (canon v))" for v
    by (simp add: canonical_form_def floats_def canon_def)
  then show "same_value v w \<Longrightarrow> canonical_form v = canonical_form w" by (simp add: same_value_def)
qed

lemma same_value_cases:
  assumes "same_value v w"
  obtains (null) "v = JNull" "w = JNull"
    | (bool) b where "v = JBool b" "w = JBool b"
    | (num) n m where "v = JNum n" "w = JNum m" "parse_float n = parse_float m" "parse_float n \<noteq> None"
    | (str) t where "v = JStr t" "w = JStr t"
    | (arr) xs ys where "v = JArr xs" "w = JArr ys" "list_all2 same_value xs ys"
    | (obj) kvs kvs' where "v = JObj kvs" "w = JObj kvs'" "\<And>k. get kvs k = None \<longleftrightarrow> get kvs' k = None"
        "list_all2 (\<lambda>p q. fst p = fst q \<and> same_value (snd p) (snd q)) (members kvs) (members kvs')"
proof (cases v)
  case JNull
  then show thesis using assms null by (cases w) (auto simp: same_value_def)
next
  case (JBool b)
  then show thesis using assms bool by (cases w) (auto simp: same_value_def)
next
  case (JNum n)
  then show thesis using assms num same_value_num by blast
next
  case (JStr t)
  then show thesis using assms str by (cases w) (auto simp: same_value_def)
next
  case (JArr xs)
  then obtain ys where "w = JArr ys" "list_all2 same_value xs ys"
    using assms by (auto elim: same_value_arr)
  then show thesis by (rule arr [OF JArr])
next
  case (JObj kvs)
  from assms [unfolded JObj] show thesis
    by (rule same_value_obj) (rule obj [OF JObj])
qed

lemma decoded_type_same: "same_value v w \<Longrightarrow> decoded_type t v = decoded_type t w"
  by (erule same_value_cases) (simp_all add: decoded_type_def del: lit_simps)

lemma size_ok_same: "same_value v w \<Longrightarrow> size_ok s v = size_ok s w"
  by (erule same_value_cases) (auto simp: size_ok_def list_all2_lengthD)

lemma validate_same: "same_value v w \<Longrightarrow> validate_value raw v = validate_value raw w"
proof (induction raw v arbitrary: w rule: validate_value.induct)
  case (1 raw v)
  show ?case
  proof (cases "as_object raw")
    case None
    then show ?thesis by (simp add: validate_value.simps [of raw])
  next
    case obj: (Some s)
    show ?thesis
    proof (cases "get s (lit ''oneOf'')")
      case (Some alternatives)
      show ?thesis
      proof (cases "as_list alternatives")
        case None
        then show ?thesis using obj Some by (simp add: validate_value.simps [of raw] del: lit_simps)
      next
        case bs: (Some bs)
        have "filter (\<lambda>b. validate_value b v) bs = filter (\<lambda>b. validate_value b w) bs"
          using 1(3) [OF obj Some bs] 1(4) by (intro filter_cong) auto
        then show ?thesis using obj Some bs by (simp add: validate_value.simps [of raw] del: lit_simps)
      qed
    next
      case None
      have common: "decoded_type (type_keyword s) v = decoded_type (type_keyword s) w"
        "constant_ok s v = constant_ok s w" "size_ok s v = size_ok s w"
        unfolding constant_ok_def canonical_form_same [OF 1(4)]
        by (simp_all only: decoded_type_same [OF 1(4)] size_ok_same [OF 1(4)])
      show ?thesis
        using 1(4)
      proof (cases rule: same_value_cases)
        case (arr xs ys)
        have "list_all (\<lambda>x. validate_value q (normal x)) xs = list_all (\<lambda>x. validate_value q (normal x)) ys"
          if "get s (lit ''items'') = Some q" for q
        proof -
          have "list_all2 (\<lambda>x y. validate_value q (normal x) = validate_value q (normal y)) xs ys"
            using arr(3) by (rule list.rel_mono_strong)
              (rule 1(1) [OF obj None arr(1) that _ same_value_normal])
          then show ?thesis by (auto simp: list_all2_conv_all_nth list_all_length)
        qed
        then show ?thesis
          using common obj None arr by (simp add: validate_value.simps [of raw] split: option.split del: lit_simps)
      next
        case (obj kvs kvs')
        have "list_all2 (\<lambda>p q. (case get (properties_of s) (fst p) of None \<Rightarrow> additional_of s
                          | Some r \<Rightarrow> validate_value r (normal (snd p)))
             = (case get (properties_of s) (fst q) of None \<Rightarrow> additional_of s
                          | Some r \<Rightarrow> validate_value r (normal (snd q)))) (members kvs) (members kvs')"
          using obj(4)
        proof (rule list.rel_mono_strong)
          fix p q assume p: "p \<in> set (members kvs)" and pq: "fst p = fst q \<and> same_value (snd p) (snd q)"
          have "validate_value r (normal (snd p)) = validate_value r (normal (snd q))"
            if "get (properties_of s) (fst p) = Some r" for r
            using 1(2) [OF \<open>as_object raw = Some s\<close> None obj(1) p prod.collapse that same_value_normal] pq by blast
          then show "(case get (properties_of s) (fst p) of None \<Rightarrow> additional_of s
                          | Some r \<Rightarrow> validate_value r (normal (snd p)))
             = (case get (properties_of s) (fst q) of None \<Rightarrow> additional_of s
                          | Some r \<Rightarrow> validate_value r (normal (snd q)))"
            using pq by (cases "get (properties_of s) (fst p)") simp_all
        qed
        then have "list_all (\<lambda>(name, x). (case get (properties_of s) name of None \<Rightarrow> additional_of s
                          | Some p \<Rightarrow> validate_value p (normal x))) (members kvs)
             = list_all (\<lambda>(name, x). (case get (properties_of s) name of None \<Rightarrow> additional_of s
                          | Some p \<Rightarrow> validate_value p (normal x))) (members kvs')"
          by (auto simp: list_all2_conv_all_nth list_all_length case_prod_beta)
        moreover have "list_all (\<lambda>name. get kvs name \<noteq> None) (required_of s) = list_all (\<lambda>name. get kvs' name \<noteq> None) (required_of s)"
          using obj(3) by (intro list.pred_cong) simp_all
        ultimately show ?thesis
          using common \<open>as_object raw = Some s\<close> None obj(1,2) by (simp add: validate_value.simps [of raw] del: lit_simps)
      next
        case (num n m)
        then show ?thesis using common obj None by (simp add: validate_value.simps [of raw] del: lit_simps)
      qed simp_all
    qed
  qed
qed

text \<open>C24. Validation and call keys agree.  Two argument texts that decode to the same value, with members in
  another order, repeated members of which the last counts, or numbers written differently, have the
  same canonical text, so the ledger takes them for the same call, and every schema accepts both or
  neither.\<close>

theorem validation_is_canonical:
  assumes "parse_json raw = Some v" "parse_json raw' = Some w" "same_value v w" "trim_space raw \<noteq> []" "trim_space raw' \<noteq> []"
  shows "canonical_json raw = canonical_json raw' \<and> validate_arguments sch raw = validate_arguments sch raw'"
proof -
  have "canonical_form v = canonical_form w" by (rule canonical_form_same) fact
  then have "canonical_json raw = canonical_json raw'"
    using assms(1-3) by (simp add: canonical_json_def canonical_form_def floats_def same_value_def)
  then show ?thesis
    using validate_same [OF assms(3), of sch] assms by (simp add: validate_arguments_def Let_def)
qed

text \<open>A strict schema as the provider understands it\<close>

definition names_of :: "(str \<times> 'a) list \<Rightarrow> str set" where
  "names_of kvs = fst ` set kvs"

lemma get_names: "get kvs k \<noteq> None \<longleftrightarrow> k \<in> names_of kvs"
  by (simp add: get_None names_of_def)

lemma card_names: "card (names_of kvs) = length (members kvs)"
proof -
  have "names_of kvs = set (map fst (members kvs))" by (simp add: names_of_def set_members)
  then show ?thesis using distinct_card [OF distinct_members [of kvs]] by simp
qed

lemma strict_object:
  assumes "strict_node (JObj s)" "get s (lit ''type'') = Some (JStr (lit ''object''))"
  obtains p ps where "get s (lit ''oneOf'') = None" "keyword_as (as_bool False) s ''additionalProperties'' = Some False"
    "get s (lit ''properties'') = Some p" "as_object p = Some ps"
    "case get s (lit ''required'') of None \<Rightarrow> members ps = []
       | Some r \<Rightarrow> (case as_strings r of None \<Rightarrow> False | Some names \<Rightarrow> length names = length (members ps))"
proof -
  have "keyword_as as_string s ''type'' = Some (lit ''object'')"
    using assms(2) by (simp add: keyword_as_def as_string_def)
  then show thesis
    using assms(1) that unfolding strict_node.simps [of "JObj s"]
    by (simp add: as_object_def split: option.splits del: lit_simps)
qed

lemma schema_required:
  assumes "schema_node (JObj s) \<noteq> None" "get s (lit ''oneOf'') = None" "get s (lit ''properties'') = Some p"
    "as_object p = Some ps" "get s (lit ''required'') = Some r" "as_strings r = Some names"
  shows "distinct names \<and> set names \<subseteq> names_of ps"
proof -
  obtain t where "required_ok s t ps"
    using assms(1-4) unfolding schema_node.simps
    by (auto simp: Let_def simp del: lit_simps split: if_splits option.splits)
  then show ?thesis
    using assms(5,6) by (auto simp: required_ok_def list_all_iff get_None names_of_def)
qed

lemma accepted_object:
  assumes "validate_value (JObj s) (JObj kvs)" "get s (lit ''oneOf'') = None"
  shows "set (required_of s) \<subseteq> names_of kvs"
    and "\<not> additional_of s \<Longrightarrow> names_of kvs \<subseteq> names_of (properties_of s)"
proof -
  have ok: "list_all (\<lambda>name. get kvs name \<noteq> None) (required_of s)"
    "list_all (\<lambda>(name, x). (case get (properties_of s) name of None \<Rightarrow> additional_of s
                 | Some p \<Rightarrow> validate_value p (normal x))) (members kvs)"
    using assms unfolding validate_value.simps [of "JObj s"] by (simp_all add: as_object_def del: lit_simps)
  show "set (required_of s) \<subseteq> names_of kvs"
    using ok(1) by (auto simp: list_all_iff get_names [symmetric])
  show "names_of kvs \<subseteq> names_of (properties_of s)" if "\<not> additional_of s"
  proof
    fix k assume "k \<in> names_of kvs"
    then obtain x where "(k, x) \<in> set (members kvs)"
      using get_names [of kvs k] by (auto simp: get_eq set_members)
    then show "k \<in> names_of (properties_of s)"
      using ok(2) that by (auto simp: list_all_iff get_names [symmetric] split: option.splits)
  qed
qed

text \<open>Strict schemas are exact.  An object accepted by a parameter schema that is sent to the provider as
  strict has exactly the members the schema declares: none is missing and none is unknown.  (The
  schema must not write \<open>null\<close> for \<open>additionalProperties\<close>, see \<open>strict_null_additional\<close>.)\<close>

theorem strict_schema_is_exact:
  assumes "supports_strict (JObj s)" "validate_value (JObj s) (JObj kvs)"
    and "get s (lit ''additionalProperties'') \<noteq> Some JNull"
  shows "names_of kvs = names_of (properties_of s)"
proof -
  have strict: "strict_node (JObj s)" "get s (lit ''type'') = Some (JStr (lit ''object''))" "schema_node (JObj s) \<noteq> None"
    using assms(1) by (auto simp: supports_strict_def as_object_def validate_schema_def simp del: lit_simps split: option.splits)
  obtain p ps where props: "get s (lit ''oneOf'') = None" "get s (lit ''properties'') = Some p" "as_object p = Some ps"
    and additional: "keyword_as (as_bool False) s ''additionalProperties'' = Some False"
    and required: "case get s (lit ''required'') of None \<Rightarrow> members ps = []
       | Some r \<Rightarrow> (case as_strings r of None \<Rightarrow> False | Some names \<Rightarrow> length names = length (members ps))"
    using strict_object [OF strict(1,2)] by blast
  have ps: "properties_of s = ps" using props by (simp add: properties_of_def keyword_as_def del: lit_simps)
  have "\<not> additional_of s"
  proof -
    obtain a where a: "get s (lit ''additionalProperties'') = Some a" "as_bool False a = Some False"
      using additional by (auto simp: keyword_as_def bind_eq_Some_conv simp del: lit_simps)
    then have "as_bool True a = Some False"
      using assms(3) by (cases a) (simp_all add: as_bool_def)
    then show ?thesis using a by (simp add: additional_of_def keyword_as_def del: lit_simps)
  qed
  moreover have "names_of ps \<subseteq> set (required_of s)"
  proof (cases "get s (lit ''required'')")
    case None
    then have "card (names_of ps) = 0" using required by (simp add: card_names)
    then show ?thesis by (simp add: names_of_def)
  next
    case (Some r)
    then obtain names where names: "as_strings r = Some names" "length names = card (names_of ps)"
      using required by (auto simp: card_names split: option.splits)
    then have "set names = names_of ps"
      using schema_required [OF strict(3) props Some] by (metis card_subset_eq distinct_card finite_imageI finite_set names_of_def)
    then show ?thesis using Some names by (simp add: required_of_def keyword_as_def del: lit_simps)
  qed
  ultimately show ?thesis
    using accepted_object [OF assms(2) props(1)] unfolding ps by blast
qed

definition demo_schema :: "json \<Rightarrow> schema" where
  "demo_schema additional = [(lit ''type'', JStr (lit ''object'')), (lit ''additionalProperties'', additional),
     (lit ''properties'', JObj [(lit ''n'', JObj [(lit ''type'', JStr (lit ''integer'')), (lit ''minimum'', JNum (lit ''1''))])]),
     (lit ''required'', JArr [JStr (lit ''n'')])]"

lemma strict_schema_is_exact_witness:
  "names_of [(lit ''n'', JNum (lit ''7.0''))] = names_of (properties_of (demo_schema (JBool False)))"
proof (rule strict_schema_is_exact)
  show "supports_strict (JObj (demo_schema (JBool False)))" by code_simp
  show "validate_value (JObj (demo_schema (JBool False))) (JObj [(lit ''n'', JNum (lit ''7.0''))])" by code_simp
  show "get (demo_schema (JBool False)) (lit ''additionalProperties'') \<noteq> Some JNull" by code_simp
qed

text \<open>The two readings of a \<open>null\<close>: the schema is called strict and still accepts an undeclared member.\<close>

lemma strict_null_additional:
  "supports_strict (JObj (demo_schema JNull))
   \<and> validate_value (JObj (demo_schema JNull)) (JObj [(lit ''n'', JNum (lit ''7'')), (lit ''x'', JNull)])"
  by code_simp

lemma validation_is_canonical_witness:
  "canonical_json (lit ''[1, 20]'') = canonical_json (lit ''[1.0,2e1]'')"
proof -
  have "parse_json (lit ''[1, 20]'') = Some (JArr [JNum (lit ''1''), JNum (lit ''20'')])"
    "parse_json (lit ''[1.0,2e1]'') = Some (JArr [JNum (lit ''1.0''), JNum (lit ''2e1'')])"
    "same_value (JArr [JNum (lit ''1''), JNum (lit ''20'')]) (JArr [JNum (lit ''1.0''), JNum (lit ''2e1'')])"
    "trim_space (lit ''[1, 20]'') \<noteq> []" "trim_space (lit ''[1.0,2e1]'') \<noteq> []"
    by code_simp+
  then show ?thesis using validation_is_canonical by blast
qed

end
