(* ===== verification/Context.thy ===== *)
theory Context
  imports Model
begin

text \<open>
  The agent's contexts, invocations, results and identities: \<open>internal/agent/api\<close> (\<open>api.go\<close>,
  \<open>identity.go\<close>, \<open>result.go\<close>), the runtime's own records in \<open>internal/agent/runtime/contracts.go\<close> and
  the adapters between the two.  A Go pointer to a string is an option.
\<close>

section \<open>Modes and contexts\<close>

text \<open>A mode is a string in the code; \<open>Mode s\<close> is one outside the closed set of constants.\<close>

datatype invocation_mode = DIRECT | VIBE | MENTION | AMBIENT | MODERATION | Mode str

definition valid_mode :: "invocation_mode \<Rightarrow> bool" where
  "valid_mode m = (case m of Mode _ \<Rightarrow> False | _ \<Rightarrow> True)"

definition requires_reply :: "invocation_mode \<Rightarrow> bool" where
  "requires_reply m \<longleftrightarrow> m = DIRECT \<or> m = VIBE \<or> m = MENTION"

type_synonym capability = str

record api_context =
  a_room :: str
  a_nick :: str
  a_trip :: "str option"
  a_hash :: "str option"
  a_whisper :: bool
  a_users :: "str list"
  a_caps :: "capability list"
  a_target :: "str option"

datatype api_error =
    Nil_users
  | Nil_capabilities
  | Blank_request
  | Blank_prompt
  | Invalid_mode
  | Blank_room
  | Blank_identity
  | Blank_nick
  | Blank_correlation
  | Error_result

definition nullable_string :: "str \<Rightarrow> str option" where
  "nullable_string s = (if s = [] then None else Some s)"

definition value_or_empty :: "str option \<Rightarrow> str" where
  "value_or_empty v = (case v of None \<Rightarrow> [] | Some s \<Rightarrow> s)"

text \<open>The loop that keeps the first occurrence of each capability\<close>

definition distinct_first :: "'a list \<Rightarrow> 'a list" where
  "distinct_first xs = foldl (\<lambda>out x. if x \<in> set out then out else out @ [x]) [] xs"

text \<open>A nil slice is \<open>None\<close>.\<close>

definition new_api_context ::
  "str \<Rightarrow> str \<Rightarrow> str \<Rightarrow> str \<Rightarrow> bool \<Rightarrow> str list option \<Rightarrow> capability list option \<Rightarrow> str option \<Rightarrow> api_error + api_context" where
  "new_api_context room nick trip hash whisper users caps target =
     (case users of None \<Rightarrow> Inl Nil_users
      | Some us \<Rightarrow> (case caps of None \<Rightarrow> Inl Nil_capabilities
        | Some cs \<Rightarrow> Inr \<lparr>a_room = room, a_nick = nick, a_trip = nullable_string trip, a_hash = nullable_string hash,
            a_whisper = whisper, a_users = us, a_caps = distinct_first cs, a_target = target\<rparr>))"

definition nonblank :: "str \<Rightarrow> str option" where
  "nonblank s = (if trim_space s \<noteq> [] then Some s else None)"

text \<open>\<open>NewContextWithCapabilities\<close> drops a blank moderation target.\<close>

definition new_api_context_with_capabilities ::
  "str \<Rightarrow> str \<Rightarrow> str \<Rightarrow> str \<Rightarrow> bool \<Rightarrow> str list option \<Rightarrow> capability list option \<Rightarrow> str \<Rightarrow> api_error + api_context" where
  "new_api_context_with_capabilities room nick trip hash whisper users caps target =
     new_api_context room nick trip hash whisper users caps
       (nonblank target)"

definition has_capability :: "api_context \<Rightarrow> capability \<Rightarrow> bool" where
  "has_capability c cap = list_ex (\<lambda>v. v = cap) (a_caps c)"

section \<open>Memory keys\<close>

text \<open>\<open>len(utf16.Encode([]rune(s)))\<close>\<close>

definition utf16_len :: "str \<Rightarrow> nat" where
  "utf16_len s = sum_list (map (\<lambda>c. if c \<ge> 0x10000 then 2 else 1) s)"

definition api_memory_key :: "api_context \<Rightarrow> str" where
  "api_memory_key c =
     (let key = itoa (int (utf16_len (a_room c))) @ lit '':'' @ a_room c
      in if \<not> a_whisper c then key @ lit ''|public''
         else if trim_space (value_or_empty (a_trip c)) \<noteq> []
           then key @ lit ''|whisper|trip:'' @ value_or_empty (a_trip c)
         else if trim_space (value_or_empty (a_hash c)) \<noteq> []
           then key @ lit ''|whisper|hash:'' @ value_or_empty (a_hash c)
         else key @ lit ''|whisper|nick:'' @ a_nick c)"

text \<open>The history a context belongs to: the public one of its room, or that of one person whispering.\<close>

datatype memory_scope = Public | Trip str | Hash str | Nick str

definition api_scope :: "api_context \<Rightarrow> memory_scope" where
  "api_scope c =
     (if \<not> a_whisper c then Public
      else if trim_space (value_or_empty (a_trip c)) \<noteq> [] then Trip (value_or_empty (a_trip c))
      else if trim_space (value_or_empty (a_hash c)) \<noteq> [] then Hash (value_or_empty (a_hash c))
      else Nick (a_nick c))"

definition scope_suffix :: "memory_scope \<Rightarrow> str" where
  "scope_suffix s = (case s of
      Public \<Rightarrow> lit ''|public'' | Trip t \<Rightarrow> lit ''|whisper|trip:'' @ t
    | Hash h \<Rightarrow> lit ''|whisper|hash:'' @ h | Nick n \<Rightarrow> lit ''|whisper|nick:'' @ n)"

definition scoped_key :: "str \<Rightarrow> memory_scope \<Rightarrow> str" where
  "scoped_key room s = itoa (int (utf16_len room)) @ lit '':'' @ room @ scope_suffix s"

lemma api_memory_key_scoped: "api_memory_key c = scoped_key (a_room c) (api_scope c)"
  by (simp add: api_memory_key_def scoped_key_def api_scope_def scope_suffix_def Let_def)

lemma scope_suffix_inj: "scope_suffix s = scope_suffix t \<longleftrightarrow> s = t"
  by (cases s; cases t) (auto simp: scope_suffix_def)

lemma utf16_len_append: "utf16_len (s @ t) = utf16_len s + utf16_len t"
  by (simp add: utf16_len_def)

lemma utf16_len_0: "utf16_len s = 0 \<longleftrightarrow> s = []"
  by (cases s) (auto simp: utf16_len_def)

lemma utf16_prefix:
  assumes "s @ u = t @ v" "utf16_len s = utf16_len t"
  shows "s = t \<and> u = v"
proof -
  obtain w where "s @ w = t \<and> u = w @ v \<or> s = t @ w \<and> w @ u = v"
    using assms(1) by (auto simp: append_eq_append_conv2)
  then show ?thesis using assms(2) by (auto simp: utf16_len_append utf16_len_0)
qed

lemma scoped_key_inj: "scoped_key r s = scoped_key r' s' \<longleftrightarrow> r = r' \<and> s = s'"
proof
  assume "scoped_key r s = scoped_key r' s'"
  then have "digits_of (utf16_len r) @ 58 # (r @ scope_suffix s) = digits_of (utf16_len r') @ 58 # (r' @ scope_suffix s')"
    by (simp add: scoped_key_def itoa_def)
  then have "utf16_len r = utf16_len r'" "r @ scope_suffix s = r' @ scope_suffix s'"
    using digits_sep_inj by blast+
  then show "r = r' \<and> s = s'" using utf16_prefix scope_suffix_inj by blast
qed simp

text \<open>C17. Conversations are isolated.  Two contexts share a memory key exactly when they belong to the same
  history: the public history of the same room, or the whispers of the same person (by trip code,
  else by hash, else by nick) in the same room, whatever the room and the names contain.\<close>

theorem memory_key_isolates:
  "api_memory_key c = api_memory_key d \<longleftrightarrow> a_room c = a_room d \<and> api_scope c = api_scope d"
  by (simp add: api_memory_key_scoped scoped_key_inj)

section \<open>Identities\<close>

definition java_strip :: "str \<Rightarrow> str" where
  "java_strip s =
     (let p = \<lambda>c. (0x1c \<le> c \<and> c \<le> 0x1f) \<or> (is_space c \<and> c \<noteq> 0xa0 \<and> c \<noteq> 0x2007 \<and> c \<noteq> 0x202f)
      in trim_right p (trim_left p s))"

definition new_user_identity :: "str \<Rightarrow> api_error + str" where
  "new_user_identity v = (if trim_space v = [] then Inl Blank_identity else Inr v)"

definition identity_from_values :: "str \<Rightarrow> str \<Rightarrow> str \<Rightarrow> api_error + str" where
  "identity_from_values trip hash nick =
     (let (source, value1) =
        (if trim_space trip \<noteq> [] then (lit ''trip'', trip)
         else if trim_space hash \<noteq> [] then (lit ''hash'', hash) else (lit ''nick'', nick));
        value2 = to_lower (java_strip value1)
      in if value2 = [] then Inl Blank_nick else new_user_identity (source @ lit '':'' @ value2))"

definition identity_from_context :: "api_context \<Rightarrow> api_error + str" where
  "identity_from_context c = identity_from_values (value_or_empty (a_trip c)) (value_or_empty (a_hash c)) (a_nick c)"

section \<open>Invocations and results of the interface\<close>

record api_invocation =
  i_request :: str
  i_prompt :: str
  i_context :: api_context
  i_mode :: invocation_mode
  i_current :: "str option"
  i_command :: bool

definition validate_api_invocation :: "api_invocation \<Rightarrow> api_error option" where
  "validate_api_invocation i =
     (if java_strip (i_request i) = [] then Some Blank_request
      else if java_strip (i_prompt i) = [] then Some Blank_prompt
      else if \<not> valid_mode (i_mode i) then Some Invalid_mode
      else None)"

text \<open>\<open>newInvocation\<close>; \<open>generated\<close> is the fresh identifier when one is asked for.\<close>

definition new_api_invocation ::
  "str \<Rightarrow> api_context \<Rightarrow> str \<Rightarrow> invocation_mode \<Rightarrow> str option \<Rightarrow> bool \<Rightarrow> str option \<Rightarrow> api_error + api_invocation" where
  "new_api_invocation rid ctx prompt mode current command generated =
     (let v = \<lparr>i_request = (case generated of Some g \<Rightarrow> g | None \<Rightarrow> rid), i_prompt = prompt, i_context = ctx,
                i_mode = mode, i_current = current, i_command = command\<rparr>
      in case validate_api_invocation v of Some e \<Rightarrow> Inl e | None \<Rightarrow> Inr v)"

record api_result =
  res_correlation :: str
  res_content :: str
  res_reply :: bool

definition new_api_result :: "str \<Rightarrow> str \<Rightarrow> bool \<Rightarrow> api_error + api_result" where
  "new_api_result correlation content1 reply =
     (if trim_space correlation = [] then Inl Blank_correlation
      else Inr \<lparr>res_correlation = correlation, res_content = content1, res_reply = reply\<rparr>)"

section \<open>The runtime's records\<close>

record rt_context =
  r_room :: str
  r_nick :: str
  r_trip :: str
  r_hash :: str
  r_whisper :: bool
  r_users :: "str list"
  r_caps :: "capability list"
  r_target :: str

definition rt_memory_key :: "rt_context \<Rightarrow> str" where
  "rt_memory_key c =
     (let key = itoa (int (utf16_len (r_room c))) @ lit '':'' @ r_room c
      in if \<not> r_whisper c then key @ lit ''|public''
         else if trim_space (r_trip c) \<noteq> [] then key @ lit ''|whisper|trip:'' @ r_trip c
         else if trim_space (r_hash c) \<noteq> [] then key @ lit ''|whisper|hash:'' @ r_hash c
         else key @ lit ''|whisper|nick:'' @ r_nick c)"

record rt_invocation =
  v_request :: str
  v_prompt :: str
  v_current :: str
  v_context :: rt_context
  v_mode :: invocation_mode
  v_command :: bool
  v_created :: time

definition validate_invocation :: "rt_invocation \<Rightarrow> api_error option" where
  "validate_invocation i =
     (if trim_space (v_request i) = [] then Some Blank_request
      else if trim_space (r_room (v_context i)) = [] then Some Blank_room
      else if trim_space (v_prompt i) = [] then Some Blank_prompt
      else if \<not> valid_mode (v_mode i) then Some Invalid_mode
      else None)"

record rt_result =
  o_correlation :: str
  o_text :: str
  o_error :: str
  o_reply :: bool
  o_owned :: bool

definition to_api_result :: "rt_result \<Rightarrow> api_error + api_result" where
  "to_api_result r = (if o_error r \<noteq> [] then Inl Error_result
     else new_api_result (o_correlation r) (o_text r) (o_reply r))"

section \<open>The adapters\<close>

text \<open>\<open>append([]string(nil), xs...)\<close>, the copy every accessor of the runtime's context returns, is nil when
  the slice is empty; the adapter's own \<open>make\<close> for the capabilities is not.\<close>

definition copied :: "'a list \<Rightarrow> 'a list option" where
  "copied xs = (if xs = [] then None else Some xs)"

definition to_api_invocation :: "rt_invocation \<Rightarrow> api_error + api_invocation" where
  "to_api_invocation v =
     (let c = v_context v in
      case new_api_context_with_capabilities (r_room c) (r_nick c) (r_trip c) (r_hash c) (r_whisper c)
             (copied (r_users c)) (Some (r_caps c)) (r_target c) of
        Inl e \<Rightarrow> Inl e
      | Inr ctx \<Rightarrow> new_api_invocation (v_request v) ctx (v_prompt v) (v_mode v)
                    (nullable_string (v_current v)) (v_command v) None)"

definition from_api_invocation :: "time \<Rightarrow> api_invocation \<Rightarrow> rt_invocation" where
  "from_api_invocation now v =
     (let c = i_context v in
      \<lparr>v_request = i_request v, v_prompt = i_prompt v, v_current = value_or_empty (i_current v),
       v_context = \<lparr>r_room = a_room c, r_nick = a_nick c, r_trip = value_or_empty (a_trip c),
          r_hash = value_or_empty (a_hash c), r_whisper = a_whisper c, r_users = a_users c,
          r_caps = a_caps c, r_target = value_or_empty (a_target c)\<rparr>,
       v_mode = i_mode v, v_command = i_command v, v_created = now\<rparr>)"

subsection \<open>Lemmas\<close>

lemma distinct_first_aux:
  "distinct out \<Longrightarrow> distinct (foldl (\<lambda>out x. if x \<in> set out then out else out @ [x]) out xs)
    \<and> set (foldl (\<lambda>out x. if x \<in> set out then out else out @ [x]) out xs) = set out \<union> set xs"
  by (induction xs arbitrary: out) (auto simp: insert_absorb)

lemma distinct_distinct_first [simp]: "distinct (distinct_first xs)"
  and set_distinct_first [simp]: "set (distinct_first xs) = set xs"
  using distinct_first_aux [of "[]" xs] by (simp_all add: distinct_first_def)

lemma distinct_first_id_aux:
  "distinct (out @ xs) \<Longrightarrow> foldl (\<lambda>out x. if x \<in> set out then out else out @ [x]) out xs = out @ xs"
  by (induction xs arbitrary: out) auto

lemma distinct_first_id: "distinct xs \<Longrightarrow> distinct_first xs = xs"
  using distinct_first_id_aux [of "[]"] by (simp add: distinct_first_def)

lemma value_or_empty_nullable [simp]: "value_or_empty (nullable_string s) = s"
  by (simp add: value_or_empty_def nullable_string_def)

lemma nullable_value [simp]: "s \<noteq> Some [] \<Longrightarrow> nullable_string (value_or_empty s) = s"
  by (cases s) (simp_all add: value_or_empty_def nullable_string_def)

text \<open>What construction through the exported constructors guarantees of a context\<close>

definition normal_context :: "api_context \<Rightarrow> bool" where
  "normal_context c \<longleftrightarrow> a_trip c \<noteq> Some [] \<and> a_hash c \<noteq> Some [] \<and> distinct (a_caps c)
     \<and> (case a_target c of None \<Rightarrow> True | Some t \<Rightarrow> trim_space t \<noteq> [])"

lemma normal_new_context:
  "new_api_context_with_capabilities room nick trip hash whisper users caps target = Inr c \<Longrightarrow> normal_context c"
  by (auto simp: new_api_context_with_capabilities_def new_api_context_def normal_context_def nullable_string_def
      nonblank_def split: option.splits if_splits)

text \<open>The adapter into the runtime keeps conversations apart and loses nothing an invocation of the
  interface can carry: the runtime locks and stores history under the same memory key, and mapping
  back yields the invocation itself, provided its context was built by the capability constructor,
  its current text is not an empty string, it is valid and the room lists someone.\<close>

theorem adapter_round_trip:
  "rt_memory_key (v_context (from_api_invocation now a)) = api_memory_key (i_context a)
   \<and> (normal_context (i_context a) \<and> i_current a \<noteq> Some [] \<and> validate_api_invocation a = None
        \<and> a_users (i_context a) \<noteq> [] \<longrightarrow>
      to_api_invocation (from_api_invocation now a) = Inr a)"
proof -
  have "to_api_invocation (from_api_invocation now a) = Inr a"
    if "normal_context (i_context a)" "i_current a \<noteq> Some []" "validate_api_invocation a = None"
      "a_users (i_context a) \<noteq> []"
  proof -
    have target: "nonblank (value_or_empty (a_target (i_context a))) = a_target (i_context a)"
      using that(1) by (simp add: normal_context_def value_or_empty_def nonblank_def split: option.splits)
    show ?thesis
      using that unfolding to_api_invocation_def from_api_invocation_def new_api_context_with_capabilities_def
      by (simp add: target new_api_context_def copied_def normal_context_def distinct_first_id
          new_api_invocation_def validate_api_invocation_def Let_def split: if_splits)
  qed
  moreover have "rt_memory_key (v_context (from_api_invocation now a)) = api_memory_key (i_context a)"
    by (simp add: rt_memory_key_def api_memory_key_def from_api_invocation_def Let_def)
  ultimately show ?thesis by blast
qed

lemma to_api_needs_users:
  "r_users (v_context v) = [] \<Longrightarrow> to_api_invocation v = Inl Nil_users"
  by (simp add: to_api_invocation_def new_api_context_with_capabilities_def new_api_context_def copied_def)

text \<open>The kind of name a person is known by, and the normalised name\<close>

definition identity_source :: "str \<Rightarrow> str \<Rightarrow> str \<Rightarrow> memory_scope" where
  "identity_source trip hash nick =
     (if trim_space trip \<noteq> [] then Trip (to_lower (java_strip trip))
      else if trim_space hash \<noteq> [] then Hash (to_lower (java_strip hash))
      else Nick (to_lower (java_strip nick)))"

definition source_text :: "memory_scope \<Rightarrow> str" where
  "source_text s = (case s of Public \<Rightarrow> [] | Trip t \<Rightarrow> lit ''trip:'' @ t
    | Hash h \<Rightarrow> lit ''hash:'' @ h | Nick n \<Rightarrow> lit ''nick:'' @ n)"

lemma identity_from_values_eq:
  "identity_from_values trip hash nick =
    (if identity_source trip hash nick \<in> {Trip [], Hash [], Nick []} then Inl Blank_nick
     else Inr (source_text (identity_source trip hash nick)))"
  by (auto simp: identity_from_values_def identity_source_def source_text_def new_user_identity_def
      trim_space_Nil_iff is_space_def Let_def)

lemma source_text_inj: "s \<noteq> Public \<Longrightarrow> t \<noteq> Public \<Longrightarrow> source_text s = source_text t \<longleftrightarrow> s = t"
  by (cases s; cases t) (auto simp: source_text_def)

lemma identity_source_not_Public: "identity_source trip hash nick \<noteq> Public"
  by (simp add: identity_source_def)

text \<open>One person, one identity.  Two people that have identities have the same one exactly when they are
  known by the same kind of name (the trip code before the hash before the nick) and the names agree
  up to case and surrounding white space; a nick can never pass for a trip code.\<close>

theorem identity_same_person:
  assumes "identity_from_values trip hash nick = Inr i" "identity_from_values trip' hash' nick' = Inr i'"
  shows "i = i' \<longleftrightarrow> identity_source trip hash nick = identity_source trip' hash' nick'"
proof -
  have "i = source_text (identity_source trip hash nick)" "i' = source_text (identity_source trip' hash' nick')"
    using assms by (simp_all add: identity_from_values_eq split: if_splits)
  then show ?thesis
    using source_text_inj identity_source_not_Public by metis
qed

lemma identity_same_person_witness:
  "identity_from_values (lit '' AbC '') [] (lit ''eve'') = identity_from_values (lit ''abc'') [] (lit ''bob'')"
proof -
  have "identity_from_values (lit '' AbC '') [] (lit ''eve'') = Inr (lit ''trip:abc'')"
    "identity_from_values (lit ''abc'') [] (lit ''bob'') = Inr (lit ''trip:abc'')"
    by code_simp+
  moreover have "identity_source (lit '' AbC '') [] (lit ''eve'') = identity_source (lit ''abc'') [] (lit ''bob'')"
    by code_simp
  ultimately show ?thesis
    using identity_same_person by metis
qed

definition demo_invocation :: api_invocation where
  "demo_invocation = \<lparr>i_request = lit ''r1'', i_prompt = lit ''hi'',
     i_context = \<lparr>a_room = lit ''lobby'', a_nick = lit ''eve'', a_trip = None, a_hash = Some (lit ''h''),
       a_whisper = True, a_users = [lit ''eve''], a_caps = [], a_target = None\<rparr>,
     i_mode = DIRECT, i_current = None, i_command = False\<rparr>"

lemma adapter_round_trip_witness:
  "to_api_invocation (from_api_invocation 7 demo_invocation) = Inr demo_invocation"
proof -
  have "normal_context (i_context demo_invocation) \<and> i_current demo_invocation \<noteq> Some []
    \<and> validate_api_invocation demo_invocation = None \<and> a_users (i_context demo_invocation) \<noteq> []"
    by code_simp
  then show ?thesis using adapter_round_trip [of 7 demo_invocation] by blast
qed

end
