(* ===== verification/ToolContract.thy ===== *)
theory ToolContract
  imports Schema Context
begin

text \<open>
  The tool contract of \<open>internal/agent/tool/contract\<close>: descriptors and their options (\<open>definition.go\<close>,
  \<open>manifest.go\<close>), results and envelopes (\<open>definition.go\<close>, \<open>schema.go\<close>), the result-shape hint
  (\<open>result_shape.go\<close>), and the registry of \<open>internal/agent/tool/tool.go\<close> that offers tools to a caller.
  A schema is the decoded JSON of its text.  The string types with a closed set of constants are
  datatypes with one constructor more for any other string.
\<close>

section \<open>Descriptors\<close>

datatype access = Access_user | Access_moderator | Access_admin | Access str

datatype effect_kind = Read_only | Action | Effect str

datatype result_mode = Model_data | Room_delivery | Result_mode str

definition valid_access :: "access \<Rightarrow> bool" where
  "valid_access v = (case v of Access _ \<Rightarrow> False | _ \<Rightarrow> True)"

definition valid_effect :: "effect_kind \<Rightarrow> bool" where
  "valid_effect v = (case v of Effect _ \<Rightarrow> False | _ \<Rightarrow> True)"

definition valid_result_mode :: "result_mode \<Rightarrow> bool" where
  "valid_result_mode v = (case v of Result_mode _ \<Rightarrow> False | _ \<Rightarrow> True)"

record routing =
  ro_aliases :: "str list"
  ro_targets :: "str list"
  ro_use_when :: "str list"
  ro_examples :: "(str \<times> str) list"

record descriptor =
  d_name :: str
  d_label :: str
  d_description :: str
  d_category :: str
  d_intent :: str
  d_max_bytes :: int
  d_access :: access
  d_effect :: effect_kind
  d_mode :: result_mode
  d_parameters :: json
  d_result :: json
  d_capabilities :: "str list"
  d_prerequisites :: "str list"
  d_reads :: "str list"
  d_writes :: "str list"
  d_idempotent :: bool
  d_timeout :: duration
  d_when_not :: "str list"
  d_routing :: routing
  d_internal :: bool

text \<open>The expression \<open>^[a-z][a-z0-9_]{0,63}$\<close>\<close>

definition name_ok :: "str \<Rightarrow> bool" where
  "name_ok s = (case s of [] \<Rightarrow> False
     | c # r \<Rightarrow> is_lower_ascii c \<and> length r \<le> 63
         \<and> list_all (\<lambda>d. is_lower_ascii d \<or> is_digit_ascii d \<or> d = 95) r)"

definition default_max_model_result_bytes :: int where
  "default_max_model_result_bytes = 8192"

datatype descriptor_option =
    Max_model_result_bytes int
  | Primary_intent str
  | Internal_fallback
  | Routing routing
  | Nil_option

definition validate_routing :: "routing \<Rightarrow> json \<Rightarrow> bool" where
  "validate_routing m parameters \<longleftrightarrow>
     list_all (\<lambda>v. trim_space v \<noteq> []) (ro_aliases m @ ro_targets m @ ro_use_when m)
     \<and> list_all (\<lambda>(prompt, args). trim_space prompt \<noteq> [] \<and> json_valid args \<and> validate_arguments parameters args)
         (ro_examples m)"

fun apply_option :: "descriptor_option \<Rightarrow> descriptor \<Rightarrow> descriptor option" where
  "apply_option (Max_model_result_bytes n) d = (if n < 512 then None else Some (d\<lparr>d_max_bytes := n\<rparr>))"
| "apply_option (Primary_intent intent) d =
     (if name_ok (trim_space intent) then Some (d\<lparr>d_intent := trim_space intent\<rparr>) else None)"
| "apply_option Internal_fallback d = Some (d\<lparr>d_internal := True\<rparr>)"
| "apply_option (Routing m) d = (if validate_routing m (d_parameters d) then Some (d\<lparr>d_routing := m\<rparr>) else None)"
| "apply_option Nil_option d = None"

definition apply_options :: "descriptor_option list \<Rightarrow> descriptor \<Rightarrow> descriptor option" where
  "apply_options os d = foldl (\<lambda>acc x. Option.bind acc (apply_option x)) (Some d) os"

text \<open>\<open>NewDescriptor\<close>: the arguments in the order of the code, as one record; what is returned on success\<close>

definition sorted_clone :: "str list \<Rightarrow> str list" where
  "sorted_clone s = sort s"

definition base_descriptor :: "descriptor \<Rightarrow> descriptor" where
  "base_descriptor a = a\<lparr>d_intent := d_name a, d_max_bytes := default_max_model_result_bytes,
     d_capabilities := sorted_clone (d_capabilities a), d_prerequisites := sorted_clone (d_prerequisites a),
     d_reads := sorted_clone (d_reads a), d_writes := sorted_clone (d_writes a),
     d_routing := \<lparr>ro_aliases = [], ro_targets = [], ro_use_when = [], ro_examples = []\<rparr>, d_internal := False\<rparr>"

definition new_descriptor :: "descriptor \<Rightarrow> descriptor_option list \<Rightarrow> descriptor option" where
  "new_descriptor a options =
     (if \<not> name_ok (d_name a) then None
      else if trim_space (d_label a) = [] \<or> trim_space (d_description a) = [] \<or> trim_space (d_category a) = []
        \<or> d_when_not a = [] \<or> d_timeout a < 0 then None
      else if \<not> valid_access (d_access a) \<or> \<not> valid_effect (d_effect a) \<or> \<not> valid_result_mode (d_mode a) then None
      else if list_ex (\<lambda>g. trim_space g = []) (d_when_not a) then None
      else if \<not> validate_schema (d_parameters a) True then None
      else if \<not> validate_schema (d_result a) False then None
      else apply_options options (base_descriptor a))"

text \<open>What every descriptor guarantees to its users\<close>

definition descriptor_ok :: "descriptor \<Rightarrow> bool" where
  "descriptor_ok d \<longleftrightarrow> name_ok (d_name d) \<and> name_ok (d_intent d) \<and> 512 \<le> d_max_bytes d \<and> 0 \<le> d_timeout d
     \<and> d_effect d \<in> {Read_only, Action} \<and> d_mode d \<in> {Model_data, Room_delivery}
     \<and> validate_schema (d_parameters d) True \<and> validate_schema (d_result d) False
     \<and> (\<forall>(prompt, args) \<in> set (ro_examples (d_routing d)). validate_arguments (d_parameters d) args)"

lemma apply_option_ok: "descriptor_ok d \<Longrightarrow> apply_option x d = Some e \<Longrightarrow> descriptor_ok e"
  by (cases x) (auto simp: descriptor_ok_def validate_routing_def list_all_iff split: if_splits)

lemma apply_options_None: "foldl (\<lambda>acc x. Option.bind acc (apply_option x)) None os = None"
  by (induction os) simp_all

lemma apply_options_ok: "descriptor_ok d \<Longrightarrow> apply_options os d = Some e \<Longrightarrow> descriptor_ok e"
proof (induction os arbitrary: d)
  case (Cons x os)
  then obtain d1 where "apply_option x d = Some d1" "apply_options os d1 = Some e"
    by (cases "apply_option x d") (auto simp: apply_options_def apply_options_None)
  then show ?case using Cons apply_option_ok by blast
qed (simp add: apply_options_def)

text \<open>Descriptors are sound.  Whatever options a tool passes, a descriptor that could be constructed has a
  well-formed name and intent, a positive size limit, a known effect and result mode, valid parameter
  and result schemas, and every routing example it shows the model is accepted by its own parameter
  schema.\<close>

theorem descriptor_is_sound:
  assumes "new_descriptor a options = Some d"
  shows "descriptor_ok d"
proof (rule apply_options_ok)
  show "apply_options options (base_descriptor a) = Some d"
    using assms by (simp add: new_descriptor_def split: if_splits)
  have "name_ok (d_name a)" "0 \<le> d_timeout a" "valid_effect (d_effect a)" "valid_result_mode (d_mode a)"
    "validate_schema (d_parameters a) True" "validate_schema (d_result a) False"
    using assms by (auto simp: new_descriptor_def split: if_splits)
  then show "descriptor_ok (base_descriptor a)"
    by (auto simp: descriptor_ok_def base_descriptor_def default_max_model_result_bytes_def
        valid_effect_def valid_result_mode_def split: effect_kind.splits result_mode.splits)
qed

text \<open>A read-only tool with one argument and one routing example\<close>

definition demo_descriptor :: descriptor where
  "demo_descriptor = \<lparr>d_name = lit ''room_users'', d_label = lit ''Users'', d_description = lit ''Lists users'',
     d_category = lit ''rooms'', d_intent = [], d_max_bytes = 0, d_access = Access_user, d_effect = Read_only,
     d_mode = Model_data, d_parameters = JObj (demo_schema (JBool False)),
     d_result = JObj [(lit ''type'', JStr (lit ''string''))], d_capabilities = [], d_prerequisites = [],
     d_reads = [lit ''users''], d_writes = [], d_idempotent = True, d_timeout = 0, d_when_not = [lit ''never''],
     d_routing = \<lparr>ro_aliases = [], ro_targets = [], ro_use_when = [], ro_examples = []\<rparr>, d_internal = False\<rparr>"

definition demo_options :: "descriptor_option list" where
  "demo_options = [Primary_intent (lit '' list_users ''),
     Routing \<lparr>ro_aliases = [lit ''who''], ro_targets = [], ro_use_when = [],
       ro_examples = [(lit ''who is here'', [123, 34, 110, 34, 58, 51, 125])]\<rparr>]"

lemma descriptor_is_sound_witness:
  "\<exists>d. new_descriptor demo_descriptor demo_options = Some d \<and> descriptor_ok d"
proof -
  have "new_descriptor demo_descriptor demo_options \<noteq> None" by code_simp
  then show ?thesis using descriptor_is_sound by blast
qed

section \<open>Results\<close>

datatype effect_state = No_state | Not_started | Not_committed | Committed | Partial | Unknown

record tool_result =
  tr_call :: str
  tr_tool :: str
  tr_content :: str
  tr_code :: str
  tr_error :: bool
  tr_committed :: bool
  tr_deliveries :: int
  tr_actions :: int
  tr_state :: effect_state
  tr_related :: str
  tr_observed :: str

definition zero_result :: tool_result where
  "zero_result = \<lparr>tr_call = [], tr_tool = [], tr_content = [], tr_code = [], tr_error = False, tr_committed = False,
     tr_deliveries = 0, tr_actions = 0, tr_state = No_state, tr_related = [], tr_observed = []\<rparr>"

text \<open>\<open>SuccessResult\<close> of content already marshalled\<close>

definition success_result :: "str \<Rightarrow> str \<Rightarrow> str \<Rightarrow> tool_result" where
  "success_result call tool content1 = zero_result\<lparr>tr_call := call, tr_tool := tool, tr_content := content1\<rparr>"

definition action_success_result :: "str \<Rightarrow> str \<Rightarrow> str \<Rightarrow> int \<Rightarrow> tool_result" where
  "action_success_result call tool content1 deliveries =
     (success_result call tool content1)\<lparr>tr_committed := True, tr_actions := 1, tr_deliveries := deliveries,
        tr_state := Committed\<rparr>"

definition verified_room_delivery :: "tool_result \<Rightarrow> bool" where
  "verified_room_delivery r \<longleftrightarrow> \<not> tr_error r \<and> tr_committed r \<and> 0 < tr_deliveries r
     \<and> (tr_state r = No_state \<or> tr_state r = Committed)"

definition default_code :: "str \<Rightarrow> str" where
  "default_code code = (if code = [] then lit ''TOOL_EXECUTION_FAILED'' else code)"

definition error_result :: "str \<Rightarrow> str \<Rightarrow> str \<Rightarrow> str \<Rightarrow> tool_result" where
  "error_result call tool code msg =
     zero_result\<lparr>tr_call := call, tr_tool := tool, tr_content := msg, tr_code := default_code code, tr_error := True\<rparr>"

definition action_error_result :: "str \<Rightarrow> str \<Rightarrow> str \<Rightarrow> str \<Rightarrow> effect_state \<Rightarrow> tool_result" where
  "action_error_result call tool code msg st =
     (error_result call tool code msg)\<lparr>tr_state := st, tr_committed := (st = Committed \<or> st = Partial)\<rparr>"

definition with_error :: "str \<Rightarrow> str \<Rightarrow> tool_result \<Rightarrow> tool_result" where
  "with_error code msg r = r\<lparr>tr_error := True, tr_code := default_code code, tr_content := msg\<rparr>"

definition validate_observed_data :: "json \<Rightarrow> tool_result \<Rightarrow> tool_result" where
  "validate_observed_data sch r =
     (if tr_observed r \<noteq> [] \<and> \<not> validate_result sch (tr_observed r) then r\<lparr>tr_observed := []\<rparr> else r)"

text \<open>Envelopes.  \<open>compact\<close> is what \<open>Marshal\<close> does to a valid \<open>RawMessage\<close>: white space outside strings goes,
  the characters special in HTML are escaped.\<close>

fun compact :: "bool \<Rightarrow> bool \<Rightarrow> str \<Rightarrow> str" where
  "compact quoted escaped [] = []"
| "compact quoted escaped (c # s) =
     (if \<not> quoted then
        (if c = 32 \<or> c = 9 \<or> c = 10 \<or> c = 13 then compact False False s else c # compact (c = 34) False s)
      else (if c \<in> {60, 62, 38, 0x2028, 0x2029} then encode_rune c else [c])
             @ compact (escaped \<or> c \<noteq> 34) (\<not> escaped \<and> c = 92) s)"

definition error_object :: "str \<Rightarrow> str \<Rightarrow> str" where
  "error_object code msg =
     [123] @ encode_string (lit ''code'') @ [58] @ encode_string code @ [44]
       @ encode_string (lit ''message'') @ [58] @ encode_string msg @ [125]"

text \<open>The members of a map are written in the order of their names.\<close>

definition error_envelope_of :: "str \<Rightarrow> str \<Rightarrow> str \<Rightarrow> str" where
  "error_envelope_of data code msg =
     [123] @ encode_string (lit ''data'') @ [58] @ data @ [44]
       @ encode_string (lit ''error'') @ [58] @ error_object code msg @ [44]
       @ encode_string (lit ''status'') @ [58] @ encode_string (lit ''error'') @ [125]"

definition error_envelope :: "str \<Rightarrow> str \<Rightarrow> str" where
  "error_envelope code msg = error_envelope_of (lit ''null'') code msg"

definition success_envelope :: "str \<Rightarrow> str" where
  "success_envelope data =
     [123] @ encode_string (lit ''status'') @ [58] @ encode_string (lit ''success'') @ [44]
       @ encode_string (lit ''data'') @ [58] @ (if json_valid data then data else encode_string data) @ [125]"

definition envelope :: "tool_result \<Rightarrow> str" where
  "envelope r =
     (if tr_error r then
        (if json_valid (tr_observed r)
         then error_envelope_of (compact False False (tr_observed r)) (tr_code r) (tr_content r)
         else error_envelope (tr_code r) (tr_content r))
      else success_envelope (tr_content r))"

end
