(* ===== verification/Manifest.thy ===== *)
theory Manifest
  imports ToolContract
begin

text \<open>
  What the provider sees of the tools: the result-shape hint of \<open>result_shape.go\<close>, the definitions of
  \<open>manifest.go\<close> and the registry of \<open>tool.go\<close> that selects the tools of a caller.
\<close>

section \<open>The result-shape hint\<close>

definition max_result_shape_hint_bytes :: nat where
  "max_result_shape_hint_bytes = 512"

definition max_result_shape_depth :: nat where
  "max_result_shape_depth = 2"

definition result_shape_omission :: str where
  "result_shape_omission = lit ''[... omitted]''"

definition is_simple_result_shape_name :: "str \<Rightarrow> bool" where
  "is_simple_result_shape_name s \<longleftrightarrow> s \<noteq> [] \<and> \<not> is_digit_ascii (hd s)
     \<and> list_all (\<lambda>c. is_lower_ascii c \<or> is_upper_ascii c \<or> c = 95 \<or> is_digit_ascii c) s"

definition result_shape_property_name :: "str \<Rightarrow> str" where
  "result_shape_property_name s = (if is_simple_result_shape_name s then s else encode_string s)"

definition property_shape :: "str list \<Rightarrow> str \<Rightarrow> str \<Rightarrow> str" where
  "property_shape required name shape =
     result_shape_property_name name @ (if name \<in> set required then [] else lit ''?'') @ lit '':'' @ shape"

text \<open>\<open>projectResultSchema\<close> and \<open>projectResultObject\<close>\<close>

function (sequential) project_result_schema :: "json \<Rightarrow> nat \<Rightarrow> str option" where
  "project_result_schema (JObj node) depth =
     (case get node (lit ''oneOf'') of
        Some raw \<Rightarrow>
          (case as_list raw of None \<Rightarrow> None
           | Some bs \<Rightarrow>
               if bs = [] then None
               else map_option (\<lambda>shapes. lit ''oneOf<'' @ join (lit ''|'') (sort shapes) @ lit ''>'')
                      (those (map (\<lambda>b. project_result_schema b depth) bs)))
      | None \<Rightarrow>
          (case keyword_as as_string node ''type'' of None \<Rightarrow> None
           | Some t \<Rightarrow>
               if \<not> supported t then None
               else if t = lit ''object'' then
                 (case (case get node (lit ''properties'') of None \<Rightarrow> Some []
                        | Some p \<Rightarrow> if p = JNull then None else as_object p) of
                    None \<Rightarrow> None
                  | Some ps \<Rightarrow>
                      if members ps = [] then Some (lit ''object'')
                      else if max_result_shape_depth < depth then Some (lit ''object{'' @ result_shape_omission @ lit ''}'')
                      else (case (case get node (lit ''required'') of None \<Rightarrow> Some [] | Some r \<Rightarrow> as_strings r) of
                              None \<Rightarrow> None
                            | Some required \<Rightarrow>
                                map_option (\<lambda>fs. lit ''{'' @ join (lit '', '') fs @ lit ''}'')
                                  (those (map (\<lambda>(name, q).
                                     map_option (property_shape required name) (project_result_schema q (Suc depth)))
                                   (members ps)))))
               else if t = lit ''array'' then
                 (case get node (lit ''items'') of None \<Rightarrow> Some (lit ''array'')
                  | Some q \<Rightarrow> map_option (\<lambda>shape. lit ''array<'' @ shape @ lit ''>'') (project_result_schema q depth))
               else Some t))"
| "project_result_schema _ depth = None"
  by pat_completeness auto
termination
  by (relation "measure (\<lambda>(raw, d). size raw)")
    (auto dest!: get_size as_list_size as_object_member_size simp del: jsonv.size split: option.splits if_splits)

declare project_result_schema.simps [simp del]

text \<open>The longest prefix of at most \<open>n\<close> bytes that ends between two runes\<close>

fun take_bytes :: "nat \<Rightarrow> str \<Rightarrow> str" where
  "take_bytes n [] = []"
| "take_bytes n (c # s) = (if rune_len c \<le> n then c # take_bytes (n - rune_len c) s else [])"

definition shape_cut :: "rune \<Rightarrow> bool" where
  "shape_cut c \<longleftrightarrow> c \<in> set (lit '' ,:<{|?'')"

definition result_shape_hint :: "json \<Rightarrow> str" where
  "result_shape_hint sch =
     (case project_result_schema sch 0 of None \<Rightarrow> []
      | Some shape \<Rightarrow>
          let hint = lit ''Result shape (not arguments): '' @ shape @ lit ''.'';
              suffix = lit '' '' @ result_shape_omission
          in if utf8_len hint \<le> max_result_shape_hint_bytes then hint
             else trim_right shape_cut (take_bytes (max_result_shape_hint_bytes - utf8_len suffix) hint) @ suffix)"

lemma utf8_len_Cons: "utf8_len (c # s) = rune_len c + utf8_len s"
  by (simp add: utf8_len_def)

lemma utf8_len_take_bytes: "utf8_len (take_bytes n s) \<le> n"
proof (induction n s rule: take_bytes.induct)
  case (2 n c s)
  show ?case
  proof (cases "rune_len c \<le> n")
    case True
    then have "utf8_len (take_bytes (n - rune_len c) s) \<le> n - rune_len c" by (rule 2)
    then show ?thesis using True by (simp add: utf8_len_Cons)
  qed simp
qed simp

lemma utf8_len_trim_right: "utf8_len (trim_right p s) \<le> utf8_len s"
proof -
  obtain t where "s = trim_right p s @ t"
    unfolding trim_right_def by (metis rev_append rev_rev_ident takeWhile_dropWhile_id)
  then show ?thesis by (metis le_add1 utf8_len_append)
qed

text \<open>The hint stays small.  The result-shape hint shown to the model never exceeds 512 bytes, however
  large the result schema of a tool is, and never ends inside a character.\<close>

theorem result_shape_hint_is_bounded: "utf8_len (result_shape_hint sch) \<le> 512"
proof (cases "project_result_schema sch 0")
  case (Some shape)
  let ?hint = "lit ''Result shape (not arguments): '' @ shape @ lit ''.''" and ?suffix = "lit '' '' @ result_shape_omission"
  have "utf8_len ?suffix \<le> 512" by (simp add: result_shape_omission_def utf8_len_def rune_len_def)
  moreover have "utf8_len (trim_right shape_cut (take_bytes (512 - utf8_len ?suffix) ?hint)) \<le> 512 - utf8_len ?suffix"
    using utf8_len_trim_right utf8_len_take_bytes order_trans by blast
  ultimately have "utf8_len (trim_right shape_cut (take_bytes (512 - utf8_len ?suffix) ?hint) @ ?suffix) \<le> 512"
    unfolding utf8_len_append [of "trim_right _ _"] by linarith
  then show ?thesis
    by (simp add: result_shape_hint_def Some max_result_shape_hint_bytes_def Let_def del: lit_simps)
qed (simp add: result_shape_hint_def)

section \<open>Definitions\<close>

record tool_definition =
  def_name :: str
  def_description :: str
  def_parameters :: json

definition access_name :: "access \<Rightarrow> str" where
  "access_name a = (case a of Access_user \<Rightarrow> lit ''USER'' | Access_moderator \<Rightarrow> lit ''MODERATOR''
     | Access_admin \<Rightarrow> lit ''ADMIN'' | Access s \<Rightarrow> s)"

definition effect_name :: "effect_kind \<Rightarrow> str" where
  "effect_name e = (case e of Read_only \<Rightarrow> lit ''READ_ONLY'' | Action \<Rightarrow> lit ''ACTION'' | Effect s \<Rightarrow> s)"

definition mode_name :: "result_mode \<Rightarrow> str" where
  "mode_name m = (case m of Model_data \<Rightarrow> lit ''MODEL_DATA'' | Room_delivery \<Rightarrow> lit ''ROOM_DELIVERY'' | Result_mode s \<Rightarrow> s)"

definition example_text :: "str \<times> str \<Rightarrow> str" where
  "example_text e = lit ''Example: '' @ fst e @ lit '' => '' @ canonical_json (snd e)"

definition listed :: "string \<Rightarrow> str \<Rightarrow> str list \<Rightarrow> str list" where
  "listed label sep xs = (if xs = [] then [] else [lit label @ join sep xs])"

text \<open>\<open>ManifestEntry.Definition\<close>; an entry copies the fields of its descriptor.\<close>

definition definition_of :: "descriptor \<Rightarrow> tool_definition" where
  "definition_of d =
     (let comma = lit '', '';
          metadata =
            [d_description d, lit ''Primary intent: '' @ d_intent d, lit ''Label: '' @ d_label d,
             lit ''Category: '' @ d_category d, lit ''Access: '' @ access_name (d_access d),
             lit ''Effect: '' @ effect_name (d_effect d), lit ''Result mode: '' @ mode_name (d_mode d),
             lit ''Idempotent: '' @ (if d_idempotent d then lit ''true'' else lit ''false'')]
            @ listed ''Aliases: '' comma (ro_aliases (d_routing d))
            @ listed ''Targets: '' comma (ro_targets (d_routing d))
            @ listed ''Use when: '' (lit '' '') (ro_use_when (d_routing d))
            @ map example_text (ro_examples (d_routing d))
            @ listed ''Required capabilities: '' comma (d_capabilities d)
            @ listed ''Required successful tools: '' comma (d_prerequisites d)
            @ listed ''Reads: '' comma (d_reads d)
            @ listed ''Writes: '' comma (d_writes d)
            @ [lit ''When not to use: '' @ join (lit '' '') (d_when_not d)]
      in \<lparr>def_name = d_name d, def_description = join [10] metadata, def_parameters = d_parameters d\<rparr>)"

text \<open>\<open>ManifestEntry.ProviderDefinition\<close>\<close>

definition provider_definition :: "descriptor \<Rightarrow> tool_definition" where
  "provider_definition d =
     (let parts =
            [d_description d] @ ro_use_when (d_routing d) @ d_when_not d
            @ (case ro_examples (d_routing d) of [] \<Rightarrow> [] | e # _ \<Rightarrow> [example_text e @ lit ''.''])
            @ (if d_prerequisites d = [] then []
               else [lit ''First call '' @ join (lit '', '') (d_prerequisites d) @ lit '' successfully.''])
            @ [if d_mode d = Room_delivery then lit ''Executes and delivers output to the room.''
               else if d_effect d = Action then lit ''Returns the documented action receipt without a separate room message.''
               else lit ''Read-only; returns data.'']
            @ (let hint = result_shape_hint (d_result d) in if hint = [] then [] else [hint])
      in \<lparr>def_name = d_name d, def_description = join (lit '' '') parts, def_parameters = d_parameters d\<rparr>)"

section \<open>The registry\<close>

text \<open>A tool as the registry sees it: its descriptor for a caller (or an error), and the \<open>InvocationAuthorizer\<close>
  if it has one.  What \<open>Execute\<close> does belongs to the executor.\<close>

record tool =
  t_descriptor :: "api_context \<Rightarrow> descriptor option"
  t_authorizer :: "(api_context \<Rightarrow> bool) option"

definition authorized_for_invocation :: "tool \<Rightarrow> api_context \<Rightarrow> bool" where
  "authorized_for_invocation t ctx = (case t_authorizer t of None \<Rightarrow> True | Some f \<Rightarrow> f ctx)"

record registry =
  reg_tools :: "(str \<times> tool) list"
  reg_allow :: "str list"

text \<open>\<open>NewRegistry\<close>: of two tools with one name the later stays.\<close>

definition new_registry :: "(str \<times> tool) list \<Rightarrow> str list \<Rightarrow> registry" where
  "new_registry tools allowed = \<lparr>reg_tools = entries tools, reg_allow = allowed\<rparr>"

definition lookup :: "registry \<Rightarrow> str \<Rightarrow> tool option" where
  "lookup r n = map_of (reg_tools r) n"

definition allowed :: "registry \<Rightarrow> str \<Rightarrow> bool" where
  "allowed r n \<longleftrightarrow> n \<in> set (reg_allow r)"

definition find_tool :: "registry \<Rightarrow> api_context \<Rightarrow> str \<Rightarrow> tool option" where
  "find_tool r ctx n =
     (if \<not> allowed r n then None
      else case lookup r n of None \<Rightarrow> None
      | Some t \<Rightarrow>
          if \<not> authorized_for_invocation t ctx then None
          else case t_descriptor t ctx of None \<Rightarrow> None
          | Some d \<Rightarrow> if d_internal d then None else Some t)"

definition has_capabilities :: "api_context \<Rightarrow> str list \<Rightarrow> bool" where
  "has_capabilities ctx caps = list_all (has_capability ctx) caps"

text \<open>\<open>Manifest\<close>: the loop over the tools, with the owners of intents so far; \<open>None\<close> is an error.\<close>

fun manifest_loop :: "registry \<Rightarrow> api_context \<Rightarrow> (str \<times> tool) list \<Rightarrow> str list \<Rightarrow> descriptor list \<Rightarrow> descriptor list option" where
  "manifest_loop r ctx [] owned out = Some out"
| "manifest_loop r ctx ((name, t) # ts) owned out =
     (if \<not> allowed r name then manifest_loop r ctx ts owned out
      else if \<not> authorized_for_invocation t ctx then manifest_loop r ctx ts owned out
      else case t_descriptor t ctx of None \<Rightarrow> None
      | Some d \<Rightarrow>
          if d_internal d then manifest_loop r ctx ts owned out
          else if \<not> has_capabilities ctx (d_capabilities d) then manifest_loop r ctx ts owned out
          else if d_intent d \<in> set owned then None
          else manifest_loop r ctx ts (d_intent d # owned) (out @ [d]))"

definition manifest :: "registry \<Rightarrow> api_context \<Rightarrow> descriptor list option" where
  "manifest r ctx = map_option (sort_key d_name) (manifest_loop r ctx (reg_tools r) [] [])"

definition definitions :: "registry \<Rightarrow> api_context \<Rightarrow> tool_definition list" where
  "definitions r ctx = (case manifest r ctx of None \<Rightarrow> [] | Some ds \<Rightarrow> map definition_of ds)"

text \<open>Whether a tool is offered to a caller\<close>

definition offered :: "registry \<Rightarrow> api_context \<Rightarrow> str \<Rightarrow> tool \<Rightarrow> descriptor \<Rightarrow> bool" where
  "offered r ctx name t d \<longleftrightarrow> allowed r name \<and> authorized_for_invocation t ctx \<and> t_descriptor t ctx = Some d
     \<and> \<not> d_internal d \<and> has_capabilities ctx (d_capabilities d)"

lemma manifest_loop_spec:
  "manifest_loop r ctx ts owned out = Some ds \<Longrightarrow>
     (\<exists>new. ds = out @ new \<and> distinct (map d_intent new) \<and> set (map d_intent new) \<inter> set owned = {}
       \<and> set new = {d. \<exists>name t. (name, t) \<in> set ts \<and> offered r ctx name t d})"
proof (induction ts arbitrary: owned out ds)
  case (Cons a ts)
  obtain name t where a: "a = (name, t)" by fastforce
  show ?case
  proof (cases "\<exists>d. offered r ctx name t d")
    case False
    then have "manifest_loop r ctx ts owned out = Some ds"
      using Cons.prems by (auto simp: a offered_def split: if_splits option.splits)
    moreover have "{d. \<exists>name' t'. (name', t') \<in> set (a # ts) \<and> offered r ctx name' t' d}
        = {d. \<exists>name t. (name, t) \<in> set ts \<and> offered r ctx name t d}"
      using False by (auto simp: a)
    ultimately show ?thesis using Cons.IH by presburger
  next
    case True
    then obtain d where d: "offered r ctx name t d" by blast
    then have fresh: "d_intent d \<notin> set owned" and
      loop: "manifest_loop r ctx ts (d_intent d # owned) (out @ [d]) = Some ds"
      using Cons.prems by (auto simp: a offered_def split: if_splits)
    have only: "offered r ctx name t e \<longleftrightarrow> e = d" for e using d by (auto simp: offered_def)
    obtain new where "ds = (out @ [d]) @ new \<and> distinct (map d_intent new)
       \<and> set (map d_intent new) \<inter> set (d_intent d # owned) = {}
       \<and> set new = {d. \<exists>name t. (name, t) \<in> set ts \<and> offered r ctx name t d}"
      using Cons.IH [OF loop] by blast
    moreover have "{d. \<exists>name' t'. (name', t') \<in> set (a # ts) \<and> offered r ctx name' t' d}
        = insert d {d. \<exists>name t. (name, t) \<in> set ts \<and> offered r ctx name t d}"
      using only by (auto simp: a)
    ultimately have "ds = out @ (d # new)" "distinct (map d_intent (d # new))" "set (map d_intent (d # new)) \<inter> set owned = {}"
      "set (d # new) = {d. \<exists>name' t'. (name', t') \<in> set (a # ts) \<and> offered r ctx name' t' d}"
      using fresh by (simp_all only: list.set list.map distinct.simps append_assoc append.simps) blast+
    then show ?thesis by blast
  qed
qed simp

text \<open>C23. A caller is offered exactly the tools it may use.  When the manifest can be built, its entries are the
  descriptors of the allowed, authorized tools that are not internal and whose capabilities the caller
  holds, no more and no fewer, ordered by name, and no two of them own the same primary intent.\<close>

theorem manifest_is_exact:
  assumes "manifest r ctx = Some ds"
  shows "set ds = {d. \<exists>name t. (name, t) \<in> set (reg_tools r) \<and> offered r ctx name t d}
    \<and> distinct (map d_intent ds) \<and> sorted (map d_name ds)"
proof -
  obtain es where es: "manifest_loop r ctx (reg_tools r) [] [] = Some es" and ds: "ds = sort_key d_name es"
    using assms by (auto simp: manifest_def)
  have "distinct (map d_intent ds) = distinct (map d_intent es)"
    unfolding ds by (metis mset_eq_imp_distinct_iff mset_map mset_sort)
  then show ?thesis
    using manifest_loop_spec [OF es] by (auto simp: ds)
qed

definition demo_registry :: registry where
  "demo_registry = new_registry
     [(d_name demo_descriptor, \<lparr>t_descriptor = \<lambda>_. Some (the (new_descriptor demo_descriptor demo_options)), t_authorizer = None\<rparr>)]
     [d_name demo_descriptor]"

lemma manifest_is_exact_witness:
  "\<exists>ds. manifest demo_registry (i_context demo_invocation) = Some ds
     \<and> the (new_descriptor demo_descriptor demo_options) \<in> set ds"
proof -
  have ok: "manifest demo_registry (i_context demo_invocation) \<noteq> None" by code_simp
  then obtain ds where ds: "manifest demo_registry (i_context demo_invocation) = Some ds" by blast
  have "map d_name ds = [d_name demo_descriptor]"
  proof -
    have "map_option (map d_name) (manifest demo_registry (i_context demo_invocation)) = Some [d_name demo_descriptor]"
      by code_simp
    then show ?thesis by (simp add: ds)
  qed
  then have "ds \<noteq> []" by auto
  then obtain d where "d \<in> set ds" by (cases ds) auto
  moreover have "d = the (new_descriptor demo_descriptor demo_options)" if "d \<in> set ds" for d
    using manifest_is_exact [OF ds] that by (auto simp: demo_registry_def new_registry_def offered_def)
  ultimately show ?thesis using ds by auto
qed

end
