(* ===== verification/Execution.thy ===== *)
theory Execution
  imports Manifest Transition
begin

text \<open>
  \<open>internal/agent/tool/execution\<close>: the ledger of a turn (\<open>ledger.go\<close>), the executor (\<open>execution.go\<close>) and the
  batches of the model (\<open>batch.go\<close>).  A tool's own behaviour is an argument: what it returns, whether
  it panics, and when the context ends.
\<close>

section \<open>Calls\<close>

record call =
  c_id :: str
  c_name :: str
  c_args :: str

definition call_key :: "call \<Rightarrow> str" where
  "call_key c = c_name c @ lit '':'' @ canonical_json (c_args c)"

text \<open>\<open>ValidateBatchIdentity\<close>: the message of the first call that violates it\<close>

fun identity_loop :: "str list \<Rightarrow> call list \<Rightarrow> str option" where
  "identity_loop seen [] = None"
| "identity_loop seen (c # cs) =
     (let i = trim_space (c_id c) in
      if i = [] then Some (lit ''tool call ID must not be blank'')
      else if trim_space (c_name c) = [] then Some (lit ''tool call name must not be blank for '' @ i)
      else if i \<in> set seen then Some (lit ''duplicate tool call ID: '' @ i)
      else identity_loop (i # seen) cs)"

definition validate_batch_identity :: "call list \<Rightarrow> str option" where
  "validate_batch_identity cs = identity_loop [] cs"

section \<open>The ledger\<close>

datatype attempt = Attempt_admitted | Attempt_running | Attempt_finished tool_result

text \<open>A missing entry of the integer and boolean maps reads as zero and false.\<close>

record ledger =
  lg_counts :: "str \<Rightarrow> int"
  lg_failures :: "str \<Rightarrow> int"
  lg_successful :: "str \<Rightarrow> bool"
  lg_limits :: "str \<Rightarrow> int"
  lg_max_failures :: int
  lg_attempts :: "str \<rightharpoonup> attempt"
  lg_actions :: "str \<rightharpoonup> str"
  lg_unknown :: str

definition new_ledger :: "(str \<Rightarrow> int) \<Rightarrow> int \<Rightarrow> ledger" where
  "new_ledger limits max_failures = \<lparr>lg_counts = \<lambda>_. 0, lg_failures = \<lambda>_. 0, lg_successful = \<lambda>_. False,
     lg_limits = limits, lg_max_failures = max_failures, lg_attempts = Map.empty, lg_actions = Map.empty, lg_unknown = []\<rparr>"

definition not_started :: "call \<Rightarrow> str \<Rightarrow> str \<Rightarrow> tool_result" where
  "not_started c code msg = action_error_result (c_id c) (c_name c) code msg Not_started"

text \<open>\<open>admit\<close>: the code of the rejection, empty when admitted\<close>

definition admit :: "call \<Rightarrow> ledger \<Rightarrow> str \<times> ledger" where
  "admit c l =
     (if lg_attempts l (c_id c) \<noteq> None then (lit ''INVALID_TOOL_PROTOCOL'', l)
      else if 0 < lg_limits l (c_name c) \<and> lg_limits l (c_name c) \<le> lg_counts l (c_name c)
        then (lit ''TOOL_CALL_LIMIT_REACHED'', l)
      else if 0 < lg_max_failures l \<and> lg_max_failures l \<le> lg_failures l (c_name c) then (lit ''TOOL_DISABLED'', l)
      else ([], l\<lparr>lg_counts := (lg_counts l)(c_name c := lg_counts l (c_name c) + 1),
                 lg_attempts := (lg_attempts l)(c_id c \<mapsto> Attempt_admitted)\<rparr>))"

definition blocked_message :: str where
  "blocked_message = lit ''a previous action has an unknown outcome; actions are blocked for this turn, but read-only tools remain available''"

definition duplicate_message :: str where
  "duplicate_message = lit ''this action already started or committed effects; use the earlier observation instead of repeating it''"

definition start :: "call \<Rightarrow> descriptor \<Rightarrow> ledger \<Rightarrow> tool_result option \<times> ledger" where
  "start c d l =
     (let running = (\<lambda>l. l\<lparr>lg_attempts := (lg_attempts l)(c_id c \<mapsto> Attempt_running)\<rparr>)
      in if d_effect d = Action then
           if lg_unknown l \<noteq> [] then
             (Some ((not_started c (lit ''ACTION_NOT_EXECUTED'') blocked_message)\<lparr>tr_related := lg_unknown l\<rparr>), l)
           else (case lg_actions l (call_key c) of
               Some previous \<Rightarrow>
                 (Some ((not_started c (lit ''DUPLICATE_TOOL_CALL'') duplicate_message)\<lparr>tr_related := previous\<rparr>), l)
             | None \<Rightarrow> (None, running (l\<lparr>lg_actions := (lg_actions l)(call_key c \<mapsto> c_id c)\<rparr>)))
         else (None, running l))"

definition finish :: "call \<Rightarrow> descriptor \<Rightarrow> tool_result \<Rightarrow> bool \<Rightarrow> ledger \<Rightarrow> ledger" where
  "finish c d r invoked l =
     (let l1 = l\<lparr>lg_attempts := (lg_attempts l)(c_id c \<mapsto> Attempt_finished r)\<rparr>
      in if \<not> invoked then l1
         else
           let l2 = (if tr_error r \<and> tr_state r \<noteq> Not_started
                     then l1\<lparr>lg_failures := (lg_failures l1)(c_name c := lg_failures l1 (c_name c) + 1)\<rparr>
                     else if \<not> tr_error r then l1\<lparr>lg_successful := (lg_successful l1)(c_name c := True)\<rparr>
                     else l1)
           in if d_effect d = Action then
                (case tr_state r of
                   Not_started \<Rightarrow> l2\<lparr>lg_actions := (lg_actions l2)(call_key c := None)\<rparr>
                 | Not_committed \<Rightarrow> l2\<lparr>lg_actions := (lg_actions l2)(call_key c := None)\<rparr>
                 | Unknown \<Rightarrow> l2\<lparr>lg_unknown := c_id c\<rparr>
                 | _ \<Rightarrow> l2)
              else l2)"

definition missing :: "str list \<Rightarrow> ledger \<Rightarrow> str list" where
  "missing prerequisites l = filter (\<lambda>p. \<not> lg_successful l p) prerequisites"

definition available :: "str \<Rightarrow> ledger \<Rightarrow> bool" where
  "available name l =
     (if 0 < lg_limits l name \<and> lg_limits l name \<le> lg_counts l name then False
      else lg_max_failures l \<le> 0 \<or> lg_failures l name < lg_max_failures l)"

section \<open>Actions at most once\<close>

text \<open>What the goroutines of a turn do to its ledger, in any order.  \<open>runs\<close> records every action that was started,
  with the state its result had when it finished.\<close>

record action_run =
  ar_key :: str
  ar_call :: str
  ar_state :: "effect_state option"

definition harmless :: "effect_state option \<Rightarrow> bool" where
  "harmless s \<longleftrightarrow> s = Some Not_started \<or> s = Some Not_committed"

inductive ledger_step :: "ledger \<times> action_run list \<Rightarrow> ledger \<times> action_run list \<Rightarrow> bool" where
  admit: "ledger_step (l, runs) (snd (admit c l), runs)"
| start_read: "d_effect d \<noteq> Action \<Longrightarrow> ledger_step (l, runs) (snd (start c d l), runs)"
| start_action: "d_effect d = Action \<Longrightarrow> start c d l = (None, l') \<Longrightarrow>
    ledger_step (l, runs) (l', runs @ [\<lparr>ar_key = call_key c, ar_call = c_id c, ar_state = None\<rparr>])"
| refuse_action: "d_effect d = Action \<Longrightarrow> start c d l = (Some r, l') \<Longrightarrow> ledger_step (l, runs) (l', runs)"
| finish_not_invoked: "ledger_step (l, runs) (finish c d r False l, runs)"
| finish_read: "d_effect d \<noteq> Action \<Longrightarrow> ledger_step (l, runs) (finish c d r True l, runs)"
| finish_action: "d_effect d = Action \<Longrightarrow> i < length runs \<Longrightarrow> ar_state (runs ! i) = None \<Longrightarrow>
    ar_key (runs ! i) = call_key c \<Longrightarrow> ar_call (runs ! i) = c_id c \<Longrightarrow> c_id c \<noteq> [] \<Longrightarrow>
    ledger_step (l, runs) (finish c d r True l, runs[i := (runs ! i)\<lparr>ar_state := Some (tr_state r)\<rparr>])"

definition ledger_init :: "ledger \<times> action_run list \<Rightarrow> bool" where
  "ledger_init s \<longleftrightarrow> (\<exists>limits n. s = (new_ledger limits n, []))"

text \<open>The ledger remembers a key as long as its last run may have had an effect; all earlier runs had none.\<close>

definition once_per_key :: "(str \<rightharpoonup> str) \<Rightarrow> action_run list \<Rightarrow> bool" where
  "once_per_key actions runs \<longleftrightarrow>
     (\<forall>i < length runs. harmless (ar_state (runs ! i)) \<or> actions (ar_key (runs ! i)) = Some (ar_call (runs ! i)))
     \<and> (\<forall>j < length runs. \<forall>i < j. ar_key (runs ! i) = ar_key (runs ! j) \<longrightarrow> harmless (ar_state (runs ! i)))"

definition unknown_known :: "str \<Rightarrow> action_run list \<Rightarrow> bool" where
  "unknown_known unknown runs \<longleftrightarrow> (\<forall>x \<in> set runs. ar_state x = Some Unknown \<longrightarrow> unknown \<noteq> [])"

definition counts_ok :: "ledger \<Rightarrow> bool" where
  "counts_ok l \<longleftrightarrow> (\<forall>name. 0 \<le> lg_counts l name \<and> (0 < lg_limits l name \<longrightarrow> lg_counts l name \<le> lg_limits l name))"

definition ledger_inv :: "ledger \<times> action_run list \<Rightarrow> bool" where
  "ledger_inv s \<longleftrightarrow> (case s of (l, runs) \<Rightarrow>
     once_per_key (lg_actions l) runs \<and> unknown_known (lg_unknown l) runs \<and> counts_ok l)"

lemma ledger_inv_init: "ledger_init s \<Longrightarrow> ledger_inv s"
  by (auto simp: ledger_init_def ledger_inv_def once_per_key_def unknown_known_def counts_ok_def new_ledger_def)

lemma admit_frame:
  "lg_actions (snd (admit c l)) = lg_actions l" "lg_unknown (snd (admit c l)) = lg_unknown l"
  by (simp_all add: admit_def)

lemma admit_counts: "counts_ok l \<Longrightarrow> counts_ok (snd (admit c l))"
  by (auto simp: counts_ok_def admit_def)

lemma start_read_frame:
  "d_effect d \<noteq> Action \<Longrightarrow> lg_actions (snd (start c d l)) = lg_actions l
    \<and> lg_unknown (snd (start c d l)) = lg_unknown l \<and> counts_ok (snd (start c d l)) = counts_ok l"
  by (simp add: start_def counts_ok_def)

lemma start_action_cases:
  assumes "start c d l = (r, l')" "d_effect d = Action"
  obtains (refused) x where "r = Some x" "l' = l"
    | (started) "r = None" "lg_unknown l = []" "lg_actions l (call_key c) = None"
        "l' = l\<lparr>lg_actions := (lg_actions l)(call_key c \<mapsto> c_id c), lg_attempts := (lg_attempts l)(c_id c \<mapsto> Attempt_running)\<rparr>"
  using assms by (auto simp: start_def split: if_splits option.splits)

lemma finish_frame:
  "d_effect d \<noteq> Action \<or> \<not> invoked \<Longrightarrow>
     lg_actions (finish c d r invoked l) = lg_actions l \<and> lg_unknown (finish c d r invoked l) = lg_unknown l"
  by (simp add: finish_def Let_def)

lemma finish_counts: "counts_ok (finish c d r invoked l) = counts_ok l"
  by (simp add: finish_def counts_ok_def Let_def split: effect_state.split)

lemma finish_action_eq:
  "d_effect d = Action \<Longrightarrow>
     lg_actions (finish c d r True l) =
       (if harmless (Some (tr_state r)) then (lg_actions l)(call_key c := None) else lg_actions l)
     \<and> lg_unknown (finish c d r True l) = (if tr_state r = Unknown then c_id c else lg_unknown l)"
  by (cases "tr_state r") (simp_all add: finish_def harmless_def Let_def)

lemma once_start:
  assumes "once_per_key actions runs" "actions k = None"
  shows "once_per_key (actions(k \<mapsto> c)) (runs @ [\<lparr>ar_key = k, ar_call = c, ar_state = None\<rparr>])"
proof -
  let ?runs = "runs @ [\<lparr>ar_key = k, ar_call = c, ar_state = None\<rparr>]"
  have known: "harmless (ar_state (runs ! i)) \<or> actions (ar_key (runs ! i)) = Some (ar_call (runs ! i))"
    if "i < length runs" for i using assms(1) that by (simp add: once_per_key_def)
  have "harmless (ar_state (?runs ! i)) \<or> (actions(k \<mapsto> c)) (ar_key (?runs ! i)) = Some (ar_call (?runs ! i))"
    if "i < length ?runs" for i
    using known [of i] that assms(2) by (cases "i < length runs") (auto simp: nth_append less_Suc_eq)
  moreover have "harmless (ar_state (?runs ! i))" if "j < length ?runs" "i < j" "ar_key (?runs ! i) = ar_key (?runs ! j)" for i j
  proof (cases "j < length runs")
    case True
    then show ?thesis using assms(1) that by (simp add: once_per_key_def nth_append)
  next
    case False
    then have "j = length runs" "i < length runs" using that by auto
    then show ?thesis using that(3) known [of i] assms(2) by (auto simp: nth_append)
  qed
  ultimately show ?thesis unfolding once_per_key_def by blast
qed

lemma once_finish:
  assumes inv: "once_per_key actions runs" and i: "i < length runs" "ar_state (runs ! i) = None" "ar_key (runs ! i) = k"
  shows "once_per_key (if harmless (Some s) then actions(k := None) else actions)
    (runs[i := (runs ! i)\<lparr>ar_state := Some s\<rparr>])"
proof -
  let ?runs = "runs[i := (runs ! i)\<lparr>ar_state := Some s\<rparr>]"
  have known: "harmless (ar_state (runs ! j)) \<or> actions (ar_key (runs ! j)) = Some (ar_call (runs ! j))"
    if "j < length runs" for j using inv that by (simp add: once_per_key_def)
  have earlier: "harmless (ar_state (runs ! h))" if "h < j" "j < length runs" "ar_key (runs ! h) = ar_key (runs ! j)" for h j
    using inv that by (simp add: once_per_key_def)
  have key: "ar_key (?runs ! j) = ar_key (runs ! j)" "ar_call (?runs ! j) = ar_call (runs ! j)" if "j < length runs" for j
    using that by (cases "j = i"; simp)+
  have other: "harmless (ar_state (runs ! j))" if "j < length runs" "j \<noteq> i" "ar_key (runs ! j) = k" for j
    using that i earlier [of i j] earlier [of j i] by (cases "j < i") (auto simp: harmless_def)
  have known': "harmless (ar_state (?runs ! j))
      \<or> (if harmless (Some s) then actions(k := None) else actions) (ar_key (?runs ! j)) = Some (ar_call (?runs ! j))"
    if j: "j < length runs" for j
  proof (cases "j = i")
    case True
    then have run: "?runs ! j = (runs ! i)\<lparr>ar_state := Some s\<rparr>" using i(1) by simp
    have "actions k = Some (ar_call (runs ! i))" using known [OF i(1)] i(2,3) by (simp add: harmless_def)
    then show ?thesis unfolding run using i(3) by simp
  next
    case False
    then have run: "?runs ! j = runs ! j" by simp
    show ?thesis
    proof (cases "ar_key (runs ! j) = k")
      case True
      then show ?thesis unfolding run using other [OF j False] by simp
    next
      case False
      then show ?thesis unfolding run using known [OF j] by simp
    qed
  qed
  have earlier': "harmless (ar_state (?runs ! h))"
    if "h < j" "j < length runs" "ar_key (?runs ! h) = ar_key (?runs ! j)" for h j
  proof -
    have h: "h < length runs" using that by simp
    have same: "ar_key (runs ! h) = ar_key (runs ! j)" using that(3) key(1) [OF h] key(1) [OF that(2)] by simp
    have "harmless (ar_state (runs ! h))" by (rule earlier [OF that(1,2) same])
    then have "h \<noteq> i" using i(2) by (auto simp: harmless_def)
    then show ?thesis using \<open>harmless (ar_state (runs ! h))\<close> by simp
  qed
  show ?thesis
    unfolding once_per_key_def length_list_update using known' earlier' by blast
qed

lemma ledger_invI:
  "once_per_key (lg_actions l) runs \<Longrightarrow> unknown_known (lg_unknown l) runs \<Longrightarrow> counts_ok l \<Longrightarrow> ledger_inv (l, runs)"
  by (simp add: ledger_inv_def)

lemma ledger_invD:
  "ledger_inv (l, runs) \<Longrightarrow> once_per_key (lg_actions l) runs \<and> unknown_known (lg_unknown l) runs \<and> counts_ok l"
  by (simp add: ledger_inv_def)

lemma ledger_inv_step: "ledger_inv s \<Longrightarrow> ledger_step s t \<Longrightarrow> ledger_inv t"
proof (erule ledger_step.cases, goal_cases)
  case (1 l runs c)
  then show ?case by (simp add: ledger_inv_def admit_frame admit_counts)
next
  case (2 d l runs c)
  then show ?case using start_read_frame [of d c l] by (simp add: ledger_inv_def)
next
  case (3 d c l l' runs)
  have inv: "once_per_key (lg_actions l) runs" "unknown_known (lg_unknown l) runs" "counts_ok l"
    using 3(1,2) by (auto dest: ledger_invD)
  from 3(5,4) show ?case
  proof (cases rule: start_action_cases)
    case started
    have "unknown_known (lg_unknown l') (runs @ [\<lparr>ar_key = call_key c, ar_call = c_id c, ar_state = None\<rparr>])"
      using inv(2) by (simp add: started unknown_known_def)
    moreover have "counts_ok l'" using inv(3) by (simp add: started counts_ok_def)
    ultimately show ?thesis
      unfolding 3(3) using once_start [OF inv(1) started(3)] by (intro ledger_invI) (simp_all add: started)
  qed simp
next
  case (4 d c l r l' runs)
  from 4(5,4) show ?case by (cases rule: start_action_cases) (use 4 in auto)
next
  case (5 l runs c d r)
  then show ?case using finish_frame [of d False c r l] by (simp add: ledger_inv_def finish_counts)
next
  case (6 d l runs c r)
  then show ?case using finish_frame [of d True c r l] by (simp add: ledger_inv_def finish_counts)
next
  case (7 d i runs c l r)
  have inv: "once_per_key (lg_actions l) runs" "unknown_known (lg_unknown l) runs" "counts_ok l"
    using 7(1,2) by (auto dest: ledger_invD)
  have "unknown_known (lg_unknown (finish c d r True l)) (runs[i := (runs ! i)\<lparr>ar_state := Some (tr_state r)\<rparr>])"
    using inv(2) 7(9) finish_action_eq [OF 7(4), of c r l]
    by (auto simp: unknown_known_def dest!: subsetD [OF set_update_subset_insert])
  then show ?case
    unfolding 7(3) using once_finish [OF inv(1) 7(5,6,7), of "tr_state r"] inv(3) finish_action_eq [OF 7(4), of c r l]
    by (intro ledger_invI) (simp_all add: finish_counts)
qed

interpretation actions: invariant_of ledger_init ledger_step ledger_inv
  by unfold_locales (fact ledger_inv_init, erule (1) ledger_inv_step)


section \<open>Properties\<close>

text \<open>C22. An action of a turn takes effect at most once.  However the calls of a turn interleave, of two started
  runs of one tool with the same arguments the earlier ended without effect; after an action with an
  unknown outcome no action is started; and no tool is admitted more often than its limit.\<close>

theorem actions_at_most_once:
  assumes "ledger_init s" "ledger_step\<^sup>*\<^sup>* s (l, runs)"
  shows "(\<forall>j < length runs. \<forall>i < j. ar_key (runs ! i) = ar_key (runs ! j) \<longrightarrow> harmless (ar_state (runs ! i)))
    \<and> ((\<exists>x \<in> set runs. ar_state x = Some Unknown) \<longrightarrow> (\<forall>c d. d_effect d = Action \<longrightarrow> fst (start c d l) \<noteq> None))
    \<and> (\<forall>name. 0 < lg_limits l name \<longrightarrow> lg_counts l name \<le> lg_limits l name)"
proof -
  have inv: "once_per_key (lg_actions l) runs" "unknown_known (lg_unknown l) runs" "counts_ok l"
    using actions.inv_reachable [OF assms] by (auto dest: ledger_invD)
  have "fst (start c d l) \<noteq> None" if "\<exists>x \<in> set runs. ar_state x = Some Unknown" "d_effect d = Action" for c d
    using inv(2) that by (auto simp: unknown_known_def start_def)
  then show ?thesis using inv(1,3) by (auto simp: once_per_key_def counts_ok_def)
qed

text \<open>An action is started twice: its first run ended before any effect.\<close>

definition demo_action :: descriptor where
  "demo_action = demo_descriptor\<lparr>d_effect := Action\<rparr>"

definition demo_call :: "str \<Rightarrow> call" where
  "demo_call i = \<lparr>c_id = i, c_name = lit ''mute'', c_args = [123, 125]\<rparr>"

definition demo_failure :: tool_result where
  "demo_failure = not_started (demo_call [97]) (lit ''ROOM_CLOSED'') []"

definition demo_ledger :: "ledger \<times> action_run list" where
  "demo_ledger =
     (let l = snd (admit (demo_call [97]) (new_ledger (\<lambda>_. 2) 0));
          l = snd (start (demo_call [97]) demo_action l);
          l = finish (demo_call [97]) demo_action demo_failure True l;
          l = snd (admit (demo_call [98]) l);
          l = snd (start (demo_call [98]) demo_action l)
      in (l, [\<lparr>ar_key = call_key (demo_call [97]), ar_call = [97], ar_state = Some Not_started\<rparr>,
              \<lparr>ar_key = call_key (demo_call [98]), ar_call = [98], ar_state = None\<rparr>]))"

lemma demo_keys: "call_key (demo_call i) = lit ''mute'' @ lit '':'' @ canonical_json [123, 125]"
  by (simp add: call_key_def demo_call_def)

lemma demo_ledger_run: "ledger_step\<^sup>*\<^sup>* (new_ledger (\<lambda>_. 2) 0, []) demo_ledger"
proof -
  let ?k = "call_key (demo_call [97])"
  have action: "d_effect demo_action = Action" by (simp add: demo_action_def)
  define l1 where "l1 = snd (admit (demo_call [97]) (new_ledger (\<lambda>_. 2) 0))"
  define l2 where "l2 = snd (start (demo_call [97]) demo_action l1)"
  define l3 where "l3 = finish (demo_call [97]) demo_action demo_failure True l2"
  define l4 where "l4 = snd (admit (demo_call [98]) l3)"
  define l5 where "l5 = snd (start (demo_call [98]) demo_action l4)"
  have empty: "lg_actions l1 = Map.empty" "lg_unknown l1 = []" by (simp_all add: l1_def admit_frame new_ledger_def)
  have start1: "start (demo_call [97]) demo_action l1 = (None, l2)"
    using empty action by (simp add: l2_def start_def)
  have state: "tr_state demo_failure = Not_started"
    by (simp add: demo_failure_def not_started_def action_error_result_def)
  have l2: "lg_actions l2 = [?k \<mapsto> [97]]" "lg_unknown l2 = []"
    using empty action by (simp_all add: l2_def start_def demo_call_def)
  have l4: "lg_actions l4 = Map.empty" "lg_unknown l4 = []"
    using finish_action_eq [OF action, of "demo_call [97]" demo_failure l2] l2 state
    by (simp_all add: l4_def admit_frame l3_def harmless_def)
  have start2: "start (demo_call [98]) demo_action l4 = (None, l5)"
    using l4 action by (simp add: l5_def start_def)
  have "ledger_step (new_ledger (\<lambda>_. 2) 0, []) (l1, [])" unfolding l1_def by (rule ledger_step.admit)
  moreover have "ledger_step (l1, []) (l2, [\<lparr>ar_key = ?k, ar_call = [97], ar_state = None\<rparr>])"
    using ledger_step.start_action [OF action start1, of "[]"] by (simp add: demo_call_def)
  moreover have "ledger_step (l2, [\<lparr>ar_key = ?k, ar_call = [97], ar_state = None\<rparr>])
      (l3, [\<lparr>ar_key = ?k, ar_call = [97], ar_state = Some Not_started\<rparr>])"
    using ledger_step.finish_action [OF action, of 0 "[\<lparr>ar_key = ?k, ar_call = [97], ar_state = None\<rparr>]" "demo_call [97]" l2 demo_failure]
    by (simp add: l3_def state demo_call_def)
  moreover have "ledger_step (l3, [\<lparr>ar_key = ?k, ar_call = [97], ar_state = Some Not_started\<rparr>])
      (l4, [\<lparr>ar_key = ?k, ar_call = [97], ar_state = Some Not_started\<rparr>])"
    unfolding l4_def by (rule ledger_step.admit)
  moreover have "ledger_step (l4, [\<lparr>ar_key = ?k, ar_call = [97], ar_state = Some Not_started\<rparr>]) demo_ledger"
    using ledger_step.start_action [OF action start2, of "[\<lparr>ar_key = ?k, ar_call = [97], ar_state = Some Not_started\<rparr>]"]
    by (simp add: demo_ledger_def Let_def flip: l1_def l2_def l3_def l4_def l5_def) (simp add: demo_call_def)
  ultimately show ?thesis by (meson converse_rtranclp_into_rtranclp rtranclp.rtrancl_refl)
qed

lemma actions_at_most_once_witness:
  "harmless (ar_state (snd demo_ledger ! 0)) \<and> ar_key (snd demo_ledger ! 0) = ar_key (snd demo_ledger ! 1)"
proof -
  obtain l runs where demo: "demo_ledger = (l, runs)" by fastforce
  have runs: "length runs = 2" "ar_key (runs ! 0) = ar_key (runs ! 1)"
    using demo by (auto simp: demo_ledger_def Let_def demo_keys)
  moreover have "ledger_init (new_ledger (\<lambda>_. 2) 0, [])" unfolding ledger_init_def by blast
  ultimately have "harmless (ar_state (runs ! 0))"
    using conjunct1 [OF actions_at_most_once [of "(new_ledger (\<lambda>_. 2) 0, [])" l runs]] demo_ledger_run
    unfolding demo by (metis One_nat_def lessI less_2_cases_iff)
  then show ?thesis using runs(2) by (simp add: demo)
qed

end
