(* ===== verification/Executor.thy ===== *)
theory Executor
  imports Execution
begin

text \<open>
  The executor of \<open>internal/agent/tool/execution/execution.go\<close> and the batches of \<open>batch.go\<close>.  What the code
  does not decide is an argument: what a tool returns or whether it panics, when a context ends, and
  in which order the goroutines of a batch run.
\<close>

section \<open>Preparing a call\<close>

text \<open>\<open>ex_message\<close> is the text of the error of \<open>ValidateArguments\<close>.  A nil executor is one without registry.\<close>

record executor =
  ex_registry :: "registry option"
  ex_exposed :: "(str \<Rightarrow> bool) option"
  ex_message :: "json \<Rightarrow> str \<Rightarrow> str"

record prepared =
  p_call :: call
  p_descriptor :: descriptor
  p_rejection :: "tool_result option"
  p_admitted :: bool

definition zero_descriptor :: descriptor where
  "zero_descriptor = \<lparr>d_name = [], d_label = [], d_description = [], d_category = [], d_intent = [], d_max_bytes = 0,
     d_access = Access [], d_effect = Effect [], d_mode = Result_mode [], d_parameters = JNull, d_result = JNull,
     d_capabilities = [], d_prerequisites = [], d_reads = [], d_writes = [], d_idempotent = False, d_timeout = 0,
     d_when_not = [], d_routing = \<lparr>ro_aliases = [], ro_targets = [], ro_use_when = [], ro_examples = []\<rparr>,
     d_internal = False\<rparr>"

definition choose_available :: str where
  "choose_available = lit ''unknown tool; choose an available tool''"

definition rejected :: "call \<Rightarrow> descriptor \<Rightarrow> bool \<Rightarrow> str \<Rightarrow> str \<Rightarrow> prepared" where
  "rejected c d admitted code msg =
     \<lparr>p_call = c, p_descriptor = d, p_rejection = Some (not_started c code msg), p_admitted = admitted\<rparr>"

text \<open>From the arguments' check on, for a call the ledger admitted or no ledger counts\<close>

definition prepare_arguments :: "executor \<Rightarrow> call \<Rightarrow> descriptor \<Rightarrow> bool \<Rightarrow> prepared" where
  "prepare_arguments e c d admitted =
     (if validate_arguments (d_parameters d) (c_args c)
      then \<lparr>p_call = c, p_descriptor = d, p_rejection = None, p_admitted = admitted\<rparr>
      else rejected c d admitted (lit ''INVALID_ARGUMENTS'') (ex_message e (d_parameters d) (c_args c)))"

definition prepare_exposed :: "executor \<Rightarrow> api_context \<Rightarrow> call \<Rightarrow> descriptor \<Rightarrow> ledger option \<Rightarrow> prepared \<times> ledger option" where
  "prepare_exposed e agent c d led =
     (if (case ex_exposed e of None \<Rightarrow> False | Some exposed \<Rightarrow> \<not> exposed (c_name c)) then
        (rejected c d False (lit ''TOOL_NOT_ALLOWED'') (lit ''tool is not in the current invocation's manifest; choose an available tool or explain the limitation''), led)
      else if d_internal d then (rejected c d False (lit ''TOOL_NOT_ALLOWED'') (lit ''tool is not model-callable''), led)
      else if \<not> has_capabilities agent (d_capabilities d) then
        (rejected c d False (lit ''TOOL_NOT_AUTHORIZED'') (lit ''tool is not authorized''), led)
      else case led of
        None \<Rightarrow> (prepare_arguments e c d False, led)
      | Some l \<Rightarrow>
          let (code, l') = admit c l
          in if code \<noteq> [] then
               (rejected c d False code (lit ''tool attempt was rejected by the request budget or call identity; use another available tool''), Some l')
             else (prepare_arguments e c d True, Some l'))"

definition prepare :: "executor \<Rightarrow> api_context \<Rightarrow> call \<Rightarrow> ledger option \<Rightarrow> prepared \<times> ledger option" where
  "prepare e agent c led =
     (let reject = (\<lambda>code msg. (rejected c zero_descriptor False (lit code) msg, led))
      in case validate_batch_identity [c] of
        Some err \<Rightarrow> reject ''INVALID_TOOL_PROTOCOL'' err
      | None \<Rightarrow>
        (case ex_registry e of
           None \<Rightarrow> reject ''UNKNOWN_TOOL'' choose_available
         | Some r \<Rightarrow>
             if \<not> allowed r (c_name c) then
               reject ''TOOL_NOT_ALLOWED'' (lit ''tool is not allowed; choose an available tool'')
             else (case lookup r (c_name c) of
                 None \<Rightarrow> reject ''UNKNOWN_TOOL'' choose_available
               | Some t \<Rightarrow>
                   if \<not> authorized_for_invocation t agent then
                     reject ''TOOL_NOT_AUTHORIZED'' (lit ''tool is not authorized for this invocation'')
                   else (case t_descriptor t agent of
                       None \<Rightarrow> reject ''INVALID_TOOL_CONTRACT'' (lit ''invalid tool contract; choose another tool'')
                     | Some d \<Rightarrow> prepare_exposed e agent c d led))))"

text \<open>What lets a call through, apart from the ledger and its arguments\<close>

definition callable :: "executor \<Rightarrow> api_context \<Rightarrow> str \<Rightarrow> descriptor \<Rightarrow> bool" where
  "callable e agent name d \<longleftrightarrow> (\<exists>r t. ex_registry e = Some r \<and> lookup r name = Some t \<and> offered r agent name t d)
     \<and> (\<forall>exposed. ex_exposed e = Some exposed \<longrightarrow> exposed name)"

lemma rejected_fields [simp]:
  "p_rejection (rejected c d a code msg) = Some (not_started c code msg)"
  "p_descriptor (rejected c d a code msg) = d" "p_call (rejected c d a code msg) = c"
  "p_admitted (rejected c d a code msg) = a"
  by (simp_all add: rejected_def)

lemma prepare_arguments_fields [simp]:
  "p_descriptor (prepare_arguments e c d a) = d" "p_call (prepare_arguments e c d a) = c"
  "p_admitted (prepare_arguments e c d a) = a"
  "p_rejection (prepare_arguments e c d a) = None \<longleftrightarrow> validate_arguments (d_parameters d) (c_args c)"
  by (simp_all add: prepare_arguments_def)

lemma prepare_exposed_iff:
  "p_rejection (fst (prepare_exposed e agent c d led)) = None \<longleftrightarrow>
     (\<forall>exposed. ex_exposed e = Some exposed \<longrightarrow> exposed (c_name c)) \<and> \<not> d_internal d \<and> has_capabilities agent (d_capabilities d)
     \<and> (\<forall>l. led = Some l \<longrightarrow> fst (admit c l) = []) \<and> validate_arguments (d_parameters d) (c_args c)"
  by (auto simp: prepare_exposed_def split_beta Let_def split: option.splits)

lemma prepare_exposed_descriptor [simp]: "p_descriptor (fst (prepare_exposed e agent c d led)) = d"
  by (simp add: prepare_exposed_def split_beta Let_def split: option.splits)

lemma prepare_call [simp]: "p_call (fst (prepare e agent c led)) = c"
  by (simp add: prepare_def prepare_exposed_def split_beta Let_def split: option.splits)

lemma lookup_offered: "lookup r name = Some t \<Longrightarrow> (name, t) \<in> set (reg_tools r)"
  by (simp add: lookup_def map_of_SomeD)

text \<open>C20. Only offered tools run.  A call is prepared for execution exactly when its identity is valid, its tool is
  in the registry and offered to the caller (allowed, authorized, not internal, all capabilities held)
  and exposed in the invocation's manifest, the ledger admits the attempt, and the arguments satisfy
  the tool's parameter schema; the descriptor used is the one the manifest shows.\<close>

theorem prepared_iff_offered:
  "p_rejection (fst (prepare e agent c led)) = None \<and> p_descriptor (fst (prepare e agent c led)) = d \<longleftrightarrow>
     validate_batch_identity [c] = None \<and> callable e agent (c_name c) d
     \<and> (\<nexists>l. led = Some l \<and> fst (admit c l) \<noteq> [])
     \<and> validate_arguments (d_parameters d) (c_args c)"
  by (auto simp: prepare_def callable_def offered_def prepare_exposed_iff split: option.splits)


section \<open>Executing a prepared call\<close>

datatype ctx_err = Cancelled | Deadline

text \<open>\<open>Returns r b\<close>: the tool returned \<open>r\<close>, with an error if \<open>b\<close>.\<close>

datatype tool_outcome = Panics | Returns tool_result bool

text \<open>What the surroundings do to one call: the error of its context before it starts, what the tool does,
  the error if \<open>select\<close> takes the end of the context before the tool's result, and the error of the
  context (with the timeout of the descriptor) after the tool returned.\<close>

record surroundings =
  w_before :: "ctx_err option"
  w_tool :: tool_outcome
  w_done :: "ctx_err option"
  w_after :: "ctx_err option"

definition invoke_direct :: "tool_outcome \<Rightarrow> tool_result \<times> bool" where
  "invoke_direct x = (case x of Panics \<Rightarrow> (zero_result, True) | Returns r err \<Rightarrow> (r, err \<or> tr_tool r = []))"

definition invoke_read :: "surroundings \<Rightarrow> tool_result \<times> bool" where
  "invoke_read w = (case w_done w of Some _ \<Rightarrow> (zero_result, True) | None \<Rightarrow> invoke_direct (w_tool w))"

definition read_ctx :: "surroundings \<Rightarrow> ctx_err option" where
  "read_ctx w = (case w_done w of Some e \<Rightarrow> Some e | None \<Rightarrow> w_after w)"

definition receipts :: "bool \<Rightarrow> tool_result \<Rightarrow> tool_result" where
  "receipts err r =
     (if tr_committed r \<or> 0 < tr_actions r \<or> 0 < tr_deliveries r then
        r\<lparr>tr_committed := True,
          tr_state := (if tr_state r = Unknown then Unknown
                       else if tr_error r \<or> err \<or> tr_state r = Partial then Partial else Committed)\<rparr>
      else r)"

definition unknown_message :: "tool_result \<Rightarrow> str" where
  "unknown_message r =
     lit ''action outcome is unknown; actions are blocked for this turn. Read-only tools remain available to inspect its outcome''
     @ (if tr_code r \<noteq> [] \<and> tr_code r \<noteq> lit ''ACTION_OUTCOME_UNKNOWN'' then lit ''; reported error: '' @ tr_code r else [])
     @ (if tr_content r \<noteq> [] then lit ''; '' @ tr_content r else [])"

definition normalize_action_result :: "tool_result \<Rightarrow> bool \<Rightarrow> tool_result" where
  "normalize_action_result r0 err =
     (let r = receipts err r0
      in if tr_state r = Unknown \<or> (tr_state r = No_state \<and> \<not> tr_committed r) then
           with_error (lit ''ACTION_OUTCOME_UNKNOWN'') (unknown_message r) (r\<lparr>tr_state := Unknown\<rparr>)
         else if err then
           with_error (lit ''TOOL_EXECUTION_FAILED'') (lit ''action failed; consult effect state and receipts before choosing the next call'') r
         else if tr_error r then with_error (tr_code r) (tr_content r) r
         else if tr_state r = Partial then
           with_error (lit ''PARTIAL_ACTION_OUTCOME'') (lit ''the action completed only partially; '' @ tr_content r) r
         else if \<not> tr_committed r then
           with_error (lit ''UNVERIFIED_ACTION_OUTCOME'') (lit ''action completion was not verified'') r
         else r)"

text \<open>The checks of a result without error\<close>

definition accept_result :: "descriptor \<Rightarrow> tool_result \<Rightarrow> tool_result" where
  "accept_result d r =
     (if \<not> validate_result (d_result d) (tr_content r) then
        with_error (lit ''INVALID_TOOL_RESULT'') (lit ''tool result failed validation'') r
      else if d_mode d = Room_delivery \<and> \<not> verified_room_delivery r then
        with_error (lit ''UNVERIFIED_ROOM_DELIVERY'') (lit ''room delivery was not verified; inspect the effect receipt before taking further action'') r
      else r)"

definition invoke :: "descriptor \<Rightarrow> surroundings \<Rightarrow> tool_result" where
  "invoke d w =
     (if d_effect d = Action then
        (let (r0, err) = invoke_direct (w_tool w); r = normalize_action_result r0 err
         in if tr_error r then r else accept_result d r)
      else
        (let (r, err) = invoke_read w
         in if err then
              (case read_ctx w of
                 Some Deadline \<Rightarrow> with_error (lit ''TOOL_TIMEOUT'') (lit ''tool timed out; a later attempt may retry'') r
               | Some Cancelled \<Rightarrow> with_error (lit ''TOOL_BATCH_CANCELLED'') (lit ''tool execution cancelled'') r
               | None \<Rightarrow> with_error (lit ''TOOL_EXECUTION_FAILED'') (lit ''tool execution failed; a later attempt may retry'') r)
            else if tr_error r then with_error (tr_code r) (tr_content r) r
            else accept_result d r))"

text \<open>\<open>executePrepared\<close> up to the invocation: the result if the call ends before it\<close>

definition begin_call :: "surroundings \<Rightarrow> prepared \<Rightarrow> ledger option \<Rightarrow> tool_result option \<times> ledger option" where
  "begin_call w p led =
     (let c = p_call p; d = p_descriptor p in
      case p_rejection p of
        Some r \<Rightarrow> (Some r, led)
      | None \<Rightarrow>
        (case w_before w of
           Some e \<Rightarrow>
             (Some (not_started c (case e of Deadline \<Rightarrow> lit ''TOOL_BATCH_DEADLINE'' | Cancelled \<Rightarrow> lit ''TOOL_BATCH_CANCELLED'')
                (lit ''tool batch execution cancelled before this call started'')), led)
         | None \<Rightarrow>
           (case led of
              None \<Rightarrow> (None, None)
            | Some l \<Rightarrow>
                let absent = missing (d_prerequisites d) l
                in if absent \<noteq> [] then
                     (Some (not_started c (lit ''MISSING_PREREQUISITE'')
                        (lit ''required tools must succeed first: '' @ join (lit '', '') absent @ lit ''; then retry this call'')), led)
                   else (let (r, l') = start c d l in (r, Some l')))))"

text \<open>The deferred function: the identity of the call, its observed data, and the ledger\<close>

definition complete_call :: "prepared \<Rightarrow> tool_result \<Rightarrow> bool \<Rightarrow> ledger option \<Rightarrow> tool_result \<times> ledger option" where
  "complete_call p r0 invoked led =
     (let c = p_call p; d = p_descriptor p;
          r1 = r0\<lparr>tr_call := c_id c, tr_tool := c_name c\<rparr>;
          r = (if tr_error r1 then validate_observed_data (d_result d) r1 else r1)
      in (r, case led of None \<Rightarrow> None
             | Some l \<Rightarrow> Some (if p_admitted p then finish c d r invoked l else l)))"

definition end_call :: "surroundings \<Rightarrow> prepared \<Rightarrow> tool_result option \<Rightarrow> ledger option \<Rightarrow> tool_result \<times> ledger option" where
  "end_call w p early led =
     (case early of
        Some r \<Rightarrow> complete_call p r False led
      | None \<Rightarrow> complete_call p (invoke (p_descriptor p) w) True led)"

definition execute_prepared :: "surroundings \<Rightarrow> prepared \<Rightarrow> ledger option \<Rightarrow> tool_result \<times> ledger option" where
  "execute_prepared w p led = (let (early, led1) = begin_call w p led in end_call w p early led1)"

definition execute :: "executor \<Rightarrow> api_context \<Rightarrow> call \<Rightarrow> surroundings \<Rightarrow> ledger option \<Rightarrow> tool_result \<times> ledger option" where
  "execute e agent c w led = (let (p, led1) = prepare e agent c led in execute_prepared w p led1)"

lemma complete_call_identity [simp]:
  "tr_call (fst (complete_call p r i led)) = c_id (p_call p)" "tr_tool (fst (complete_call p r i led)) = c_name (p_call p)"
  by (simp_all add: complete_call_def validate_observed_data_def Let_def)

lemma complete_call_frame [simp]:
  "tr_error (fst (complete_call p r i led)) = tr_error r" "tr_state (fst (complete_call p r i led)) = tr_state r"
  "tr_code (fst (complete_call p r i led)) = tr_code r" "tr_committed (fst (complete_call p r i led)) = tr_committed r"
  by (simp_all add: complete_call_def validate_observed_data_def Let_def)

lemma complete_call_ledger:
  "p_admitted p \<Longrightarrow> snd (complete_call p r i (Some l)) =
     Some (finish (p_call p) (p_descriptor p) (fst (complete_call p r i (Some l))) i l)"
  by (simp add: complete_call_def Let_def)

lemma end_call_identity [simp]:
  "tr_call (fst (end_call w p early led)) = c_id (p_call p)" "tr_tool (fst (end_call w p early led)) = c_name (p_call p)"
  by (simp_all add: end_call_def split: option.split)

lemma execute_prepared_identity [simp]:
  "tr_call (fst (execute_prepared w p led)) = c_id (p_call p)" "tr_tool (fst (execute_prepared w p led)) = c_name (p_call p)"
  by (simp_all add: execute_prepared_def split_beta)

lemma with_error_fields [simp]:
  "tr_error (with_error code msg r)" "tr_code (with_error code msg r) = default_code code"
  "tr_content (with_error code msg r) = msg" "tr_committed (with_error code msg r) = tr_committed r"
  "tr_state (with_error code msg r) = tr_state r" "tr_actions (with_error code msg r) = tr_actions r"
  "tr_deliveries (with_error code msg r) = tr_deliveries r"
  by (simp_all add: with_error_def)

lemma receipts_fields [simp]:
  "tr_error (receipts err r) = tr_error r" "tr_code (receipts err r) = tr_code r"
  "tr_content (receipts err r) = tr_content r" "tr_actions (receipts err r) = tr_actions r"
  "tr_deliveries (receipts err r) = tr_deliveries r"
  "tr_committed (receipts err r) \<longleftrightarrow> tr_committed r \<or> 0 < tr_actions r \<or> 0 < tr_deliveries r"
  by (simp_all add: receipts_def)

lemma receipts_state:
  "tr_state (receipts err r) =
     (if tr_committed r \<or> 0 < tr_actions r \<or> 0 < tr_deliveries r then
        (if tr_state r = Unknown then Unknown
         else if tr_error r \<or> err \<or> tr_state r = Partial then Partial else Committed)
      else tr_state r)"
  by (simp add: receipts_def)

lemma normalize_frame:
  "tr_actions (normalize_action_result r err) = tr_actions r" "tr_deliveries (normalize_action_result r err) = tr_deliveries r"
  "tr_committed (normalize_action_result r err) \<longleftrightarrow> tr_committed r \<or> 0 < tr_actions r \<or> 0 < tr_deliveries r"
  by (simp_all add: normalize_action_result_def Let_def)

lemma normalize_error:
  "tr_error (normalize_action_result r err) \<longleftrightarrow>
     err \<or> tr_error r \<or> tr_state (receipts err r) \<noteq> Committed \<or> \<not> tr_committed (receipts err r)"
  by (cases "tr_state r") (simp_all add: normalize_action_result_def Let_def receipts_state)

lemma normalize_state:
  "tr_state (normalize_action_result r err) =
     (if tr_state (receipts err r) = No_state then Unknown else tr_state (receipts err r))"
  by (cases "tr_state r") (simp_all add: normalize_action_result_def Let_def receipts_state)


lemma invoke_action_state:
  "d_effect d = Action \<Longrightarrow>
     tr_state (invoke d w) = tr_state (case_prod normalize_action_result (invoke_direct (w_tool w)))
     \<and> tr_committed (invoke d w) = tr_committed (case_prod normalize_action_result (invoke_direct (w_tool w)))"
  by (simp add: invoke_def accept_result_def Let_def split_beta)

lemma invoke_action_success:
  "d_effect d = Action \<Longrightarrow> \<not> tr_error (invoke d w) \<Longrightarrow>
     \<not> tr_error (case_prod normalize_action_result (invoke_direct (w_tool w)))"
  by (auto simp: invoke_def accept_result_def Let_def split_beta split: if_splits)

lemma begin_action:
  assumes "begin_call w p (Some l) = (None, led)" "d_effect (p_descriptor p) = Action"
  obtains l1 where "led = Some l1" "start (p_call p) (p_descriptor p) l = (None, l1)"
  using assms by (auto simp: begin_call_def Let_def split: option.splits if_splits prod.splits)

text \<open>C21. The outcome of an action is conclusive and remembered.  Whatever an action that was started returns, or
  if it panics, its result never leaves the effect state open: success means committed effects, a panic
  and a missing state mean \<open>UNKNOWN\<close>, and positive receipts mean committed effects.  The ledger forgets
  the action's key exactly when it had no effect, and remembers an unknown outcome.\<close>

theorem action_outcome_recorded:
  assumes "begin_call w p (Some l) = (None, led)" "d_effect (p_descriptor p) = Action" "p_admitted p"
    and "execute_prepared w p (Some l) = (r, Some l')"
  shows "tr_state r \<noteq> No_state
    \<and> (\<not> tr_error r \<longrightarrow> tr_state r = Committed \<and> tr_committed r)
    \<and> (w_tool w = Panics \<longrightarrow> tr_error r \<and> tr_state r = Unknown)
    \<and> (\<forall>q err. w_tool w = Returns q err \<and> (0 < tr_actions q \<or> 0 < tr_deliveries q) \<longrightarrow>
         tr_committed r \<and> tr_state r \<in> {Committed, Partial, Unknown})
    \<and> (lg_actions l' (call_key (p_call p)) = None \<longleftrightarrow> tr_state r \<in> {Not_started, Not_committed})
    \<and> (tr_state r = Unknown \<longrightarrow> lg_unknown l' = c_id (p_call p))"
proof -
  let ?d = "p_descriptor p" and ?c = "p_call p"
  obtain l1 where led: "led = Some l1" "start ?c ?d l = (None, l1)" using begin_action [OF assms(1,2)] .
  have key: "lg_actions l1 (call_key ?c) \<noteq> None"
    using led(2) assms(2) by (auto simp: start_def split: if_splits option.splits)
  have run: "complete_call p (invoke ?d w) True (Some l1) = (r, Some l')"
    using assms(1,4) led by (simp add: execute_prepared_def end_call_def)
  have frame: "tr_error r = tr_error (invoke ?d w)" "tr_state r = tr_state (invoke ?d w)" "tr_committed r = tr_committed (invoke ?d w)"
    using complete_call_frame [of p "invoke ?d w" True "Some l1"] by (simp_all add: run)
  have l': "l' = finish ?c ?d r True l1" using complete_call_ledger [OF assms(3), of "invoke ?d w" True l1] by (simp add: run)
  obtain q err where q: "invoke_direct (w_tool w) = (q, err)" by fastforce
  have state: "tr_state r = tr_state (normalize_action_result q err)" "tr_committed r = tr_committed (normalize_action_result q err)"
    using invoke_action_state [OF assms(2), of w] frame by (simp_all add: q)
  have "tr_state r \<noteq> No_state" by (simp add: state normalize_state)
  moreover have "tr_state r = Committed \<and> tr_committed r" if "\<not> tr_error r"
  proof -
    have "\<not> tr_error (normalize_action_result q err)"
      using invoke_action_success [OF assms(2), of w] that frame(1) by (simp add: q)
    then have "tr_state (receipts err q) = Committed" "tr_committed (receipts err q)"
      unfolding normalize_error by blast+
    then show ?thesis unfolding state normalize_state normalize_frame by (simp add: receipts_def split: if_splits)
  qed
  moreover have "tr_error r \<and> tr_state r = Unknown" if "w_tool w = Panics"
  proof -
    have "tr_state r = Unknown"
      using q that by (auto simp: state normalize_state receipts_state invoke_direct_def zero_result_def)
    then show ?thesis using \<open>\<not> tr_error r \<Longrightarrow> tr_state r = Committed \<and> tr_committed r\<close> by auto
  qed
  moreover have "tr_committed r \<and> tr_state r \<in> {Committed, Partial, Unknown}"
    if "w_tool w = Returns q' err'" "0 < tr_actions q' \<or> 0 < tr_deliveries q'" for q' err'
  proof -
    have "0 < tr_actions q \<or> 0 < tr_deliveries q" using q that by (auto simp: invoke_direct_def)
    then show ?thesis by (auto simp: state normalize_frame normalize_state receipts_state)
  qed
  moreover have "lg_actions l' (call_key ?c) = None \<longleftrightarrow> tr_state r \<in> {Not_started, Not_committed}"
    using finish_action_eq [OF assms(2), of ?c r l1] key by (auto simp: l' harmless_def)
  moreover have "tr_state r = Unknown \<longrightarrow> lg_unknown l' = c_id ?c"
    using finish_action_eq [OF assms(2), of ?c r l1] by (simp add: l')
  ultimately show ?thesis by blast
qed

text \<open>An action whose tool panics\<close>

definition demo_prepared :: prepared where
  "demo_prepared = \<lparr>p_call = demo_call [97], p_descriptor = demo_action, p_rejection = None, p_admitted = True\<rparr>"

definition demo_surroundings :: surroundings where
  "demo_surroundings = \<lparr>w_before = None, w_tool = Panics, w_done = None, w_after = None\<rparr>"

lemma demo_begin:
  "\<exists>led. begin_call demo_surroundings demo_prepared (Some (new_ledger (\<lambda>_. 2) 0)) = (None, led)"
  by (simp add: begin_call_def demo_surroundings_def demo_prepared_def demo_action_def start_def new_ledger_def
      missing_def demo_descriptor_def Let_def)

lemma action_outcome_recorded_witness:
  "\<exists>r l'. execute_prepared demo_surroundings demo_prepared (Some (new_ledger (\<lambda>_. 2) 0)) = (r, Some l')
     \<and> tr_state r = Unknown \<and> lg_unknown l' = [97]"
proof -
  obtain led where begin_demo: "begin_call demo_surroundings demo_prepared (Some (new_ledger (\<lambda>_. 2) 0)) = (None, led)"
    using demo_begin by blast
  have demo: "d_effect (p_descriptor demo_prepared) = Action" "p_admitted demo_prepared" "w_tool demo_surroundings = Panics"
    by (simp_all add: demo_prepared_def demo_action_def demo_surroundings_def)
  obtain l1 where "led = Some l1" using begin_action [OF begin_demo demo(1)] .
  then have "snd (execute_prepared demo_surroundings demo_prepared (Some (new_ledger (\<lambda>_. 2) 0))) \<noteq> None"
    by (simp add: execute_prepared_def begin_demo end_call_def complete_call_ledger [OF demo(2)])
  then obtain r l' where run: "execute_prepared demo_surroundings demo_prepared (Some (new_ledger (\<lambda>_. 2) 0)) = (r, Some l')"
    by (metis not_None_eq prod.collapse)
  have "tr_state r = Unknown \<and> lg_unknown l' = c_id (p_call demo_prepared)"
    using action_outcome_recorded [OF begin_demo demo(1,2) run] demo(3) by simp
  then show ?thesis using run by (auto simp: demo_prepared_def demo_call_def)
qed

end
