(* ===== verification/Batch.thy ===== *)
theory Batch
  imports Executor
begin

text \<open>
  \<open>ExecuteAll\<close> of \<open>internal/agent/tool/execution/batch.go\<close>.  The calls of a batch are known by their index.
  Reads that may overlap are collected and flushed together; during a flush each goroutine has two
  atomic parts, the one before the tool runs and the one after it.  \<open>sched k\<close> says in which order they run
  in the flush before call \<open>k\<close>; parts it leaves out run in the order of the calls, as \<open>Wait\<close> waits for all.
\<close>

section \<open>The batch\<close>

definition parallel_read :: "descriptor \<Rightarrow> bool" where
  "parallel_read d \<longleftrightarrow> d_effect d = Read_only \<and> d_idempotent d \<and> d_writes d = [] \<and> d_reads d \<noteq> []"

datatype event = Begin nat | End nat

fun call_of :: "event \<Rightarrow> nat" where
  "call_of (Begin i) = i"
| "call_of (End i) = i"

record batch =
  b_ledger :: "ledger option"
  b_out :: "tool_result list"
  b_pending :: "nat list"
  b_failed :: str
  b_early :: "nat \<Rightarrow> tool_result option"
  b_log :: "event list"

definition begin_at :: "surroundings \<Rightarrow> prepared \<Rightarrow> nat \<Rightarrow> batch \<Rightarrow> batch" where
  "begin_at w p i b =
     (let (early, led) = begin_call w p (b_ledger b)
      in b\<lparr>b_ledger := led, b_early := (b_early b)(i := early), b_log := b_log b @ [Begin i]\<rparr>)"

definition end_at :: "surroundings \<Rightarrow> prepared \<Rightarrow> nat \<Rightarrow> batch \<Rightarrow> batch" where
  "end_at w p i b =
     (let (r, led) = end_call w p (b_early b i) (b_ledger b)
      in b\<lparr>b_ledger := led, b_out := (b_out b)[i := r], b_log := b_log b @ [End i]\<rparr>)"

text \<open>The next part of pending call \<open>i\<close>, if it has one\<close>

definition work :: "(nat \<Rightarrow> surroundings) \<Rightarrow> prepared list \<Rightarrow> nat \<Rightarrow> batch \<Rightarrow> batch" where
  "work ws ps i b =
     (if i \<notin> set (b_pending b) \<or> End i \<in> set (b_log b) then b
      else if Begin i \<in> set (b_log b) then end_at (ws i) (ps ! i) i b
      else begin_at (ws i) (ps ! i) i b)"

definition flush :: "(nat \<Rightarrow> surroundings) \<Rightarrow> prepared list \<Rightarrow> nat list \<Rightarrow> batch \<Rightarrow> batch" where
  "flush ws ps order b = (fold (work ws ps) (order @ b_pending b @ b_pending b) b)\<lparr>b_pending := []\<rparr>"

definition earlier_failed :: "prepared \<Rightarrow> str \<Rightarrow> prepared" where
  "earlier_failed p failed =
     (if d_effect (p_descriptor p) = Action \<and> failed \<noteq> [] then
        p\<lparr>p_rejection := Some ((not_started (p_call p) (lit ''ACTION_NOT_EXECUTED'')
            (lit ''a preceding action in this batch failed; inspect its observation and choose the next action in a new call''))
              \<lparr>tr_related := failed\<rparr>)\<rparr>
      else p)"

definition overlaps :: "prepared \<Rightarrow> bool" where
  "overlaps p \<longleftrightarrow> parallel_read (p_descriptor p) \<and> p_rejection p = None"

text \<open>A read that may overlap waits for the pending ones if a tool it needs has not succeeded yet.\<close>

definition await_prerequisites :: "(nat \<Rightarrow> surroundings) \<Rightarrow> (nat \<Rightarrow> nat list) \<Rightarrow> prepared list \<Rightarrow> nat \<Rightarrow> batch \<Rightarrow> batch" where
  "await_prerequisites ws sched ps i b =
     (case b_ledger b of
        Some l \<Rightarrow> if missing (d_prerequisites (p_descriptor (ps ! i))) l \<noteq> [] then flush ws ps (sched i) b else b
      | None \<Rightarrow> b)"

definition collect :: "(nat \<Rightarrow> surroundings) \<Rightarrow> (nat \<Rightarrow> nat list) \<Rightarrow> prepared list \<Rightarrow> nat \<Rightarrow> batch \<Rightarrow> batch" where
  "collect ws sched ps i b =
     (let b1 = await_prerequisites ws sched ps i b in b1\<lparr>b_pending := b_pending b1 @ [i]\<rparr>)"

definition run_alone :: "surroundings \<Rightarrow> prepared \<Rightarrow> nat \<Rightarrow> batch \<Rightarrow> batch" where
  "run_alone w p i b =
     (let b1 = end_at w (earlier_failed p (b_failed b)) i (begin_at w (earlier_failed p (b_failed b)) i b)
      in if d_effect (p_descriptor p) = Action \<and> tr_error (b_out b1 ! i) \<and> b_failed b1 = []
         then b1\<lparr>b_failed := c_id (p_call p)\<rparr> else b1)"

definition batch_step :: "(nat \<Rightarrow> surroundings) \<Rightarrow> (nat \<Rightarrow> nat list) \<Rightarrow> prepared list \<Rightarrow> nat \<Rightarrow> batch \<Rightarrow> batch" where
  "batch_step ws sched ps i b =
     (if overlaps (ps ! i) then collect ws sched ps i b
      else run_alone (ws i) (ps ! i) i (flush ws ps (sched i) b))"

definition new_batch :: "ledger option \<Rightarrow> nat \<Rightarrow> batch" where
  "new_batch led n = \<lparr>b_ledger = led, b_out = replicate n zero_result, b_pending = [], b_failed = [],
     b_early = \<lambda>_. None, b_log = []\<rparr>"

definition run_batch :: "(nat \<Rightarrow> surroundings) \<Rightarrow> (nat \<Rightarrow> nat list) \<Rightarrow> prepared list \<Rightarrow> ledger option \<Rightarrow> batch" where
  "run_batch ws sched ps led =
     (let n = length ps in flush ws ps (sched n) (fold (batch_step ws sched ps) [0..<n] (new_batch led n)))"

fun prepare_all :: "executor \<Rightarrow> api_context \<Rightarrow> call list \<Rightarrow> ledger option \<Rightarrow> prepared list \<times> ledger option" where
  "prepare_all e agent [] led = ([], led)"
| "prepare_all e agent (c # cs) led =
     (let (p, led1) = prepare e agent c led; (ps, led2) = prepare_all e agent cs led1 in (p # ps, led2))"

text \<open>\<open>ExecuteAll\<close>: the results, the ledger, and the order in which the calls began and ended\<close>

definition execute_all ::
  "executor \<Rightarrow> api_context \<Rightarrow> (nat \<Rightarrow> surroundings) \<Rightarrow> (nat \<Rightarrow> nat list) \<Rightarrow> call list \<Rightarrow> ledger option
     \<Rightarrow> tool_result list \<times> ledger option \<times> event list" where
  "execute_all e agent ws sched calls led =
     (case validate_batch_identity calls of
        Some err \<Rightarrow> (map (\<lambda>c. not_started c (lit ''INVALID_TOOL_PROTOCOL'') err) calls, led, [])
      | None \<Rightarrow>
          let (ps, led1) = prepare_all e agent calls led; b = run_batch ws sched ps led1
          in (b_out b, b_ledger b, b_log b))"

section \<open>One step\<close>

text \<open>The log lists each part once, a call's begin before its end; a finished call has its result.\<close>

definition answered :: "prepared list \<Rightarrow> tool_result list \<Rightarrow> nat \<Rightarrow> bool" where
  "answered ps out i \<longleftrightarrow> tr_call (out ! i) = c_id (p_call (ps ! i)) \<and> tr_tool (out ! i) = c_name (p_call (ps ! i))"

definition log_ok :: "prepared list \<Rightarrow> batch \<Rightarrow> bool" where
  "log_ok ps b \<longleftrightarrow> length (b_out b) = length ps \<and> distinct (b_log b)
     \<and> (\<forall>i. End i \<in> set (b_log b) \<longrightarrow> Begin i \<in> set (b_log b) \<and> answered ps (b_out b) i)"

lemma begin_at_fields [simp]:
  "b_out (begin_at w p i b) = b_out b" "b_pending (begin_at w p i b) = b_pending b" "b_failed (begin_at w p i b) = b_failed b"
  "b_log (begin_at w p i b) = b_log b @ [Begin i]"
  by (simp_all add: begin_at_def split_beta Let_def)

lemma end_at_fields [simp]:
  "b_pending (end_at w p i b) = b_pending b" "b_failed (end_at w p i b) = b_failed b" "b_log (end_at w p i b) = b_log b @ [End i]"
  "b_out (end_at w p i b) = (b_out b)[i := fst (end_call w p (b_early b i) (b_ledger b))]"
  by (simp_all add: end_at_def split_beta Let_def)

lemma begin_at_log_ok: "log_ok ps b \<Longrightarrow> Begin i \<notin> set (b_log b) \<Longrightarrow> log_ok ps (begin_at w p i b)"
  by (simp add: log_ok_def)

lemma end_at_log_ok:
  assumes "log_ok ps b" "Begin i \<in> set (b_log b)" "End i \<notin> set (b_log b)" "i < length ps" "p_call p = p_call (ps ! i)"
  shows "log_ok ps (end_at w p i b)"
proof -
  have out: "answered ps (b_out (end_at w p i b)) j" if "j = i \<or> answered ps (b_out b) j" for j
    using that assms(1,4,5) by (cases "j = i") (auto simp: answered_def log_ok_def)
  then show ?thesis using assms(1-3) unfolding log_ok_def by (auto simp: out simp del: end_at_fields(4)) (simp add: end_at_fields(4))
qed

section \<open>A flush\<close>

text \<open>What a flush does to the batch it started from\<close>

definition flushed :: "prepared list \<Rightarrow> batch \<Rightarrow> batch \<Rightarrow> bool" where
  "flushed ps b0 b \<longleftrightarrow> log_ok ps b \<and> b_pending b = b_pending b0 \<and> b_failed b = b_failed b0
     \<and> (\<exists>new. b_log b = b_log b0 @ new \<and> call_of ` set new \<subseteq> set (b_pending b0))
     \<and> (\<forall>j. j \<notin> set (b_pending b0) \<longrightarrow> b_out b ! j = b_out b0 ! j)"

lemma work_flushed:
  assumes "flushed ps b0 b" "set (b_pending b0) \<subseteq> {..<length ps}"
  shows "flushed ps b0 (work ws ps i b)"
proof -
  obtain new where new: "b_log b = b_log b0 @ new" "call_of ` set new \<subseteq> set (b_pending b0)"
    and ok: "log_ok ps b" and same: "b_pending b = b_pending b0" "b_failed b = b_failed b0"
    and out: "\<And>j. j \<notin> set (b_pending b0) \<Longrightarrow> b_out b ! j = b_out b0 ! j"
    using assms(1) by (auto simp: flushed_def)
  consider "work ws ps i b = b"
    | (started) "i \<in> set (b_pending b)" "Begin i \<notin> set (b_log b)" "work ws ps i b = begin_at (ws i) (ps ! i) i b"
    | (ended) "i \<in> set (b_pending b)" "Begin i \<in> set (b_log b)" "End i \<notin> set (b_log b)"
        "work ws ps i b = end_at (ws i) (ps ! i) i b"
    by (cases "i \<notin> set (b_pending b) \<or> End i \<in> set (b_log b)"; cases "Begin i \<in> set (b_log b)")
      (simp_all add: work_def)
  then show ?thesis
  proof cases
    case started
    have "\<exists>new'. b_log (begin_at (ws i) (ps ! i) i b) = b_log b0 @ new' \<and> call_of ` set new' \<subseteq> set (b_pending b0)"
      using new started(1) same by (intro exI [of _ "new @ [Begin i]"]) auto
    then show ?thesis
      unfolding started(3) flushed_def using begin_at_log_ok [OF ok started(2)] same out by simp
  next
    case ended
    have i: "i < length ps" using ended(1) same assms(2) by auto
    have "\<exists>new'. b_log (end_at (ws i) (ps ! i) i b) = b_log b0 @ new' \<and> call_of ` set new' \<subseteq> set (b_pending b0)"
      using new ended(1) same by (intro exI [of _ "new @ [End i]"]) auto
    moreover have "b_out (end_at (ws i) (ps ! i) i b) ! j = b_out b0 ! j" if "j \<notin> set (b_pending b0)" for j
    proof -
      have "j \<noteq> i" using that ended(1) same by auto
      then show ?thesis using out [OF that] by simp
    qed
    ultimately show ?thesis
      unfolding ended(4) flushed_def using end_at_log_ok [OF ok ended(2,3) i refl] same by simp
  qed (use assms in simp)
qed

lemma fold_work_flushed:
  "flushed ps b0 b \<Longrightarrow> set (b_pending b0) \<subseteq> {..<length ps} \<Longrightarrow> flushed ps b0 (fold (work ws ps) is b)"
  by (induction "is" arbitrary: b) (simp_all add: work_flushed)

lemma work_log_mono: "set (b_log b) \<subseteq> set (b_log (work ws ps i b))"
  by (auto simp: work_def)

lemma work_pending [simp]: "b_pending (work ws ps i b) = b_pending b"
  by (simp add: work_def)

lemma fold_work_pending [simp]: "b_pending (fold (work ws ps) xs b) = b_pending b"
  by (induction xs arbitrary: b) simp_all

lemma fold_work_mono: "e \<in> set (b_log b) \<Longrightarrow> e \<in> set (b_log (fold (work ws ps) xs b))"
  by (induction xs arbitrary: b) (auto dest: subsetD [OF work_log_mono])

lemma work_progress:
  "i \<in> set (b_pending b) \<Longrightarrow> Begin i \<in> set (b_log (work ws ps i b)) \<or> End i \<in> set (b_log (work ws ps i b))"
  "i \<in> set (b_pending b) \<Longrightarrow> Begin i \<in> set (b_log b) \<Longrightarrow> End i \<in> set (b_log (work ws ps i b))"
  by (auto simp: work_def)

lemma fold_work_begins:
  "i \<in> set xs \<Longrightarrow> i \<in> set (b_pending b) \<Longrightarrow>
     Begin i \<in> set (b_log (fold (work ws ps) xs b)) \<or> End i \<in> set (b_log (fold (work ws ps) xs b))"
proof (induction xs arbitrary: b)
  case (Cons x xs)
  show ?case
  proof (cases "x = i")
    case True
    then show ?thesis using work_progress(1) [OF Cons.prems(2), of ws ps] fold_work_mono by fastforce
  qed (use Cons in simp)
qed simp

lemma fold_work_ends:
  "i \<in> set xs \<Longrightarrow> i \<in> set (b_pending b) \<Longrightarrow> Begin i \<in> set (b_log b) \<Longrightarrow> End i \<in> set (b_log (fold (work ws ps) xs b))"
proof (induction xs arbitrary: b)
  case (Cons x xs)
  show ?case
  proof (cases "x = i")
    case True
    then show ?thesis using work_progress(2) [OF Cons.prems(2,3), of ws ps] fold_work_mono by fastforce
  next
    case False
    then show ?thesis using Cons subsetD [OF work_log_mono] by simp
  qed
qed simp

text \<open>A flush finishes all pending calls and nothing else.\<close>

lemma flush_spec:
  assumes "log_ok ps b" "set (b_pending b) \<subseteq> {..<length ps}"
  shows "log_ok ps (flush ws ps order b) \<and> b_pending (flush ws ps order b) = [] \<and> b_failed (flush ws ps order b) = b_failed b
    \<and> (\<exists>new. b_log (flush ws ps order b) = b_log b @ new \<and> call_of ` set new \<subseteq> set (b_pending b))
    \<and> (\<forall>j. j \<notin> set (b_pending b) \<longrightarrow> b_out (flush ws ps order b) ! j = b_out b ! j)
    \<and> (\<forall>i \<in> set (b_pending b). End i \<in> set (b_log (flush ws ps order b)))"
proof -
  let ?b1 = "fold (work ws ps) order b" and ?b = "fold (work ws ps) (order @ b_pending b @ b_pending b) b"
  let ?b2 = "fold (work ws ps) (b_pending b) ?b1"
  have "flushed ps b b" using assms(1) by (simp add: flushed_def)
  then have f: "flushed ps b ?b" "flushed ps b ?b2" "flushed ps b ?b1"
    using fold_work_flushed assms(2) by blast+
  have "End i \<in> set (b_log ?b)" if i: "i \<in> set (b_pending b)" for i
  proof -
    have "Begin i \<in> set (b_log ?b2)"
      using fold_work_begins [of i "b_pending b" ?b1 ws ps] f(2) i by (auto simp: flushed_def log_ok_def)
    then show ?thesis using fold_work_ends [of i "b_pending b" ?b2 ws ps] i by simp
  qed
  then show ?thesis using f(1) by (auto simp: flush_def flushed_def log_ok_def)
qed


section \<open>The whole batch\<close>

definition fenced :: "batch \<Rightarrow> nat \<Rightarrow> bool" where
  "fenced b a \<longleftrightarrow> (\<exists>xs ys. b_log b = xs @ [Begin a, End a] @ ys \<and> call_of ` set xs = {..<a} \<and> (\<forall>e \<in> set ys. a < call_of e))"

text \<open>After \<open>k\<close> calls: what is not pending has ended, and calls that may not overlap are fenced in the log.\<close>

definition order_inv :: "prepared list \<Rightarrow> nat \<Rightarrow> batch \<Rightarrow> bool" where
  "order_inv ps k b \<longleftrightarrow> log_ok ps b
     \<and> (\<forall>i \<in> set (b_pending b). i < k \<and> overlaps (ps ! i))
     \<and> (\<forall>i < k. i \<notin> set (b_pending b) \<longrightarrow> End i \<in> set (b_log b))
     \<and> (\<forall>e \<in> set (b_log b). call_of e < k)
     \<and> (\<forall>a < k. \<not> overlaps (ps ! a) \<longrightarrow> fenced b a \<and> (\<forall>i \<in> set (b_pending b). a < i))"

lemma fenced_append:
  assumes "fenced b a" "b_log b' = b_log b @ new" "\<forall>e \<in> set new. a < call_of e"
  shows "fenced b' a"
proof -
  obtain xs ys where "b_log b = xs @ [Begin a, End a] @ ys" "call_of ` set xs = {..<a}" "\<forall>e \<in> set ys. a < call_of e"
    using assms(1) by (auto simp: fenced_def)
  then show ?thesis
    using assms(2,3) unfolding fenced_def by (intro exI [of _ xs] exI [of _ "ys @ new"]) auto
qed

lemma flush_order:
  assumes inv: "order_inv ps k b" and k: "k \<le> length ps"
  shows "order_inv ps k (flush ws ps order b) \<and> b_pending (flush ws ps order b) = []"
proof -
  let ?b = "flush ws ps order b"
  have "log_ok ps b" "set (b_pending b) \<subseteq> {..<length ps}" using inv k by (auto simp: order_inv_def)
  note f = flush_spec [OF this, of ws order]
  obtain new where new: "b_log ?b = b_log b @ new" "call_of ` set new \<subseteq> set (b_pending b)" using f by blast
  have "End i \<in> set (b_log ?b)" if "i < k" for i using inv f that new(1) by (cases "i \<in> set (b_pending b)") (auto simp: order_inv_def)
  moreover have "call_of e < k" if "e \<in> set (b_log ?b)" for e using inv new that by (auto simp: order_inv_def)
  moreover have "fenced ?b a" if "a < k" "\<not> overlaps (ps ! a)" for a
  proof (rule fenced_append)
    show "fenced b a" using inv that by (simp add: order_inv_def)
    show "\<forall>e \<in> set new. a < call_of e" using inv that new(2) by (auto simp: order_inv_def)
  qed (rule new(1))
  ultimately show ?thesis using f by (simp add: order_inv_def)
qed

lemma await_cases:
  "await_prerequisites ws sched ps i b = b \<or> await_prerequisites ws sched ps i b = flush ws ps (sched i) b"
  by (simp add: await_prerequisites_def split: option.split)

lemma await_order: "order_inv ps k b \<Longrightarrow> k \<le> length ps \<Longrightarrow> order_inv ps k (await_prerequisites ws sched ps i b)"
  using await_cases [of ws sched ps i b] flush_order [of ps k b ws "sched i"] by metis

lemma collect_order:
  assumes inv: "order_inv ps k b" and k: "k < length ps" and p: "overlaps (ps ! k)"
  shows "order_inv ps (Suc k) (collect ws sched ps k b)"
proof -
  let ?b1 = "await_prerequisites ws sched ps k b"
  have b1: "order_inv ps k ?b1" using await_order [OF inv] k by simp
  have "fenced (?b1\<lparr>b_pending := xs\<rparr>) a = fenced ?b1 a" for xs a by (simp add: fenced_def)
  then show ?thesis using b1 p unfolding collect_def Let_def order_inv_def by (auto simp: log_ok_def less_Suc_eq)
qed

lemma earlier_failed_call [simp]: "p_call (earlier_failed p f) = p_call p" "p_descriptor (earlier_failed p f) = p_descriptor p"
  by (simp_all add: earlier_failed_def)

lemma run_alone_fields [simp]:
  "b_pending (run_alone w p i b) = b_pending b" "b_log (run_alone w p i b) = b_log b @ [Begin i, End i]"
  by (simp_all add: run_alone_def Let_def)

lemma run_alone_log_ok:
  assumes ok: "log_ok ps b" and logged: "\<forall>e \<in> set (b_log b). call_of e < i" and i: "i < length ps" and p: "p_call p = p_call (ps ! i)"
  shows "log_ok ps (run_alone w p i b)"
proof -
  let ?p = "earlier_failed p (b_failed b)"
  have fresh: "Begin i \<notin> set (b_log b)" "End i \<notin> set (b_log b)" using logged by force+
  let ?b = "end_at w ?p i (begin_at w ?p i b)"
  have ended: "log_ok ps ?b"
    using begin_at_log_ok [OF ok fresh(1)] fresh(2) i p by (intro end_at_log_ok) simp_all
  have "run_alone w p i b = ?b \<or> (\<exists>f. run_alone w p i b = ?b\<lparr>b_failed := f\<rparr>)"
    unfolding run_alone_def Let_def by (split if_split) blast
  then show ?thesis
  proof (elim disjE exE)
    fix f
    assume "run_alone w p i b = ?b\<lparr>b_failed := f\<rparr>"
    moreover have "log_ok ps (x\<lparr>b_failed := f\<rparr>) = log_ok ps x" for x by (simp add: log_ok_def)
    ultimately show ?thesis using ended by (simp only:)
  qed (simp only: ended)
qed

lemma run_alone_order:
  assumes inv: "order_inv ps k b" and k: "k < length ps" and empty: "b_pending b = []"
  shows "order_inv ps (Suc k) (run_alone w (ps ! k) k b)"
proof -
  let ?b = "run_alone w (ps ! k) k b"
  have logged: "call_of ` set (b_log b) = {..<k}"
  proof
    show "call_of ` set (b_log b) \<subseteq> {..<k}" using inv by (auto simp: order_inv_def)
    show "{..<k} \<subseteq> call_of ` set (b_log b)" using inv empty by (force simp: order_inv_def)
  qed
  have ok: "log_ok ps ?b" using run_alone_log_ok [OF _ _ k refl] inv by (simp add: order_inv_def)
  have "fenced ?b k" using logged unfolding fenced_def by (intro exI [of _ "b_log b"] exI [of _ "[]"]) simp
  moreover have "fenced ?b a" if "a < k" "\<not> overlaps (ps ! a)" for a
    using fenced_append [of b a ?b "[Begin k, End k]"] inv that by (simp add: order_inv_def)
  ultimately show ?thesis using inv empty ok by (auto simp: order_inv_def less_Suc_eq)
qed

lemma batch_step_order:
  assumes "order_inv ps k b" "k < length ps"
  shows "order_inv ps (Suc k) (batch_step ws sched ps k b)"
proof (cases "overlaps (ps ! k)")
  case True
  then show ?thesis using collect_order [OF assms] by (simp add: batch_step_def)
next
  case False
  then show ?thesis
    using run_alone_order flush_order [OF assms(1), of ws "sched k"] assms(2) by (simp add: batch_step_def)
qed

lemma new_batch_order: "order_inv ps 0 (new_batch led (length ps))"
  by (simp add: order_inv_def log_ok_def new_batch_def)

text \<open>Failures: once an action failed, no later action is invoked.\<close>

definition is_action :: "prepared \<Rightarrow> bool" where
  "is_action p \<longleftrightarrow> d_effect (p_descriptor p) = Action"

definition fail_inv :: "prepared list \<Rightarrow> nat \<Rightarrow> batch \<Rightarrow> bool" where
  "fail_inv ps k b \<longleftrightarrow>
     (b_failed b = [] \<longrightarrow> (\<forall>i < k. is_action (ps ! i) \<longrightarrow> \<not> tr_error (b_out b ! i)))
     \<and> (\<forall>j < k. \<forall>i < j. is_action (ps ! i) \<and> is_action (ps ! j) \<and> tr_error (b_out b ! i) \<longrightarrow>
          tr_error (b_out b ! j) \<and> tr_state (b_out b ! j) = Not_started)"

lemma action_alone: "is_action p \<Longrightarrow> \<not> overlaps p"
  by (simp add: is_action_def overlaps_def parallel_read_def)

lemma fail_inv_cong:
  assumes "fail_inv ps k b" "b_failed b' = b_failed b" "\<And>i. i < k \<Longrightarrow> is_action (ps ! i) \<Longrightarrow> b_out b' ! i = b_out b ! i"
  shows "fail_inv ps k b'"
proof -
  have "tr_error (b_out b' ! j) \<and> tr_state (b_out b' ! j) = Not_started"
    if "j < k" "i < j" "is_action (ps ! i)" "is_action (ps ! j)" "tr_error (b_out b' ! i)" for i j
    using assms(1) that assms(3) [of i] assms(3) [of j] by (simp add: fail_inv_def)
  moreover have "\<not> tr_error (b_out b' ! i)" if "b_failed b' = []" "i < k" "is_action (ps ! i)" for i
    using assms(1,2) that assms(3) [of i] by (simp add: fail_inv_def)
  ultimately show ?thesis unfolding fail_inv_def by blast
qed

lemma flush_fail:
  assumes "order_inv ps k b" "fail_inv ps k b" "k \<le> length ps"
  shows "fail_inv ps k (flush ws ps order b)"
proof -
  have "log_ok ps b" "set (b_pending b) \<subseteq> {..<length ps}" using assms by (auto simp: order_inv_def)
  note f = flush_spec [OF this, of ws order]
  have "i \<notin> set (b_pending b)" if "is_action (ps ! i)" for i
    using assms(1) action_alone [OF that] by (auto simp: order_inv_def)
  then show ?thesis using fail_inv_cong [OF assms(2), of "flush ws ps order b"] f by simp
qed

lemma collect_fail:
  assumes "order_inv ps k b" "fail_inv ps k b" "k < length ps" "overlaps (ps ! k)"
  shows "fail_inv ps (Suc k) (collect ws sched ps k b)"
proof -
  have "fail_inv ps k (await_prerequisites ws sched ps k b)"
    using await_cases [of ws sched ps k b] flush_fail [OF assms(1,2), of ws "sched k"] assms(2,3) by auto
  then have "fail_inv ps k (collect ws sched ps k b)"
    by (rule fail_inv_cong) (simp_all add: collect_def Let_def)
  moreover have "\<not> is_action (ps ! k)" using assms(4) action_alone by blast
  ultimately show ?thesis by (simp add: fail_inv_def less_Suc_eq)
qed

lemma blocked_action:
  assumes "is_action p" "failed \<noteq> []"
  shows "\<exists>r. begin_call w (earlier_failed p failed) led = (Some r, led) \<and> tr_error r \<and> tr_state r = Not_started"
  using assms by (simp add: earlier_failed_def is_action_def begin_call_def not_started_def action_error_result_def
      error_result_def)

lemma blocked_result:
  assumes "is_action p" "b_failed b \<noteq> []" "i < length (b_out b)"
  shows "tr_error (b_out (run_alone w p i b) ! i) \<and> tr_state (b_out (run_alone w p i b) ! i) = Not_started"
proof -
  let ?p = "earlier_failed p (b_failed b)"
  obtain r where r: "begin_call w ?p (b_ledger b) = (Some r, b_ledger b)" "tr_error r" "tr_state r = Not_started"
    using blocked_action [OF assms(1,2)] by blast
  have "b_early (begin_at w ?p i b) i = Some r" by (simp add: begin_at_def r)
  then show ?thesis using assms(2,3) r by (simp add: run_alone_def Let_def end_call_def)
qed

lemma run_alone_out: "j \<noteq> i \<Longrightarrow> b_out (run_alone w p i b) ! j = b_out b ! j"
  by (simp add: run_alone_def Let_def)

lemma run_alone_failed:
  "c_id (p_call p) \<noteq> [] \<Longrightarrow>
     b_failed (run_alone w p i b) = [] \<longleftrightarrow> b_failed b = [] \<and> \<not> (is_action p \<and> tr_error (b_out (run_alone w p i b) ! i))"
  by (cases "b_failed b = []"; cases "is_action p") (simp_all add: run_alone_def Let_def is_action_def)

lemma run_alone_fail:
  assumes "fail_inv ps k b" "k < length ps" "length (b_out b) = length ps" "c_id (p_call (ps ! k)) \<noteq> []"
  shows "fail_inv ps (Suc k) (run_alone w (ps ! k) k b)"
proof -
  let ?b = "run_alone w (ps ! k) k b"
  have out: "b_out ?b ! i = b_out b ! i" if "i < k" for i using that run_alone_out [of i k] by simp
  have none: "\<not> tr_error (b_out ?b ! i)" if "b_failed ?b = []" "i < Suc k" "is_action (ps ! i)" for i
    using that assms(1) out run_alone_failed [OF assms(4), of w k b] by (cases "i = k") (auto simp: fail_inv_def less_Suc_eq)
  have stop: "tr_error (b_out ?b ! j) \<and> tr_state (b_out ?b ! j) = Not_started"
    if "j < Suc k" "i < j" "is_action (ps ! i)" "is_action (ps ! j)" "tr_error (b_out ?b ! i)" for i j
  proof (cases "j = k")
    case True
    then have "tr_error (b_out b ! i)" "i < k" using that out by auto
    then have "b_failed b \<noteq> []" using assms(1) that(3) by (auto simp: fail_inv_def)
    then show ?thesis using blocked_result [of "ps ! k" b k w] that(4) assms(2,3) True by simp
  next
    case False
    then have j: "j < k" using that by simp
    then show ?thesis using assms(1) that out [of i] out [of j] by (simp add: fail_inv_def)
  qed
  show ?thesis using none stop unfolding fail_inv_def by blast
qed

lemma batch_steps:
  assumes "\<forall>p \<in> set ps. c_id (p_call p) \<noteq> []" "k \<le> length ps"
  shows "order_inv ps k (fold (batch_step ws sched ps) [0..<k] (new_batch led (length ps)))
    \<and> fail_inv ps k (fold (batch_step ws sched ps) [0..<k] (new_batch led (length ps)))"
  using assms(2)
proof (induction k)
  case (Suc k)
  let ?b = "fold (batch_step ws sched ps) [0..<k] (new_batch led (length ps))"
  have IH: "order_inv ps k ?b" "fail_inv ps k ?b" and k: "k < length ps" using Suc by simp_all
  have f: "order_inv ps k (flush ws ps (sched k) ?b)" using flush_order [OF IH(1)] k by simp
  have "fail_inv ps (Suc k) (batch_step ws sched ps k ?b)"
  proof (cases "overlaps (ps ! k)")
    case True
    then show ?thesis using collect_fail [OF IH k] by (simp add: batch_step_def)
  next
    case False
    have "fail_inv ps k (flush ws ps (sched k) ?b)" using flush_fail [OF IH] k by simp
    then show ?thesis
      using run_alone_fail k f assms(1) False by (simp add: batch_step_def order_inv_def log_ok_def)
  qed
  then show ?case using batch_step_order [OF IH(1) k] by simp
qed (simp add: new_batch_order fail_inv_def)

lemma run_batch_invs:
  assumes "\<forall>p \<in> set ps. c_id (p_call p) \<noteq> []"
  shows "order_inv ps (length ps) (run_batch ws sched ps led) \<and> b_pending (run_batch ws sched ps led) = []
    \<and> fail_inv ps (length ps) (run_batch ws sched ps led)"
  using batch_steps [OF assms order_refl, of ws sched led] flush_order flush_fail
  unfolding run_batch_def Let_def by blast


section \<open>Properties\<close>

lemma identity_loop_ids: "identity_loop seen cs = None \<Longrightarrow> c \<in> set cs \<Longrightarrow> c_id c \<noteq> []"
  by (induction seen cs rule: identity_loop.induct) (auto simp: Let_def split: if_splits)

lemma prepare_all_calls: "map p_call (fst (prepare_all e agent cs led)) = cs"
proof (induction cs arbitrary: led)
  case (Cons c cs)
  then show ?case using prepare_call [of e agent c led] by (simp add: split_beta Let_def)
qed simp

lemma order_inv_log:
  assumes "order_inv ps n b" "b_pending b = []"
  shows "set (b_log b) = Begin ` {..<n} \<union> End ` {..<n}"
proof
  show "set (b_log b) \<subseteq> Begin ` {..<n} \<union> End ` {..<n}"
  proof
    fix e assume "e \<in> set (b_log b)"
    then have "call_of e < n" using assms(1) by (simp add: order_inv_def)
    then show "e \<in> Begin ` {..<n} \<union> End ` {..<n}" by (cases e) auto
  qed
  show "Begin ` {..<n} \<union> End ` {..<n} \<subseteq> set (b_log b)"
    using assms by (auto simp: order_inv_def log_ok_def)
qed

lemma order_inv_fence:
  assumes "order_inv ps n b" "b_pending b = []" "a < n" "\<not> overlaps (ps ! a)"
  shows "\<exists>xs ys. b_log b = xs @ [Begin a, End a] @ ys \<and> call_of ` set xs = {..<a} \<and> call_of ` set ys = {a<..<n}"
proof -
  have "fenced b a" using assms by (simp add: order_inv_def)
  then obtain xs ys where xs: "b_log b = xs @ [Begin a, End a] @ ys" "call_of ` set xs = {..<a}" "\<forall>e \<in> set ys. a < call_of e"
    by (auto simp: fenced_def)
  have "call_of ` set ys \<subseteq> {a<..<n}" using xs assms(1) by (auto simp: order_inv_def)
  moreover have "i \<in> call_of ` set ys" if "i \<in> {a<..<n}" for i
  proof -
    have "End i \<in> set xs \<union> {Begin a, End a} \<union> set ys" using assms(1,2) that xs(1) by (auto simp: order_inv_def)
    moreover have "End i \<notin> set xs"
    proof
      assume "End i \<in> set xs"
      then have "i \<in> {..<a}" using imageI [of "End i" "set xs" call_of] by (simp add: xs(2))
      then show False using that by simp
    qed
    ultimately have "End i \<in> set ys" using that by auto
    then show ?thesis by force
  qed
  ultimately show ?thesis using xs by blast
qed

lemma identity_valid_ids:
  assumes "validate_batch_identity calls = None"
  shows "\<forall>p \<in> set (fst (prepare_all e agent calls led)). c_id (p_call p) \<noteq> []"
  using assms prepare_all_calls [of e agent calls led] identity_loop_ids
  unfolding validate_batch_identity_def by (metis imageI list.set_map)

lemma order_inv_answers:
  assumes "order_inv ps n b" "b_pending b = []" "n = length ps" "map p_call ps = calls"
  shows "map tr_call (b_out b) = map c_id calls \<and> map tr_tool (b_out b) = map c_name calls"
proof -
  have len: "length (b_out b) = n" using assms(1,3) by (simp add: order_inv_def log_ok_def)
  have "p_call (ps ! i) = calls ! i" if "i < n" for i using assms(3,4) that by (metis nth_map)
  moreover have "answered ps (b_out b) i" if "i < n" for i
    using assms(1,2) that by (simp add: order_inv_def log_ok_def)
  ultimately show ?thesis using len assms(3,4) by (auto intro!: nth_equalityI simp: answered_def)
qed

lemma execute_all_answers:
  "length (fst (execute_all e agent ws sched calls led)) = length calls
   \<and> map tr_call (fst (execute_all e agent ws sched calls led)) = map c_id calls
   \<and> map tr_tool (fst (execute_all e agent ws sched calls led)) = map c_name calls"
proof (cases "validate_batch_identity calls")
  case None
  let ?ps = "fst (prepare_all e agent calls led)"
  let ?b = "run_batch ws sched ?ps (snd (prepare_all e agent calls led))"
  have calls: "map p_call ?ps = calls" by (rule prepare_all_calls)
  then have n: "length calls = length ?ps" by (metis length_map)
  then have inv: "order_inv ?ps (length calls) ?b" "b_pending ?b = []"
    using run_batch_invs [OF identity_valid_ids [OF None]] by simp_all
  then show ?thesis
    using order_inv_answers [OF inv n calls] n
    by (simp add: execute_all_def None split_beta Let_def order_inv_def log_ok_def)
next
  case (Some err)
  then show ?thesis
    by (simp add: execute_all_def comp_def not_started_def action_error_result_def error_result_def)
qed

text \<open>A batch answers every call in its place.  However the reads overlap, the results have the calls' order,
  identifiers and names; each call of a well-formed batch begins and ends exactly once; and a call that
  may not overlap begins after all earlier calls have ended and ends before any later one begins.\<close>

theorem batch_answers_every_call:
  "length (fst (execute_all e agent ws sched calls led)) = length calls
   \<and> map tr_call (fst (execute_all e agent ws sched calls led)) = map c_id calls
   \<and> map tr_tool (fst (execute_all e agent ws sched calls led)) = map c_name calls
   \<and> (validate_batch_identity calls = None \<longrightarrow>
        distinct (snd (snd (execute_all e agent ws sched calls led)))
        \<and> set (snd (snd (execute_all e agent ws sched calls led))) = Begin ` {..<length calls} \<union> End ` {..<length calls}
        \<and> (\<forall>a < length calls. \<not> overlaps (fst (prepare_all e agent calls led) ! a) \<longrightarrow>
             (\<exists>xs ys. snd (snd (execute_all e agent ws sched calls led)) = xs @ [Begin a, End a] @ ys
                \<and> call_of ` set xs = {..<a} \<and> call_of ` set ys = {a<..<length calls})))"
proof (cases "validate_batch_identity calls")
  case None
  let ?ps = "fst (prepare_all e agent calls led)"
  let ?b = "run_batch ws sched ?ps (snd (prepare_all e agent calls led))" and ?n = "length calls"
  have all: "snd (snd (execute_all e agent ws sched calls led)) = b_log ?b"
    by (simp add: execute_all_def None split_beta Let_def)
  have "?n = length ?ps" using prepare_all_calls by (metis length_map)
  then have inv: "order_inv ?ps ?n ?b" "b_pending ?b = []"
    using run_batch_invs [OF identity_valid_ids [OF None]] by simp_all
  then have "distinct (b_log ?b)" by (simp add: order_inv_def log_ok_def)
  then show ?thesis
    unfolding all using execute_all_answers order_inv_log [OF inv] order_inv_fence [OF inv] by blast
qed (use execute_all_answers in simp)

text \<open>The witness of the conditional part: three calls without a registry\<close>

definition demo_calls :: "call list" where
  "demo_calls = [demo_call [97], demo_call [98], demo_call [99]]"

definition demo_executor :: executor where
  "demo_executor = \<lparr>ex_registry = Some demo_registry, ex_exposed = None, ex_message = \<lambda>_ _. []\<rparr>"

lemma demo_calls_valid: "validate_batch_identity demo_calls = None"
  by code_simp

lemma batch_answers_every_call_witness:
  "distinct (snd (snd (execute_all demo_executor (i_context demo_invocation) (\<lambda>_. demo_surroundings) (\<lambda>_. []) demo_calls None)))"
  using batch_answers_every_call [of demo_executor "i_context demo_invocation" "\<lambda>_. demo_surroundings" "\<lambda>_. []" demo_calls None]
    demo_calls_valid by blast

text \<open>C19. A failed action stops the actions of its batch.  If an action's result is an error, every later action of
  the batch is answered with an error and \<open>NOT_STARTED\<close>: its tool is not invoked.  Reads still run.\<close>

theorem failed_action_stops_actions:
  assumes "validate_batch_identity calls = None" "execute_all e agent ws sched calls led = (out, led', events)"
    and "i < j" "j < length calls"
    and "is_action (fst (prepare_all e agent calls led) ! i)" "is_action (fst (prepare_all e agent calls led) ! j)"
    and "tr_error (out ! i)"
  shows "tr_error (out ! j) \<and> tr_state (out ! j) = Not_started"
proof -
  let ?ps = "fst (prepare_all e agent calls led)"
  have calls: "map p_call ?ps = calls" by (rule prepare_all_calls)
  have "fail_inv ?ps (length ?ps) (run_batch ws sched ?ps (snd (prepare_all e agent calls led)))"
    using run_batch_invs [OF identity_valid_ids [OF assms(1)]] by blast
  moreover have "out = b_out (run_batch ws sched ?ps (snd (prepare_all e agent calls led)))"
    using assms(1,2) by (simp add: execute_all_def split_beta Let_def)
  moreover have "j < length ?ps" using assms(4) calls by (metis length_map)
  ultimately show ?thesis using assms(3,5-7) by (auto simp: fail_inv_def)
qed


text \<open>Two actions with one argument; the tool panics.\<close>

definition demo_actions :: "call list" where
  "demo_actions = [\<lparr>c_id = [97], c_name = [109], c_args = [123, 34, 110, 34, 58, 51, 125]\<rparr>,
                   \<lparr>c_id = [98], c_name = [109], c_args = [123, 34, 110, 34, 58, 51, 125]\<rparr>]"

definition mute_executor :: executor where
  "mute_executor = \<lparr>ex_registry = Some \<lparr>reg_tools = [([109], \<lparr>t_descriptor = \<lambda>_. Some demo_action, t_authorizer = None\<rparr>)],
     reg_allow = [[109]]\<rparr>, ex_exposed = None, ex_message = \<lambda>_ _. []\<rparr>"

lemma demo_arguments: "validate_arguments (d_parameters demo_action) [123, 34, 110, 34, 58, 51, 125]"
  by code_simp

lemma demo_prepare:
  "validate_batch_identity [c] = None \<Longrightarrow> c_name c = [109] \<Longrightarrow> c_args c = [123, 34, 110, 34, 58, 51, 125] \<Longrightarrow>
     prepare mute_executor agent c None = (\<lparr>p_call = c, p_descriptor = demo_action, p_rejection = None, p_admitted = False\<rparr>, None)"
  using demo_arguments
  by (simp add: prepare_def mute_executor_def allowed_def lookup_def authorized_for_invocation_def prepare_exposed_def
      prepare_arguments_def has_capabilities_def demo_action_def demo_descriptor_def)

lemma demo_prepare_all:
  "prepare_all mute_executor agent demo_actions None =
     (map (\<lambda>c. \<lparr>p_call = c, p_descriptor = demo_action, p_rejection = None, p_admitted = False\<rparr>) demo_actions, None)"
proof -
  have "validate_batch_identity [c] = None" if "c \<in> set demo_actions" for c
    using that by (auto simp: demo_actions_def) code_simp+
  then show ?thesis by (simp add: demo_actions_def demo_prepare)
qed

lemma panicking_action_fails:
  assumes "is_action p" "p_rejection p = None" "b_ledger b = None" "b_failed b = []" "i < length (b_out b)"
    "w_tool w = Panics" "w_before w = None"
  shows "tr_error (b_out (run_alone w p i b) ! i)"
proof -
  have p: "earlier_failed p (b_failed b) = p" by (simp add: earlier_failed_def assms(4))
  have "b_early (begin_at w p i b) i = None" "b_ledger (begin_at w p i b) = None"
    using assms(2,3,7) by (simp_all add: begin_at_def begin_call_def)
  moreover have "tr_error (invoke (p_descriptor p) w)"
    using assms(1,6) by (simp add: invoke_def is_action_def invoke_direct_def normalize_action_result_def zero_result_def
        receipts_def)
  ultimately have "tr_error (fst (end_call w p (b_early (begin_at w p i b) i) (b_ledger (begin_at w p i b))))"
    by (simp add: end_call_def)
  moreover have "b_out (run_alone w p i b) = (b_out b)[i := fst (end_call w p (b_early (begin_at w p i b) i) (b_ledger (begin_at w p i b)))]"
    by (simp add: run_alone_def Let_def p)
  ultimately show ?thesis using assms(5) by simp
qed

lemma demo_fails:
  assumes "ps = [p, q]" "is_action p" "is_action q" "p_rejection p = None"
  shows "tr_error (b_out (run_batch (\<lambda>_. demo_surroundings) (\<lambda>_. []) ps None) ! 0)"
proof -
  let ?w = "\<lambda>_::nat. demo_surroundings" and ?s = "\<lambda>_::nat. [] :: nat list"
  have nth: "ps ! 0 = p" "ps ! 1 = q" and n: "length ps = 2" "[0..<2] = [0, 1::nat]"
    using assms(1) by (simp_all add: upt_rec)
  have idle: "flush ?w ps [] b = b" if "b_pending b = []" for b using that by (cases b) (simp add: flush_def)
  have alone: "batch_step ?w ?s ps i b = run_alone demo_surroundings (ps ! i) i b"
    if "b_pending b = []" "\<not> overlaps (ps ! i)" for i b
    using that idle by (simp add: batch_step_def)
  have "run_batch ?w ?s ps None = run_alone demo_surroundings q 1 (run_alone demo_surroundings p 0 (new_batch None 2))"
    using action_alone [OF assms(2)] action_alone [OF assms(3)]
    by (simp add: run_batch_def n idle alone nth [unfolded One_nat_def] new_batch_def)
  moreover have "tr_error (b_out (run_alone demo_surroundings p 0 (new_batch None 2)) ! 0)"
    using assms(2,4) by (intro panicking_action_fails) (simp_all add: new_batch_def demo_surroundings_def)
  ultimately show ?thesis by (simp add: run_alone_out)
qed

lemma failed_action_stops_actions_witness:
  "tr_state (fst (execute_all mute_executor (i_context demo_invocation) (\<lambda>_. demo_surroundings) (\<lambda>_. []) demo_actions None) ! 1)
     = Not_started"
proof -
  let ?all = "execute_all mute_executor (i_context demo_invocation) (\<lambda>_. demo_surroundings) (\<lambda>_. []) demo_actions None"
  have valid: "validate_batch_identity demo_actions = None" by code_simp
  have "is_action (fst (prepare_all mute_executor (i_context demo_invocation) demo_actions None) ! 0)"
    "is_action (fst (prepare_all mute_executor (i_context demo_invocation) demo_actions None) ! 1)"
    unfolding demo_prepare_all by (simp_all add: demo_actions_def is_action_def demo_action_def)
  moreover have "tr_error (fst ?all ! 0)"
    unfolding execute_all_def valid demo_prepare_all
    by (simp add: demo_actions_def Let_def) (rule demo_fails [OF refl]; simp add: is_action_def demo_action_def)
  moreover have "length demo_actions = 2" by (simp add: demo_actions_def)
  ultimately show ?thesis
    using failed_action_stops_actions [OF valid, of mute_executor "i_context demo_invocation" "\<lambda>_. demo_surroundings" "\<lambda>_. []"
        None "fst ?all" "fst (snd ?all)" "snd (snd ?all)" 0 1] by simp
qed
end
