(* ===== verification/TurnState.thy ===== *)
theory TurnState
  imports Batch
begin

text \<open>
  The provider-neutral messages of \<open>internal/agent/llm/client.go\<close>, the budgets of a turn
  (\<open>internal/agent/turn/state.go\<close>), the check of a final response (\<open>final_response.go\<close>) and the feedback about
  rejected calls (\<open>internal/agent/live/turn_engine.go\<close>).
\<close>

section \<open>Messages\<close>

record tool_call =
  tc_id :: str
  tc_name :: str
  tc_raw :: str

record llm_message =
  lm_role :: str
  lm_content :: "str option"
  lm_calls :: "tool_call list"
  lm_call_id :: "str option"

definition new_message :: "str \<Rightarrow> str option \<Rightarrow> tool_call list \<Rightarrow> str \<Rightarrow> llm_message" where
  "new_message role content1 calls call_id =
     \<lparr>lm_role = role, lm_content = content1, lm_calls = calls, lm_call_id = (if call_id = [] then None else Some call_id)\<rparr>"

definition message_content :: "llm_message \<Rightarrow> str" where
  "message_content m = (case lm_content m of None \<Rightarrow> [] | Some s \<Rightarrow> s)"

definition message_call_id :: "llm_message \<Rightarrow> str" where
  "message_call_id m = (case lm_call_id m of None \<Rightarrow> [] | Some s \<Rightarrow> s)"

record llm_response =
  lr_content :: "str option"
  lr_finish :: str
  lr_calls :: "tool_call list"

definition response_content :: "llm_response \<Rightarrow> str" where
  "response_content r = (case lr_content r of None \<Rightarrow> [] | Some s \<Rightarrow> s)"

definition from_llm :: "tool_call \<Rightarrow> call" where
  "from_llm c = \<lparr>c_id = tc_id c, c_name = tc_name c, c_args = tc_raw c\<rparr>"

section \<open>The budgets of a turn\<close>

record execution_limits =
  el_steps :: int
  el_calls :: int
  el_per_tool :: int
  el_failures :: int
  el_timeout :: duration

record evidence =
  ev_attempted :: bool
  ev_attempts :: int
  ev_successes :: int
  ev_failures :: int

definition new_evidence :: "bool \<Rightarrow> int \<Rightarrow> int \<Rightarrow> int \<Rightarrow> evidence option" where
  "new_evidence attempted n s f =
     (if n < 0 \<or> s < 0 \<or> f < 0 \<or> s + f \<noteq> n \<or> attempted \<noteq> (0 < n) then None
      else Some \<lparr>ev_attempted = attempted, ev_attempts = n, ev_successes = s, ev_failures = f\<rparr>)"

record turn_state =
  ts_limits :: execution_limits
  ts_steps :: int
  ts_reserved :: int
  ts_attempted :: int
  ts_succeeded :: int
  ts_failed :: int

definition new_state :: "execution_limits \<Rightarrow> turn_state" where
  "new_state l = \<lparr>ts_limits = l, ts_steps = 0, ts_reserved = 0, ts_attempted = 0, ts_succeeded = 0, ts_failed = 0\<rparr>"

definition advance_step :: "turn_state \<Rightarrow> bool \<times> turn_state" where
  "advance_step s = (if el_steps (ts_limits s) \<le> ts_steps s then (False, s) else (True, s\<lparr>ts_steps := ts_steps s + 1\<rparr>))"

definition remaining_steps :: "turn_state \<Rightarrow> int" where
  "remaining_steps s = max 0 (el_steps (ts_limits s) - ts_steps s)"

definition reserve_tool_calls :: "int \<Rightarrow> turn_state \<Rightarrow> bool \<times> turn_state" where
  "reserve_tool_calls n s =
     (if n < 0 \<or> el_calls (ts_limits s) < ts_reserved s + n then (False, s)
      else (True, s\<lparr>ts_reserved := ts_reserved s + n\<rparr>))"

definition remaining_tool_calls :: "turn_state \<Rightarrow> int" where
  "remaining_tool_calls s = el_calls (ts_limits s) - ts_reserved s"

definition mark_tool_attempted :: "int \<Rightarrow> turn_state \<Rightarrow> turn_state option" where
  "mark_tool_attempted n s = (if n < 0 then None else Some (s\<lparr>ts_attempted := ts_attempted s + n\<rparr>))"

definition record_tool_success :: "turn_state \<Rightarrow> turn_state option" where
  "record_tool_success s =
     (if ts_attempted s \<le> ts_succeeded s + ts_failed s then None else Some (s\<lparr>ts_succeeded := ts_succeeded s + 1\<rparr>))"

definition record_tool_failure :: "turn_state \<Rightarrow> turn_state option" where
  "record_tool_failure s =
     (if ts_attempted s \<le> ts_succeeded s + ts_failed s then None else Some (s\<lparr>ts_failed := ts_failed s + 1\<rparr>))"

text \<open>The zero \<open>Evidence\<close> is what a turn without attempts reports.\<close>

definition state_evidence :: "turn_state \<Rightarrow> evidence" where
  "state_evidence s = \<lparr>ev_attempted = 0 < ts_attempted s, ev_attempts = ts_attempted s, ev_successes = ts_succeeded s,
     ev_failures = ts_failed s\<rparr>"

text \<open>Callers that ignore an error keep the state as it is.\<close>

definition ignore_error :: "('s \<Rightarrow> 's option) \<Rightarrow> 's \<Rightarrow> 's" where
  "ignore_error f s = (case f s of None \<Rightarrow> s | Some t \<Rightarrow> t)"

definition record_result :: "bool \<Rightarrow> turn_state \<Rightarrow> turn_state" where
  "record_result failed = ignore_error (if failed then record_tool_failure else record_tool_success)"

text \<open>Every attempt has one recorded result, and reservations stay within the budget.\<close>

definition turn_state_ok :: "turn_state \<Rightarrow> bool" where
  "turn_state_ok s \<longleftrightarrow> 0 \<le> ts_succeeded s \<and> 0 \<le> ts_failed s \<and> ts_succeeded s + ts_failed s = ts_attempted s
     \<and> 0 \<le> ts_reserved s \<and> ts_reserved s \<le> max 0 (el_calls (ts_limits s))"

lemma record_results:
  "ts_succeeded s + ts_failed s + int (length errs) \<le> ts_attempted s \<Longrightarrow>
     fold record_result errs s =
       s\<lparr>ts_succeeded := ts_succeeded s + int (length (filter Not errs)),
         ts_failed := ts_failed s + int (length (filter id errs))\<rparr>"
proof (induction errs arbitrary: s)
  case (Cons e errs)
  have "record_result e s = (if e then s\<lparr>ts_failed := ts_failed s + 1\<rparr> else s\<lparr>ts_succeeded := ts_succeeded s + 1\<rparr>)"
    using Cons.prems by (simp add: record_result_def ignore_error_def record_tool_failure_def record_tool_success_def)
  then show ?case using Cons by (cases e) simp_all
qed simp

section \<open>Final responses\<close>

definition contains :: "str \<Rightarrow> str \<Rightarrow> bool" where
  "contains s part \<longleftrightarrow> sublist part s"

definition contains_tool_protocol_artifact :: "str \<Rightarrow> bool" where
  "contains_tool_protocol_artifact content1 \<longleftrightarrow>
     contains (to_lower content1) (lit ''<|tool_call'') \<or> contains (to_lower content1) (lit ''<tool_call'')"

definition final_response_ok :: "llm_response \<Rightarrow> bool" where
  "final_response_ok r \<longleftrightarrow> lr_finish r \<noteq> lit ''length'' \<and> lr_calls r = [] \<and> trim_space (response_content r) \<noteq> []
     \<and> \<not> contains_tool_protocol_artifact (trim_space (response_content r))"

section \<open>Feedback about rejected calls\<close>

definition json_bool :: "bool \<Rightarrow> str" where
  "json_bool b = (if b then lit ''true'' else lit ''false'')"

definition json_member :: "string \<Rightarrow> str \<Rightarrow> str" where
  "json_member name value = encode_string (lit name) @ [58] @ value"

definition json_struct :: "str list \<Rightarrow> str" where
  "json_struct ms = [123] @ join [44] ms @ [125]"

text \<open>\<open>feedbackPrefix\<close>: the longest prefix within the bytes that ends between two runes\<close>

definition feedback_prefix :: "str \<Rightarrow> nat \<Rightarrow> str" where
  "feedback_prefix value n = (if utf8_len value \<le> n then value else take_bytes n value)"

definition preview_truncated :: "nat \<Rightarrow> tool_call \<Rightarrow> bool" where
  "preview_truncated n c \<longleftrightarrow> feedback_prefix (tc_id c) n \<noteq> tc_id c \<or> feedback_prefix (tc_name c) n \<noteq> tc_name c
     \<or> feedback_prefix (tc_raw c) n \<noteq> tc_raw c"

definition call_preview :: "nat \<Rightarrow> tool_call \<Rightarrow> str" where
  "call_preview n c = json_struct
     [json_member ''id'' (encode_string (feedback_prefix (tc_id c) n)),
      json_member ''name'' (encode_string (feedback_prefix (tc_name c) n)),
      json_member ''arguments'' (encode_string (feedback_prefix (tc_raw c) n)),
      json_member ''truncated'' (json_bool (preview_truncated n c))]"

text \<open>The encoded diagnostic for a preview size; \<open>reason\<close> is the protocol error, if there is one.\<close>

definition diagnostic :: "tool_call list \<Rightarrow> str option \<Rightarrow> nat \<Rightarrow> str" where
  "diagnostic calls reason n =
     (let shown = take 3 calls;
          prefix = (case reason of None \<Rightarrow> [] | Some e \<Rightarrow> feedback_prefix e n);
          cut = (3 < length calls \<or> (case reason of None \<Rightarrow> False | Some e \<Rightarrow> prefix \<noteq> e) \<or> list_ex (preview_truncated n) shown)
      in json_struct
           ((if prefix = [] then [] else [json_member ''reason'' (encode_string prefix)])
            @ [json_member ''callCount'' (itoa (int (length calls))),
               json_member ''calls'' (if shown = [] then lit ''null'' else [91] @ join [44] (map (call_preview n) shown) @ [93]),
               json_member ''truncated'' (json_bool cut)]))"

text \<open>The loop of \<open>rejectedCallsFeedback\<close>: it would not end if even empty previews were too long.\<close>

definition feedback_limit :: nat where
  "feedback_limit = 1536"

partial_function (option) feedback_loop :: "tool_call list \<Rightarrow> str option \<Rightarrow> nat \<Rightarrow> str option" where
  "feedback_loop calls reason n =
     (let encoded = diagnostic calls reason n
      in if utf8_len encoded \<le> feedback_limit then Some encoded else feedback_loop calls reason (n div 2))"

definition rejected_calls_feedback :: "tool_call list \<Rightarrow> str option \<Rightarrow> str option" where
  "rejected_calls_feedback calls reason = feedback_loop calls reason 128"

lemma feedback_prefix_0 [simp]: "feedback_prefix s 0 = []"
proof (cases s)
  case (Cons c r)
  then have "0 < utf8_len s" "\<not> rune_len c \<le> 0" using utf8_len_pos [of s] by (auto simp: rune_len_def)
  then show ?thesis by (simp add: feedback_prefix_def Cons)
qed (simp add: feedback_prefix_def)

lemma utf8_len_join: "utf8_len (join sep xs) \<le> sum_list (map utf8_len xs) + length xs * utf8_len sep"
  by (induction sep xs rule: join.induct) auto

lemma utf8_len_json_bool: "utf8_len (json_bool b) \<le> 5"
  by (simp add: json_bool_def utf8_len_def rune_len_def)

lemma utf8_len_sum_bound: "(\<And>x. x \<in> set xs \<Longrightarrow> utf8_len x \<le> k) \<Longrightarrow> sum_list (map utf8_len xs) \<le> length xs * k"
  by (induction xs) (auto intro: add_mono)

lemma encode_empty: "encode_string [] = [34, 34]"
  by (simp add: encode_string_def)

lemma utf8_len_preview_0: "utf8_len (call_preview 0 c) \<le> 64"
proof -
  have "json_bool (preview_truncated 0 c) = lit ''true'' \<or> json_bool (preview_truncated 0 c) = lit ''false''"
    by (simp add: json_bool_def)
  then show ?thesis
    by (auto simp: call_preview_def json_struct_def json_member_def encode_string_def utf8_len_def rune_len_def encode_rune_def)
qed

lemma length_digits_of: "n < 10 ^ k \<Longrightarrow> 0 < k \<Longrightarrow> length (digits_of n) \<le> k"
proof (induction k arbitrary: n)
  case (Suc k)
  show ?case
  proof (cases "n < 10")
    case False
    then have "0 < k" using Suc.prems by (cases k) auto
    moreover have "n div 10 < 10 ^ k" using Suc.prems(1) by (simp add: less_mult_imp_div_less mult.commute)
    ultimately show ?thesis using Suc.IH [of "n div 10"] False by (subst digits_of.simps) simp
  qed (simp add: digits_of.simps)
qed simp

lemma utf8_len_ascii: "(\<And>c. c \<in> set s \<Longrightarrow> c < 128) \<Longrightarrow> utf8_len s = length s"
  by (induction s) (simp_all add: utf8_len_def rune_len_def)

lemma utf8_len_digits: "utf8_len (digits_of n) = length (digits_of n)"
  using digits_of_chars [of _ n] by (intro utf8_len_ascii) (force simp: is_digit_ascii_def)

lemma utf8_len_diagnostic_0:
  assumes "length calls < 2 ^ 63"
  shows "utf8_len (diagnostic calls reason 0) \<le> feedback_limit"
proof -
  let ?shown = "take 3 calls"
  have "(2::nat) ^ 63 \<le> 10 ^ 19" by simp
  then have count: "utf8_len (itoa (int (length calls))) \<le> 19"
    using assms length_digits_of [of "length calls" 19] by (simp add: itoa_def utf8_len_digits)
  have "sum_list (map utf8_len (map (call_preview 0) ?shown)) \<le> length ?shown * 64"
    using utf8_len_sum_bound [of "map (call_preview 0) ?shown" 64] utf8_len_preview_0 by auto
  also have "\<dots> \<le> 192" by simp
  finally have "utf8_len (join [44] (map (call_preview 0) ?shown)) \<le> 195"
    using utf8_len_join [of "[44]" "map (call_preview 0) ?shown"] by (simp add: utf8_len_def rune_len_def)
  then have calls: "utf8_len (if ?shown = [] then lit ''null'' else [91] @ join [44] (map (call_preview 0) ?shown) @ [93]) \<le> 200"
    by (simp add: utf8_len_def rune_len_def)
  have three: "utf8_len (json_struct [json_member ''callCount'' x, json_member ''calls'' y, json_member ''truncated'' z])
      = utf8_len x + utf8_len y + utf8_len z + 36" for x y z
    by (simp add: json_struct_def json_member_def encode_string_def encode_rune_def utf8_len_def rune_len_def)
  obtain cut where "diagnostic calls reason 0 = json_struct [json_member ''callCount'' (itoa (int (length calls))),
      json_member ''calls'' (if ?shown = [] then lit ''null'' else [91] @ join [44] (map (call_preview 0) ?shown) @ [93]),
      json_member ''truncated'' (json_bool cut)]"
    by (cases reason) (simp_all add: diagnostic_def Let_def del: lit_simps)
  then have "utf8_len (diagnostic calls reason 0) = utf8_len (itoa (int (length calls)))
      + utf8_len (if ?shown = [] then lit ''null'' else [91] @ join [44] (map (call_preview 0) ?shown) @ [93])
      + utf8_len (json_bool cut) + 36" by (simp only: three)
  then show ?thesis unfolding feedback_limit_def using count calls utf8_len_json_bool [of cut] by linarith
qed

text \<open>The correction to the model stays small and is always produced.  Whatever calls a provider response
  contained (of any number a slice can hold) and whatever the protocol error, the loop that halves the
  previews ends, with a diagnostic of at most 1536 bytes.\<close>

theorem rejected_feedback_ends:
  assumes "length calls < 2 ^ 63"
  shows "\<exists>text1. rejected_calls_feedback calls reason = Some text1 \<and> utf8_len text1 \<le> 1536"
proof -
  have "\<exists>text1. feedback_loop calls reason n = Some text1 \<and> utf8_len text1 \<le> feedback_limit" for n
  proof (induction n rule: less_induct)
    case (less n)
    show ?case
    proof (cases "utf8_len (diagnostic calls reason n) \<le> feedback_limit")
      case True
      then show ?thesis by (subst feedback_loop.simps) (simp add: Let_def)
    next
      case False
      then have "n \<noteq> 0" using utf8_len_diagnostic_0 [OF assms] by metis
      then show ?thesis using less [of "n div 2"] False by (subst feedback_loop.simps) (simp add: Let_def)
    qed
  qed
  then show ?thesis by (simp add: rejected_calls_feedback_def feedback_limit_def)
qed

lemma rejected_feedback_ends_witness:
  "\<exists>text1. rejected_calls_feedback [\<lparr>tc_id = [], tc_name = [97], tc_raw = replicate 5000 34\<rparr>] None = Some text1"
  using rejected_feedback_ends [of "[\<lparr>tc_id = [], tc_name = [97], tc_raw = replicate 5000 34\<rparr>]" None] by auto

end
