(* ===== verification/Mail.thy ===== *)
theory Mail
  imports Wire Model Transition
begin

text \<open>
  Mail and notes, \<open>internal/service/mail_notes.go\<close> and \<open>mail_delivery.go\<close>, on the tables \<open>mail\<close>, \<open>mail_delivery\<close> and
  \<open>notes\<close> of \<open>schema.sql\<close>.  A transaction first takes SQLite's write lock, so it is one atomic function on the tables;
  how it ends (committed, rolled back, or a commit whose outcome the caller does not learn) is chosen by the
  environment.  A delivery is a program of such transactions and one send per letter, any number of deliveries run at
  the same time, in every room the bot sits in, and each may be cancelled or die at any point.  The times at which a
  row was changed, which nothing reads, are left out.
\<close>

section \<open>Tables\<close>

record mail_row =
  ml_id :: nat
  ml_owner :: str
  ml_receiver :: str
  ml_message :: str
  ml_status :: str
  ml_created :: int
  ml_whisper :: str
  ml_encoding :: str

datatype delivery_state = Dl_pending | Dl_attempting | Dl_accepted | Dl_unknown

record mail_db =
  md_mail :: "mail_row list"
  md_seq :: nat
  md_delivery :: "nat \<times> str \<Rightarrow> (str \<times> delivery_state) option"

text \<open>\<open>model.Mail\<close>\<close>

record letter =
  lt_id :: nat
  lt_owner :: str
  lt_receiver :: str
  lt_message :: str
  lt_status :: str
  lt_created :: int
  lt_whisper :: bool

definition empty_mail_db :: mail_db where
  "empty_mail_db = \<lparr>md_mail = [], md_seq = 0, md_delivery = Map.empty\<rparr>"

section \<open>Queueing\<close>

text \<open>SQLite's \<open>LOWER\<close>\<close>

definition sql_lower :: "str \<Rightarrow> str" where
  "sql_lower s = map (\<lambda>c. if is_upper_ascii c then c + 32 else c) s"

text \<open>The registered trips of a recipient: the trip itself, or the trips that have used the nick\<close>

definition resolve_recipients :: "str \<Rightarrow> str \<Rightarrow> str list \<Rightarrow> (str \<times> str) list \<Rightarrow> str list" where
  "resolve_recipients nick receiver registered used_names =
     sort (remdups (filter (\<lambda>t. t = receiver
         \<or> receiver \<notin> set registered \<and> list_ex (\<lambda>(u, n). u = t \<and> sql_lower n = to_lower nick) used_names) registered))"

datatype mail_error = Mail_receiver_blank | Mail_unregistered | Mail_io

definition new_mail :: "nat \<Rightarrow> int \<Rightarrow> str \<Rightarrow> str \<Rightarrow> str \<Rightarrow> bool \<Rightarrow> mail_row" where
  "new_mail n now msg owner receivers whisper =
     \<lparr>ml_id = n, ml_owner = owner, ml_receiver = receivers, ml_message = (if msg = [] then [] else msg @ lit '' ''),
      ml_status = lit ''PENDING'', ml_created = now, ml_whisper = (if whisper then lit ''true'' else lit ''false''),
      ml_encoding = lit ''PLAIN''\<rparr>"

definition queue_resolved ::
  "bool \<Rightarrow> bool \<Rightarrow> int \<Rightarrow> str \<Rightarrow> str \<Rightarrow> str \<Rightarrow> bool \<Rightarrow> str list \<Rightarrow> (str \<times> str) list \<Rightarrow> mail_db \<Rightarrow> (mail_error + str) \<times> mail_db" where
  "queue_resolved read_fails write_fails now msg owner receiver whisper registered used_names db =
     (case normalize_nick_target (Some (trim_space receiver)) of
        None \<Rightarrow> (Inl Mail_receiver_blank, db)
      | Some nick \<Rightarrow>
          if read_fails then (Inl Mail_io, db)
          else
            let trips = resolve_recipients nick (trim_space receiver) registered used_names
            in if trips = [] then (Inl Mail_unregistered, db)
               else if write_fails then (Inl Mail_io, db)
               else (Inr (join [44] trips),
                 db\<lparr>md_seq := md_seq db + 1,
                    md_mail := md_mail db @ [new_mail (md_seq db + 1) now msg owner (join [44] trips) whisper]\<rparr>))"

section \<open>Pending letters\<close>

text \<open>The row of the query for a trip: \<open>instr\<close> finds the trip between commas.\<close>

definition is_pending_for :: "mail_db \<Rightarrow> str \<Rightarrow> mail_row \<Rightarrow> bool" where
  "is_pending_for db trip r \<longleftrightarrow>
     ml_status r = lit ''PENDING''
     \<and> (case md_delivery db (ml_id r, trip) of Some (a, st) \<Rightarrow> st = Dl_pending | None \<Rightarrow> True)
     \<and> sublist ([44] @ trip @ [44]) ([44] @ ml_receiver r @ [44])"

text \<open>Rows of older writers hold the inside of a JSON string.\<close>

definition decode_text :: "str \<Rightarrow> str \<Rightarrow> str option" where
  "decode_text encoding msg =
     (if encoding = lit ''JSON_STRING'' then (case parse_json ([34] @ msg @ [34]) of Some (JStr s) \<Rightarrow> Some s | _ \<Rightarrow> None)
      else if encoding = lit ''PLAIN'' then Some msg else None)"

definition letter_of :: "mail_row \<Rightarrow> letter option" where
  "letter_of r =
     map_option (\<lambda>s. \<lparr>lt_id = ml_id r, lt_owner = ml_owner r, lt_receiver = ml_receiver r, lt_message = s, lt_status = ml_status r,
         lt_created = ml_created r, lt_whisper = equal_fold (ml_whisper r) (lit ''true'')\<rparr>)
       (decode_text (ml_encoding r) (ml_message r))"

definition pending_letters :: "bool \<Rightarrow> bool \<Rightarrow> str \<Rightarrow> mail_db \<Rightarrow> letter list option" where
  "pending_letters ended read_fails trip db =
     (if ended then None
      else if trim_space trip = [] \<or> 44 \<in> set trip then Some []
      else if read_fails then None
      else those (map letter_of (filter (is_pending_for db trip) (md_mail db))))"

section \<open>Transactions\<close>

datatype tx_end = Committed | Rolled_back | Commit_unknown bool

datatype 'a tx_result = Tx_ok 'a | Tx_error | Tx_unknown

text \<open>\<open>repository.WithTx\<close>: the body fails with \<open>None\<close>; a commit error leaves open whether the body took effect.\<close>

definition with_tx :: "tx_end \<Rightarrow> ('db \<Rightarrow> ('a \<times> 'db) option) \<Rightarrow> 'db \<Rightarrow> 'a tx_result \<times> 'db" where
  "with_tx e body db =
     (case body db of
        None \<Rightarrow> (Tx_error, db)
      | Some (a, db') \<Rightarrow>
          (case e of Committed \<Rightarrow> (Tx_ok a, db') | Rolled_back \<Rightarrow> (Tx_error, db)
           | Commit_unknown applied \<Rightarrow> (Tx_unknown, if applied then db' else db)))"

text \<open>\<open>strings.Split\<close> at a character\<close>

fun split_on :: "rune \<Rightarrow> str \<Rightarrow> str list" where
  "split_on c [] = [[]]"
| "split_on c (x # s) =
     (if x = c then [] # split_on c s
      else case split_on c s of [] \<Rightarrow> [[x]] | y # ys \<Rightarrow> (x # y) # ys)"

definition mail_has_recipient :: "str \<Rightarrow> str \<Rightarrow> bool" where
  "mail_has_recipient recipients trip \<longleftrightarrow> trim_space trip \<noteq> [] \<and> 44 \<notin> set trip \<and> trip \<in> set (split_on 44 recipients)"

definition mail_of :: "nat \<Rightarrow> mail_db \<Rightarrow> mail_row option" where
  "mail_of i db = find (\<lambda>r. ml_id r = i) (md_mail db)"

definition put_delivery :: "nat \<times> str \<Rightarrow> str \<Rightarrow> delivery_state \<Rightarrow> mail_db \<Rightarrow> mail_db" where
  "put_delivery k attempt st db = db\<lparr>md_delivery := (md_delivery db)(k \<mapsto> (attempt, st))\<rparr>"

definition claim_mail :: "nat \<Rightarrow> str \<Rightarrow> str \<Rightarrow> mail_db \<Rightarrow> (bool \<times> mail_db) option" where
  "claim_mail i trip attempt db =
     (case mail_of i db of
        None \<Rightarrow> None
      | Some r \<Rightarrow>
          if ml_status r \<noteq> lit ''PENDING'' \<or> \<not> mail_has_recipient (ml_receiver r) trip then Some (False, db)
          else (case md_delivery db (i, trip) of
              None \<Rightarrow> Some (True, put_delivery (i, trip) attempt Dl_attempting db)
            | Some (a, st) \<Rightarrow>
                if st = Dl_pending then Some (True, put_delivery (i, trip) attempt Dl_attempting db) else Some (False, db)))"

definition accepted :: "mail_db \<Rightarrow> nat \<times> str \<Rightarrow> bool" where
  "accepted db k \<longleftrightarrow> (case md_delivery db k of Some (a, st) \<Rightarrow> st = Dl_accepted | None \<Rightarrow> False)"

definition mark_delivered :: "nat \<Rightarrow> mail_db \<Rightarrow> mail_db" where
  "mark_delivered i db =
     db\<lparr>md_mail := map (\<lambda>r. if ml_id r = i \<and> ml_status r = lit ''PENDING'' then r\<lparr>ml_status := lit ''DELIVERED''\<rparr> else r) (md_mail db)\<rparr>"

definition set_mail_attempt :: "nat \<Rightarrow> str \<Rightarrow> str \<Rightarrow> delivery_state \<Rightarrow> mail_db \<Rightarrow> (unit \<times> mail_db) option" where
  "set_mail_attempt i trip attempt st db =
     (case mail_of i db of
        None \<Rightarrow> None
      | Some r \<Rightarrow>
          if md_delivery db (i, trip) \<noteq> Some (attempt, Dl_attempting) then None
          else
            let db1 = put_delivery (i, trip) attempt st db
            in if st = Dl_accepted \<and> list_all (\<lambda>t. accepted db1 (i, t)) (split_on 44 (ml_receiver r))
               then Some ((), mark_delivered i db1) else Some ((), db1))"

definition mark_mail_unknown :: "nat \<Rightarrow> str \<Rightarrow> str \<Rightarrow> mail_db \<Rightarrow> mail_db" where
  "mark_mail_unknown i trip attempt db =
     (if md_delivery db (i, trip) = Some (attempt, Dl_attempting) then put_delivery (i, trip) attempt Dl_unknown db else db)"

section \<open>Deliveries\<close>

datatype send_outcome = Send_accepted | Send_failed | Send_not_started

datatype delivery_end = All_delivered | Delivery_failed | Delivery_uncertain nat str | Crashed

datatype delivery_pc =
    Looping
  | Claiming letter
  | Claimed letter str
  | Releasing letter str
  | Sending letter str
  | Settling letter str send_outcome
  | Marking letter str
  | Finished delivery_end

record delivery =
  dv_trip :: str
  dv_todo :: "letter list"
  dv_pc :: delivery_pc

text \<open>The head of the loop\<close>

definition next_letter :: "bool \<Rightarrow> delivery \<Rightarrow> delivery" where
  "next_letter ended d =
     (case dv_todo d of
        [] \<Rightarrow> d\<lparr>dv_pc := Finished (if ended then Delivery_failed else All_delivered)\<rparr>
      | l # ls \<Rightarrow>
          if ended then d\<lparr>dv_pc := Finished Delivery_failed\<rparr> else d\<lparr>dv_todo := ls, dv_pc := Claiming l\<rparr>)"

definition claim_letter :: "letter \<Rightarrow> str \<Rightarrow> tx_end \<Rightarrow> delivery \<Rightarrow> mail_db \<Rightarrow> delivery \<times> mail_db" where
  "claim_letter l attempt e d db =
     (case with_tx e (claim_mail (lt_id l) (dv_trip d) attempt) db of
        (Tx_ok claimed, db') \<Rightarrow> (d\<lparr>dv_pc := if claimed then Claimed l attempt else Looping\<rparr>, db')
      | (Tx_error, db') \<Rightarrow> (d\<lparr>dv_pc := Finished Delivery_failed\<rparr>, db')
      | (Tx_unknown, db') \<Rightarrow> (d\<lparr>dv_pc := Finished (Delivery_uncertain (lt_id l) attempt)\<rparr>, db'))"

definition check_claimed :: "letter \<Rightarrow> str \<Rightarrow> bool \<Rightarrow> delivery \<Rightarrow> delivery" where
  "check_claimed l attempt ended d = d\<lparr>dv_pc := if ended then Releasing l attempt else Sending l attempt\<rparr>"

definition release_letter :: "letter \<Rightarrow> str \<Rightarrow> tx_end \<Rightarrow> delivery \<Rightarrow> mail_db \<Rightarrow> delivery \<times> mail_db" where
  "release_letter l attempt e d db =
     (case with_tx e (set_mail_attempt (lt_id l) (dv_trip d) attempt Dl_pending) db of
        (Tx_ok u, db') \<Rightarrow> (d\<lparr>dv_pc := Finished Delivery_failed\<rparr>, db')
      | (r, db') \<Rightarrow> (d\<lparr>dv_pc := Finished (Delivery_uncertain (lt_id l) attempt)\<rparr>, db'))"

text \<open>The send enters the transport unless the sender says that it has not started.\<close>

definition send_letter :: "letter \<Rightarrow> str \<Rightarrow> send_outcome \<Rightarrow> delivery \<Rightarrow> (nat \<times> str) list \<Rightarrow> delivery \<times> (nat \<times> str) list" where
  "send_letter l attempt o1 d sent =
     (d\<lparr>dv_pc := Settling l attempt o1\<rparr>, if o1 = Send_not_started then sent else sent @ [(lt_id l, dv_trip d)])"

fun settled_state :: "send_outcome \<Rightarrow> delivery_state" where
  "settled_state Send_accepted = Dl_accepted"
| "settled_state Send_failed = Dl_unknown"
| "settled_state Send_not_started = Dl_pending"

definition settle_letter :: "letter \<Rightarrow> str \<Rightarrow> send_outcome \<Rightarrow> tx_end \<Rightarrow> delivery \<Rightarrow> mail_db \<Rightarrow> delivery \<times> mail_db" where
  "settle_letter l attempt o1 e d db =
     (case with_tx e (set_mail_attempt (lt_id l) (dv_trip d) attempt (settled_state o1)) db of
        (Tx_ok u, db') \<Rightarrow>
          (d\<lparr>dv_pc := case o1 of Send_accepted \<Rightarrow> Looping | Send_failed \<Rightarrow> Finished (Delivery_uncertain (lt_id l) attempt)
                | Send_not_started \<Rightarrow> Finished Delivery_failed\<rparr>, db')
      | (r, db') \<Rightarrow> (d\<lparr>dv_pc := Marking l attempt\<rparr>, db'))"

definition mark_letter :: "letter \<Rightarrow> str \<Rightarrow> bool \<Rightarrow> delivery \<Rightarrow> mail_db \<Rightarrow> delivery \<times> mail_db" where
  "mark_letter l attempt applied d db =
     (d\<lparr>dv_pc := Finished (Delivery_uncertain (lt_id l) attempt)\<rparr>,
      if applied then mark_mail_unknown (lt_id l) (dv_trip d) attempt db else db)"

text \<open>Any number of deliveries on one database.  The identities of attempts are 128 random bits, and a new one is not
  one that was drawn before.\<close>

record post_office =
  po_db :: mail_db
  po_deliveries :: "delivery list"
  po_sent :: "(nat \<times> str) list"
  po_attempts :: "str list"

definition set_delivery :: "nat \<Rightarrow> delivery \<times> mail_db \<Rightarrow> post_office \<Rightarrow> post_office" where
  "set_delivery i r s = s\<lparr>po_deliveries := (po_deliveries s)[i := fst r], po_db := snd r\<rparr>"

abbreviation at_pc :: "post_office \<Rightarrow> nat \<Rightarrow> delivery_pc \<Rightarrow> bool" where
  "at_pc s i pc \<equiv> i < length (po_deliveries s) \<and> dv_pc (po_deliveries s ! i) = pc"

inductive mail_step :: "post_office \<Rightarrow> post_office \<Rightarrow> bool" where
  mail_queue: "mail_step s (s\<lparr>po_db := snd (queue_resolved rf wfails now msg owner receiver whisper registered used_names (po_db s))\<rparr>)"
| mail_start: "pending_letters ended rf trip (po_db s) = Some ls \<Longrightarrow>
    mail_step s (s\<lparr>po_deliveries := po_deliveries s @ [\<lparr>dv_trip = trip, dv_todo = ls, dv_pc = Looping\<rparr>]\<rparr>)"
| mail_next: "at_pc s i Looping \<Longrightarrow> mail_step s (set_delivery i (next_letter ended (po_deliveries s ! i), po_db s) s)"
| mail_claim: "at_pc s i (Claiming l) \<Longrightarrow> attempt \<notin> set (po_attempts s) \<Longrightarrow>
    mail_step s ((set_delivery i (claim_letter l attempt e (po_deliveries s ! i) (po_db s)) s)\<lparr>po_attempts := attempt # po_attempts s\<rparr>)"
| mail_check: "at_pc s i (Claimed l attempt) \<Longrightarrow>
    mail_step s (set_delivery i (check_claimed l attempt ended (po_deliveries s ! i), po_db s) s)"
| mail_release: "at_pc s i (Releasing l attempt) \<Longrightarrow>
    mail_step s (set_delivery i (release_letter l attempt e (po_deliveries s ! i) (po_db s)) s)"
| mail_send: "at_pc s i (Sending l attempt) \<Longrightarrow> send_letter l attempt o1 (po_deliveries s ! i) (po_sent s) = (d, sent) \<Longrightarrow>
    mail_step s ((set_delivery i (d, po_db s) s)\<lparr>po_sent := sent\<rparr>)"
| mail_settle: "at_pc s i (Settling l attempt o1) \<Longrightarrow>
    mail_step s (set_delivery i (settle_letter l attempt o1 e (po_deliveries s ! i) (po_db s)) s)"
| mail_mark: "at_pc s i (Marking l attempt) \<Longrightarrow>
    mail_step s (set_delivery i (mark_letter l attempt applied (po_deliveries s ! i) (po_db s)) s)"
| mail_crash: "i < length (po_deliveries s) \<Longrightarrow>
    mail_step s (set_delivery i ((po_deliveries s ! i)\<lparr>dv_pc := Finished Crashed\<rparr>, po_db s) s)"

definition empty_office :: post_office where
  "empty_office = \<lparr>po_db = empty_mail_db, po_deliveries = [], po_sent = [], po_attempts = []\<rparr>"

section \<open>At most one send\<close>

definition sends :: "post_office \<Rightarrow> nat \<times> str \<Rightarrow> nat" where
  "sends s k = count_list (po_sent s) k"

fun attempt_of :: "delivery_pc \<Rightarrow> str option" where
  "attempt_of (Claimed l a) = Some a"
| "attempt_of (Releasing l a) = Some a"
| "attempt_of (Sending l a) = Some a"
| "attempt_of (Settling l a o1) = Some a"
| "attempt_of (Marking l a) = Some a"
| "attempt_of _ = None"

text \<open>What a delivery that owns an attempt relies on: the letter, the attempt and the sends so far\<close>

fun owned :: "delivery_pc \<Rightarrow> (nat \<times> str \<times> nat) option" where
  "owned (Claimed l a) = Some (lt_id l, a, 0)"
| "owned (Releasing l a) = Some (lt_id l, a, 0)"
| "owned (Sending l a) = Some (lt_id l, a, 0)"
| "owned (Settling l a o1) = Some (lt_id l, a, if o1 = Send_not_started then 0 else 1)"
| "owned _ = None"

definition owner_ok :: "mail_db \<Rightarrow> (nat \<times> str \<Rightarrow> nat) \<Rightarrow> delivery \<Rightarrow> bool" where
  "owner_ok db n d \<longleftrightarrow>
     (case owned (dv_pc d) of None \<Rightarrow> True
      | Some (i, a, c) \<Rightarrow> md_delivery db (i, dv_trip d) = Some (a, Dl_attempting) \<and> n (i, dv_trip d) = c)"

definition sends_ok :: "(str \<times> delivery_state) option \<Rightarrow> nat \<Rightarrow> bool" where
  "sends_ok r n \<longleftrightarrow>
     (case r of None \<Rightarrow> n = 0
      | Some (a, st) \<Rightarrow> n \<le> 1 \<and> (st = Dl_pending \<longrightarrow> n = 0) \<and> (st = Dl_accepted \<longrightarrow> n = 1))"

definition delivered_ok :: "mail_db \<Rightarrow> bool" where
  "delivered_ok db \<longleftrightarrow>
     distinct (map ml_id (md_mail db)) \<and> (\<forall>r \<in> set (md_mail db). ml_id r \<le> md_seq db)
     \<and> (\<forall>r \<in> set (md_mail db). ml_status r \<noteq> lit ''PENDING'' \<longrightarrow>
          (\<forall>t \<in> set (split_on 44 (ml_receiver r)). accepted db (ml_id r, t)))"

definition office_ok :: "post_office \<Rightarrow> bool" where
  "office_ok s \<longleftrightarrow>
     (\<forall>k. sends_ok (md_delivery (po_db s) k) (sends s k))
     \<and> (\<forall>d \<in> set (po_deliveries s). owner_ok (po_db s) (sends s) d)
     \<and> (\<forall>i j a. i < length (po_deliveries s) \<longrightarrow> j < length (po_deliveries s) \<longrightarrow> i \<noteq> j \<longrightarrow>
          attempt_of (dv_pc (po_deliveries s ! i)) = Some a \<longrightarrow> attempt_of (dv_pc (po_deliveries s ! j)) \<noteq> Some a)
     \<and> (\<forall>d \<in> set (po_deliveries s). \<forall>a. attempt_of (dv_pc d) = Some a \<longrightarrow> a \<in> set (po_attempts s))
     \<and> delivered_ok (po_db s)"

lemma owned_attempt: "owned pc = Some (i, a, c) \<Longrightarrow> attempt_of pc = Some a"
  by (cases pc) auto

lemma office_initial: "office_ok empty_office"
  by (simp add: office_ok_def empty_office_def empty_mail_db_def sends_def sends_ok_def delivered_ok_def)

text \<open>A change of one row of \<open>mail_delivery\<close> and of the sends for it, by the delivery that owns the row or while nobody owns it\<close>

definition local_change :: "nat \<times> str \<Rightarrow> str option \<Rightarrow> post_office \<Rightarrow> post_office \<Rightarrow> bool" where
  "local_change k own s t \<longleftrightarrow>
     (\<forall>k'. k' \<noteq> k \<longrightarrow> md_delivery (po_db t) k' = md_delivery (po_db s) k' \<and> sends t k' = sends s k')
     \<and> (md_delivery (po_db t) k = md_delivery (po_db s) k \<and> sends t k = sends s k
        \<or> (\<forall>a st. md_delivery (po_db s) k = Some (a, st) \<longrightarrow> st \<noteq> Dl_attempting \<or> Some a = own))"

lemma office_change:
  assumes ok: "office_ok s" and i: "i < length (po_deliveries s)"
    and t: "po_deliveries t = (po_deliveries s)[i := d]" "set (po_attempts s) \<subseteq> set (po_attempts t)"
    and chg: "local_change k own s t" and own: "own = None \<or> own = attempt_of (dv_pc (po_deliveries s ! i))"
    and row: "sends_ok (md_delivery (po_db t) k) (sends t k)"
    and d: "owner_ok (po_db t) (sends t) d"
    and att: "attempt_of (dv_pc d) = None \<or> attempt_of (dv_pc d) = attempt_of (dv_pc (po_deliveries s ! i))
        \<or> (\<exists>a. attempt_of (dv_pc d) = Some a \<and> a \<notin> set (po_attempts s) \<and> a \<in> set (po_attempts t))"
    and del: "delivered_ok (po_db t)"
  shows "office_ok t"
proof -
  have dist: "attempt_of (dv_pc (po_deliveries s ! l)) \<noteq> Some a"
    if "j < length (po_deliveries s)" "l < length (po_deliveries s)" "j \<noteq> l" "attempt_of (dv_pc (po_deliveries s ! j)) = Some a" for j l a
    using ok that by (auto simp: office_ok_def)
  have used: "a \<in> set (po_attempts s)" if "j < length (po_deliveries s)" "attempt_of (dv_pc (po_deliveries s ! j)) = Some a" for j a
    using ok that by (auto simp: office_ok_def)
  have other: "owner_ok (po_db t) (sends t) (po_deliveries s ! j)" if j: "j < length (po_deliveries s)" "j \<noteq> i" for j
  proof (cases "owned (dv_pc (po_deliveries s ! j))")
    case (Some x)
    obtain m a c where x: "owned (dv_pc (po_deliveries s ! j)) = Some (m, a, c)" using Some by (cases x) auto
    let ?k = "(m, dv_trip (po_deliveries s ! j))"
    have "owner_ok (po_db s) (sends s) (po_deliveries s ! j)" using ok j by (auto simp: office_ok_def)
    then have o: "md_delivery (po_db s) ?k = Some (a, Dl_attempting)" "sends s ?k = c" using x by (auto simp: owner_ok_def)
    have "Some a \<noteq> own"
      using own owned_attempt [OF x] dist [OF i j(1) j(2) [symmetric], of a] by auto
    then have "md_delivery (po_db t) ?k = md_delivery (po_db s) ?k \<and> sends t ?k = sends s ?k"
      using chg o by (cases "?k = k") (auto simp: local_change_def)
    then show ?thesis using o x by (simp add: owner_ok_def)
  qed (simp add: owner_ok_def)
  have 1: "sends_ok (md_delivery (po_db t) k') (sends t k')" for k'
    using row chg ok by (cases "k' = k") (simp_all add: local_change_def office_ok_def del: split_paired_All)
  have 2: "\<forall>e \<in> set (po_deliveries t). owner_ok (po_db t) (sends t) e"
  proof
    fix e assume "e \<in> set (po_deliveries t)"
    then obtain j where "j < length (po_deliveries s)" "e = (if j = i then d else po_deliveries s ! j)"
      using t by (auto simp: in_set_conv_nth nth_list_update)
    then show "owner_ok (po_db t) (sends t) e" using other d by auto
  qed
  have pc: "attempt_of (dv_pc (po_deliveries t ! j)) = (if j = i then attempt_of (dv_pc d) else attempt_of (dv_pc (po_deliveries s ! j)))"
    if "j < length (po_deliveries s)" for j using t that by (simp add: nth_list_update)
  have 3: "attempt_of (dv_pc (po_deliveries t ! l)) \<noteq> Some a"
    if "j < length (po_deliveries t)" "l < length (po_deliveries t)" "j \<noteq> l" "attempt_of (dv_pc (po_deliveries t ! j)) = Some a" for j l a
  proof -
    have jl: "j < length (po_deliveries s)" "l < length (po_deliveries s)" using that t by auto
    have fresh: "attempt_of (dv_pc d) \<noteq> Some a"
      if "h < length (po_deliveries s)" "h \<noteq> i" "attempt_of (dv_pc (po_deliveries s ! h)) = Some a" for h
      using att used [OF that(1,3)] dist [OF that(1) i that(2,3)] by auto
    show ?thesis
      using that(3,4) fresh [OF jl(1)] fresh [OF jl(2)] dist [OF jl that(3)] unfolding pc [OF jl(1)] pc [OF jl(2)]
      by (cases "j = i"; cases "l = i") auto
  qed
  have 4: "a \<in> set (po_attempts t)" if e: "e \<in> set (po_deliveries t)" and a: "attempt_of (dv_pc e) = Some a" for e a
  proof -
    obtain j where j: "j < length (po_deliveries s)" "e = po_deliveries t ! j" using e t(1) by (auto simp: in_set_conv_nth)
    show ?thesis using a att used [OF j(1)] used [OF i] t(2) unfolding j(2) pc [OF j(1)] by (auto split: if_splits)
  qed
  show ?thesis unfolding office_ok_def using 1 2 3 4 del by blast
qed

lemma mail_of_SomeD: "mail_of i db = Some r \<Longrightarrow> r \<in> set (md_mail db) \<and> ml_id r = i"
  by (auto simp: mail_of_def find_Some_iff)

lemma accepted_put [simp]: "accepted (put_delivery k a st db) k' = (if k' = k then st = Dl_accepted else accepted db k')"
  by (simp add: accepted_def put_delivery_def)

lemma put_delivery_sel [simp]:
  "md_mail (put_delivery k a st db) = md_mail db" "md_seq (put_delivery k a st db) = md_seq db"
  "md_delivery (put_delivery k a st db) = (md_delivery db)(k \<mapsto> (a, st))"
  by (simp_all add: put_delivery_def)

lemma mark_delivered_sel [simp]:
  "md_delivery (mark_delivered i db) = md_delivery db" "md_seq (mark_delivered i db) = md_seq db"
  "map ml_id (md_mail (mark_delivered i db)) = map ml_id (md_mail db)"
  by (simp_all add: mark_delivered_def)

lemma delivered_put:
  assumes "delivered_ok db" "\<not> accepted db k \<or> st = Dl_accepted"
  shows "delivered_ok (put_delivery k a st db)"
  using assms by (auto simp: delivered_ok_def)

lemma delivered_mark:
  assumes ok: "delivered_ok db" and r: "mail_of i db = Some r" "list_all (\<lambda>t. accepted db (i, t)) (split_on 44 (ml_receiver r))"
  shows "delivered_ok (mark_delivered i db)"
proof -
  have acc: "accepted (mark_delivered i db) k = accepted db k" for k by (simp add: accepted_def)
  have uniq: "q = r" if "q \<in> set (md_mail db)" "ml_id q = i" for q
    using ok that mail_of_SomeD [OF r(1)] by (auto simp: delivered_ok_def distinct_map inj_on_def)
  have "distinct (map ml_id (md_mail (mark_delivered i db)))" using ok unfolding mark_delivered_sel by (simp add: delivered_ok_def)
  moreover have "\<forall>q \<in> set (md_mail (mark_delivered i db)). ml_id q \<le> md_seq db"
    using ok by (auto simp: mark_delivered_def delivered_ok_def)
  moreover have "\<forall>t \<in> set (split_on 44 (ml_receiver q)). accepted db (ml_id q, t)"
    if "q \<in> set (md_mail (mark_delivered i db))" "ml_status q \<noteq> lit ''PENDING''" for q
    using ok r(2) uniq that by (auto simp: mark_delivered_def delivered_ok_def list_all_iff split: if_splits)
  ultimately show ?thesis unfolding delivered_ok_def acc mark_delivered_sel by blast
qed

text \<open>What a transaction leaves\<close>

lemma with_tx_result:
  "with_tx e body db = (r, db') \<Longrightarrow>
     db' = db \<and> (\<forall>a. r \<noteq> Tx_ok a) \<or> (\<exists>a. body db = Some (a, db') \<and> (r = Tx_ok a \<or> r = Tx_unknown))"
  by (auto simp: with_tx_def split: option.splits tx_end.splits prod.splits if_splits)

lemma claim_mail_SomeD:
  assumes "claim_mail i trip a db = Some (b, db')"
  shows "(b \<longrightarrow> db' = put_delivery (i, trip) a Dl_attempting db
            \<and> (\<forall>a' st. md_delivery db (i, trip) = Some (a', st) \<longrightarrow> st = Dl_pending))
         \<and> (\<not> b \<longrightarrow> db' = db)"
  using assms by (auto simp: claim_mail_def split: option.splits if_splits prod.splits)

lemma set_mail_attempt_SomeD:
  assumes "set_mail_attempt i trip a st db = Some (u, db')"
  shows "md_delivery db (i, trip) = Some (a, Dl_attempting) \<and> md_delivery db' = (md_delivery db)((i, trip) \<mapsto> (a, st))
    \<and> (delivered_ok db \<longrightarrow> delivered_ok db')"
proof -
  from assms obtain r where r: "mail_of i db = Some r" and own: "md_delivery db (i, trip) = Some (a, Dl_attempting)"
    by (auto simp: set_mail_attempt_def split: option.splits if_splits)
  let ?d = "put_delivery (i, trip) a st db"
  have r': "mail_of i ?d = Some r" using r by (simp add: mail_of_def)
  have db': "db' = ?d \<or> db' = mark_delivered i ?d \<and> list_all (\<lambda>t. accepted ?d (i, t)) (split_on 44 (ml_receiver r))"
    using assms r own by (auto simp: set_mail_attempt_def Let_def simp del: accepted_put split: if_splits)
  have "delivered_ok ?d" if "delivered_ok db" using that own by (intro delivered_put) (auto simp: accepted_def)
  then show ?thesis using db' own delivered_mark [OF _ r'] by auto
qed

text \<open>The steps\<close>

lemma set_delivery_sel [simp]:
  "po_db (set_delivery i r s) = snd r" "po_sent (set_delivery i r s) = po_sent s" "po_attempts (set_delivery i r s) = po_attempts s"
  "po_deliveries (set_delivery i r s) = (po_deliveries s)[i := fst r]"
  by (simp_all add: set_delivery_def)

lemma sends_set_delivery [simp]: "sends (set_delivery i r s) = sends s"
  by (simp add: sends_def fun_eq_iff)

lemma office_row: "office_ok s \<Longrightarrow> sends_ok (md_delivery (po_db s) k) (sends s k)"
  by (simp add: office_ok_def del: split_paired_All)

lemma office_delivered: "office_ok s \<Longrightarrow> delivered_ok (po_db s)"
  by (simp add: office_ok_def)

lemma office_owner:
  assumes "office_ok s" "i < length (po_deliveries s)" "owned (dv_pc (po_deliveries s ! i)) = Some (m, a, c)"
  shows "md_delivery (po_db s) (m, dv_trip (po_deliveries s ! i)) = Some (a, Dl_attempting) \<and> sends s (m, dv_trip (po_deliveries s ! i)) = c"
proof -
  have "owner_ok (po_db s) (sends s) (po_deliveries s ! i)" using assms(1,2) by (auto simp: office_ok_def)
  then show ?thesis using assms(3) by (simp add: owner_ok_def)
qed

text \<open>A step of a delivery that leaves the tables and the sends alone\<close>

lemma office_quiet:
  assumes ok: "office_ok s" and i: "i < length (po_deliveries s)"
    and att: "attempt_of (dv_pc d) = None \<or> attempt_of (dv_pc d) = attempt_of (dv_pc (po_deliveries s ! i))"
    and own: "owned (dv_pc d) = None \<or> owned (dv_pc d) = owned (dv_pc (po_deliveries s ! i)) \<and> dv_trip d = dv_trip (po_deliveries s ! i)"
  shows "office_ok (set_delivery i (d, po_db s) s)"
proof (rule office_change [OF ok i, where k = undefined and own = None])
  show "owner_ok (po_db (set_delivery i (d, po_db s) s)) (sends (set_delivery i (d, po_db s) s)) d"
    using own office_owner [OF ok i] by (auto simp: owner_ok_def split: option.splits)
  show "attempt_of (dv_pc d) = None \<or> attempt_of (dv_pc d) = attempt_of (dv_pc (po_deliveries s ! i))
      \<or> (\<exists>a. attempt_of (dv_pc d) = Some a \<and> a \<notin> set (po_attempts s) \<and> a \<in> set (po_attempts (set_delivery i (d, po_db s) s)))"
    using att by blast
qed (use ok in \<open>auto simp: local_change_def office_row office_delivered\<close>)

lemma queue_result:
  "snd (queue_resolved rf wfails now msg owner receiver whisper registered used_names db) = db
   \<or> (\<exists>r. ml_id r = md_seq db + 1 \<and> ml_status r = lit ''PENDING''
        \<and> snd (queue_resolved rf wfails now msg owner receiver whisper registered used_names db)
          = db\<lparr>md_seq := md_seq db + 1, md_mail := md_mail db @ [r]\<rparr>)"
proof -
  have "ml_id (new_mail n now msg owner rs whisper) = n \<and> ml_status (new_mail n now msg owner rs whisper) = lit ''PENDING''" for n rs
    by (simp add: new_mail_def)
  then show ?thesis by (auto simp: queue_resolved_def Let_def split: option.splits simp del: lit_simps)
qed

lemma office_db:
  assumes "office_ok s" "md_delivery db = md_delivery (po_db s)" "delivered_ok db"
  shows "office_ok (s\<lparr>po_db := db\<rparr>)"
proof -
  have "owner_ok db n d = owner_ok (po_db s) n d" for n d unfolding owner_ok_def assms(2) ..
  moreover have "sends (s\<lparr>po_db := db\<rparr>) = sends s" by (simp add: sends_def fun_eq_iff)
  ultimately show ?thesis using assms by (simp add: office_ok_def del: split_paired_All)
qed

lemma office_queue:
  assumes ok: "office_ok s"
  shows "office_ok (s\<lparr>po_db := snd (queue_resolved rf wfails now msg owner receiver whisper registered used_names (po_db s))\<rparr>)"
  using queue_result [of rf wfails now msg owner receiver whisper registered used_names "po_db s"]
proof (elim disjE exE conjE)
  fix r
  assume r: "ml_id r = md_seq (po_db s) + 1" "ml_status r = lit ''PENDING''"
    "snd (queue_resolved rf wfails now msg owner receiver whisper registered used_names (po_db s))
       = po_db s\<lparr>md_seq := md_seq (po_db s) + 1, md_mail := md_mail (po_db s) @ [r]\<rparr>"
  let ?db = "po_db s\<lparr>md_seq := md_seq (po_db s) + 1, md_mail := md_mail (po_db s) @ [r]\<rparr>"
  have "ml_id r \<notin> ml_id ` set (md_mail (po_db s))" using ok r(1) by (force simp: office_ok_def delivered_ok_def)
  then have "delivered_ok ?db" using ok r(1,2) by (auto simp: office_ok_def delivered_ok_def accepted_def)
  then show ?thesis unfolding r(3) by (intro office_db [OF ok]) auto
qed (use ok in simp)

lemma office_start:
  assumes ok: "office_ok s"
  shows "office_ok (s\<lparr>po_deliveries := po_deliveries s @ [\<lparr>dv_trip = trip, dv_todo = ls, dv_pc = Looping\<rparr>]\<rparr>)"
proof -
  let ?d = "\<lparr>dv_trip = trip, dv_todo = ls, dv_pc = Looping\<rparr>"
  have n: "sends (s\<lparr>po_deliveries := ds\<rparr>) = sends s" for ds by (simp add: sends_def fun_eq_iff)
  have pc: "attempt_of (dv_pc ((po_deliveries s @ [?d]) ! j))
      = (if j < length (po_deliveries s) then attempt_of (dv_pc (po_deliveries s ! j)) else None)"
    if "j < length (po_deliveries s @ [?d])" for j
    using that by (cases "j = length (po_deliveries s)") (auto simp: nth_append)
  have "attempt_of (dv_pc ((po_deliveries s @ [?d]) ! l)) \<noteq> Some a"
    if "j < length (po_deliveries s @ [?d])" "l < length (po_deliveries s @ [?d])" "j \<noteq> l"
      "attempt_of (dv_pc ((po_deliveries s @ [?d]) ! j)) = Some a" for j l a
    using ok that(3,4) unfolding pc [OF that(1)] pc [OF that(2)] office_ok_def by (auto split: if_splits simp del: split_paired_All)
  moreover have "owner_ok (po_db s) (sends s) ?d" by (simp add: owner_ok_def)
  ultimately show ?thesis using ok unfolding office_ok_def n by (auto simp del: split_paired_All)
qed

lemma office_claim:
  assumes ok: "office_ok s" and at: "at_pc s i (Claiming l)" and new: "attempt \<notin> set (po_attempts s)"
  shows "office_ok ((set_delivery i (claim_letter l attempt e (po_deliveries s ! i) (po_db s)) s)\<lparr>po_attempts := attempt # po_attempts s\<rparr>)"
proof -
  let ?d = "po_deliveries s ! i" and ?k = "(lt_id l, dv_trip (po_deliveries s ! i))"
  obtain r db' where tx: "with_tx e (claim_mail (lt_id l) (dv_trip ?d) attempt) (po_db s) = (r, db')" by fastforce
  have res: "(\<forall>b. r \<noteq> Tx_ok b) \<and> db' = po_db s \<or> r = Tx_ok False \<and> db' = po_db s
      \<or> (r = Tx_ok True \<or> r = Tx_unknown) \<and> db' = put_delivery ?k attempt Dl_attempting (po_db s)
         \<and> (\<forall>a' st. md_delivery (po_db s) ?k = Some (a', st) \<longrightarrow> st = Dl_pending)"
  proof (cases "db' = po_db s \<and> (\<forall>b. r \<noteq> Tx_ok b)")
    case False
    then obtain b where b: "claim_mail (lt_id l) (dv_trip ?d) attempt (po_db s) = Some (b, db')" "r = Tx_ok b \<or> r = Tx_unknown"
      using with_tx_result [OF tx] by blast
    show ?thesis using claim_mail_SomeD [OF b(1)] b(2) by (cases b) auto
  qed blast
  have free: "sends s ?k = 0" if "\<forall>a' st. md_delivery (po_db s) ?k = Some (a', st) \<longrightarrow> st = Dl_pending"
    using office_row [OF ok, of ?k] that by (auto simp: sends_ok_def split: option.splits)
  have "\<not> accepted (po_db s) ?k" if "\<forall>a' st. md_delivery (po_db s) ?k = Some (a', st) \<longrightarrow> st = Dl_pending"
    using that by (auto simp: accepted_def split: option.splits)
  then have kept: "delivered_ok db'"
    using res office_delivered [OF ok] delivered_put [OF office_delivered [OF ok], of ?k Dl_attempting attempt] by blast
  show ?thesis
  proof (rule office_change [OF ok, where i = i and k = ?k and own = None and d = "fst (claim_letter l attempt e ?d (po_db s))"])
    show "delivered_ok (po_db ((set_delivery i (claim_letter l attempt e ?d (po_db s)) s)\<lparr>po_attempts := attempt # po_attempts s\<rparr>))"
      using tx kept by (simp add: claim_letter_def split: tx_result.splits)
  qed (use at new res tx free office_row [OF ok] in
      \<open>auto simp: claim_letter_def local_change_def owner_ok_def sends_def sends_ok_def split: tx_result.splits\<close>)
qed

text \<open>The owner of an attempt records how it ended and gives the row up.\<close>

lemma office_record:
  assumes ok: "office_ok s" and i: "i < length (po_deliveries s)"
    and own: "owned (dv_pc (po_deliveries s ! i)) = Some (m, a, c)"
    and tx: "with_tx e (set_mail_attempt m (dv_trip (po_deliveries s ! i)) a st) (po_db s) = (r, db')"
    and st: "sends_ok (Some (a, st)) c"
    and d: "owned (dv_pc d) = None" "attempt_of (dv_pc d) = None \<or> attempt_of (dv_pc d) = Some a"
  shows "office_ok (set_delivery i (d, db') s)"
proof -
  let ?k = "(m, dv_trip (po_deliveries s ! i))"
  have row: "md_delivery (po_db s) ?k = Some (a, Dl_attempting)" "sends s ?k = c" using office_owner [OF ok i own] by auto
  have att: "attempt_of (dv_pc (po_deliveries s ! i)) = Some a" using owned_attempt [OF own] .
  have res: "db' = po_db s \<or> md_delivery db' = (md_delivery (po_db s))(?k \<mapsto> (a, st)) \<and> delivered_ok db'"
    using with_tx_result [OF tx] set_mail_attempt_SomeD office_delivered [OF ok] by blast
  show ?thesis
    by (rule office_change [OF ok i, where k = ?k and own = "Some a" and d = d])
      (use res row st d att office_row [OF ok, of ?k] office_delivered [OF ok] in
        \<open>auto simp: local_change_def owner_ok_def\<close>)
qed

lemma office_release:
  assumes ok: "office_ok s" and at: "at_pc s i (Releasing l attempt)"
  shows "office_ok (set_delivery i (release_letter l attempt e (po_deliveries s ! i) (po_db s)) s)"
proof -
  obtain r db' where tx: "with_tx e (set_mail_attempt (lt_id l) (dv_trip (po_deliveries s ! i)) attempt Dl_pending) (po_db s) = (r, db')"
    by fastforce
  show ?thesis using tx at
    by (auto simp: release_letter_def sends_ok_def intro!: office_record [OF ok _ _ tx] split: tx_result.splits)
qed

lemma office_settle:
  assumes ok: "office_ok s" and at: "at_pc s i (Settling l attempt o1)"
  shows "office_ok (set_delivery i (settle_letter l attempt o1 e (po_deliveries s ! i) (po_db s)) s)"
proof -
  obtain r db' where tx: "with_tx e (set_mail_attempt (lt_id l) (dv_trip (po_deliveries s ! i)) attempt (settled_state o1)) (po_db s) = (r, db')"
    by fastforce
  show ?thesis using tx at
    by (cases o1) (auto simp: settle_letter_def sends_ok_def intro!: office_record [OF ok _ _ tx] split: tx_result.splits)
qed

lemma office_send:
  assumes ok: "office_ok s" and at: "at_pc s i (Sending l attempt)"
    and send: "send_letter l attempt o1 (po_deliveries s ! i) (po_sent s) = (d, sent)"
  shows "office_ok ((set_delivery i (d, po_db s) s)\<lparr>po_sent := sent\<rparr>)"
proof -
  let ?k = "(lt_id l, dv_trip (po_deliveries s ! i))"
  have row: "md_delivery (po_db s) ?k = Some (attempt, Dl_attempting)" "sends s ?k = 0" using office_owner [OF ok, of i] at by auto
  show ?thesis
    by (rule office_change [OF ok, where i = i and k = ?k and own = "Some attempt" and d = d])
      (use at send row office_delivered [OF ok] in
        \<open>auto simp: send_letter_def local_change_def owner_ok_def sends_ok_def sends_def count_list_append split: if_splits\<close>)
qed

lemma office_mark:
  assumes ok: "office_ok s" and at: "at_pc s i (Marking l attempt)"
  shows "office_ok (set_delivery i (mark_letter l attempt applied (po_deliveries s ! i) (po_db s)) s)"
proof -
  let ?k = "(lt_id l, dv_trip (po_deliveries s ! i))"
  show ?thesis
    by (rule office_change [OF ok, where i = i and k = ?k and own = "Some attempt" and d = "fst (mark_letter l attempt applied (po_deliveries s ! i) (po_db s))"])
      (use at office_row [OF ok, of ?k] office_delivered [OF ok] delivered_put [OF office_delivered [OF ok], of ?k Dl_unknown attempt] in
        \<open>auto simp: mark_letter_def mark_mail_unknown_def local_change_def owner_ok_def sends_ok_def accepted_def split: option.splits\<close>)
qed

lemma office_next:
  assumes ok: "office_ok s" and at: "at_pc s i Looping"
  shows "office_ok (set_delivery i (next_letter ended (po_deliveries s ! i), po_db s) s)"
  by (rule office_quiet [OF ok]) (use at in \<open>auto simp: next_letter_def split: list.splits\<close>)

lemma office_check:
  assumes ok: "office_ok s" and at: "at_pc s i (Claimed l attempt)"
  shows "office_ok (set_delivery i (check_claimed l attempt ended (po_deliveries s ! i), po_db s) s)"
  by (rule office_quiet [OF ok]) (use at in \<open>auto simp: check_claimed_def\<close>)

lemma office_crash:
  assumes ok: "office_ok s" and i: "i < length (po_deliveries s)"
  shows "office_ok (set_delivery i ((po_deliveries s ! i)\<lparr>dv_pc := Finished Crashed\<rparr>, po_db s) s)"
  by (rule office_quiet [OF ok i]) simp_all

lemmas office_steps = office_queue office_start office_claim office_release office_settle office_send office_mark
  office_next office_check office_crash

interpretation mail_runs: invariant_of "\<lambda>s. s = empty_office" mail_step office_ok
proof
  show "office_ok s" if "s = empty_office" for s using that by (simp add: office_initial)
  show "office_ok t" if ok: "office_ok s" and st: "mail_step s t" for s t
    using st by cases (use ok in \<open>blast intro: office_steps\<close>)+
qed

text \<open>C5. A letter is sent to a recipient at most once, whatever fails, is cancelled or dies, and however many deliveries run at the
  same time in the rooms of the bot: in every reachable state of the tables and the deliveries a pair of a mail and a
  recipient has been sent at most once, it has not been sent at all while it may still be claimed (it has no row, or its
  row is \<open>PENDING\<close>), it has been sent exactly once when its row is \<open>ACCEPTED\<close>, and when a mail is no longer \<open>PENDING\<close> it has been
  sent exactly once to each of its recipients.\<close>

theorem mail_sent_at_most_once:
  assumes "mail_step\<^sup>*\<^sup>* empty_office s"
  shows "sends s (i, trip) \<le> 1
    \<and> ((case md_delivery (po_db s) (i, trip) of Some (a, st) \<Rightarrow> st = Dl_pending | None \<Rightarrow> True) \<longrightarrow> sends s (i, trip) = 0)
    \<and> (accepted (po_db s) (i, trip) \<longrightarrow> sends s (i, trip) = 1)
    \<and> (\<forall>r \<in> set (md_mail (po_db s)). ml_status r \<noteq> lit ''PENDING'' \<longrightarrow>
         (\<forall>t \<in> set (split_on 44 (ml_receiver r)). sends s (ml_id r, t) = 1))"
proof -
  have ok: "office_ok s" using mail_runs.inv_reachable [OF _ assms] by blast
  have once: "accepted (po_db s) k \<longrightarrow> sends s k = 1" for k
    using office_row [OF ok, of k] by (auto simp: sends_ok_def accepted_def split: option.splits)
  have row: "sends_ok (md_delivery (po_db s) (i, trip)) (sends s (i, trip))" by (rule office_row [OF ok])
  then have "sends s (i, trip) \<le> 1"
    and "(case md_delivery (po_db s) (i, trip) of Some (a, st) \<Rightarrow> st = Dl_pending | None \<Rightarrow> True) \<longrightarrow> sends s (i, trip) = 0"
    by (auto simp: sends_ok_def split: option.splits)
  moreover have "accepted (po_db s) (ml_id r, t)"
    if "r \<in> set (md_mail (po_db s))" "ml_status r \<noteq> lit ''PENDING''" "t \<in> set (split_on 44 (ml_receiver r))" for r t
    using office_delivered [OF ok] that unfolding delivered_ok_def by blast
  ultimately show ?thesis using once by blast
qed

text \<open>A letter for two trips: the delivery to one of them sends and dies before it can record that, and a later delivery finds
  nothing to send.\<close>

definition demo_db :: "(nat \<times> str \<Rightarrow> (str \<times> delivery_state) option) \<Rightarrow> mail_db" where
  "demo_db m = \<lparr>md_mail = [new_mail 1 7 (lit ''hello'') (lit ''ann'') (lit ''aB3,zq'') False], md_seq = 1, md_delivery = m\<rparr>"

definition demo_letter :: letter where
  "demo_letter = \<lparr>lt_id = 1, lt_owner = lit ''ann'', lt_receiver = lit ''aB3,zq'', lt_message = lit ''hello '', lt_status = lit ''PENDING'',
     lt_created = 7, lt_whisper = False\<rparr>"

abbreviation demo_key :: "nat \<times> str" where "demo_key \<equiv> (1, lit ''zq'')"

definition demo_office :: "(str \<times> delivery_state) option \<Rightarrow> letter list \<Rightarrow> delivery_pc \<Rightarrow> (nat \<times> str) list \<Rightarrow> str list \<Rightarrow> post_office" where
  "demo_office r ls pc sent used =
     \<lparr>po_db = demo_db (Map.empty(demo_key := r)), po_deliveries = [\<lparr>dv_trip = lit ''zq'', dv_todo = ls, dv_pc = pc\<rparr>],
      po_sent = sent, po_attempts = used\<rparr>"

lemma mail_demo_facts:
  "resolve_recipients (lit ''bob'') (lit ''bob'') [lit ''zq'', lit ''aB3''] [(lit ''zq'', lit ''Bob''), (lit ''aB3'', lit ''bob'')]
     = [lit ''aB3'', lit ''zq'']"
  "normalize_nick_target (Some (lit ''bob'')) = Some (lit ''bob'')" "trim_space (lit ''bob'') = lit ''bob''"
  "pending_letters False False (lit ''zq'') (demo_db Map.empty) = Some [demo_letter]"
  "mail_has_recipient (lit ''aB3,zq'') (lit ''zq'')"
  by code_simp+

lemma demo_claim:
  "claim_mail 1 (lit ''zq'') (lit ''t1'') (demo_db Map.empty) = Some (True, demo_db [demo_key \<mapsto> (lit ''t1'', Dl_attempting)])"
  using mail_demo_facts(5) by (simp add: claim_mail_def mail_of_def demo_db_def new_mail_def put_delivery_def del: lit_simps)

lemma demo_queue:
  "snd (queue_resolved False False 7 (lit ''hello'') (lit ''ann'') (lit ''bob'') False [lit ''zq'', lit ''aB3'']
     [(lit ''zq'', lit ''Bob''), (lit ''aB3'', lit ''bob'')] (po_db empty_office)) = demo_db Map.empty"
proof -
  have "join [44] [lit ''aB3'', lit ''zq''] = lit ''aB3,zq''" by code_simp
  then show ?thesis
    unfolding queue_resolved_def mail_demo_facts(2,3) option.case Let_def mail_demo_facts(1)
    by (simp add: demo_db_def empty_office_def empty_mail_db_def del: lit_simps)
qed

lemma mail_demo_run:
  "mail_step\<^sup>*\<^sup>* empty_office
     (demo_office (Some (lit ''t1'', Dl_attempting)) [] (Finished Crashed) [demo_key] [lit ''t1''])"
proof -
  let ?t = "lit ''t1''" let ?r = "Some (?t, Dl_attempting)"
  have "mail_step empty_office (empty_office\<lparr>po_db := demo_db Map.empty\<rparr>)"
    using mail_queue [of empty_office] unfolding demo_queue [symmetric] .
  moreover have "mail_step (empty_office\<lparr>po_db := demo_db Map.empty\<rparr>) (demo_office None [demo_letter] Looping [] [])"
    using mail_start [where ended = False and rf = False and trip = "lit ''zq''" and s = "empty_office\<lparr>po_db := demo_db Map.empty\<rparr>" and ls = "[demo_letter]"] mail_demo_facts(4)
    by (simp add: empty_office_def demo_office_def del: lit_simps)
  moreover have "mail_step (demo_office None [demo_letter] Looping [] []) (demo_office None [] (Claiming demo_letter) [] [])"
    using mail_next [where s = "demo_office None [demo_letter] Looping [] []" and i = 0 and ended = False]
    by (simp add: demo_office_def set_delivery_def next_letter_def del: lit_simps)
  moreover have "mail_step (demo_office None [] (Claiming demo_letter) [] []) (demo_office ?r [] (Claimed demo_letter ?t) [] [?t])"
    using mail_claim [where s = "demo_office None [] (Claiming demo_letter) [] []" and i = 0 and l = demo_letter and attempt = ?t and e = Committed] demo_claim
    by (simp add: demo_office_def set_delivery_def claim_letter_def with_tx_def demo_letter_def del: lit_simps)
  moreover have "mail_step (demo_office ?r [] (Claimed demo_letter ?t) [] [?t]) (demo_office ?r [] (Sending demo_letter ?t) [] [?t])"
    using mail_check [where s = "demo_office ?r [] (Claimed demo_letter ?t) [] [?t]" and i = 0 and l = demo_letter and attempt = ?t and ended = False]
    by (simp add: demo_office_def set_delivery_def check_claimed_def del: lit_simps)
  moreover have "mail_step (demo_office ?r [] (Sending demo_letter ?t) [] [?t])
      (demo_office ?r [] (Settling demo_letter ?t Send_accepted) [demo_key] [?t])"
    using mail_send [where s = "demo_office ?r [] (Sending demo_letter ?t) [] [?t]" and i = 0 and l = demo_letter and attempt = ?t and ?o1.0 = Send_accepted]
    by (simp add: demo_office_def set_delivery_def send_letter_def demo_letter_def del: lit_simps)
  moreover have "mail_step (demo_office ?r [] (Settling demo_letter ?t Send_accepted) [demo_key] [?t])
      (demo_office ?r [] (Finished Crashed) [demo_key] [?t])"
    using mail_crash [where s = "demo_office ?r [] (Settling demo_letter ?t Send_accepted) [demo_key] [?t]" and i = 0]
    by (simp add: demo_office_def set_delivery_def del: lit_simps)
  ultimately show ?thesis by (meson converse_rtranclp_into_rtranclp rtranclp.rtrancl_refl)
qed

theorem mail_sent_at_most_once_witness:
  "\<exists>s. mail_step\<^sup>*\<^sup>* empty_office s \<and> po_sent s = [demo_key] \<and> sends s demo_key \<le> 1 \<and> sends s (1, lit ''aB3'') = 0
     \<and> pending_letters False False (lit ''zq'') (po_db s) = Some []"
proof -
  let ?s = "demo_office (Some (lit ''t1'', Dl_attempting)) [] (Finished Crashed) [demo_key] [lit ''t1'']"
  have "pending_letters False False (lit ''zq'') (demo_db [demo_key \<mapsto> (lit ''t1'', Dl_attempting)]) = Some []"
    "md_delivery (po_db ?s) (1, lit ''aB3'') = None"
    by code_simp+
  then show ?thesis
    using mail_demo_run mail_sent_at_most_once [OF mail_demo_run, of 1 "lit ''zq''"] mail_sent_at_most_once [OF mail_demo_run, of 1 "lit ''aB3''"]
    by (intro exI [of _ ?s]) (simp add: demo_office_def del: lit_simps)
qed

section \<open>The recipients of a row\<close>

text \<open>The query finds a trip between commas exactly if splitting at the commas yields it, so the letters that are listed for a
  trip are those that a claim for it accepts.\<close>

lemma split_on_not_Nil [simp]: "split_on c s \<noteq> []"
  by (induction s) (auto split: list.splits)

lemma split_on_append: "c \<notin> set u \<Longrightarrow> split_on c (u @ c # v) = u # split_on c v"
  by (induction u) auto

lemma split_on_single: "c \<notin> set u \<Longrightarrow> split_on c u = [u]"
  by (induction u) auto

lemma between_commas: "c \<notin> set t \<Longrightarrow> sublist ([c] @ t @ [c]) ([c] @ s @ [c]) \<longleftrightarrow> t \<in> set (split_on c s)"
proof (induction "length s" arbitrary: s rule: less_induct)
  case less
  show ?case
  proof (cases "c \<in> set s")
    case False
    have "sublist ([c] @ t @ [c]) ([c] @ s @ [c]) \<longleftrightarrow> t = s"
    proof
      assume "sublist ([c] @ t @ [c]) ([c] @ s @ [c])"
      then obtain u v where uv: "c # s @ [c] = u @ c # t @ c # v" by (auto simp: sublist_def)
      then have "u = []" using False by (cases u) (auto simp: append_eq_append_conv2 Cons_eq_append_conv append_eq_Cons_conv)
      then have "s @ c # [] = t @ c # v" using uv by simp
      then show "t = s" using append_sep_inj [of c s t "[]" v] False less.prems by simp
    qed simp
    then show ?thesis using split_on_single [OF False] by simp
  next
    case True
    then obtain u v where s: "s = u @ c # v" "c \<notin> set u" by (meson split_list_first)
    have "sublist ([c] @ t @ [c]) ([c] @ s @ [c]) \<longleftrightarrow> t = u \<or> sublist ([c] @ t @ [c]) ([c] @ v @ [c])"
    proof
      assume "sublist ([c] @ t @ [c]) ([c] @ s @ [c])"
      then obtain a b where ab: "(c # u) @ c # v @ [c] = a @ c # t @ c # b" by (auto simp: sublist_def s)
      show "t = u \<or> sublist ([c] @ t @ [c]) ([c] @ v @ [c])"
      proof (cases a)
        case Nil
        then have "u @ c # v @ [c] = t @ c # b" using ab by simp
        then show ?thesis using append_sep_inj [OF s(2) less.prems] by blast
      next
        case (Cons x a')
        then have eq: "u @ c # v @ [c] = a' @ c # t @ c # b" using ab by auto
        have "\<exists>w. a' = u @ w"
        proof -
          obtain us where us: "u = a' @ us \<and> us @ c # v @ [c] = c # t @ c # b \<or> u @ us = a'"
            using eq append_eq_append_conv2 [of u "c # v @ [c]" a' "c # t @ c # b"] by blast
          then show ?thesis
          proof
            assume d: "u = a' @ us \<and> us @ c # v @ [c] = c # t @ c # b"
            then have "us = []" using s(2) by (cases us) auto
            then show ?thesis using d by auto
          qed auto
        qed
        then obtain w where "a' = u @ w" by blast
        then have "c # v @ [c] = w @ c # t @ c # b" using eq by simp
        then show ?thesis by (auto simp: sublist_def)
      qed
    next
      assume "t = u \<or> sublist ([c] @ t @ [c]) ([c] @ v @ [c])"
      then show "sublist ([c] @ t @ [c]) ([c] @ s @ [c])"
      proof
        assume "t = u"
        then have "[c] @ s @ [c] = [] @ ([c] @ t @ [c]) @ v @ [c]" by (simp add: s)
        then show ?thesis by (metis sublist_appendI)
      next
        assume sub: "sublist ([c] @ t @ [c]) ([c] @ v @ [c])"
        then obtain p q where "[c] @ v @ [c] = p @ ([c] @ t @ [c]) @ q" by (auto simp: sublist_def)
        then have "[c] @ s @ [c] = ([c] @ u @ p) @ ([c] @ t @ [c]) @ q" by (simp add: s)
        then show ?thesis unfolding sublist_def by blast
      qed
    qed
    then show ?thesis using less.hyps [of v] less.prems s split_on_append [OF s(2), of v] by auto
  qed
qed

lemma pending_is_claimed:
  assumes "distinct (map ml_id (md_mail db))" "r \<in> set (md_mail db)" "trim_space trip \<noteq> []" "44 \<notin> set trip"
  shows "is_pending_for db trip r \<longleftrightarrow> (\<exists>db'. claim_mail (ml_id r) trip attempt db = Some (True, db'))"
proof -
  have "mail_of (ml_id r) db = Some r"
  proof -
    obtain q where q: "mail_of (ml_id r) db = Some q" using assms(2) by (fastforce simp: mail_of_def find_None_iff)
    then show ?thesis using assms(1,2) mail_of_SomeD [OF q] by (auto simp: distinct_map inj_on_def)
  qed
  then show ?thesis
    using assms(3,4) between_commas [OF assms(4), of "ml_receiver r"]
    by (auto simp: is_pending_for_def claim_mail_def mail_has_recipient_def split: option.splits)
qed

section \<open>Notes\<close>

text \<open>The table \<open>notes\<close> as the list of its rows, in the order of their identifiers; the flag of the last two is whether a change
  was recorded.\<close>

definition save_note :: "bool \<Rightarrow> str \<Rightarrow> str \<Rightarrow> (str \<times> str) list \<Rightarrow> bool \<times> (str \<times> str) list" where
  "save_note fails trip note1 db = (if fails then (False, db) else (True, db @ [(trip, note1)]))"

definition list_notes :: "bool \<Rightarrow> str \<Rightarrow> (str \<times> str) list \<Rightarrow> str list option" where
  "list_notes fails trip db = (if fails then None else Some (map snd (filter (\<lambda>r. fst r = trip) db)))"

definition clear_notes :: "bool \<Rightarrow> str \<Rightarrow> (str \<times> str) list \<Rightarrow> bool \<times> (str \<times> str) list" where
  "clear_notes fails trip db =
     (if fails then (False, db) else (list_ex (\<lambda>r. fst r = trip) db, filter (\<lambda>r. fst r \<noteq> trip) db))"

end
