(* ===== verification/Replies.thy ===== *)
theory Replies
  imports Unicode_Graphic Regex TurnState Mail Context Canonical
begin

text \<open>
  What of an answer is shown: \<open>response_sanitizer.go\<close>, \<open>internal_evidence_guard.go\<close> and \<open>failure_reply.go\<close> of
  \<open>internal/agent/live\<close>, and the finalizer and the runner of one turn in \<open>runner.go\<close>.  The loop between the model and its tools, the
  assembly of a request and the tables of the memory are other components; here their results are arguments.
\<close>

section \<open>Sanitizing\<close>

definition java_space :: "rune \<Rightarrow> bool" where
  "java_space c \<longleftrightarrow> (9 \<le> c \<and> c \<le> 13) \<or> (0x1c \<le> c \<and> c \<le> 0x1f) \<or> c \<in> {32, 0x1680, 0x2028, 0x2029, 0x205f, 0x3000}
     \<or> (0x2000 \<le> c \<and> c \<le> 0x2006) \<or> (0x2008 \<le> c \<and> c \<le> 0x200a)"

definition strip_java :: "str \<Rightarrow> str" where
  "strip_java s = trim_right java_space (trim_left java_space s)"

definition space_separator :: "rune \<Rightarrow> bool" where
  "space_separator c \<longleftrightarrow> c \<in> {32, 0xa0, 0x1680, 0x202f, 0x205f, 0x3000} \<or> (0x2000 \<le> c \<and> c \<le> 0x200a)"

abbreviation spaces :: regex where "spaces \<equiv> Many (Class re_space)"

definition legacy_opening :: regex where
  "legacy_opening =
     (let upto = \<lambda>k q. Seq (Class q) (re_upto k (Class q))
      in re_seq [Start, spaces, re_fold_text (lit ''Ah,''), spaces, upto 79 (\<lambda>c. c \<notin> {10, 46, 33, 63, 58}),
           Class (\<lambda>c. c \<in> {46, 33, 63, 58}), spaces,
           re_opt (re_seq [re_fold_text (lit ''You ask about''), re_some (Class re_space), upto 119 (\<lambda>c. c \<notin> {10, 46, 33, 63}),
             Class (\<lambda>c. c \<in> {46, 33, 63}), spaces])])"

definition legacy_sip_tea :: regex where
  "legacy_sip_tea = re_seq [re_fold_text (lit ''[sips tea''), re_opt (re_fold_text (lit '' slowly'')), Many (Class (\<lambda>c. c \<noteq> 93)),
     Class (\<lambda>c. c = 93), spaces]"

definition initial_markup :: regex where
  "initial_markup = re_seq [Start, spaces, re_some (Seq (re_some (Class (\<lambda>c. c \<in> {42, 95, 126, 96, 35, 62}))) spaces)]"

definition list_prefix :: regex where
  "list_prefix =
     (let gap = Class (\<lambda>c. c = 9 \<or> space_separator c)
      in re_seq [Start, Many gap,
           re_any [Class (\<lambda>c. c = 42 \<or> c = 0x2022), Seq (re_some (Class is_digit_ascii)) (Class (\<lambda>c. c = 46 \<or> c = 41))],
           re_some gap])"

text \<open>The submatch of \<open>listItem\<close>: the rest of a line after the first way to match the marker that leaves one\<close>

definition list_item :: "str \<Rightarrow> str option" where
  "list_item line =
     map_option (\<lambda>n. drop n line) (find (\<lambda>n. drop n line \<noteq> [] \<and> 10 \<notin> set (drop n line)) (ends list_prefix None line))"

definition carpe_diem :: regex where
  "carpe_diem =
     (let stars = Many (Class (\<lambda>c. c = 42 \<or> c = 95))
      in re_seq [Start, stars, re_fold_text (lit ''carpe diem''), stars, Class (\<lambda>c. c = 44 \<or> c = 46), Many (Class (\<lambda>c. c \<noteq> 10))])"

definition structured_output :: "str \<Rightarrow> bool" where
  "structured_output raw \<longleftrightarrow> parse_json (trim_space raw) \<noteq> None \<or> contains raw [96, 96, 96] \<or> contains raw [126, 126, 126]"

definition is_boilerplate :: "str \<Rightarrow> bool" where
  "is_boilerplate line \<longleftrightarrow>
     (let n = to_lower (strip_java line)
      in has_prefix n (lit ''the archives reveal'') \<or> n = lit ''your history shows:'' \<or> match_string carpe_diem n)"

definition clean_line :: "str \<Rightarrow> str" where
  "clean_line line = (case list_item line of Some rest \<Rightarrow> [0x2009, 45, 0x2009] @ rest | None \<Rightarrow> trim_right java_space line)"

definition sanitize :: "str \<Rightarrow> str" where
  "sanitize raw =
     (if strip_java raw = [] then []
      else if structured_output raw then raw
      else
        let c1 = replace_all legacy_sip_tea (\<lambda>m. []) raw;
            c2 = strip_java (replace_all initial_markup (\<lambda>m. []) c1);
            c3 = replace_all legacy_opening (\<lambda>m. []) c2
        in trim_right java_space (join [10] (map clean_line (filter (\<lambda>l. \<not> is_boilerplate l) (split_on 10 c3)))))"

definition contains_legacy_persona :: "str \<Rightarrow> bool" where
  "contains_legacy_persona raw \<longleftrightarrow>
     strip_java raw \<noteq> []
     \<and> (contains (to_lower raw) (lit ''[sips tea'') \<or> match_string legacy_opening (strip_java raw)
        \<or> list_ex (\<lambda>line. let n = to_lower (strip_java line)
                   in has_prefix n (lit ''the archives reveal'') \<or> match_string carpe_diem n) (split_on 10 raw))"

definition internal_evidence_marker :: str where
  "internal_evidence_marker = lit ''[Internal tool evidence from ''"

section \<open>Finalizing\<close>

record output_finalizer =
  of_marker :: str
  of_max :: int

datatype finalize_error = Empty_response | Declined_required | Exposed_evidence | Exposed_markup | Structured_too_long

text \<open>\<open>strings.ReplaceAll\<close> with the empty text\<close>

function remove_all :: "str \<Rightarrow> str \<Rightarrow> str" where
  "remove_all m [] = []"
| "remove_all m (c # s) =
     (if m = [] then c # s
      else if has_prefix (c # s) m then remove_all m (drop (length m) (c # s)) else c # remove_all m s)"
  by pat_completeness auto
termination by (relation "measure (\<lambda>(m, s). length s)") (auto simp: neq_Nil_conv)

definition ascii_blank :: "rune \<Rightarrow> bool" where
  "ascii_blank c \<longleftrightarrow> c \<in> {32, 9, 10, 13}"

definition default_max_output :: int where "default_max_output = 8000"

definition output_limit :: "output_finalizer \<Rightarrow> nat" where
  "output_limit f = nat (if of_max f \<le> 0 then default_max_output else of_max f)"

definition answer_text :: "invocation_mode \<Rightarrow> str \<Rightarrow> str" where
  "answer_text mode raw = (if mode \<noteq> VIBE then sanitize raw else raw)"

text \<open>The text to show, or \<open>None\<close> for no reply\<close>

definition finalize :: "output_finalizer \<Rightarrow> invocation_mode \<Rightarrow> str \<Rightarrow> finalize_error + str option" where
  "finalize f mode raw =
     (let content1 = answer_text mode raw
      in if strip_java content1 = [] then Inl Empty_response
         else if strip_java content1 = of_marker f then (if requires_reply mode then Inl Declined_required else Inr None)
         else if contains content1 internal_evidence_marker then Inl Exposed_evidence
         else if contains_tool_protocol_artifact content1 then Inl Exposed_markup
         else
           let structured = structured_output content1;
               c1 = (if structured then content1 else remove_all (of_marker f) content1);
               c2 = trim_right ascii_blank (trim_left ascii_blank c1)
           in if c2 = [] then Inl Empty_response
              else if output_limit f < length c2 then (if structured then Inl Structured_too_long else Inr (Some (take (output_limit f) c2)))
              else Inr (Some c2))"

section \<open>The reply of a failed turn\<close>

record receipt =
  rp_call :: str
  rp_tool :: str
  rp_status :: str
  rp_code :: str
  rp_related :: str
  rp_committed :: bool
  rp_state :: effect_state
  rp_deliveries :: int
  rp_actions :: int

definition is_graphic :: "rune \<Rightarrow> bool" where
  "is_graphic c \<longleftrightarrow> (if c < 128 then 32 \<le> c \<and> c \<le> 126 else is_letter c \<or> is_number c \<or> is_mark c \<or> in_ranges symbol_ranges c)"

text \<open>\<open>strconv.QuoteToGraphic\<close>\<close>

definition hex_digits :: "nat \<Rightarrow> int \<Rightarrow> str" where
  "hex_digits n c = map (\<lambda>k. hex_char (c div 16 ^ k mod 16)) (rev [0..<n])"

definition quote_rune :: "rune \<Rightarrow> str" where
  "quote_rune c =
     (if c = 34 \<or> c = 92 then [92, c]
      else if is_graphic c then [c]
      else if 7 \<le> c \<and> c \<le> 13 then [92, lit ''abtnvfr'' ! nat (c - 7)]
      else if c < 32 \<or> c = 127 then [92, 120] @ hex_digits 2 c
      else if c < 0x10000 then [92, 117] @ hex_digits 4 c
      else [92, 85] @ hex_digits 8 c)"

definition quote_graphic :: "str \<Rightarrow> str" where
  "quote_graphic s = [34] @ concat (map quote_rune s) @ [34]"

definition receipt_name_limit :: nat where "receipt_name_limit = 80"

definition receipt_name :: "str \<Rightarrow> str" where
  "receipt_name v =
     (let c1 = join [32] (str_fields (map (\<lambda>c. if is_space c then 32 else c) (filter (\<lambda>c. is_space c \<or> \<not> is_control c) v)));
          c2 = (if c1 = [] then lit ''unknown'' else c1)
      in quote_graphic (if receipt_name_limit < length c2 then take (receipt_name_limit - 3) c2 @ lit ''...'' else c2))"

definition receipt_status :: "receipt \<Rightarrow> str" where
  "receipt_status r =
     (if rp_code r = lit ''ACTION_NOT_EXECUTED'' then lit ''skipped''
      else if rp_code r = lit ''COMMAND_REJECTED'' then lit ''rejected''
      else if rp_status r = lit ''success'' then lit ''succeeded'' else lit ''failed'')"

fun receipt_effect :: "effect_state \<Rightarrow> str" where
  "receipt_effect effect_state.Committed = lit ''committed''"
| "receipt_effect Partial = lit ''partial''"
| "receipt_effect Unknown = lit ''unknown''"
| "receipt_effect Not_started = lit ''not-started''"
| "receipt_effect Not_committed = lit ''not-committed''"
| "receipt_effect No_state = lit ''unspecified''"

definition render_receipt :: "receipt \<Rightarrow> str" where
  "render_receipt r =
     lit ''call '' @ receipt_name (rp_call r) @ lit '' tool '' @ receipt_name (rp_tool r) @ lit '': status='' @ receipt_status r
       @ lit '', effect='' @ receipt_effect (rp_state r) @ lit '', deliveries='' @ itoa (rp_deliveries r)
       @ lit '', actions='' @ itoa (rp_actions r)"

definition generic_failure :: str where
  "generic_failure = lit ''failed: the agent could not answer that request.''"

definition failure_prefix :: str where
  "failure_prefix = lit ''failed: the agent'' @ [39] @ lit ''s answer is incomplete. execution receipts: ''"

definition failure_limit :: nat where "failure_limit = 2000"

definition omitted_tail :: "nat \<Rightarrow> str" where
  "omitted_tail n = (if n = 0 then lit ''.'' else lit ''; omitted receipts: '' @ itoa (int n) @ lit ''.'')"

fun add_receipts :: "str \<Rightarrow> nat \<Rightarrow> receipt list \<Rightarrow> str \<times> nat" where
  "add_receipts reply k [] = (reply, k)"
| "add_receipts reply k (r # rs) =
     (let candidate = reply @ (if 0 < k then lit ''; '' else []) @ render_receipt r
      in if failure_limit < length (candidate @ omitted_tail (length rs)) then (reply, k)
         else add_receipts candidate (k + 1) rs)"

text \<open>\<open>None\<close>: the cause is not an incomplete turn, or it has no observations.\<close>

definition failure_reply :: "receipt list option \<Rightarrow> str" where
  "failure_reply index =
     (case index of
        None \<Rightarrow> generic_failure
      | Some rs \<Rightarrow>
          if rs = [] then generic_failure
          else case add_receipts failure_prefix 0 rs of (reply, k) \<Rightarrow> reply @ omitted_tail (length rs - k))"

section \<open>One turn\<close>






text \<open>What a turn does outside: it reads the memory, the evidence and the room, runs the loop, asks the provider, and writes a turn.\<close>

datatype run_effect = Load_memory | Load_evidence | Load_recent | Run_loop | Ask_provider | Append_turn str str "(str \<times> str) list"















section \<open>Lemmas on texts\<close>










section \<open>What is shown\<close>


text \<open>Without that condition it fails: the marker is removed after the checks, so the rest can be a tool call.\<close>

definition default_finalizer :: output_finalizer where
  "default_finalizer = \<lparr>of_marker = lit ''[[SATURN_NO_REPLY]]'', of_max = 8000\<rparr>"

text \<open>Texts that no pattern of the sanitizer touches\<close>

lemma replace_unmatched:
  "(\<And>u v. s = u @ v \<Longrightarrow> v \<noteq> [] \<Longrightarrow> ends r (if u = [] then p else Some (last u)) v = []) \<Longrightarrow> replace_from r f p s = s"
proof (induction s arbitrary: p)
  case (Cons c s)
  have "ends r (if u = [] then Some c else Some (last u)) v = []" if "s = u @ v" "v \<noteq> []" for u v
    using Cons.prems [of "c # u" v] that by (auto split: if_splits)
  from Cons.IH [OF this] have "replace_from r f (Some c) s = s" .
  moreover have "ends r p (c # s) = []"
    using Cons.prems [of "[]" "c # s"] by simp
  ultimately show ?case
    by (subst replace_from.simps) simp
qed (subst replace_from.simps, simp)

lemma replace_anchored: "ends (Seq Start r) None s = [] \<Longrightarrow> replace_all (Seq Start r) f s = s"
  unfolding replace_all_def by (rule replace_unmatched) (auto simp: chain_ends_def split: if_splits)

lemma replace_absent:
  assumes "\<not> sublist (map fold_rune m) (map fold_rune s)"
  shows "replace_all (Seq (re_fold_text m) r) f s = s"
  unfolding replace_all_def
proof (rule replace_unmatched)
  fix u v
  assume s: "s = u @ v"
  have "\<not> equal_fold (take (length m) v) m"
  proof
    assume "equal_fold (take (length m) v) m"
    then have "map fold_rune s = map fold_rune u @ map fold_rune m @ map fold_rune (drop (length m) v)"
      using s by (metis append_take_drop_id equal_fold_def map_append)
    then show False
      using assms by (metis sublist_appendI)
  qed
  then show "ends (Seq (re_fold_text m) r) (if u = [] then None else Some (last u)) v = []"
    by (simp add: chain_ends_def ends_fold_text)
qed

lemma seq_split: "rs \<noteq> [] \<Longrightarrow> re_seq (r # rs) = Seq r (re_seq rs)"
  by (cases rs) auto

lemma sanitize_plain:
  assumes "strip_java raw \<noteq> []" "\<not> structured_output raw" "\<not> sublist (map fold_rune (lit ''[sips tea'')) (map fold_rune raw)"
    "ends initial_markup None raw = []" "ends legacy_opening None (strip_java raw) = []" "split_on 10 (strip_java raw) = [strip_java raw]"
    "\<not> is_boilerplate (strip_java raw)" "list_item (strip_java raw) = None"
  shows "sanitize raw = trim_right java_space (trim_right java_space (strip_java raw))"
proof -
  have "replace_all legacy_sip_tea f raw = raw" for f
    unfolding legacy_sip_tea_def by (subst (1) seq_split, simp) (rule replace_absent [OF assms(3)])
  moreover have "replace_all initial_markup f raw = raw" for f
    using assms(4) unfolding initial_markup_def by (simp add: seq_split replace_anchored)
  moreover have "replace_all legacy_opening f (strip_java raw) = strip_java raw" for f
    using assms(5) unfolding legacy_opening_def Let_def by (simp add: seq_split replace_anchored)
  ultimately show ?thesis
    using assms by (simp add: sanitize_def Let_def clean_line_def)
qed

lemma no_opening: "s \<noteq> [] \<Longrightarrow> \<not> re_space (hd s) \<Longrightarrow> fold_rune (hd s) \<noteq> fold_rune 65 \<Longrightarrow> ends legacy_opening None s = []"
  by (cases s) (auto simp: legacy_opening_def seq_split chain_ends_def ends_fold_text equal_fold_def lit_def ends_class)

lemma demo_sanitize:
  "sanitize (lit ''yes '') = lit ''yes''"
  "sanitize (lit ''<tool[[SATURN_NO_REPLY]]_call>'') = lit ''<tool[[SATURN_NO_REPLY]]_call>''"
proof -
  have "strip_java (lit ''yes '') = lit ''yes''" "\<not> structured_output (lit ''yes '')"
    "\<not> sublist (map fold_rune (lit ''[sips tea'')) (map fold_rune (lit ''yes ''))" "ends initial_markup None (lit ''yes '') = []"
    "split_on 10 (lit ''yes'') = [lit ''yes'']" "\<not> is_boilerplate (lit ''yes'')" "list_item (lit ''yes'') = None"
    "trim_right java_space (trim_right java_space (lit ''yes'')) = lit ''yes''"
    by code_simp+
  moreover have "ends legacy_opening None (lit ''yes'') = []"
    by (rule no_opening) code_simp+
  ultimately show "sanitize (lit ''yes '') = lit ''yes''"
    by (subst sanitize_plain) (simp_all del: lit_simps, simp add: lit_def)
next
  let ?s = "lit ''<tool[[SATURN_NO_REPLY]]_call>''"
  have "strip_java ?s = ?s" "\<not> structured_output ?s"
    "\<not> sublist (map fold_rune (lit ''[sips tea'')) (map fold_rune ?s)" "ends initial_markup None ?s = []"
    "split_on 10 ?s = [?s]" "\<not> is_boilerplate ?s" "list_item ?s = None"
    "trim_right java_space (trim_right java_space ?s) = ?s"
    by code_simp+
  moreover have "ends legacy_opening None ?s = []"
    by (rule no_opening) code_simp+
  ultimately show "sanitize ?s = ?s"
    by (subst sanitize_plain) (simp_all del: lit_simps, simp add: lit_def)
qed

lemma demo_answer: "answer_text MENTION raw = sanitize raw"
  by (simp add: answer_text_def)

lemma marker_forms_tool_call:
  "finalize default_finalizer MENTION (lit ''<tool[[SATURN_NO_REPLY]]_call>'') = Inr (Some (lit ''<tool_call>''))
   \<and> contains_tool_protocol_artifact (lit ''<tool_call>'')"
  unfolding finalize_def demo_answer demo_sanitize by code_simp


section \<open>Receipts of a failed turn\<close>

lemma digits_of_length: "n < 10 ^ k \<Longrightarrow> 0 < k \<Longrightarrow> length (digits_of n) \<le> k"
proof (induction k arbitrary: n)
  case (Suc k)
  show ?case
  proof (cases "n < 10")
    case False
    then have "n div 10 < 10 ^ k" "0 < k"
      using Suc.prems by (auto simp: less_mult_imp_div_less mult.commute intro: gr0I)
    then show ?thesis
      using Suc.IH [of "n div 10"] False by (subst digits_of.simps) simp
  qed (subst digits_of.simps, simp)
qed simp

lemma join_snoc: "join sep (xs @ [x]) = join sep xs @ (if xs = [] then [] else sep) @ x"
  by (induction sep xs rule: join.induct) auto

definition receipts_text :: "receipt list \<Rightarrow> str" where
  "receipts_text rs = failure_prefix @ join (lit ''; '') (map render_receipt rs)"

lemma receipts_text_snoc:
  "receipts_text (rs @ [r]) = receipts_text rs @ (if 0 < length rs then lit ''; '' else []) @ render_receipt r"
  by (simp add: receipts_text_def join_snoc)

lemma add_receipts_text:
  assumes "length (receipts_text done @ omitted_tail (length rs)) \<le> failure_limit"
  shows "\<exists>j \<le> length rs. add_receipts (receipts_text done) (length done) rs = (receipts_text (done @ take j rs), length done + j)
    \<and> length (receipts_text (done @ take j rs) @ omitted_tail (length rs - j)) \<le> failure_limit
    \<and> (j < length rs \<longrightarrow> failure_limit < length (receipts_text (done @ take (j + 1) rs) @ omitted_tail (length rs - j - 1)))"
  using assms
proof (induction rs arbitrary: "done")
  case (Cons r rs)
  have next_text: "receipts_text done @ (if 0 < length done then lit ''; '' else []) @ render_receipt r = receipts_text (done @ [r])"
    by (simp only: receipts_text_snoc)
  show ?case
  proof (cases "failure_limit < length (receipts_text (done @ [r]) @ omitted_tail (length rs))")
    case True
    then have "add_receipts (receipts_text done) (length done) (r # rs) = (receipts_text done, length done)"
      by (simp only: add_receipts.simps next_text Let_def if_True)
    then show ?thesis
      using True Cons.prems by (intro exI [of _ 0]) simp
  next
    case False
    then have step: "add_receipts (receipts_text done) (length done) (r # rs) = add_receipts (receipts_text (done @ [r])) (length (done @ [r])) rs"
      by (simp only: add_receipts.simps next_text Let_def if_False) simp
    obtain j where j: "j \<le> length rs"
        "add_receipts (receipts_text (done @ [r])) (length (done @ [r])) rs = (receipts_text ((done @ [r]) @ take j rs), length (done @ [r]) + j)"
        "length (receipts_text ((done @ [r]) @ take j rs) @ omitted_tail (length rs - j)) \<le> failure_limit"
        "j < length rs \<longrightarrow> failure_limit < length (receipts_text ((done @ [r]) @ take (j + 1) rs) @ omitted_tail (length rs - j - 1))"
      using Cons.IH [of "done @ [r]"] False by (auto simp only: not_less)
    show ?thesis
      using j step by (intro exI [of _ "Suc j"]) simp
  qed
qed (simp add: receipts_text_def)

text \<open>The reply of a failed turn fits its limit: it lists the receipts from the first on, as many as fit, and says how many are left out;
  no receipt that would still fit is left out.\<close>

theorem failure_reply_bounded:
  assumes "rs \<noteq> []" "length rs < 10 ^ 19"
  shows "\<exists>k \<le> length rs. failure_reply (Some rs) = receipts_text (take k rs) @ omitted_tail (length rs - k)
    \<and> length (failure_reply (Some rs)) \<le> 2000
    \<and> (k < length rs \<longrightarrow> 2000 < length (receipts_text (take (k + 1) rs) @ omitted_tail (length rs - k - 1)))"
proof -
  have "length (digits_of (length rs)) \<le> 19"
    using digits_of_length [of "length rs" 19] assms(2) by simp
  then have "length (receipts_text [] @ omitted_tail (length rs)) \<le> failure_limit"
    using assms(1) by (simp add: receipts_text_def omitted_tail_def failure_prefix_def failure_limit_def itoa_def lit_def)
  from add_receipts_text [OF this] obtain j where "j \<le> length rs"
      "add_receipts failure_prefix 0 rs = (receipts_text (take j rs), j)"
      "length (receipts_text (take j rs) @ omitted_tail (length rs - j)) \<le> failure_limit"
      "j < length rs \<longrightarrow> failure_limit < length (receipts_text (take (j + 1) rs) @ omitted_tail (length rs - j - 1))"
    by (auto simp: receipts_text_def)
  then show ?thesis
    using assms(1) by (intro exI [of _ j]) (simp add: failure_reply_def failure_limit_def)
qed

definition demo_receipt :: receipt where
  "demo_receipt = \<lparr>rp_call = lit ''c1'', rp_tool = lit ''mute'', rp_status = lit ''success'', rp_code = [], rp_related = [], rp_committed = True,
     rp_state = effect_state.Committed, rp_deliveries = 0, rp_actions = 1\<rparr>"

theorem failure_reply_bounded_witness:
  "length (failure_reply (Some [demo_receipt])) \<le> 2000"
  using failure_reply_bounded [of "[demo_receipt]"] by (auto simp del: take.simps)

section \<open>Turns\<close>

definition appended :: "run_effect list \<Rightarrow> run_effect list" where
  "appended fx = filter (\<lambda>x. case x of Append_turn _ _ _ \<Rightarrow> True | _ \<Rightarrow> False) fx"

lemma appended_simps [simp]:
  "appended [] = []" "appended (xs @ ys) = appended xs @ appended ys"
  "appended (Append_turn p c ev # xs) = Append_turn p c ev # appended xs" "appended (Load_memory # xs) = appended xs"
  "appended (Load_evidence # xs) = appended xs" "appended (Load_recent # xs) = appended xs"
  "appended (Run_loop # xs) = appended xs" "appended (Ask_provider # xs) = appended xs"
  by (simp_all add: appended_def)





text \<open>The effects a turn may have in its mode\<close>

definition effects_allowed :: "rt_invocation \<Rightarrow> run_effect list \<Rightarrow> bool" where
  "effects_allowed v fx \<longleftrightarrow>
     (v_mode v = VIBE \<longrightarrow> Load_memory \<notin> set fx \<and> Run_loop \<notin> set fx \<and> appended fx = [])
     \<and> (v_mode v = VIBE \<or> r_whisper (v_context v) \<longrightarrow> Load_evidence \<notin> set fx)"

lemma effects_allowed_append [simp]: "effects_allowed v (xs @ ys) \<longleftrightarrow> effects_allowed v xs \<and> effects_allowed v ys"
  by (auto simp: effects_allowed_def)

lemma effects_allowed_Nil [simp]: "effects_allowed v []"
  by (simp add: effects_allowed_def)

lemma effects_allowed_recent [simp]: "effects_allowed v (Load_recent # xs) \<longleftrightarrow> effects_allowed v xs"
  by (simp add: effects_allowed_def)










end
