(* ===== verification/LetterCase.thy ===== *)
theory LetterCase
  imports Prelude
begin

text \<open>
  The lower case mapping of \<open>unicode.ToLower\<close> as the program relies on it: applied twice it is applied once, and it
  neither makes nor removes white space.  Aliases and nicknames are compared in this form.
\<close>

section \<open>The table of ranges\<close>

text \<open>Lower case is idempotent and keeps white space: checked on the table of ranges, in blocks of it.\<close>

type_synonym case_range = "rune \<times> rune \<times> int \<times> int"

fun chunks :: "nat \<Rightarrow> 'a list \<Rightarrow> 'a list list" where
  "chunks 0 xs = [xs]"
| "chunks (Suc n) xs = take 14 xs # chunks n (drop 14 xs)"

lemma concat_chunks: "concat (chunks n xs) = xs"
  by (induction n arbitrary: xs) auto

definition range_blocks :: "(rune \<times> rune \<times> case_range list) list" where
  "range_blocks = map (\<lambda>rs. (fold (\<lambda>r. min (fst r)) rs 2000000, fold (\<lambda>r. max (fst (snd r))) rs 0, rs)) (chunks 12 lower_ranges)"

definition clear_of :: "rune \<Rightarrow> rune \<Rightarrow> bool \<Rightarrow> case_range \<Rightarrow> bool" where
  "clear_of a b st r = (case r of (f, l, s, d) \<Rightarrow> b < f \<or> l < a \<or> (s = 2 \<and> st \<and> (a - f) mod 2 = 1))"

definition image_clear :: "(rune \<times> rune \<times> case_range list) list \<Rightarrow> case_range \<Rightarrow> bool" where
  "image_clear blocks r = (case r of (f, l, s, d) \<Rightarrow>
     (let a = f + d; b = l + d; st = (s = 2 \<or> f = l)
      in list_all (\<lambda>(lo, hi, rs). b < lo \<or> hi < a \<or> list_all (clear_of a b st) rs) blocks))"

definition blocks_clear :: "(rune \<times> rune \<times> case_range list) list \<Rightarrow> bool" where
  "blocks_clear blocks = list_all (\<lambda>(lo, hi, rs). list_all (image_clear blocks) rs) blocks"

lemma ranges_clear: "blocks_clear range_blocks"
  by code_simp

text \<open>White space and upper case letters of ASCII are outside the table and its images.\<close>

definition space_ranges :: "(rune \<times> rune) list" where
  "space_ranges = [(0, 96), (0x80, 0xA0), (0x1680, 0x1680), (0x2000, 0x200A), (0x2028, 0x2029), (0x202F, 0x202F),
     (0x205F, 0x205F), (0x3000, 0x3000)]"

definition range_plain :: "case_range \<Rightarrow> bool" where
  "range_plain r = (case r of (f, l, s, d) \<Rightarrow>
     (let a = f + d; b = l + d in 0 < d + f \<and> list_all (\<lambda>(lo, hi). (b < lo \<or> hi < a) \<and> (l < lo \<or> hi < f)) space_ranges))"

lemma ranges_plain: "list_all range_plain lower_ranges"
  by code_simp

definition covers :: "rune \<Rightarrow> case_range \<Rightarrow> bool" where
  "covers c r = (case r of (f, l, s, d) \<Rightarrow> f \<le> c \<and> c \<le> l \<and> (c - f) mod s = 0)"

lemma map_ranges_find: "map_ranges rs c = (case find (covers c) rs of None \<Rightarrow> c | Some (f, l, s, d) \<Rightarrow> c + d)"
  by (induction rs c rule: map_ranges.induct) (auto simp: covers_def)

lemma in_blocks: "r \<in> set lower_ranges \<Longrightarrow> \<exists>rs. r \<in> set rs \<and> rs \<in> set (chunks 12 lower_ranges)"
  using concat_chunks [of 12 lower_ranges] by (metis UN_E set_concat)

lemma fold_min_le: "r \<in> set rs \<Longrightarrow> fold (\<lambda>r. min (fst r)) rs m \<le> fst r" for rs :: "case_range list"
proof -
  have "fold (\<lambda>r. min (fst r)) rs m \<le> m" for rs :: "case_range list" and m
  proof (induction rs arbitrary: m)
    case (Cons r rs)
    show ?case using order_trans [OF Cons.IH [of "min (fst r) m"] min.cobounded2] by simp
  qed simp
  then show "r \<in> set rs \<Longrightarrow> fold (\<lambda>r. min (fst r)) rs m \<le> fst r"
    by (induction rs arbitrary: m) (auto intro: order_trans [OF _ min.cobounded1])
qed

lemma fold_max_ge: "r \<in> set rs \<Longrightarrow> fst (snd r) \<le> fold (\<lambda>r. max (fst (snd r))) rs m" for rs :: "case_range list"
proof -
  have "m \<le> fold (\<lambda>r. max (fst (snd r))) rs m" for rs :: "case_range list" and m
  proof (induction rs arbitrary: m)
    case (Cons r rs)
    show ?case using order_trans [OF max.cobounded2 Cons.IH [of "max (fst (snd r)) m"]] by simp
  qed simp
  then show "r \<in> set rs \<Longrightarrow> fst (snd r) \<le> fold (\<lambda>r. max (fst (snd r))) rs m"
    by (induction rs arbitrary: m) (auto intro: order_trans [OF max.cobounded1])
qed

lemma images_clear:
  assumes "(f, l, s, d) \<in> set lower_ranges" "r \<in> set lower_ranges"
  shows "clear_of (f + d) (l + d) (s = 2 \<or> f = l) r"
proof -
  obtain rs where rs: "r \<in> set rs" "rs \<in> set (chunks 12 lower_ranges)" using in_blocks [OF assms(2)] by blast
  obtain qs where qs: "(f, l, s, d) \<in> set qs" "qs \<in> set (chunks 12 lower_ranges)" using in_blocks [OF assms(1)] by blast
  let ?b = "\<lambda>rs :: case_range list. (fold (\<lambda>r. min (fst r)) rs 2000000, fold (\<lambda>r. max (fst (snd r))) rs 0, rs)"
  have "?b qs \<in> set range_blocks" "?b rs \<in> set range_blocks" using rs(2) qs(2) by (auto simp: range_blocks_def)
  then have "image_clear range_blocks (f, l, s, d)"
    using ranges_clear qs(1) unfolding blocks_clear_def list_all_iff by fastforce
  then have "case ?b rs of (lo, hi, rs) \<Rightarrow> l + d < lo \<or> hi < f + d \<or> list_all (clear_of (f + d) (l + d) (s = 2 \<or> f = l)) rs"
    using \<open>?b rs \<in> set range_blocks\<close> unfolding image_clear_def Let_def list_all_iff by blast
  then show ?thesis
    using fold_min_le [OF rs(1), of 2000000] fold_max_ge [OF rs(1), of 0] rs(1)
    by (cases r) (auto simp: clear_of_def list_all_iff)
qed

lemma image_parity:
  assumes "(c - f) mod s = 0" "s = 2 \<or> f = (l :: int)" "f \<le> c" "c \<le> l" "(f + d - f') mod 2 = 1"
  shows "(c + d - f') mod 2 = 1"
proof -
  have "(c - f) mod 2 = 0" using assms(1-4) by auto
  with assms(5) show ?thesis by presburger
qed

lemma find_SomeD: "find p xs = Some x \<Longrightarrow> x \<in> set xs \<and> p x"
  by (induction xs) (auto split: if_splits)

lemma in_ranges_iff: "in_ranges rs c \<longleftrightarrow> (\<exists>(lo, hi) \<in> set rs. lo \<le> c \<and> c \<le> hi)"
  by (induction rs c rule: in_ranges.induct) auto

lemma plain_in_ranges:
  "is_space c \<Longrightarrow> in_ranges space_ranges c" "is_upper_ascii c \<Longrightarrow> in_ranges space_ranges c"
proof -
  show "is_upper_ascii c \<Longrightarrow> in_ranges space_ranges c" by (simp add: is_upper_ascii_def space_ranges_def)
  assume "is_space c"
  then consider "0 \<le> c \<and> c \<le> 96" | "c = 0x85" | "c = 0xA0" | "c = 0x1680" | "0x2000 \<le> c \<and> c \<le> 0x200A" | "c = 0x2028"
    | "c = 0x2029" | "c = 0x202F" | "c = 0x205F" | "c = 0x3000"
    unfolding is_space_def by linarith
  then show "in_ranges space_ranges c" by cases (simp_all add: space_ranges_def)
qed

lemma lower_image:
  assumes "find (covers c) lower_ranges = Some (f, l, s, d)"
  shows "map_ranges lower_ranges (c + d) = c + d" "0 < c + d" "\<not> is_space c" "\<not> is_space (c + d)" "\<not> is_upper_ascii (c + d)"
proof -
  have r: "(f, l, s, d) \<in> set lower_ranges" "f \<le> c" "c \<le> l" "(c - f) mod s = 0"
    using find_SomeD [OF assms] by (auto simp: covers_def)
  have "\<not> covers (c + d) q" if "q \<in> set lower_ranges" for q
    using images_clear [OF r(1) that] r(2-4) image_parity [of c f s l d "fst q"]
    by (cases q) (auto simp: clear_of_def covers_def)
  then have "find (covers (c + d)) lower_ranges = None" by (simp add: find_None_iff)
  then show "map_ranges lower_ranges (c + d) = c + d" by (simp add: map_ranges_find)
  have plain: "0 < d + f" "\<forall>(lo, hi) \<in> set space_ranges. (l + d < lo \<or> hi < f + d) \<and> (l < lo \<or> hi < f)"
    using ranges_plain r(1) unfolding list_all_iff range_plain_def Let_def by fastforce+
  then show "0 < c + d" using r(2) by simp
  have "\<not> in_ranges space_ranges c" "\<not> in_ranges space_ranges (c + d)"
    using plain(2) r(2,3) unfolding in_ranges_iff by fastforce+
  then show "\<not> is_space c" "\<not> is_space (c + d)" "\<not> is_upper_ascii (c + d)"
    using plain_in_ranges by blast+
qed

lemma lower_rune_facts: "lower_rune (lower_rune c) = lower_rune c \<and> is_space (lower_rune c) = is_space c"
proof (cases "c < 128")
  case True
  then show ?thesis by (auto simp: lower_rune_def is_upper_ascii_def is_space_def)
next
  case False
  then show ?thesis
  proof (cases "find (covers c) lower_ranges")
    case None
    then show ?thesis using False by (simp add: lower_rune_def map_ranges_find)
  next
    case (Some r)
    obtain f l s d where r: "r = (f, l, s, d)" by (cases r)
    show ?thesis using False lower_image [OF Some [unfolded r]] Some r
      by (auto simp: lower_rune_def map_ranges_find)
  qed
qed

lemma lower_rune_idem [simp]: "lower_rune (lower_rune c) = lower_rune c"
  and is_space_lower_rune [simp]: "is_space (lower_rune c) = is_space c"
  using lower_rune_facts by blast+

lemma to_lower_idem [simp]: "to_lower (to_lower s) = to_lower s"
  by (simp add: to_lower_def)

lemma trim_space_to_lower [simp]: "trim_space (to_lower s) = to_lower (trim_space s)"
  by (simp add: trim_space_def trim_left_def trim_right_def to_lower_def dropWhile_map rev_map comp_def)

end
