(* ===== verification/Commands.thy ===== *)
theory Commands
  imports Room LetterCase
begin

text \<open>
  Which command a text names and who may run it: the two registries of \<open>internal/common\<close>
  (\<open>command_registry.go\<close>, \<open>runtime_command_registry.go\<close>, \<open>command.go\<close>), the roles of trips
  (\<open>internal/repository/sqlite/authorization.go\<close>), the security service (\<open>internal/service/security_service.go\<close>) and
  the policy of the dispatch adapter (\<open>internal/command/dispatch_adapter.go\<close>).  What a constructor builds is a
  parameter of the registries.
\<close>

section \<open>Names\<close>

definition alias_name :: "str \<Rightarrow> str" where
  "alias_name s = to_lower (trim_space s)"

definition anagram_key :: "str \<Rightarrow> str" where
  "anagram_key s = sort (to_lower (trim_space s))"

lemma alias_name_idem [simp]: "alias_name (alias_name s) = alias_name s"
  by (simp add: alias_name_def)

lemma anagram_key_alias [simp]: "anagram_key (alias_name s) = anagram_key s"
  by (simp add: anagram_key_def alias_name_def)

lemma anagram_key_cong: "alias_name s = alias_name t \<Longrightarrow> anagram_key s = anagram_key t"
  by (simp add: anagram_key_def alias_name_def)

section \<open>The catalog of definitions\<close>

record 'c command_def =
  cd_canonical :: str
  cd_aliases :: "str list"
  cd_role :: role
  cd_whisper :: bool
  cd_new :: "'c option"

record 'c catalog =
  ca_defs :: "'c command_def list"
  ca_alias :: "str \<rightharpoonup> 'c command_def"

datatype register_error =
    Invalid_definition str | Blank_alias | Repeated_alias str | Taken_alias str | Anagram_alias str str
  | Without_aliases str | Nil_command

definition new_catalog :: "'c catalog" where
  "new_catalog = \<lparr>ca_defs = [], ca_alias = Map.empty\<rparr>"

definition def_names :: "'c command_def \<Rightarrow> str list" where
  "def_names d = cd_canonical d # cd_aliases d"

fun check_names :: "'c catalog \<Rightarrow> str \<Rightarrow> str list \<Rightarrow> str list \<Rightarrow> register_error + str list" where
  "check_names c canon seen [] = Inr seen"
| "check_names c canon seen (a # as) =
     (let n = alias_name a
      in if n = [] then Inl Blank_alias
         else if n \<in> set seen then
           (if n = alias_name canon then check_names c canon seen as else Inl (Repeated_alias n))
         else if ca_alias c n \<noteq> None then Inl (Taken_alias n)
         else (case find (\<lambda>old. anagram_key n = anagram_key old) (concat (map def_names (ca_defs c))) of
             Some old \<Rightarrow> Inl (Anagram_alias n old)
           | None \<Rightarrow> check_names c canon (n # seen) as))"

definition catalog_register :: "'c command_def \<Rightarrow> 'c catalog \<Rightarrow> register_error + 'c catalog" where
  "catalog_register d c =
     (if cd_canonical d = [] \<or> cd_new d = None then Inl (Invalid_definition (cd_canonical d))
      else case check_names c (cd_canonical d) [] (def_names d) of
        Inl e \<Rightarrow> Inl e
      | Inr seen \<Rightarrow> Inr (c\<lparr>ca_defs := ca_defs c @ [d],
            ca_alias := (\<lambda>a. if a \<in> set seen then Some d else ca_alias c a)\<rparr>))"

definition catalog_lookup :: "str \<Rightarrow> 'c catalog \<Rightarrow> 'c command_def option" where
  "catalog_lookup a c = ca_alias c (alias_name a)"

definition catalog_definitions :: "'c catalog \<Rightarrow> 'c command_def list" where
  "catalog_definitions c = sort_key cd_canonical (ca_defs c)"

definition validate_catalog :: "'c catalog \<Rightarrow> register_error option" where
  "validate_catalog c = map_option (\<lambda>d. Without_aliases (cd_canonical d)) (find (\<lambda>d. cd_aliases d = []) (ca_defs c))"

fun register_all :: "'c command_def list \<Rightarrow> 'c catalog \<Rightarrow> register_error + 'c catalog" where
  "register_all [] c = Inr c"
| "register_all (d # ds) c = (case catalog_register d c of Inl e \<Rightarrow> Inl e | Inr c' \<Rightarrow> register_all ds c')"

text \<open>The error, if any, and the catalog afterwards\<close>

definition register_definitions :: "'c command_def list \<Rightarrow> 'c catalog \<Rightarrow> register_error option \<times> 'c catalog" where
  "register_definitions ds c =
     (case register_all (catalog_definitions c @ ds) new_catalog of
        Inl e \<Rightarrow> (Some e, c)
      | Inr candidate \<Rightarrow>
          (case validate_catalog candidate of Some e \<Rightarrow> (Some e, c) | None \<Rightarrow> (None, candidate)))"

section \<open>The registry of an engine\<close>

record 'c metadata =
  md_alias :: str
  md_command :: 'c

record 'c registry_maps =
  rg_exact :: "str \<rightharpoonup> 'c metadata"
  rg_anagrams :: "str \<rightharpoonup> 'c metadata"

definition blank_registry :: "'c registry_maps" where
  "blank_registry = \<lparr>rg_exact = Map.empty, rg_anagrams = Map.empty\<rparr>"

text \<open>A command is its constructor and its aliases, or nil.  Which of several taken aliases the error names depends
  on the order of a Go map; here it is the first.\<close>

definition register_command :: "('c \<times> str list) option \<Rightarrow> 'c registry_maps \<Rightarrow> register_error + 'c registry_maps" where
  "register_command cmd r =
     (case cmd of None \<Rightarrow> Inl Nil_command
      | Some (c, aliases) \<Rightarrow>
          if aliases = [] then Inl (Without_aliases [])
          else if \<exists>a \<in> set aliases. alias_name a = [] then Inl Blank_alias
          else (case find (\<lambda>a. rg_exact r (alias_name a) \<noteq> None \<or> rg_anagrams r (anagram_key (alias_name a)) \<noteq> None) aliases of
              Some a \<Rightarrow> Inl (Taken_alias (alias_name a))
            | None \<Rightarrow> Inr (fold (\<lambda>a r. r\<lparr>rg_exact := (rg_exact r)(alias_name a \<mapsto> \<lparr>md_alias = a, md_command = c\<rparr>),
                  rg_anagrams := (rg_anagrams r)(anagram_key a \<mapsto> \<lparr>md_alias = a, md_command = c\<rparr>)\<rparr>) aliases r)))"

definition lookup_command :: "str \<Rightarrow> 'c registry_maps \<Rightarrow> 'c metadata option" where
  "lookup_command a r =
     (case rg_exact r (alias_name a) of Some m \<Rightarrow> Some m | None \<Rightarrow> rg_anagrams r (anagram_key a))"

text \<open>\<open>BuildCommand\<close> without a message: for an engine with an index, and for one that only has a map of its
  commands, whose values may be nil; a missing map is \<open>None\<close>.\<close>

definition build_indexed :: "str \<Rightarrow> 'c registry_maps \<Rightarrow> 'c option" where
  "build_indexed a r = map_option md_command (lookup_command a r)"

definition build_from_map :: "str \<Rightarrow> (str \<times> 'c option) list option \<Rightarrow> 'c option" where
  "build_from_map a snap =
     (case snap of None \<Rightarrow> None
      | Some kvs \<Rightarrow>
          (case map_of kvs (alias_name a) of
             Some c \<Rightarrow> c
           | None \<Rightarrow>
               (case filter (\<lambda>(k, c). anagram_key k = anagram_key a) kvs of
                  [(k, c)] \<Rightarrow> c
                | _ \<Rightarrow> None)))"

section \<open>Roles of trips\<close>

datatype auth_error = Auth_context | Auth_no_trip | Auth_bad_trip | Auth_stored_role str | Auth_io

definition role_database_name :: "role \<Rightarrow> str" where
  "role_database_name r =
     (case r of ADMIN \<Rightarrow> lit ''ADMIN'' | MODERATOR \<Rightarrow> lit ''MODERATOR'' | TRUSTED \<Rightarrow> lit ''TRUSTED''
      | USER \<Rightarrow> lit ''USER'' | REGULAR \<Rightarrow> lit ''REGULAR'' | PEST \<Rightarrow> lit ''PEST'')"

text \<open>\<open>unicode.ToUpper\<close> as far as its result is ASCII: besides the letters only the dotless i and the long s\<close>

definition upper_rune :: "rune \<Rightarrow> rune" where
  "upper_rune c = (if is_lower_ascii c then c - 32 else if c = 0x131 then 73 else if c = 0x17F then 83 else c)"

definition role_from_database_name :: "str \<Rightarrow> role option" where
  "role_from_database_name name =
     map_of (map (\<lambda>r. (role_database_name r, r)) [ADMIN, MODERATOR, TRUSTED, USER, REGULAR, PEST])
       (map upper_rune (trim_space name))"

type_synonym trips = "str \<rightharpoonup> str"

fun grant_targets :: "str list \<Rightarrow> str list \<Rightarrow> str list option" where
  "grant_targets seen [] = Some seen"
| "grant_targets seen (t # ts) =
     (let trip = trim_space t
      in if trip = [] \<or> 44 \<in> set trip then None
         else grant_targets (if trip \<in> set seen then seen else seen @ [trip]) ts)"

definition grant_trips :: "bool \<Rightarrow> str list \<Rightarrow> role \<Rightarrow> trips \<Rightarrow> auth_error option \<times> trips" where
  "grant_trips io_fails ts role db =
     (if ts = [] then (Some Auth_no_trip, db)
      else case grant_targets [] ts of
        None \<Rightarrow> (Some Auth_bad_trip, db)
      | Some targets \<Rightarrow>
          if io_fails then (Some Auth_io, db)
          else (None, fold (\<lambda>t d. d(t \<mapsto> role_database_name role)) targets db))"

definition resolve_role :: "bool \<Rightarrow> str \<Rightarrow> trips \<Rightarrow> auth_error + role" where
  "resolve_role io_fails trip db =
     (if trim_space trip = [] then Inr REGULAR
      else if io_fails then Inl Auth_io
      else case db (trim_space trip) of
        None \<Rightarrow> Inr REGULAR
      | Some name \<Rightarrow> (case role_from_database_name name of Some r \<Rightarrow> Inr r | None \<Rightarrow> Inl (Auth_stored_role name)))"

definition configured_trip :: "str \<Rightarrow> str list \<Rightarrow> bool" where
  "configured_trip trip ts \<longleftrightarrow>
     (\<exists>t \<in> set ts. trim_space t = lit ''x'' \<or> (trim_space trip \<noteq> [] \<and> trim_space t = trim_space trip))"

definition is_trip_authorized :: "bool \<Rightarrow> str \<Rightarrow> role \<Rightarrow> str list \<Rightarrow> trips \<Rightarrow> auth_error + bool" where
  "is_trip_authorized io_fails trip required configured db =
     (if configured_trip trip configured then Inr True
      else case resolve_role io_fails (trim_space trip) db of Inl e \<Rightarrow> Inl e | Inr r \<Rightarrow> Inr (r \<le> required))"

section \<open>The security service\<close>

record security =
  sc_admin_trips :: "str list"
  sc_user_trips :: "str list"
  sc_stored :: bool
  sc_runtime_admins :: "str list"

definition authorize_trip :: "bool \<Rightarrow> bool \<Rightarrow> str \<Rightarrow> security \<times> trips \<Rightarrow> auth_error option \<times> security \<times> trips" where
  "authorize_trip ended io_fails trip st =
     (case st of (s, db) \<Rightarrow>
        if ended then (Some Auth_context, s, db)
        else if trim_space trip = [] then (None, s, db)
        else if sc_stored s then (case grant_trips io_fails [trim_space trip] ADMIN db of (e, db') \<Rightarrow> (e, s, db'))
        else (None, s\<lparr>sc_runtime_admins := List.insert (trim_space trip) (sc_runtime_admins s)\<rparr>, db))"

definition is_authorized_context :: "bool \<Rightarrow> bool \<Rightarrow> user option \<Rightarrow> role \<Rightarrow> security \<Rightarrow> trips \<Rightarrow> auth_error + bool" where
  "is_authorized_context ended io_fails u required s db =
     (if ended then Inl Auth_context
      else case u of None \<Rightarrow> Inr False
      | Some v \<Rightarrow>
          if sc_stored s then is_trip_authorized io_fails (u_trip v) required (sc_admin_trips s) db
          else if configured_trip (u_trip v) (sc_admin_trips s) then Inr True
          else if trim_space (u_trip v) \<in> set (sc_runtime_admins s) then Inr True
          else Inr (REGULAR \<le> required))"

definition is_authorized :: "bool \<Rightarrow> user option \<Rightarrow> role option \<Rightarrow> security \<Rightarrow> trips \<Rightarrow> bool" where
  "is_authorized io_fails u r s db =
     (case (u, r) of
        (Some v, Some required) \<Rightarrow> is_authorized_context False io_fails u required s db = Inr True
      | _ \<Rightarrow> False)"

definition is_lifecycle_authorized :: "bool \<Rightarrow> user option \<Rightarrow> security \<Rightarrow> trips \<Rightarrow> bool" where
  "is_lifecycle_authorized io_fails u s db =
     (case u of None \<Rightarrow> False
      | Some v \<Rightarrow> configured_trip (u_trip v) (sc_user_trips s) \<or> is_authorized io_fails u (Some ADMIN) s db)"

definition is_configured_user_trip :: "str \<Rightarrow> security \<Rightarrow> bool" where
  "is_configured_user_trip trip s \<longleftrightarrow>
     trim_space trip \<noteq> [] \<and> (\<exists>t \<in> set (sc_user_trips s). trim_space t = lit ''x'' \<or> trim_space t = trim_space trip)"

section \<open>The policy of a command\<close>

text \<open>The three ways in which \<open>IsCommandAuthorized\<close> finds the policy of a command\<close>

datatype policy = By_adapter str role | By_predicate "user \<Rightarrow> bool" | By_role "role option"

record command =
  cm_name :: str
  cm_policy :: policy

definition user_trip_whitelisted :: "str list" where
  "user_trip_whitelisted = map lit
     [''access'', ''memory'', ''prefix'', ''register'', ''remove'', ''replica'', ''replicaoff'', ''replicastatus'',
      ''restart'', ''shutdown'', ''coin'', ''list'', ''msgchannel'', ''nicks'', ''note'', ''notes'', ''say'', ''sub'',
      ''unsub'', ''weather'', ''dbzhelp'', ''dbzregister'', ''dbzstats'', ''dbzstr'', ''dfight'', ''dspawn'']"

text \<open>The security service of the engine, that of its service bundle, and the table of trips\<close>

record auth_view =
  av_security :: "security option"
  av_bundle :: "security option"
  av_trips :: trips
  av_io_fails :: bool

definition is_user_authorized :: "auth_view \<Rightarrow> user option \<Rightarrow> role option \<Rightarrow> bool" where
  "is_user_authorized v u r =
     (case av_security v of None \<Rightarrow> False | Some s \<Rightarrow> is_authorized (av_io_fails v) u r s (av_trips v))"

definition authorize_with_engine :: "auth_view \<Rightarrow> str \<Rightarrow> role \<Rightarrow> user option \<Rightarrow> bool" where
  "authorize_with_engine v name required u =
     (case u of None \<Rightarrow> False
      | Some w \<Rightarrow>
          if name \<in> set user_trip_whitelisted
            \<and> (case av_bundle v of None \<Rightarrow> False | Some s \<Rightarrow> is_configured_user_trip (u_trip w) s) then True
          else is_user_authorized v u (Some required))"

definition is_command_authorized :: "auth_view option \<Rightarrow> command option \<Rightarrow> user option \<Rightarrow> bool" where
  "is_command_authorized v cmd u =
     (case (v, cmd, u) of
        (Some view, Some c, Some w) \<Rightarrow>
          (case cm_policy c of
             By_adapter name r \<Rightarrow> authorize_with_engine view name r u
           | By_predicate p \<Rightarrow> p w
           | By_role r \<Rightarrow> is_user_authorized view u r)
      | _ \<Rightarrow> False)"

section \<open>Tables of commands\<close>

text \<open>
  What both registries promise: a request that is well formed and does not clash with an earlier accepted one is
  accepted, any other is refused, and a text resolves to the accepted request whose names contain it.
\<close>

locale command_table =
  fixes blank_table :: 'r
    and register :: "'d \<Rightarrow> 'r \<Rightarrow> 'e + 'r"
    and resolve :: "str \<Rightarrow> 'r \<Rightarrow> 'c option"
    and owner :: "'d \<Rightarrow> 'c"
    and has_name :: "'d \<Rightarrow> str \<Rightarrow> bool"
    and well_formed :: "'d \<Rightarrow> bool"
    and clash :: "'d \<Rightarrow> 'd \<Rightarrow> bool"
    and holds :: "'d list \<Rightarrow> 'r \<Rightarrow> bool"
  assumes holds_blank: "holds [] blank_table"
    and holds_register: "holds ds r \<Longrightarrow> register d r = Inr r' \<Longrightarrow> holds (ds @ [d]) r'"
    and accepts: "holds ds r \<Longrightarrow> (\<exists>r'. register d r = Inr r') \<longleftrightarrow> well_formed d \<and> (\<forall>a \<in> set ds. \<not> clash a d)"
    and holds_resolve: "holds ds r \<Longrightarrow> resolve s r = map_option owner (find (\<lambda>d. has_name d s) ds)"
    and same_name: "has_name a s \<Longrightarrow> has_name d s \<Longrightarrow> clash a d"
begin

fun first_come :: "'d list \<Rightarrow> 'd list \<Rightarrow> 'd list" where
  "first_come acc [] = acc"
| "first_come acc (d # ds) = first_come (if well_formed d \<and> (\<forall>a \<in> set acc. \<not> clash a d) then acc @ [d] else acc) ds"

fun run :: "'d list \<Rightarrow> 'r \<Rightarrow> 'r" where
  "run [] r = r"
| "run (d # ds) r = run ds (case register d r of Inl e \<Rightarrow> r | Inr r' \<Rightarrow> r')"

lemma run_holds: "holds acc r \<Longrightarrow> holds (first_come acc ds) (run ds r)"
proof (induction ds arbitrary: acc r)
  case (Cons d ds)
  show ?case
  proof (cases "register d r")
    case (Inl e)
    then have "\<not> (\<exists>r'. register d r = Inr r')" by simp
    then have "\<not> (well_formed d \<and> (\<forall>a \<in> set acc. \<not> clash a d))" using accepts [OF Cons.prems] by blast
    then show ?thesis using Inl Cons.IH [OF Cons.prems] by auto
  next
    case (Inr r')
    then have "well_formed d \<and> (\<forall>a \<in> set acc. \<not> clash a d)" using accepts [OF Cons.prems] by blast
    then show ?thesis using Inr Cons.IH [OF holds_register [OF Cons.prems Inr]] by simp
  qed
qed simp

lemma first_come_append: "first_come acc (ds @ es) = first_come (first_come acc ds) es"
  by (induction ds arbitrary: acc) auto

lemma first_come_extends: "\<exists>bs. first_come acc ds = acc @ bs"
proof (induction ds arbitrary: acc)
  case (Cons d ds)
  show ?case using Cons [of acc] Cons [of "acc @ [d]"] by auto
qed simp

lemma resolves_first_come:
  "resolve s (run ds blank_table) = map_option owner (find (\<lambda>d. has_name d s) (first_come [] ds))"
  by (rule holds_resolve [OF run_holds [OF holds_blank]])

lemma find_append_Some: "find p xs = Some x \<Longrightarrow> find p (xs @ ys) = Some x"
  by (induction xs) auto

text \<open>What a text resolves to never changes.\<close>

lemma resolve_stays:
  "resolve s (run ds blank_table) = Some c \<Longrightarrow> resolve s (run (ds @ es) blank_table) = Some c"
  using first_come_extends [of "first_come [] ds" es] find_append_Some
  by (fastforce simp: resolves_first_come first_come_append)

definition no_clash :: "'d list \<Rightarrow> bool" where
  "no_clash xs \<longleftrightarrow> (\<forall>i j. i < j \<longrightarrow> j < length xs \<longrightarrow> \<not> clash (xs ! i) (xs ! j))"

lemma first_come_no_clash: "no_clash acc \<Longrightarrow> no_clash (first_come acc ds)"
proof (induction ds arbitrary: acc)
  case (Cons d ds)
  have "no_clash (acc @ [d])" if "\<forall>a \<in> set acc. \<not> clash a d"
    using Cons.prems that by (auto simp: no_clash_def nth_append less_Suc_eq)
  then show ?case using Cons by simp
qed simp

end

text \<open>The registry of an engine: only the anagram decides.\<close>

definition shares_key :: "'c \<times> str list \<Rightarrow> str \<Rightarrow> bool" where
  "shares_key d s \<longleftrightarrow> anagram_key s \<in> anagram_key ` set (snd d)"

definition registration_ok :: "'c \<times> str list \<Rightarrow> bool" where
  "registration_ok d \<longleftrightarrow> snd d \<noteq> [] \<and> (\<forall>a \<in> set (snd d). alias_name a \<noteq> [])"

definition key_clash :: "'c \<times> str list \<Rightarrow> 'c \<times> str list \<Rightarrow> bool" where
  "key_clash a d \<longleftrightarrow> anagram_key ` set (snd a) \<inter> anagram_key ` set (snd d) \<noteq> {}"

lemma key_clash_iff: "key_clash a d \<longleftrightarrow> (\<exists>x \<in> set (snd d). anagram_key x \<in> anagram_key ` set (snd a))"
  by (auto simp: key_clash_def) (metis imageI)

definition maps_ok :: "'c registry_maps \<Rightarrow> bool" where
  "maps_ok r \<longleftrightarrow> (\<forall>n m. rg_exact r n = Some m \<longrightarrow>
     (\<exists>m'. rg_anagrams r (anagram_key n) = Some m' \<and> md_command m' = md_command m))"

definition maps_hold :: "('c \<times> str list) list \<Rightarrow> 'c registry_maps \<Rightarrow> bool" where
  "maps_hold ds r \<longleftrightarrow> maps_ok r
     \<and> (\<forall>k. map_option md_command (rg_anagrams r k) = map_option fst (find (\<lambda>d. k \<in> anagram_key ` set (snd d)) ds))"

definition insert_aliases :: "'c \<Rightarrow> str list \<Rightarrow> 'c registry_maps \<Rightarrow> 'c registry_maps" where
  "insert_aliases c as r = fold (\<lambda>a r. r\<lparr>rg_exact := (rg_exact r)(alias_name a \<mapsto> \<lparr>md_alias = a, md_command = c\<rparr>),
     rg_anagrams := (rg_anagrams r)(anagram_key a \<mapsto> \<lparr>md_alias = a, md_command = c\<rparr>)\<rparr>) as r"

lemma insert_aliases_maps:
  "map_option md_command (rg_exact (insert_aliases c as r) n)
     = (if n \<in> alias_name ` set as then Some c else map_option md_command (rg_exact r n))"
  "map_option md_command (rg_anagrams (insert_aliases c as r) k)
     = (if k \<in> anagram_key ` set as then Some c else map_option md_command (rg_anagrams r k))"
  by (induction as arbitrary: r) (auto simp: insert_aliases_def)

lemma build_indexed_key: "maps_ok r \<Longrightarrow> build_indexed s r = map_option md_command (rg_anagrams r (anagram_key s))"
  by (auto simp: build_indexed_def lookup_command_def maps_ok_def split: option.splits)
    (metis anagram_key_alias option.inject option.map(2))

lemma register_command_Inr:
  assumes "maps_ok r"
  shows "(\<exists>r'. register_command (Some d) r = Inr r')
     \<longleftrightarrow> registration_ok d \<and> (\<forall>a \<in> set (snd d). rg_anagrams r (anagram_key a) = None)"
proof -
  obtain c as where d: "d = (c, as)" by (cases d)
  have "rg_exact r (alias_name a) = None" if "rg_anagrams r (anagram_key a) = None" for a
    using assms that by (metis anagram_key_alias maps_ok_def not_None_eq)
  then show ?thesis
    by (auto simp: register_command_def registration_ok_def d find_None_iff find_Some_iff split: option.splits)
      (metis not_None_eq nth_mem)+
qed

lemma register_command_insert:
  "register_command (Some (c, as)) r = Inr r' \<Longrightarrow> r' = insert_aliases c as r"
  by (simp add: register_command_def insert_aliases_def split: if_splits option.splits)

lemma maps_ok_insert:
  assumes "maps_ok r" "\<forall>a \<in> set as. rg_anagrams r (anagram_key a) = None"
  shows "maps_ok (insert_aliases c as r)"
  unfolding maps_ok_def
proof (intro allI impI)
  let ?r = "insert_aliases c as r"
  fix n m
  assume n: "rg_exact ?r n = Some m"
  show "\<exists>m'. rg_anagrams ?r (anagram_key n) = Some m' \<and> md_command m' = md_command m"
  proof (cases "n \<in> alias_name ` set as")
    case True
    then have "anagram_key n \<in> anagram_key ` set as" by force
    then show ?thesis using True n insert_aliases_maps(1) [of c as r n] insert_aliases_maps(2) [of c as r "anagram_key n"] by auto
  next
    case False
    then obtain m0 where m0: "rg_exact r n = Some m0" "md_command m0 = md_command m"
      using n insert_aliases_maps(1) [of c as r n] by (cases "rg_exact r n") auto
    then obtain m' where m': "rg_anagrams r (anagram_key n) = Some m'" "md_command m' = md_command m0"
      using assms(1) unfolding maps_ok_def by blast
    then have "anagram_key n \<notin> anagram_key ` set as" using assms(2) by force
    then show ?thesis using m0 m' insert_aliases_maps(2) [of c as r "anagram_key n"] by auto
  qed
qed

lemma maps_hold_register:
  assumes "maps_hold ds r" "register_command (Some d) r = Inr r'"
  shows "maps_hold (ds @ [d]) r'"
proof -
  obtain c as where d: "d = (c, as)" by (cases d)
  have r': "r' = insert_aliases c as r" using assms(2) register_command_insert [of c as r r'] by (simp add: d)
  have free: "\<forall>a \<in> set as. rg_anagrams r (anagram_key a) = None"
    using assms register_command_Inr [of r d] by (auto simp: d maps_hold_def)
  have "map_option md_command (rg_anagrams r' k) = map_option fst (find (\<lambda>d. k \<in> anagram_key ` set (snd d)) (ds @ [d]))" for k
  proof -
    have old: "map_option md_command (rg_anagrams r k) = map_option fst (find (\<lambda>d. k \<in> anagram_key ` set (snd d)) ds)"
      using assms(1) by (simp add: maps_hold_def)
    have find_snoc: "find p (ds @ [d]) = (case find p ds of Some x \<Rightarrow> Some x | None \<Rightarrow> if p d then Some d else None)" for p
      by (induction ds) auto
    show ?thesis
    proof (cases "k \<in> anagram_key ` set as")
      case True
      then have "find (\<lambda>d. k \<in> anagram_key ` set (snd d)) ds = None" using old free by auto
      then show ?thesis using True unfolding find_snoc by (simp add: r' insert_aliases_maps d)
    next
      case False
      then show ?thesis using old unfolding find_snoc by (simp add: r' insert_aliases_maps d split: option.splits)
    qed
  qed
  then show ?thesis using maps_ok_insert [of r as c] assms(1) free by (simp add: maps_hold_def r')
qed

interpretation engine_table: command_table
  blank_registry "\<lambda>d. register_command (Some d)" build_indexed fst shares_key registration_ok key_clash maps_hold
proof
  show "maps_hold [] blank_registry" by (simp add: maps_hold_def maps_ok_def blank_registry_def)
  show "maps_hold (ds @ [d]) r'" if "maps_hold ds r" "register_command (Some d) r = Inr r'" for ds d and r r' :: "'a registry_maps"
    using that by (rule maps_hold_register)
  show "(\<exists>r'. register_command (Some d) r = Inr r') \<longleftrightarrow> registration_ok d \<and> (\<forall>a \<in> set ds. \<not> key_clash a d)"
    if holds: "maps_hold ds r" for ds d and r :: "'a registry_maps"
  proof -
    have "rg_anagrams r k = None \<longleftrightarrow> (\<forall>a \<in> set ds. k \<notin> anagram_key ` set (snd a))" for k
      using holds by (metis (no_types, lifting) find_None_iff maps_hold_def option.map_disc_iff)
    then have "(\<forall>a \<in> set (snd d). rg_anagrams r (anagram_key a) = None) \<longleftrightarrow> (\<forall>a \<in> set ds. \<not> key_clash a d)"
      unfolding key_clash_iff by auto
    then show ?thesis using register_command_Inr [of r d] holds by (simp add: maps_hold_def)
  qed
  show "build_indexed s r = map_option fst (find (\<lambda>d. shares_key d s) ds)" if "maps_hold ds r" for s ds and r :: "'a registry_maps"
    using that build_indexed_key [of r s] by (simp add: maps_hold_def shares_key_def)
  show "key_clash a d" if "shares_key a s" "shares_key d s" for a d :: "'a \<times> str list" and s
    using that by (auto simp: shares_key_def key_clash_def)
qed

text \<open>The catalog: names are exact, but anagrams of taken names are refused too.\<close>

definition names_in :: "'c command_def \<Rightarrow> str \<Rightarrow> bool" where
  "names_in d s \<longleftrightarrow> alias_name s \<in> alias_name ` set (def_names d)"

definition fresh_except :: "str \<Rightarrow> str list \<Rightarrow> str list \<Rightarrow> bool" where
  "fresh_except k seen ns \<longleftrightarrow> distinct (filter (\<lambda>n. n \<noteq> k) ns) \<and> (\<forall>n \<in> set ns. n \<in> set seen \<longrightarrow> n = k)"

lemma fresh_except_simps:
  "fresh_except k seen []"
  "fresh_except k seen (k # ns) = fresh_except k seen ns"
  "n \<noteq> k \<Longrightarrow> fresh_except k seen (n # ns) \<longleftrightarrow> n \<notin> set seen \<and> fresh_except k (n # seen) ns"
  "fresh_except k (k # seen) ns = fresh_except k seen ns"
  by (auto simp: fresh_except_def)

definition repeats_ok :: "str \<Rightarrow> str list \<Rightarrow> str list \<Rightarrow> bool" where
  "repeats_ok canon seen as = fresh_except (alias_name canon) seen (map alias_name as)"

definition def_ok :: "'c command_def \<Rightarrow> bool" where
  "def_ok d \<longleftrightarrow> cd_canonical d \<noteq> [] \<and> cd_new d \<noteq> None \<and> (\<forall>a \<in> set (def_names d). alias_name a \<noteq> [])
     \<and> repeats_ok (cd_canonical d) [] (def_names d)"

definition def_clash :: "'c command_def \<Rightarrow> 'c command_def \<Rightarrow> bool" where
  "def_clash a d \<longleftrightarrow> (\<exists>x \<in> set (def_names d). anagram_key x \<in> anagram_key ` set (def_names a))"

definition catalog_holds :: "'c command_def list \<Rightarrow> 'c catalog \<Rightarrow> bool" where
  "catalog_holds ds c \<longleftrightarrow> ca_defs c = ds \<and> (\<forall>n. ca_alias c n = find (\<lambda>d. n \<in> alias_name ` set (def_names d)) ds)"

definition name_free :: "'c catalog \<Rightarrow> str \<Rightarrow> bool" where
  "name_free c n \<longleftrightarrow> (\<forall>d \<in> set (ca_defs c). anagram_key n \<notin> anagram_key ` set (def_names d))"

lemma name_free_find:
  "find (\<lambda>old. anagram_key n = anagram_key old) (concat (map def_names (ca_defs c))) = None \<longleftrightarrow> name_free c n"
  by (simp add: find_None_iff name_free_def image_iff) blast

lemma taken_not_free:
  assumes "catalog_holds ds c" "name_free c n"
  shows "ca_alias c n = None"
proof (rule ccontr)
  assume "ca_alias c n \<noteq> None"
  then obtain d where "find (\<lambda>d. n \<in> alias_name ` set (def_names d)) ds = Some d"
    using assms(1) unfolding catalog_holds_def by auto
  then have d: "d \<in> set ds" "n \<in> alias_name ` set (def_names d)" using find_SomeD by fastforce+
  then have "anagram_key n \<in> anagram_key ` set (def_names d)" by auto
  then show False using d(1) assms unfolding name_free_def catalog_holds_def by blast
qed

lemma name_free_alias [simp]: "name_free c (alias_name a) = name_free c a"
  by (simp add: name_free_def)

lemma repeats_ok_simps [simp]:
  "repeats_ok canon seen []"
  "alias_name a = alias_name canon \<Longrightarrow> repeats_ok canon seen (a # as) = repeats_ok canon seen as"
  "alias_name a \<noteq> alias_name canon \<Longrightarrow>
     repeats_ok canon seen (a # as) \<longleftrightarrow> alias_name a \<notin> set seen \<and> repeats_ok canon (alias_name a # seen) as"
  by (simp_all add: repeats_ok_def fresh_except_simps)

lemma repeats_ok_canon [simp]: "repeats_ok canon (alias_name canon # seen) as = repeats_ok canon seen as"
  by (simp add: repeats_ok_def fresh_except_simps)

lemma check_names_step:
  assumes "catalog_holds ds c"
  shows "alias_name a = [] \<Longrightarrow> check_names c canon seen (a # as) = Inl Blank_alias"
    and "alias_name a \<noteq> [] \<Longrightarrow> alias_name a \<in> set seen \<Longrightarrow> check_names c canon seen (a # as)
      = (if alias_name a = alias_name canon then check_names c canon seen as else Inl (Repeated_alias (alias_name a)))"
    and "alias_name a \<noteq> [] \<Longrightarrow> alias_name a \<notin> set seen \<Longrightarrow> name_free c a \<Longrightarrow>
      check_names c canon seen (a # as) = check_names c canon (alias_name a # seen) as"
    and "alias_name a \<noteq> [] \<Longrightarrow> alias_name a \<notin> set seen \<Longrightarrow> \<not> name_free c a \<Longrightarrow>
      \<exists>e. check_names c canon seen (a # as) = Inl e"
proof -
  let ?f = "find (\<lambda>old. anagram_key (alias_name a) = anagram_key old) (concat (map def_names (ca_defs c)))"
  have f: "?f = None \<longleftrightarrow> name_free c a" unfolding name_free_find by simp
  show "alias_name a = [] \<Longrightarrow> check_names c canon seen (a # as) = Inl Blank_alias" by simp
  show "alias_name a \<noteq> [] \<Longrightarrow> alias_name a \<in> set seen \<Longrightarrow> check_names c canon seen (a # as)
      = (if alias_name a = alias_name canon then check_names c canon seen as else Inl (Repeated_alias (alias_name a)))"
    by (simp add: Let_def)
  show "check_names c canon seen (a # as) = check_names c canon (alias_name a # seen) as"
    if "alias_name a \<noteq> []" "alias_name a \<notin> set seen" "name_free c a"
  proof -
    have none: "?f = None" using f that(3) by blast
    have "ca_alias c (alias_name a) = None" using taken_not_free [OF assms] that(3) by simp
    then show ?thesis unfolding check_names.simps Let_def none using that(1,2) by simp
  qed
  show "\<exists>e. check_names c canon seen (a # as) = Inl e"
    if "alias_name a \<noteq> []" "alias_name a \<notin> set seen" "\<not> name_free c a"
  proof -
    have "?f \<noteq> None" using f that(3) by blast
    then obtain old where some: "?f = Some old" by blast
    show ?thesis unfolding check_names.simps Let_def some using that(1,2) by simp
  qed
qed

lemma check_names_Inr:
  assumes "catalog_holds ds c" "\<forall>n \<in> set seen. name_free c n"
  shows "(\<exists>out. check_names c canon seen as = Inr out)
       \<longleftrightarrow> (\<forall>a \<in> set as. alias_name a \<noteq> [] \<and> name_free c a) \<and> repeats_ok canon seen as"
    (is "?P seen as")
    and "check_names c canon seen as = Inr out \<Longrightarrow> set out = set seen \<union> alias_name ` set as"
    (is "_ \<Longrightarrow> ?Q out seen as")
proof -
  note step = check_names_step [OF assms(1), where canon = canon]
  show "?P seen as" using assms(2)
  proof (induction as arbitrary: seen)
    case (Cons a as)
    consider "alias_name a = []" | "alias_name a \<noteq> []" "alias_name a \<in> set seen"
      | "alias_name a \<noteq> []" "alias_name a \<notin> set seen" "name_free c a"
      | "alias_name a \<noteq> []" "alias_name a \<notin> set seen" "\<not> name_free c a" by blast
    then show ?case
    proof cases
      case 2
      then have free: "name_free c a" using Cons.prems name_free_alias by blast
      show ?thesis unfolding step(2) [OF 2] using Cons.IH [OF Cons.prems] 2 free
        by (cases "alias_name a = alias_name canon") simp_all
    next
      case 3
      then have "?P (alias_name a # seen) as" using Cons.IH [of "alias_name a # seen"] Cons.prems by simp
      then show ?thesis unfolding step(3) [OF 3] using 3
        by (cases "alias_name a = alias_name canon") simp_all
    next
      case 4
      then show ?thesis using step(4) [OF 4, of as] by auto
    qed (simp add: step(1))
  qed simp
  show "check_names c canon seen as = Inr out \<Longrightarrow> ?Q out seen as" using assms(2)
  proof (induction as arbitrary: seen)
    case (Cons a as)
    consider "alias_name a = []" | "alias_name a \<noteq> []" "alias_name a \<in> set seen"
      | "alias_name a \<noteq> []" "alias_name a \<notin> set seen" "name_free c a"
      | "alias_name a \<noteq> []" "alias_name a \<notin> set seen" "\<not> name_free c a" by blast
    then show ?case
    proof cases
      case 2
      then have "check_names c canon seen as = Inr out"
        using Cons.prems(1) unfolding step(2) [OF 2] by (simp split: if_splits)
      then show ?thesis using Cons.IH [of seen] Cons.prems(2) 2 by auto
    next
      case 3
      then have "?Q out (alias_name a # seen) as"
        using Cons.IH [of "alias_name a # seen"] Cons.prems unfolding step(3) [OF 3] by simp
      then show ?thesis by auto
    next
      case 4
      then show ?thesis using step(4) [OF 4, of as] Cons.prems(1) by auto
    qed (use Cons.prems(1) step(1) in simp)
  qed simp
qed

lemma catalog_register_iff:
  assumes "catalog_holds ds c"
  shows "(\<exists>c'. catalog_register d c = Inr c') \<longleftrightarrow> def_ok d \<and> (\<forall>a \<in> set ds. \<not> def_clash a d)"
proof -
  have "(\<forall>a \<in> set (def_names d). name_free c a) \<longleftrightarrow> (\<forall>a \<in> set ds. \<not> def_clash a d)"
    using assms by (auto simp: name_free_def def_clash_def catalog_holds_def)
  then show ?thesis
    using check_names_Inr(1) [OF assms, of "[]" "cd_canonical d" "def_names d"]
    by (auto simp: catalog_register_def def_ok_def split: sum.splits)
qed

interpretation catalog_table: command_table
  new_catalog catalog_register catalog_lookup "\<lambda>d. d" names_in def_ok def_clash catalog_holds
proof
  show "catalog_holds [] new_catalog" by (simp add: catalog_holds_def new_catalog_def)
  show "catalog_holds (ds @ [d]) c'" if h: "catalog_holds ds c" and r: "catalog_register d c = Inr c'"
    for ds d and c c' :: "'a catalog"
  proof -
    obtain seen where seen: "check_names c (cd_canonical d) [] (def_names d) = Inr seen"
      and c': "c' = c\<lparr>ca_defs := ca_defs c @ [d], ca_alias := (\<lambda>a. if a \<in> set seen then Some d else ca_alias c a)\<rparr>"
      using r by (auto simp: catalog_register_def split: if_splits sum.splits)
    have set_seen: "set seen = alias_name ` set (def_names d)" using check_names_Inr(2) [OF h _ seen] by simp
    have free: "ca_alias c n = None" if "n \<in> set seen" for n
    proof -
      have "\<forall>a \<in> set (def_names d). name_free c a"
        using check_names_Inr(1) [OF h, of "[]" "cd_canonical d" "def_names d"] seen by auto
      then show ?thesis using that taken_not_free [OF h] set_seen by auto
    qed
    have find_snoc: "find p (ds @ [d]) = (case find p ds of Some x \<Rightarrow> Some x | None \<Rightarrow> if p d then Some d else None)" for p
      by (induction ds) auto
    show ?thesis
      using h free set_seen unfolding catalog_holds_def find_snoc c' by (auto split: option.splits)
  qed
  show "(\<exists>c'. catalog_register d c = Inr c') \<longleftrightarrow> def_ok d \<and> (\<forall>a \<in> set ds. \<not> def_clash a d)"
    if "catalog_holds ds c" for ds d and c :: "'a catalog"
    using that by (rule catalog_register_iff)
  show "catalog_lookup s c = map_option (\<lambda>d. d) (find (\<lambda>d. names_in d s) ds)" if "catalog_holds ds c" for s ds and c :: "'a catalog"
    using that by (simp add: catalog_holds_def catalog_lookup_def names_in_def option.map_ident)
  show "def_clash a d" if "names_in a s" "names_in d s" for a d :: "'a command_def" and s
    using that unfolding names_in_def def_clash_def by (metis anagram_key_alias imageE imageI)
qed

section \<open>What a text runs\<close>

text \<open>The registry after requests of which some may have failed\<close>

fun register_each :: "('c \<times> str list) list \<Rightarrow> 'c registry_maps \<Rightarrow> 'c registry_maps" where
  "register_each [] r = r"
| "register_each (d # ds) r =
     register_each ds (case register_command (Some d) r of Inl e \<Rightarrow> r | Inr r' \<Rightarrow> r')"

lemma register_each_run: "register_each ds r = engine_table.run ds r"
  by (induction ds arbitrary: r) auto

lemma register_each_holds: "maps_hold (engine_table.first_come [] ds) (register_each ds blank_registry)"
  unfolding register_each_run by (rule engine_table.run_holds [OF engine_table.holds_blank])

text \<open>
  C32. Commands are resolved first come, first served, up to case, surrounding space and the order of letters.  A
  request is accepted exactly if it names something and none of its names resolves already; from then on exactly
  its names and their anagrams resolve to it, everything else resolves as before; and whatever is requested later,
  accepted or refused, a text that resolves keeps its command.
\<close>

theorem registry_first_come:
  "let r = register_each reqs blank_registry in
      ((\<exists>r'. register_command (Some (c, as)) r = Inr r')
        \<longleftrightarrow> as \<noteq> [] \<and> (\<forall>a \<in> set as. alias_name a \<noteq> [] \<and> build_indexed a r = None))
    \<and> (\<forall>r' s. register_command (Some (c, as)) r = Inr r' \<longrightarrow>
        build_indexed s r' = (if anagram_key s \<in> anagram_key ` set as then Some c else build_indexed s r))
    \<and> (\<forall>s d. build_indexed s r = Some d \<longrightarrow> build_indexed s (register_each (reqs @ later) blank_registry) = Some d)"
  unfolding Let_def
proof (intro conjI allI impI)
  let ?r = "register_each reqs blank_registry"
  have hold: "maps_hold (engine_table.first_come [] reqs) ?r" by (rule register_each_holds)
  then have ok: "maps_ok ?r" by (simp add: maps_hold_def)
  show "(\<exists>r'. register_command (Some (c, as)) ?r = Inr r')
        \<longleftrightarrow> as \<noteq> [] \<and> (\<forall>a \<in> set as. alias_name a \<noteq> [] \<and> build_indexed a ?r = None)"
    unfolding register_command_Inr [OF ok] registration_ok_def build_indexed_key [OF ok] by auto
  show "build_indexed s r' = (if anagram_key s \<in> anagram_key ` set as then Some c else build_indexed s ?r)"
    if r': "register_command (Some (c, as)) ?r = Inr r'" for r' s
  proof -
    have "maps_ok r'" using maps_hold_register [OF hold r'] by (simp add: maps_hold_def)
    then show ?thesis
      unfolding build_indexed_key [OF ok] register_command_insert [OF r']
      using build_indexed_key [of "insert_aliases c as ?r" s] insert_aliases_maps(2) [of c as ?r "anagram_key s"]
        register_command_insert [OF r'] by simp
  qed
  show "build_indexed s (register_each (reqs @ later) blank_registry) = Some d" if "build_indexed s ?r = Some d" for s d
    using that unfolding register_each_run by (rule engine_table.resolve_stays)
qed

theorem registry_first_come_witness:
  "build_indexed (lit '' PLEH '') (register_each ([(1 :: nat, [lit ''help''])] @ [(2, [lit ''pleh'']), (3, [lit ''say''])]) blank_registry)
     = Some 1
   \<and> build_indexed (lit ''say'') (register_each [(1 :: nat, [lit ''help'']), (2, [lit ''pleh'']), (3, [lit ''say''])] blank_registry) = Some 3"
proof
  have "build_indexed (lit '' PLEH '') (register_each [(1 :: nat, [lit ''help''])] blank_registry) = Some 1" by code_simp
  then show "build_indexed (lit '' PLEH '')
      (register_each ([(1 :: nat, [lit ''help''])] @ [(2, [lit ''pleh'']), (3, [lit ''say''])]) blank_registry) = Some 1"
    using registry_first_come [where reqs = "[(1 :: nat, [lit ''help''])]" and later = "[(2, [lit ''pleh'']), (3, [lit ''say''])]"]
    unfolding Let_def by blast
qed code_simp

text \<open>An engine that only has a map finds the same command or, when an anagram is ambiguous, none.\<close>

lemma build_from_map_agrees:
  assumes "maps_ok r" "\<And>k c. (k, c) \<in> set kvs \<Longrightarrow> map_option md_command (rg_exact r k) = c \<and> alias_name k = k"
    and "build_from_map s (Some kvs) = Some c"
  shows "build_indexed s r = Some c"
proof -
  have key: "map_option md_command (rg_anagrams r (anagram_key k)) = Some c" if mem: "(k, Some c) \<in> set kvs" for k
  proof -
    obtain m where "rg_exact r k = Some m" "md_command m = c" using assms(2) [OF mem] by auto
    then show ?thesis using assms(1) unfolding maps_ok_def by force
  qed
  have "\<exists>k. (k, Some c) \<in> set kvs \<and> anagram_key k = anagram_key s"
  proof (cases "map_of kvs (alias_name s)")
    case (Some x)
    then have "(alias_name s, Some c) \<in> set kvs" using assms(3) map_of_SomeD [OF Some] by (simp add: build_from_map_def)
    then show ?thesis using anagram_key_alias by blast
  next
    case None
    then obtain k where "filter (\<lambda>(k, c). anagram_key k = anagram_key s) kvs = [(k, Some c)]"
      using assms(3) by (auto simp: build_from_map_def split: list.splits)
    then have "(k, Some c) \<in> set (filter (\<lambda>(k, c). anagram_key k = anagram_key s) kvs)" by simp
    then show ?thesis by auto
  qed
  then show ?thesis using key build_indexed_key [OF assms(1), of s] by metis
qed

section \<open>Who may run it\<close>

definition effective_role :: "bool \<Rightarrow> str \<Rightarrow> security \<Rightarrow> trips \<Rightarrow> role option" where
  "effective_role io_fails trip s db =
     (if configured_trip trip (sc_admin_trips s) then Some ADMIN
      else if sc_stored s then (case resolve_role io_fails (trim_space trip) db of Inl e \<Rightarrow> None | Inr r \<Rightarrow> Some r)
      else if trim_space trip \<in> set (sc_runtime_admins s) then Some ADMIN
      else Some REGULAR)"

lemma ADMIN_least [simp]: "ADMIN \<le> r"
  by (cases r) (simp_all add: less_eq_role_def)

lemma is_authorized_iff:
  "is_authorized io_fails (Some u) (Some required) s db
     \<longleftrightarrow> (\<exists>r. effective_role io_fails (u_trip u) s db = Some r \<and> r \<le> required)"
  by (auto simp: is_authorized_def is_authorized_context_def is_trip_authorized_def effective_role_def split: sum.splits)

lemma is_authorized_mono:
  "is_authorized io_fails (Some u) (Some r) s db \<Longrightarrow> r \<le> r' \<Longrightarrow> is_authorized io_fails (Some u) (Some r') s db"
  by (auto simp: is_authorized_iff)

lemma role_round_trip: "role_from_database_name (role_database_name r) = Some r"
proof -
  have "list_all (\<lambda>r. role_from_database_name (role_database_name r) = Some r) [ADMIN, MODERATOR, TRUSTED, USER, REGULAR, PEST]"
    by code_simp
  then show ?thesis by (cases r) simp_all
qed

text \<open>A granted trip has the role, every other trip what it had.\<close>

lemma grant_targets_Some: "grant_targets seen ts = Some out \<Longrightarrow>
   set out = set seen \<union> trim_space ` set ts \<and> (\<forall>t \<in> set ts. trim_space t \<noteq> [] \<and> 44 \<notin> set (trim_space t))"
proof (induction seen ts rule: grant_targets.induct)
  case (2 seen t ts)
  from "2.prems" have t: "trim_space t \<noteq> []" "44 \<notin> set (trim_space t)"
    and rest: "grant_targets (if trim_space t \<in> set seen then seen else seen @ [trim_space t]) ts = Some out"
    by (auto simp: Let_def split: if_splits)
  from "2.IH" [OF refl _ rest] t show ?case by (auto split: if_splits)
qed simp

lemma fold_updates: "fold (\<lambda>t d. d(t \<mapsto> x)) ts db = (\<lambda>t. if t \<in> set ts then Some x else db t)"
  by (induction ts arbitrary: db) auto

lemma grant_trips_ok:
  assumes "grant_trips io_fails ts role db = (None, db')"
  shows "resolve_role False trip db'
     = (if trim_space trip \<in> trim_space ` set ts then Inr role else resolve_role False trip db)"
proof -
  obtain out where out: "grant_targets [] ts = Some out" and db': "db' = fold (\<lambda>t d. d(t \<mapsto> role_database_name role)) out db"
    using assms by (auto simp: grant_trips_def split: if_splits option.splits)
  have set_out: "set out = trim_space ` set ts" and ne: "[] \<notin> trim_space ` set ts" using grant_targets_Some [OF out] by auto
  have "trim_space trip = [] \<Longrightarrow> trim_space trip \<notin> trim_space ` set ts" using ne by metis
  then show ?thesis
    by (auto simp: resolve_role_def db' fold_updates set_out role_round_trip simp del: image_iff)
qed

lemma authorize_grants:
  assumes "authorize_trip ended io_fails trip (s, db) = (None, s', db')" "trim_space trip \<noteq> []" "trim_space (u_trip u) = trim_space trip"
  shows "is_authorized False (Some u) (Some required) s' db'"
proof (cases "sc_stored s")
  case True
  then have g: "grant_trips io_fails [trim_space trip] ADMIN db = (None, db')" "s' = s"
    using assms(1,2) by (auto simp: authorize_trip_def split: if_splits prod.splits)
  have "resolve_role False (trim_space (u_trip u)) db' = Inr ADMIN"
    using grant_trips_ok [OF g(1), of "trim_space (u_trip u)"] assms(3) by simp
  then show ?thesis using True g(2) by (simp add: is_authorized_iff effective_role_def)
next
  case False
  then have "s' = s\<lparr>sc_runtime_admins := List.insert (trim_space trip) (sc_runtime_admins s)\<rparr>"
    using assms(1,2) by (auto simp: authorize_trip_def split: if_splits)
  then show ?thesis using False assms(3) by (simp add: is_authorized_iff effective_role_def)
qed

text \<open>The policy of the adapter\<close>

lemma adapter_authorized_iff:
  "authorize_with_engine v name required (Some u) \<longleftrightarrow>
     (name \<in> set user_trip_whitelisted \<and> (\<exists>s. av_bundle v = Some s \<and> is_configured_user_trip (u_trip u) s))
     \<or> (\<exists>s r. av_security v = Some s \<and> effective_role (av_io_fails v) (u_trip u) s (av_trips v) = Some r \<and> r \<le> required)"
  by (auto simp: authorize_with_engine_def is_user_authorized_def is_authorized_iff split: option.splits)

end
