(* ===== verification/Participation.thy ===== *)
theory Participation
  imports Regex Context Commands Canonical "HOL-Library.Word"
begin

text \<open>
  Which messages of a room reach the agent: the package \<open>internal/agent/participation\<close> (mentions, requests for quiet, the
  classifier, the gate of autonomous moderation, invocations and their capabilities, the pipeline),
  \<open>live/participation.go\<close>, \<open>live/direct_submission.go\<close> and \<open>trustedAgentSnapshot\<close> of \<open>cmd/zenbot/main.go\<close>.  A pipeline handles
  the messages of its engine one after the other; the clock, the fresh bytes of a request and the submitter are
  arguments.
\<close>

section \<open>Mentions\<close>

definition mention_word :: "rune \<Rightarrow> bool" where
  "mention_word c \<longleftrightarrow> is_letter c \<or> is_number c \<or> c = 95"

definition mention_here :: "str \<Rightarrow> rune option \<Rightarrow> rune \<Rightarrow> str \<Rightarrow> bool" where
  "mention_here nick p c cs \<longleftrightarrow>
     c = 64 \<and> (case p of None \<Rightarrow> True | Some d \<Rightarrow> \<not> mention_word d) \<and> length nick \<le> length cs
     \<and> equal_fold (take (length nick) cs) nick
     \<and> (case drop (length nick) cs of [] \<Rightarrow> True | d # _ \<Rightarrow> \<not> mention_word d \<and> d \<noteq> 45)"

text \<open>Whether there is a mention, and the text with each of them replaced by a space\<close>

fun replace_mentions :: "str \<Rightarrow> rune option \<Rightarrow> str \<Rightarrow> bool \<times> str" where
  "replace_mentions nick p [] = (False, [])"
| "replace_mentions nick p (c # cs) =
     (if mention_here nick p c cs then
        (True, 32 # snd (replace_mentions nick (after (Some c) cs (length nick)) (drop (length nick) cs)))
      else case replace_mentions nick (Some c) cs of (b, s) \<Rightarrow> (b, c # s))"

definition leading_punctuation :: regex where
  "leading_punctuation = Seq Start (re_some (Class (\<lambda>c. re_space c \<or> c \<in> {44, 59, 58, 46, 45})))"

definition gap_before_punctuation :: regex where
  "gap_before_punctuation = Seq (re_some (Class re_space)) (Class (\<lambda>c. c \<in> {63, 33, 46, 44}))"

definition has_suffix :: "str \<Rightarrow> str \<Rightarrow> bool" where
  "has_suffix s t \<longleftrightarrow> length t \<le> length s \<and> drop (length s - length t) s = t"

definition close_mention :: "str \<Rightarrow> str" where
  "close_mention s =
     (if has_suffix s (lit '',?'') then take (length s - 2) s @ lit ''?''
      else if has_suffix s (lit '',!'') then take (length s - 2) s @ lit ''!'' else s)"

definition parse_mention :: "str \<Rightarrow> str \<Rightarrow> str option" where
  "parse_mention body botn =
     (if trim_space body = [] \<or> trim_space botn = [] then None
      else case replace_mentions (trim_space botn) None body of
        (False, _) \<Rightarrow> None
      | (True, remaining) \<Rightarrow>
          let s1 = replace_all leading_punctuation (\<lambda>m. []) (trim_space remaining);
              s2 = replace_all gap_before_punctuation (\<lambda>m. [last m]) s1;
              s3 = trim_space (close_mention s2)
          in if s3 = [] then None else Some s3)"

section \<open>Requests for quiet\<close>

definition polite_pattern :: regex where
  "polite_pattern = re_seq [Word_boundary, re_any (map re_text [lit ''please'', lit ''kindly'', lit ''could you'', lit ''would you'', lit ''can you'']),
     Word_boundary]"

definition quiet_pattern :: regex where
  "quiet_pattern = re_seq [Word_boundary,
     re_any
       [re_seq [re_text (lit ''be ''), re_any [re_text (lit ''quiet''), re_text (lit ''silent'')]],
        re_seq [re_text (lit ''stay ''), re_any [re_text (lit ''quiet''), re_text (lit ''silent'')]],
        re_text (lit ''remain silent''), re_text (lit ''keep quiet''), re_text (lit ''stop talking''), re_text (lit ''do not join''),
        re_text (lit ''don'' @ [39] @ lit ''t join''), re_text (lit ''stay out''),
        re_seq [re_text (lit ''leave ''), re_any [re_text (lit ''me''), re_text (lit ''us'')], re_text (lit '' alone'')],
        re_text (lit ''do not interrupt''), re_text (lit ''don'' @ [39] @ lit ''t interrupt'')],
     Word_boundary]"

definition quiet_text :: "str \<Rightarrow> bool" where
  "quiet_text s =
     (let l = to_lower (map (\<lambda>c. if c = 0x2019 then 39 else c) s)
      in match_string polite_pattern l \<and> match_string quiet_pattern l)"

definition is_polite_quiet_request :: "str \<Rightarrow> bool" where
  "is_polite_quiet_request s \<longleftrightarrow> trim_space s \<noteq> [] \<and> quiet_text s"

record quiet_registry =
  qr_duration :: duration
  qr_entries :: "str \<Rightarrow> time option"

definition new_quiet_registry :: "duration \<Rightarrow> quiet_registry option" where
  "new_quiet_registry d = (if d \<le> 0 then None else Some \<lparr>qr_duration = d, qr_entries = Map.empty\<rparr>)"

definition quiet_key :: "api_context \<Rightarrow> str" where
  "quiet_key c = to_lower (trim_space (a_room c)) @ lit ''|'' @ (case identity_from_context c of Inl _ \<Rightarrow> [] | Inr v \<Rightarrow> v)"

definition silence :: "time \<Rightarrow> api_context \<Rightarrow> quiet_registry \<Rightarrow> quiet_registry" where
  "silence now c q = q\<lparr>qr_entries := (qr_entries q)(quiet_key c \<mapsto> now + qr_duration q)\<rparr>"

definition is_quiet :: "time \<Rightarrow> api_context \<Rightarrow> quiet_registry \<Rightarrow> bool \<times> quiet_registry" where
  "is_quiet now c q =
     (case qr_entries q (quiet_key c) of
        None \<Rightarrow> (False, q)
      | Some until \<Rightarrow>
          if now < until then (True, q) else (False, q\<lparr>qr_entries := (qr_entries q)(quiet_key c := None)\<rparr>))"

section \<open>The classifier\<close>

datatype request_kind = Unclassified | Talk | Tool_call | Kind str

definition is_protocol :: "str \<Rightarrow> bool" where
  "is_protocol s \<longleftrightarrow>
     list_ex (has_prefix (to_lower s))
       [lit ''{'', lit ''['', lit ''<'', [96, 96, 96], lit ''tool_call'', lit ''function_call'']"

definition action_pattern :: regex where
  "action_pattern = re_seq [Start, re_any (map re_fold_text
     [lit ''run'', lit ''execute'', lit ''do'', lit ''make'', lit ''create'', lit ''delete'', lit ''remove'', lit ''set'', lit ''get'', lit ''find'',
      lit ''search'', lit ''lookup'', lit ''list'', lit ''show'', lit ''check'', lit ''send'', lit ''post'', lit ''remember'', lit ''schedule'',
      lit ''weather'', lit ''who is'', lit ''what is the weather'']), Word_boundary]"

abbreviation any_rune :: regex where "any_rune \<equiv> Many (Class (\<lambda>c. c \<noteq> 10))"

definition social_pattern :: regex where
  "social_pattern = Or
     (re_seq [Start, re_any (map re_fold_text [lit ''how are you'', lit ''what do you think'', lit ''can you explain'', lit ''why'', lit ''how'']),
        Word_boundary, any_rune, Class (\<lambda>c. c = 63)])
     (re_seq [any_rune, Word_boundary, re_any (map re_fold_text
        [lit ''hello'', lit ''hi'', lit ''hey'', lit ''thanks'', lit ''thank you'', lit ''goodbye'', lit ''bye'', lit ''okay'', lit ''ok'']),
        Word_boundary, any_rune])"

definition classify :: "str \<Rightarrow> request_kind" where
  "classify body =
     (let s = trim_space body
      in if s = [] \<or> \<not> list_ex is_letter s \<or> list_ex is_control s \<or> is_protocol s \<or> match_string action_pattern s then Unclassified
         else if match_string social_pattern s \<or> list_ex (\<lambda>c. c \<in> {46, 33, 63, 0x3002, 0xff01, 0xff1f}) s then Talk
         else Unclassified)"

definition finalize_kind :: "request_kind \<Rightarrow> bool \<Rightarrow> request_kind" where
  "finalize_kind candidate attempted =
     (if attempted then Tool_call else if candidate = Talk then Talk else Unclassified)"

section \<open>The gate of autonomous moderation\<close>

definition abuse_pattern :: regex where
  "abuse_pattern = re_any
     [re_fold_text (lit ''kys''),
      re_seq [re_fold_text (lit ''kill''), re_some (Class re_space),
        re_any (map re_fold_text [lit ''yourself'', lit ''urself'', lit ''u'', lit ''you''])],
      re_seq [re_fold_text (lit ''hang''), re_some (Class re_space), re_any (map re_fold_text [lit ''yourself'', lit ''urself''])],
      re_seq [re_fold_text (lit ''dox''), re_opt (re_fold_text (lit ''x''))],
      re_seq [re_fold_text (lit ''swat''), re_opt (re_fold_text (lit ''ting''))],
      re_fold_text (lit ''rape''),
      re_seq [re_fold_text (lit ''shoot''), re_some (Class re_space), re_fold_text (lit ''you'')],
      re_seq [re_fold_text (lit ''stab''), re_some (Class re_space), re_fold_text (lit ''you'')],
      re_seq [re_fold_text (lit ''bomb''), re_some (Class re_space), re_any (map re_fold_text [lit ''you'', lit ''them'', lit ''the room''])]]"

definition connector :: "rune \<Rightarrow> bool" where
  "connector c \<longleftrightarrow> c \<in> {95, 0x203f, 0x2040, 0x2054, 0xfe33, 0xfe34, 0xfe4d, 0xfe4e, 0xfe4f, 0xff3f}"

definition source_word_rune :: "rune \<Rightarrow> bool" where
  "source_word_rune c \<longleftrightarrow> is_letter c \<or> is_number c \<or> is_mark c \<or> connector c \<or> c = 0x200c \<or> c = 0x200d"

definition source_boundary :: "rune option \<Rightarrow> bool" where
  "source_boundary p = (case p of None \<Rightarrow> True | Some c \<Rightarrow> \<not> source_word_rune c)"

definition requires_boundary_after :: "str \<Rightarrow> bool" where
  "requires_boundary_after s \<longleftrightarrow> s \<in> set [lit ''dox'', lit ''doxx'', lit ''swat'', lit ''swatting'', lit ''rape'']"

definition semantic_candidate :: "str \<Rightarrow> bool" where
  "semantic_candidate body =
     list_ex (\<lambda>(p, m, rest). source_boundary p
         \<and> (requires_boundary_after (to_lower m) \<longrightarrow> source_boundary (next_rune rest)))
       (find_all abuse_pattern None body)"

definition semantic_moderation_tools :: "str list" where
  "semantic_moderation_tools = [lit ''saturn_mute'']"

definition is_semantic_moderation_tool :: "str \<Rightarrow> bool" where
  "is_semantic_moderation_tool n = list_ex (\<lambda>t. n = t) semantic_moderation_tools"

definition conventional_bot_pattern :: regex where
  "conventional_bot_pattern =
     (let number = re_opt (re_seq [re_opt (Class (\<lambda>c. c = 95 \<or> c = 45)), re_some (Class is_digit_ascii)]);
          word = Class (\<lambda>c. is_letter c \<or> is_number c \<or> c = 95 \<or> c = 45 \<or> c = 0x345)
      in re_seq [Start,
           re_any [re_seq [re_fold_text (lit ''bot''), number],
             re_seq [Many word, re_any [re_fold_text (lit ''Bot''), Seq (Class (\<lambda>c. c = 95 \<or> c = 45)) (re_fold_text (lit ''bot''))], number]],
           Stop])"

definition is_conventional_bot :: "str \<Rightarrow> bool" where
  "is_conventional_bot n = match_string conventional_bot_pattern n"

section \<open>Invocations\<close>

datatype trusted_role = Role_admin | Role_moderator | Role_named str

record trusted_snapshot =
  tr_room :: str
  tr_users :: "str list option"
  tr_creator :: str
  tr_admins :: "str list"
  tr_roles :: "str \<Rightarrow> trusted_role option"

text \<open>\<open>trustedAgentSnapshot\<close>; without an engine there is no room.\<close>

definition role_of_user :: "auth_view \<Rightarrow> user \<Rightarrow> (str \<Rightarrow> trusted_role option) \<Rightarrow> str \<Rightarrow> trusted_role option" where
  "role_of_user v u roles =
     (if trim_space (u_trip u) = [] then roles
      else if is_user_authorized v (Some u) (Some ADMIN) then roles(u_trip u \<mapsto> Role_admin)
      else if is_user_authorized v (Some u) (Some MODERATOR) then roles(u_trip u \<mapsto> Role_moderator)
      else roles)"

definition trusted_agent_snapshot :: "(auth_view \<times> room) option \<Rightarrow> str \<Rightarrow> str list \<Rightarrow> trusted_snapshot" where
  "trusted_agent_snapshot engine creator admins =
     (case engine of
        None \<Rightarrow> \<lparr>tr_room = [], tr_users = None, tr_creator = creator, tr_admins = admins, tr_roles = Map.empty\<rparr>
      | Some (v, rm) \<Rightarrow>
          \<lparr>tr_room = rm_channel rm, tr_users = (if rm_active rm = [] then None else Some (sort (map u_name (rm_active rm)))),
           tr_creator = creator, tr_admins = admins, tr_roles = fold (role_of_user v) (rm_active rm) Map.empty\<rparr>)"

definition dynamic_sql :: capability where "dynamic_sql = lit ''DYNAMIC_SQL''"
definition moderation_commands :: capability where "moderation_commands = lit ''MODERATION_COMMANDS''"
definition permanent_ban :: capability where "permanent_ban = lit ''PERMANENT_BAN''"
definition admin_commands :: capability where "admin_commands = lit ''ADMIN_COMMANDS''"

definition is_creator :: "trusted_snapshot \<Rightarrow> chat_message \<Rightarrow> bool" where
  "is_creator s m \<longleftrightarrow> tr_creator s \<noteq> [] \<and> tr_creator s = m_trip m"

definition is_admin :: "trusted_snapshot \<Rightarrow> chat_message \<Rightarrow> bool" where
  "is_admin s m \<longleftrightarrow> list_ex (\<lambda>t. t = m_trip m) (tr_admins s) \<or> tr_roles s (m_trip m) = Some Role_admin"

definition is_moderator :: "trusted_snapshot \<Rightarrow> chat_message \<Rightarrow> bool" where
  "is_moderator s m \<longleftrightarrow> tr_roles s (m_trip m) = Some Role_moderator"

definition granted :: "trusted_snapshot \<Rightarrow> chat_message \<Rightarrow> invocation_mode \<Rightarrow> capability list" where
  "granted s m mode =
     (let asked = mode \<noteq> AMBIENT \<and> mode \<noteq> MODERATION
      in (if is_creator s m \<or> is_admin s m \<and> asked then [dynamic_sql] else [])
       @ (if is_creator s m \<or> (is_admin s m \<or> is_moderator s m) \<and> asked then [moderation_commands] else [])
       @ (if is_creator s m \<and> mode = DIRECT then [permanent_ban, admin_commands] else []))"

text \<open>The 16 bytes of a fresh identifier; a read that fails leaves them zero.\<close>

definition hex_bytes :: "int list \<Rightarrow> str" where
  "hex_bytes bs = concat (map (\<lambda>b. [hex_char (b div 16), hex_char (b mod 16)]) bs)"

definition request_id :: "int list option \<Rightarrow> str" where
  "request_id r =
     (case r of
        None \<Rightarrow> lit ''request-16''
      | Some bs \<Rightarrow>
          hex_bytes (take 4 bs) @ lit ''-'' @ hex_bytes (take 2 (drop 4 bs)) @ lit ''-'' @ hex_bytes (take 2 (drop 6 bs))
            @ lit ''-'' @ hex_bytes (take 2 (drop 8 bs)) @ lit ''-'' @ hex_bytes (drop 10 bs))"

definition users_copy :: "trusted_snapshot \<Rightarrow> str list" where
  "users_copy s = (case tr_users s of None \<Rightarrow> [] | Some us \<Rightarrow> us)"

definition create_invocation ::
  "str \<Rightarrow> trusted_snapshot \<Rightarrow> chat_message \<Rightarrow> str \<Rightarrow> invocation_mode \<Rightarrow> bool \<Rightarrow> api_error + api_invocation" where
  "create_invocation rid s m prompt mode command =
     (case new_api_context_with_capabilities (tr_room s) (m_name m) (m_trip m) (m_hash m) (m_whisper m \<or> m_is_whisper m)
             (Some (users_copy s)) (Some (granted s m mode)) [] of
        Inl e \<Rightarrow> Inl e
      | Inr ctx \<Rightarrow> new_api_invocation rid ctx prompt mode (Some (m_text m)) command None)"

datatype participation_error = Unsupported | Bot_nick_required | Target_required | Api_error api_error | Refused str
  | Not_initialized | Ended | Unavailable_direct | Prompt_required | Room_required

definition create_moderation ::
  "str \<Rightarrow> trusted_snapshot \<Rightarrow> str \<Rightarrow> str \<Rightarrow> chat_message \<Rightarrow> str \<Rightarrow> participation_error + api_invocation" where
  "create_moderation rid s botn target m prompt =
     (if trim_space botn = [] then Inl Bot_nick_required
      else if trim_space target = [] then Inl Target_required
      else case new_api_context (tr_room s) botn (tr_creator s) [] False (Some (users_copy s)) (Some [moderation_commands]) (Some target) of
        Inl e \<Rightarrow> Inl (Api_error e)
      | Inr ctx \<Rightarrow> map_sum Api_error id (new_api_invocation rid ctx prompt MODERATION (Some (m_text m)) False None))"

section \<open>The pipeline\<close>

record agent_event =
  ev_message :: chat_message
  ev_snapshot :: trusted_snapshot
  ev_bot :: str
  ev_prefix :: str
  ev_prefixes :: "str list option"
  ev_author_bot :: bool
  ev_ambient :: bool
  ev_every :: "64 word"
  ev_candidate :: bool
  ev_target :: str

record pipeline =
  pl_submits :: bool
  pl_ready :: bool
  pl_quiet :: "quiet_registry option"
  pl_eligible :: "64 word"

datatype pipeline_decision = Pass | Claimed

record participation_outcome =
  po_decision :: pipeline_decision
  po_submitted :: bool
  po_mode :: invocation_mode
  po_error :: "participation_error option"

definition passed :: participation_outcome where
  "passed = \<lparr>po_decision = Pass, po_submitted = False, po_mode = Mode [], po_error = None\<rparr>"

text \<open>What a message meets: the time, the identifiers of its requests, and the submitter, which answers an invocation with an
  error or accepts it.\<close>

record submission_services =
  su_now :: time
  su_id :: "invocation_mode \<Rightarrow> str"
  su_submit :: "api_invocation \<Rightarrow> str option"

text \<open>The outcome and the invocation handed to the submitter\<close>

definition submit_event ::
  "submission_services \<Rightarrow> pipeline \<Rightarrow> agent_event \<Rightarrow> str \<Rightarrow> invocation_mode \<Rightarrow> bool \<Rightarrow> pipeline_decision \<Rightarrow> participation_outcome \<times> api_invocation list" where
  "submit_event su p e prompt mode origin d =
     (let failed = \<lambda>er. \<lparr>po_decision = d, po_submitted = False, po_mode = mode, po_error = Some er\<rparr>
      in if \<not> pl_submits p then (failed Unsupported, [])
         else case (if mode = MODERATION
                    then create_moderation (su_id su mode) (ev_snapshot e) (ev_bot e) (ev_target e) (ev_message e) prompt
                    else map_sum Api_error id (create_invocation (su_id su mode) (ev_snapshot e) (ev_message e) prompt mode origin)) of
             Inl er \<Rightarrow> (failed er, [])
           | Inr iv \<Rightarrow>
               (\<lparr>po_decision = d, po_submitted = su_submit su iv = None, po_mode = mode,
                 po_error = map_option Refused (su_submit su iv)\<rparr>, [iv]))"

definition is_eligible :: "agent_event \<Rightarrow> bool" where
  "is_eligible e \<longleftrightarrow>
     (let m = ev_message e; body = trim_space (m_text m);
          prefixes = (case ev_prefixes e of None \<Rightarrow> [ev_prefix e] | Some ps \<Rightarrow> ps)
      in \<not> (body = [] \<or> m_whisper m \<or> m_is_whisper m \<or> equal_fold (m_name m) (ev_bot e) \<or> ev_author_bot e
            \<or> is_conventional_bot (m_name m) \<or> match_command_prefix body prefixes \<noteq> []))"

definition event_context :: "agent_event \<Rightarrow> api_error + api_context" where
  "event_context e =
     new_api_context (tr_room (ev_snapshot e)) (m_name (ev_message e)) (m_trip (ev_message e)) (m_hash (ev_message e)) False
       (tr_users (ev_snapshot e)) (Some []) None"

definition check_quiet :: "time \<Rightarrow> api_context \<Rightarrow> pipeline \<Rightarrow> bool \<times> pipeline" where
  "check_quiet now c p =
     (case pl_quiet p of
        None \<Rightarrow> (False, p)
      | Some q \<Rightarrow> (case is_quiet now c q of (b, q') \<Rightarrow> (b, p\<lparr>pl_quiet := Some q'\<rparr>)))"

definition try_ambient ::
  "submission_services \<Rightarrow> api_context \<Rightarrow> agent_event \<Rightarrow> pipeline \<Rightarrow> pipeline \<times> participation_outcome \<times> api_invocation list" where
  "try_ambient su ctx e p =
     (if ev_ambient e \<and> 0 < ev_every e then
        (case check_quiet (su_now su) ctx p of
           (True, p1) \<Rightarrow> (p1, passed, [])
         | (False, p1) \<Rightarrow>
             let p2 = p1\<lparr>pl_eligible := pl_eligible p1 + 1\<rparr>
             in if pl_eligible p2 mod ev_every e = 0
                then (p2, submit_event su p2 e (trim_space (m_text (ev_message e))) AMBIENT False Pass)
                else (p2, passed, []))
      else (p, passed, []))"

definition handle_event ::
  "submission_services \<Rightarrow> agent_event \<Rightarrow> pipeline \<Rightarrow> pipeline \<times> participation_outcome \<times> api_invocation list" where
  "handle_event su e p =
     (let body = trim_space (m_text (ev_message e))
      in if \<not> is_eligible e then (p, passed, [])
         else case event_context e of
           Inl er \<Rightarrow> (p, passed\<lparr>po_error := Some (Api_error er)\<rparr>, [])
         | Inr ctx \<Rightarrow>
             if pl_quiet p \<noteq> None \<and> is_polite_quiet_request body
             then (p\<lparr>pl_quiet := map_option (silence (su_now su) ctx) (pl_quiet p)\<rparr>, passed, [])
             else case parse_mention body (ev_bot e) of
               Some prompt \<Rightarrow> (p, submit_event su p e prompt MENTION True Claimed)
             | None \<Rightarrow>
                 if pl_ready p \<and> ev_candidate e \<and> trim_space (ev_target e) \<noteq> [] then
                   (case submit_event su p e body MODERATION False Pass of
                      (out, sent) \<Rightarrow>
                        if po_error out \<noteq> None then (p, out, sent)
                        else (case try_ambient su ctx e p of (p1, out1, sent1) \<Rightarrow> (p1, out1, sent @ sent1)))
                 else try_ambient su ctx e p)"

text \<open>\<open>RoomParticipation.Handle\<close>; \<open>gate\<close> is the semantic candidate gate when it is composed.\<close>

definition moderation_target :: "(str \<Rightarrow> bool) option \<Rightarrow> user option \<Rightarrow> chat_message \<Rightarrow> str" where
  "moderation_target gate author m =
     (case (gate, author) of
        (Some g, Some a) \<Rightarrow> if \<not> u_isbot a \<and> \<not> u_isme a \<and> g (m_text m) then u_name a else []
      | _ \<Rightarrow> [])"

definition room_event ::
  "(str \<Rightarrow> bool) option \<Rightarrow> bool \<Rightarrow> 64 word \<Rightarrow> trusted_snapshot \<Rightarrow> room \<Rightarrow> user option \<Rightarrow> chat_message \<Rightarrow> agent_event" where
  "room_event gate ambient every s rm author m =
     (let target = moderation_target gate author m; ps = current_prefixes rm
      in \<lparr>ev_message = m, ev_snapshot = s, ev_bot = rm_name rm, ev_prefix = [], ev_prefixes = (if ps = [] then None else Some ps),
          ev_author_bot = (case author of None \<Rightarrow> False | Some a \<Rightarrow> u_isbot a), ev_ambient = ambient, ev_every = every,
          ev_candidate = target \<noteq> [], ev_target = target\<rparr>)"

definition handle_room ::
  "submission_services \<Rightarrow> (str \<Rightarrow> bool) option \<Rightarrow> bool \<Rightarrow> 64 word \<Rightarrow> trusted_snapshot \<Rightarrow> room \<Rightarrow> user option \<Rightarrow> chat_message option \<Rightarrow>
   pipeline \<Rightarrow> pipeline \<times> (bool \<times> participation_error option) \<times> api_invocation list" where
  "handle_room su gate ambient every s rm author m p =
     (case m of
        None \<Rightarrow> (p, (False, Some Not_initialized), [])
      | Some msg \<Rightarrow>
          (case handle_event su (room_event gate ambient every s rm author msg) p of
             (p1, out, sent) \<Rightarrow> (p1, (po_decision out = Claimed, po_error out), sent)))"

section \<open>Requests made by a command\<close>

definition vibe_prompt :: str where
  "vibe_prompt = lit ''Give a short vibe check of the recent room conversation and its active participants.''"

text \<open>The error, and the invocation handed to the service\<close>

definition submit_direct ::
  "bool \<Rightarrow> bool \<Rightarrow> str \<Rightarrow> (api_invocation \<Rightarrow> str option) \<Rightarrow> trusted_snapshot \<Rightarrow> chat_message option \<Rightarrow> str \<Rightarrow> invocation_mode \<Rightarrow>
   participation_error option \<times> api_invocation list" where
  "submit_direct ended service rid accept s m prompt mode =
     (if ended then (Some Ended, [])
      else case m of
        None \<Rightarrow> (Some Unavailable_direct, [])
      | Some msg \<Rightarrow>
          if \<not> service then (Some Unavailable_direct, [])
          else if trim_space prompt = [] then (Some Prompt_required, [])
          else if trim_space (tr_room s) = [] then (Some Room_required, [])
          else case create_invocation rid s msg (trim_space prompt) mode True of
            Inl e \<Rightarrow> (Some (Api_error e), [])
          | Inr iv \<Rightarrow> (map_option Refused (accept iv), [iv]))"

definition submit_vibe ::
  "bool \<Rightarrow> bool \<Rightarrow> str \<Rightarrow> (api_invocation \<Rightarrow> str option) \<Rightarrow> trusted_snapshot \<Rightarrow> chat_message option \<Rightarrow>
   participation_error option \<times> api_invocation list" where
  "submit_vibe ended service rid accept s m = submit_direct ended service rid accept s m vibe_prompt VIBE"

section \<open>Protected principals\<close>

record protected =
  pp_creator :: str
  pp_admins :: "str list"
  pp_bot :: str
  pp_master :: str

definition is_protected :: "protected \<Rightarrow> str \<Rightarrow> bool" where
  "is_protected p n =
     (let l = to_lower (trim_space n)
      in l \<noteq> [] \<and> (l = to_lower (pp_creator p) \<or> l = to_lower (pp_bot p) \<or> l = to_lower (pp_master p)
                   \<or> list_ex (\<lambda>a. l = to_lower a) (pp_admins p)))"

section \<open>What is submitted\<close>

lemma granted_simps:
  "permanent_ban \<in> set (granted s m mode) \<longleftrightarrow> is_creator s m \<and> mode = DIRECT"
  "admin_commands \<in> set (granted s m mode) \<longleftrightarrow> is_creator s m \<and> mode = DIRECT"
  "dynamic_sql \<in> set (granted s m mode) \<longleftrightarrow> is_creator s m \<or> is_admin s m \<and> mode \<noteq> AMBIENT \<and> mode \<noteq> MODERATION"
  "moderation_commands \<in> set (granted s m mode) \<longleftrightarrow>
     is_creator s m \<or> (is_admin s m \<or> is_moderator s m) \<and> mode \<noteq> AMBIENT \<and> mode \<noteq> MODERATION"
  by (auto simp: granted_def Let_def dynamic_sql_def moderation_commands_def permanent_ban_def admin_commands_def lit_def)

text \<open>An invocation that carries an author's message under the author's name\<close>

definition speaks_for :: "trusted_snapshot \<Rightarrow> chat_message \<Rightarrow> api_invocation \<Rightarrow> bool" where
  "speaks_for s m iv \<longleftrightarrow>
     a_nick (i_context iv) = m_name m \<and> a_trip (i_context iv) = nullable_string (m_trip m) \<and> a_target (i_context iv) = None
     \<and> set (a_caps (i_context iv)) = set (granted s m (i_mode iv))"

definition moderates :: "trusted_snapshot \<Rightarrow> str \<Rightarrow> str \<Rightarrow> api_invocation \<Rightarrow> bool" where
  "moderates s botn target iv \<longleftrightarrow>
     a_nick (i_context iv) = botn \<and> a_target (i_context iv) = Some target \<and> a_caps (i_context iv) = [moderation_commands]"

lemma create_invocation_Inr:
  "create_invocation rid s m prompt mode command = Inr iv \<Longrightarrow>
   speaks_for s m iv \<and> i_mode iv = mode \<and> i_prompt iv = prompt \<and> i_current iv = Some (m_text m)
   \<and> a_whisper (i_context iv) = (m_whisper m \<or> m_is_whisper m) \<and> a_room (i_context iv) = tr_room s"
  by (auto simp: create_invocation_def new_api_context_with_capabilities_def new_api_context_def new_api_invocation_def Let_def
      nonblank_def speaks_for_def set_distinct_first split: option.splits sum.splits if_splits)

lemma create_moderation_Inr:
  "create_moderation rid s botn target m prompt = Inr iv \<Longrightarrow>
   moderates s botn target iv \<and> i_mode iv = MODERATION \<and> i_prompt iv = prompt \<and> i_current iv = Some (m_text m)
   \<and> \<not> a_whisper (i_context iv) \<and> a_room (i_context iv) = tr_room s"
  by (auto simp: create_moderation_def new_api_context_def new_api_invocation_def Let_def moderates_def distinct_first_def
      split: option.splits sum.splits if_splits)

text \<open>What one call of the submitter may carry\<close>

definition carries :: "agent_event \<Rightarrow> invocation_mode \<Rightarrow> api_invocation \<Rightarrow> bool" where
  "carries e mode iv \<longleftrightarrow>
     i_mode iv = mode \<and> i_current iv = Some (m_text (ev_message e)) \<and> a_room (i_context iv) = tr_room (ev_snapshot e)
     \<and> \<not> a_whisper (i_context iv)
     \<and> (if mode = MODERATION then moderates (ev_snapshot e) (ev_bot e) (ev_target e) iv else speaks_for (ev_snapshot e) (ev_message e) iv)"

lemma submit_event_cases:
  assumes "submit_event su p e prompt mode origin d = (out, sent)" "\<not> m_whisper (ev_message e)" "\<not> m_is_whisper (ev_message e)"
  shows "po_mode out = mode \<and> po_decision out = d \<and> (po_submitted out \<longleftrightarrow> po_error out = None)
    \<and> (sent = [] \<or> pl_submits p \<and> (\<exists>iv. sent = [iv] \<and> carries e mode iv))"
proof -
  define made where "made =
    (if mode = MODERATION
     then create_moderation (su_id su mode) (ev_snapshot e) (ev_bot e) (ev_target e) (ev_message e) prompt
     else map_sum Api_error id (create_invocation (su_id su mode) (ev_snapshot e) (ev_message e) prompt mode origin))"
  have submit: "submit_event su p e prompt mode origin d =
      (let failed = \<lambda>er. \<lparr>po_decision = d, po_submitted = False, po_mode = mode, po_error = Some er\<rparr>
       in if \<not> pl_submits p then (failed Unsupported, [])
          else case made of Inl er \<Rightarrow> (failed er, [])
            | Inr iv \<Rightarrow> (\<lparr>po_decision = d, po_submitted = su_submit su iv = None, po_mode = mode,
                po_error = map_option Refused (su_submit su iv)\<rparr>, [iv]))"
    by (simp add: submit_event_def made_def)
  have "carries e mode iv" if "made = Inr iv" for iv
  proof (cases "mode = MODERATION")
    case True
    then show ?thesis
      using that create_moderation_Inr by (fastforce simp: made_def carries_def)
  next
    case False
    then have "create_invocation (su_id su mode) (ev_snapshot e) (ev_message e) prompt mode origin = Inr iv"
      using that by (cases "create_invocation (su_id su mode) (ev_snapshot e) (ev_message e) prompt mode origin") (auto simp: made_def)
    then show ?thesis
      using create_invocation_Inr [of "su_id su mode"] False assms(2,3) by (fastforce simp: carries_def)
  qed
  then show ?thesis
    using assms(1) by (cases made) (auto simp: submit Let_def split: if_splits)
qed

lemma is_eligibleD: "is_eligible e \<Longrightarrow> \<not> m_whisper (ev_message e) \<and> \<not> m_is_whisper (ev_message e)"
  by (simp add: is_eligible_def Let_def)

text \<open>What one message may cause\<close>

definition effects_ok :: "pipeline \<Rightarrow> agent_event \<Rightarrow> participation_outcome \<Rightarrow> api_invocation list \<Rightarrow> bool" where
  "effects_ok p e out sent \<longleftrightarrow>
     sent = [] \<or> pl_submits p \<and> is_eligible e
       \<and> (\<exists>ms us. sent = ms @ us \<and> length ms \<le> 1 \<and> length us \<le> 1
            \<and> (ms \<noteq> [] \<longrightarrow> pl_ready p \<and> ev_candidate e)
            \<and> list_all (carries e MODERATION) ms
            \<and> list_all (carries e (if po_decision out = Claimed then MENTION else AMBIENT)) us
            \<and> (po_decision out = Claimed \<longrightarrow> ms = []))"

lemma try_ambient_cases:
  assumes "try_ambient su ctx e p = (p1, out, sent)" "is_eligible e"
  shows "po_decision out = Pass \<and> pl_ready p1 = pl_ready p \<and> pl_submits p1 = pl_submits p
    \<and> (sent = [] \<or> pl_submits p \<and> (\<exists>iv. sent = [iv] \<and> carries e AMBIENT iv))"
proof -
  have keeps: "check_quiet (su_now su) ctx p = (b, q) \<Longrightarrow> pl_ready q = pl_ready p \<and> pl_submits q = pl_submits p" for b q
    by (auto simp: check_quiet_def split: option.splits prod.splits)
  obtain b q where q: "check_quiet (su_now su) ctx p = (b, q)"
    by (cases "check_quiet (su_now su) ctx p")
  obtain o1 s1 where s: "submit_event su (q\<lparr>pl_eligible := pl_eligible q + 1\<rparr>) e (trim_space (m_text (ev_message e))) AMBIENT False Pass = (o1, s1)"
    by force
  show ?thesis
    using assms(1) keeps [OF q] submit_event_cases [OF s] is_eligibleD [OF assms(2)] q s
    by (cases b) (auto simp: try_ambient_def passed_def Let_def split: if_splits)
qed

lemma effects_okI:
  assumes "ms = [] \<or> pl_submits p \<and> pl_ready p \<and> ev_candidate e \<and> po_decision out = Pass \<and> (\<exists>iv. ms = [iv] \<and> carries e MODERATION iv)"
    and "us = [] \<or> pl_submits p \<and> (\<exists>iv. us = [iv] \<and> carries e (if po_decision out = Claimed then MENTION else AMBIENT) iv)"
    and "is_eligible e"
  shows "effects_ok p e out (ms @ us)"
proof (cases "ms @ us = []")
  case False
  show ?thesis
    unfolding effects_ok_def
    by (rule disjI2, intro conjI exI [of _ ms] exI [of _ us]) (use assms False in \<open>auto split: if_splits\<close>)
qed (auto simp: effects_ok_def)

lemma handle_event_cases [consumes 1, case_names untouched silenced mentioned moderated ambient]:
  assumes handled: "handle_event su e p = (p1, out, sent)"
    and untouched: "p1 = p \<Longrightarrow> sent = [] \<Longrightarrow> po_decision out = Pass \<Longrightarrow> po_mode out = Mode [] \<Longrightarrow> Q"
    and silenced: "\<And>ctx q. is_eligible e \<Longrightarrow> event_context e = Inr ctx \<Longrightarrow> pl_quiet p = Some q \<Longrightarrow>
      p1 = p\<lparr>pl_quiet := Some (silence (su_now su) ctx q)\<rparr> \<Longrightarrow> sent = [] \<Longrightarrow> out = passed \<Longrightarrow> Q"
    and mentioned: "\<And>prompt. is_eligible e \<Longrightarrow> p1 = p \<Longrightarrow> submit_event su p e prompt MENTION True Claimed = (out, sent) \<Longrightarrow> Q"
    and moderated: "\<And>body. is_eligible e \<Longrightarrow> pl_ready p \<Longrightarrow> ev_candidate e \<Longrightarrow> p1 = p \<Longrightarrow>
      submit_event su p e body MODERATION False Pass = (out, sent) \<Longrightarrow> Q"
    and ambient: "\<And>ctx ms us body o1. is_eligible e \<Longrightarrow> event_context e = Inr ctx \<Longrightarrow> try_ambient su ctx e p = (p1, out, us) \<Longrightarrow>
      sent = ms @ us \<Longrightarrow> ms = [] \<or> pl_ready p \<and> ev_candidate e \<and> submit_event su p e body MODERATION False Pass = (o1, ms) \<Longrightarrow> Q"
  shows Q
proof (cases "is_eligible e")
  case False
  then have "p1 = p \<and> sent = [] \<and> out = passed"
    using handled by (auto simp: handle_event_def)
  then have "po_decision out = Pass" "po_mode out = Mode []" "p1 = p" "sent = []"
    by (simp_all add: passed_def)
  then show Q
    by (intro untouched)
next
  case eligible: True
  let ?body = "trim_space (m_text (ev_message e))"
  show Q
  proof (cases "event_context e")
    case (Inl er)
    then have "p1 = p \<and> sent = [] \<and> out = passed\<lparr>po_error := Some (Api_error er)\<rparr>"
      using handled eligible by (auto simp: handle_event_def)
    then have "po_decision out = Pass" "po_mode out = Mode []" "p1 = p" "sent = []"
      by (simp_all add: passed_def)
    then show Q
    by (intro untouched)
  next
    case (Inr ctx)
    show Q
    proof (cases "pl_quiet p \<noteq> None \<and> is_polite_quiet_request ?body")
      case True
      then show Q
        using handled silenced eligible Inr by (auto simp: handle_event_def)
    next
      case loud: False
      obtain o1 s1 where s1: "submit_event su p e ?body MODERATION False Pass = (o1, s1)"
        by force
      obtain p2 o2 s2 where s2: "try_ambient su ctx e p = (p2, o2, s2)"
        by (metis prod_cases3)
      note step = handled [unfolded handle_event_def Let_def]
      show Q
      proof (cases "parse_mention ?body (ev_bot e)")
        case (Some prompt)
        then show Q
          using step eligible Inr loud mentioned [of prompt] by (auto split: if_splits)
      next
        case None
        show Q
        proof (cases "pl_ready p \<and> ev_candidate e \<and> trim_space (ev_target e) \<noteq> []")
          case True
          then show Q
            using step eligible Inr loud None s1 s2 moderated [of ?body]
              ambient [OF eligible Inr, of s2 s1 ?body o1]
            by (auto split: if_splits)
        next
          case False
          then show Q
            using step eligible Inr loud None s2 ambient [OF eligible Inr, of s2 "[]"] by (auto split: if_splits)
        qed
      qed
    qed
  qed
qed

lemma handle_event_effects:
  assumes "handle_event su e p = (p1, out, sent)"
  shows "effects_ok p e out sent"
  using assms
proof (cases rule: handle_event_cases)
  case (mentioned prompt)
  then show ?thesis
    using submit_event_cases [of su p e prompt MENTION True Claimed] is_eligibleD effects_okI [of "[]" p e out sent] by auto
next
  case (moderated body)
  then show ?thesis
    using submit_event_cases [of su p e body MODERATION False Pass] is_eligibleD effects_okI [of sent p e out "[]"] by auto
next
  case (ambient ctx ms us body o1)
  have "ms = [] \<or> pl_submits p \<and> pl_ready p \<and> ev_candidate e \<and> (\<exists>iv. ms = [iv] \<and> carries e MODERATION iv)"
    using ambient(5) submit_event_cases [of su p e body MODERATION False Pass o1 ms] is_eligibleD [OF ambient(1)] by auto
  then show ?thesis
    using try_ambient_cases [OF ambient(3,1)] ambient(1,4) effects_okI [of ms p e out us] by auto
qed (auto simp: effects_ok_def)

section \<open>Runs\<close>

fun handle_all :: "pipeline \<Rightarrow> (submission_services \<times> agent_event) list \<Rightarrow> pipeline \<times> (participation_outcome \<times> api_invocation list) list" where
  "handle_all p [] = (p, [])"
| "handle_all p ((su, e) # xs) =
     (case handle_event su e p of
        (p1, out, sent) \<Rightarrow> (case handle_all p1 xs of (p2, rs) \<Rightarrow> (p2, (out, sent) # rs)))"

definition is_ambient :: "participation_outcome \<times> api_invocation list \<Rightarrow> bool" where
  "is_ambient r \<longleftrightarrow> po_mode (fst r) = AMBIENT"

lemma submit_event_mode: "po_mode (fst (submit_event su p e prompt mode origin d)) = mode"
  by (auto simp: submit_event_def Let_def split: sum.splits)

text \<open>A message is counted at most once, and only the multiples of the interval make an ambient request.\<close>

definition counts :: "64 word \<Rightarrow> agent_event \<Rightarrow> pipeline \<Rightarrow> pipeline \<Rightarrow> participation_outcome \<Rightarrow> bool" where
  "counts n e p p1 out \<longleftrightarrow>
     (pl_eligible p1 = pl_eligible p \<and> po_mode out \<noteq> AMBIENT
      \<or> is_eligible e \<and> pl_eligible p1 = pl_eligible p + 1 \<and> (po_mode out = AMBIENT \<longleftrightarrow> unat (pl_eligible p1) mod unat n = 0))"

lemma try_ambient_counts:
  assumes "try_ambient su ctx e p = (p1, out, sent)" "is_eligible e"
  shows "counts (ev_every e) e p p1 out"
proof -
  obtain b q where q: "check_quiet (su_now su) ctx p = (b, q)"
    by (cases "check_quiet (su_now su) ctx p")
  have same: "pl_eligible q = pl_eligible p"
    using q by (auto simp: check_quiet_def split: option.splits prod.splits)
  have due: "(pl_eligible p + 1) mod ev_every e = 0 \<longleftrightarrow> unat (pl_eligible p + 1) mod unat (ev_every e) = 0"
    by (metis unat_eq_zero unat_mod)
  define r where "r = submit_event su (q\<lparr>pl_eligible := pl_eligible p + 1\<rparr>) e (trim_space (m_text (ev_message e))) AMBIENT False Pass"
  have "po_mode (fst r) = AMBIENT"
    by (simp add: r_def submit_event_mode)
  then show ?thesis
    using assms q same
    by (cases b; cases r; cases "unat (pl_eligible p + 1) mod unat (ev_every e) = 0")
       (auto simp: try_ambient_def counts_def passed_def Let_def due simp flip: r_def split: if_splits)
qed

lemma handle_event_counts:
  assumes "handle_event su e p = (p1, out, sent)"
  shows "counts (ev_every e) e p p1 out"
  using assms
proof (cases rule: handle_event_cases)
  case (mentioned prompt)
  then show ?thesis
    using submit_event_mode [of su p e prompt MENTION True Claimed] by (simp add: counts_def)
next
  case (moderated body)
  then show ?thesis
    using submit_event_mode [of su p e body MODERATION False Pass] by (simp add: counts_def)
next
  case ambient
  then show ?thesis
    by (blast intro: try_ambient_counts)
qed (auto simp: counts_def passed_def)

lemma counts_cases:
  assumes "counts n e p p1 out" "n = ev_every e" "0 < n" "unat (pl_eligible p) + 1 < 2 ^ 64"
  shows "unat (pl_eligible p) \<le> unat (pl_eligible p1)
    \<and> unat (pl_eligible p1) \<le> unat (pl_eligible p) + (if is_eligible e then 1 else 0)
    \<and> unat (pl_eligible p1) div unat n = unat (pl_eligible p) div unat n + (if po_mode out = AMBIENT then 1 else 0)"
proof -
  have "unat (pl_eligible p + 1) = Suc (unat (pl_eligible p))"
    using assms(4) by (simp add: unat_word_ariths)
  then show ?thesis
    using assms by (auto simp: counts_def div_Suc)
qed

lemma ambient_rate_from:
  assumes "handle_all p xs = (p2, rs)" "list_all (\<lambda>x. ev_every (snd x) = n) xs" "0 < n" "unat (pl_eligible p) + length xs < 2 ^ 64"
  shows "length (filter is_ambient rs) + unat (pl_eligible p) div unat n = unat (pl_eligible p2) div unat n
    \<and> unat (pl_eligible p2) \<le> unat (pl_eligible p) + length (filter (\<lambda>x. is_eligible (snd x)) xs)"
  using assms
proof (induction xs arbitrary: p p2 rs)
  case (Cons x xs)
  obtain su e where x: "x = (su, e)"
    by (cases x)
  obtain p1 out sent where h: "handle_event su e p = (p1, out, sent)"
    by (metis prod_cases3)
  obtain rs1 where r: "handle_all p1 xs = (p2, rs1)" "rs = (out, sent) # rs1"
    using Cons.prems(1) x h by (auto split: prod.splits)
  have "counts n e p p1 out"
    using handle_event_counts [OF h] Cons.prems(2) x by simp
  from counts_cases [OF this] have c: "unat (pl_eligible p1) \<le> unat (pl_eligible p) + (if is_eligible e then 1 else 0)
    \<and> unat (pl_eligible p1) div unat n = unat (pl_eligible p) div unat n + (if po_mode out = AMBIENT then 1 else 0)"
    using Cons.prems x by simp
  then have "unat (pl_eligible p1) + length xs < 2 ^ 64"
    using Cons.prems(4) by (auto split: if_splits)
  from Cons.IH [OF r(1) _ Cons.prems(3) this] show ?case
    using Cons.prems(2) c x r(2) by (auto simp: is_ambient_def)
qed simp

text \<open>The agent speaks up unasked at exactly the configured rate: in a run of fewer than \<open>2 ^ 64\<close> messages with the same interval
  \<open>n\<close>, starting from a fresh pipeline, the number of ambient requests is the number of counted messages divided by \<open>n\<close>, and
  only eligible messages are counted, so there is at most one ambient request for \<open>n\<close> eligible messages.\<close>

theorem ambient_rate:
  assumes "pl_eligible p = 0" "handle_all p xs = (p2, rs)" "list_all (\<lambda>x. ev_every (snd x) = n) xs" "0 < n" "length xs < 2 ^ 64"
  shows "length (filter is_ambient rs) = unat (pl_eligible p2) div unat n
    \<and> unat n * length (filter is_ambient rs) \<le> length (filter (\<lambda>x. is_eligible (snd x)) xs)"
proof -
  have rate: "length (filter is_ambient rs) = unat (pl_eligible p2) div unat n"
    and bound: "unat (pl_eligible p2) \<le> length (filter (\<lambda>x. is_eligible (snd x)) xs)"
    using ambient_rate_from [OF assms(2-4)] assms(1,5) by auto
  have "unat n * length (filter is_ambient rs) \<le> unat (pl_eligible p2)"
    unfolding rate by (rule times_div_less_eq_dividend)
  from rate order_trans [OF this bound] show ?thesis
    by (rule conjI)
qed

text \<open>A conversation is quiet until a time at least \<open>until\<close>.\<close>

definition quiet_until :: "time \<Rightarrow> duration \<Rightarrow> str \<Rightarrow> pipeline \<Rightarrow> bool" where
  "quiet_until until d k p \<longleftrightarrow> (\<exists>q u. pl_quiet p = Some q \<and> qr_duration q = d \<and> qr_entries q k = Some u \<and> until \<le> u)"

lemma quiet_until_silence:
  "quiet_until u0 d k p \<Longrightarrow> pl_quiet p = Some q \<Longrightarrow> u0 \<le> now + d \<Longrightarrow> quiet_until u0 d k (p\<lparr>pl_quiet := Some (silence now c q)\<rparr>)"
  by (auto simp: quiet_until_def silence_def)

lemma quiet_until_check:
  "quiet_until u0 d k p \<Longrightarrow> now < u0 \<Longrightarrow> check_quiet now c p = (b, p1) \<Longrightarrow>
   quiet_until u0 d k p1 \<and> (quiet_key c = k \<longrightarrow> b)"
  by (auto simp: quiet_until_def check_quiet_def is_quiet_def split: option.splits if_splits prod.splits)

lemma quiet_until_ambient:
  assumes "quiet_until u0 d k p" "su_now su < u0" "try_ambient su c e p = (p1, out, us)"
  shows "quiet_until u0 d k p1 \<and> (quiet_key c = k \<longrightarrow> us = [] \<and> po_mode out \<noteq> AMBIENT)"
proof -
  obtain b q where q: "check_quiet (su_now su) c p = (b, q)"
    by (cases "check_quiet (su_now su) c p")
  have upd: "quiet_until u0 d k (q\<lparr>pl_eligible := w\<rparr>) \<longleftrightarrow> quiet_until u0 d k q" for w
    by (simp add: quiet_until_def)
  note kept = quiet_until_check [OF assms(1,2) q]
  show ?thesis
  proof (cases b)
    case True
    then show ?thesis
      using assms(1,3) kept by (auto simp: try_ambient_def q passed_def split: if_splits)
  next
    case False
    have "p1 = p \<and> us = [] \<and> out = passed \<or> p1 = q\<lparr>pl_eligible := pl_eligible q + 1\<rparr>"
      using assms(3) False by (simp add: try_ambient_def q Let_def split: if_splits)
    then show ?thesis
      using assms(1) kept False upd by (auto simp: passed_def)
  qed
qed

text \<open>No ambient request in an answer\<close>

definition keeps_quiet :: "participation_outcome \<times> api_invocation list \<Rightarrow> bool" where
  "keeps_quiet r \<longleftrightarrow> po_mode (fst r) \<noteq> AMBIENT \<and> list_all (\<lambda>iv. i_mode iv \<noteq> AMBIENT) (snd r)"

lemma submitted_keeps_quiet:
  assumes "submit_event su p e prompt mode origin d = (out, sent)" "is_eligible e" "mode \<noteq> AMBIENT"
  shows "keeps_quiet (out, sent)"
  using submit_event_cases [OF assms(1)] is_eligibleD [OF assms(2)] assms(3) by (auto simp: keeps_quiet_def carries_def)

lemma quiet_until_event:
  assumes "quiet_until u0 d k p" "u0 \<le> su_now su + d" "su_now su < u0" "handle_event su e p = (p1, out, sent)"
  shows "quiet_until u0 d k p1 \<and> (\<forall>c. event_context e = Inr c \<longrightarrow> quiet_key c = k \<longrightarrow> keeps_quiet (out, sent))"
  using assms(4)
proof (cases rule: handle_event_cases)
  case untouched
  then show ?thesis
    using assms(1) by (simp add: keeps_quiet_def)
next
  case (silenced ctx q)
  then show ?thesis
    using quiet_until_silence [OF assms(1) _ assms(2)] by (simp add: keeps_quiet_def passed_def)
next
  case (mentioned prompt)
  then show ?thesis
    using submitted_keeps_quiet [of su p e prompt MENTION] assms(1) by simp
next
  case (moderated body)
  then show ?thesis
    using submitted_keeps_quiet [of su p e body MODERATION] assms(1) by simp
next
  case (ambient ctx ms us body o1)
  have "list_all (\<lambda>iv. i_mode iv \<noteq> AMBIENT) ms"
    using ambient(1,5) submitted_keeps_quiet [of su p e body MODERATION False Pass o1 ms] by (auto simp: keeps_quiet_def)
  then show ?thesis
    using quiet_until_ambient [OF assms(1,3) ambient(3)] ambient(2,4) by (auto simp: keeps_quiet_def)
qed

lemma quiet_until_run:
  assumes "quiet_until u0 d k p" "list_all (\<lambda>x. u0 \<le> su_now (fst x) + d \<and> su_now (fst x) < u0) xs" "handle_all p xs = (p2, rs)"
    "i < length xs" "event_context (snd (xs ! i)) = Inr c" "quiet_key c = k"
  shows "keeps_quiet (rs ! i)"
  using assms
proof (induction xs arbitrary: p rs i)
  case (Cons x xs)
  obtain su e where x: "x = (su, e)"
    by (cases x)
  obtain p1 out sent where h: "handle_event su e p = (p1, out, sent)"
    by (metis prod_cases3)
  obtain rs1 where r: "handle_all p1 xs = (p2, rs1)" "rs = (out, sent) # rs1"
    using Cons.prems(3) x h by (auto split: prod.splits)
  have now: "u0 \<le> su_now su + d" "su_now su < u0"
    using Cons.prems(2) x by simp_all
  note e = quiet_until_event [OF Cons.prems(1) now h]
  show ?case
  proof (cases i)
    case 0
    then show ?thesis
      using e Cons.prems(5,6) x r(2) by simp
  next
    case (Suc j)
    then show ?thesis
      using Cons.IH [OF conjunct1 [OF e] _ r(1), of j] Cons.prems r(2) by simp
  qed
qed simp

text \<open>A polite request for quiet is honoured: once an eligible message of a conversation asked for it at time \<open>t\<close>, no message of
  that conversation that is handled before \<open>t + d\<close> causes an ambient request, whatever is said in this and in other
  conversations in between.\<close>

theorem quiet_is_respected:
  assumes "pl_quiet p = Some q" "is_eligible e" "event_context e = Inr ctx" "is_polite_quiet_request (trim_space (m_text (ev_message e)))"
    "handle_event su e p = (p1, out, sent)" "handle_all p1 xs = (p2, rs)"
    "list_all (\<lambda>x. su_now su \<le> su_now (fst x) \<and> su_now (fst x) < su_now su + qr_duration q) xs"
    "i < length xs" "event_context (snd (xs ! i)) = Inr c" "quiet_key c = quiet_key ctx"
  shows "keeps_quiet (rs ! i)"
proof -
  have "p1 = p\<lparr>pl_quiet := Some (silence (su_now su) ctx q)\<rparr>"
    using assms(1-5) by (simp add: handle_event_def)
  then have "quiet_until (su_now su + qr_duration q) (qr_duration q) (quiet_key ctx) p1"
    by (simp add: quiet_until_def silence_def)
  then show ?thesis
    by (rule quiet_until_run [OF _ _ assms(6,8,9,10)]) (use assms(7) in \<open>auto simp: list_all_iff\<close>)
qed

section \<open>Who speaks through the agent\<close>

lemma effects_ok_cases:
  assumes "effects_ok p e out sent" "iv \<in> set sent"
  shows "pl_submits p \<and> is_eligible e \<and> length (filter (\<lambda>v. i_mode v \<noteq> MODERATION) sent) \<le> 1
    \<and> length (filter (\<lambda>v. i_mode v = MODERATION) sent) \<le> 1
    \<and> (carries e MODERATION iv \<and> pl_ready p \<and> ev_candidate e
       \<or> carries e (if po_decision out = Claimed then MENTION else AMBIENT) iv)"
proof -
  obtain ms us where parts: "pl_submits p" "is_eligible e" "sent = ms @ us" "length ms \<le> 1" "length us \<le> 1"
      "ms \<noteq> [] \<longrightarrow> pl_ready p \<and> ev_candidate e" "list_all (carries e MODERATION) ms"
      "list_all (carries e (if po_decision out = Claimed then MENTION else AMBIENT)) us"
    using assms by (auto simp: effects_ok_def)
  have ms: "filter (\<lambda>v. i_mode v \<noteq> MODERATION) ms = []"
    using parts(7) by (auto simp: list_all_iff carries_def filter_empty_conv)
  have us: "filter (\<lambda>v. i_mode v = MODERATION) us = []"
    using parts(8) by (auto simp: list_all_iff carries_def filter_empty_conv split: if_splits)
  have "length (filter (\<lambda>v. i_mode v \<noteq> MODERATION) sent) \<le> 1" "length (filter (\<lambda>v. i_mode v = MODERATION) sent) \<le> 1"
    using parts(3-5) ms us by (auto intro: order_trans [OF length_filter_le])
  then show ?thesis
    using parts assms(2) by (auto simp: list_all_iff)
qed

lemma granted_public: "mode = MENTION \<or> mode = AMBIENT \<Longrightarrow> permanent_ban \<notin> set (granted s m mode) \<and> admin_commands \<notin> set (granted s m mode)"
  by (auto simp: granted_simps)

lemma granted_ambient: "\<not> is_creator s m \<Longrightarrow> granted s m AMBIENT = []"
  by (simp add: granted_def)

text \<open>The rights that an invocation in a mode may carry\<close>

definition rights_ok :: "trusted_snapshot \<Rightarrow> chat_message \<Rightarrow> api_invocation \<Rightarrow> bool" where
  "rights_ok s m iv \<longleftrightarrow>
     permanent_ban \<notin> set (a_caps (i_context iv)) \<and> admin_commands \<notin> set (a_caps (i_context iv))
     \<and> (a_caps (i_context iv) \<noteq> [] \<longrightarrow>
          is_creator s m \<or> i_mode iv \<noteq> AMBIENT \<and> (is_admin s m \<or> is_moderator s m))
     \<and> (dynamic_sql \<in> set (a_caps (i_context iv)) \<longrightarrow> is_creator s m \<or> is_admin s m)"

lemma speaks_for_rights: "speaks_for s m iv \<Longrightarrow> i_mode iv = MENTION \<or> i_mode iv = AMBIENT \<Longrightarrow> rights_ok s m iv"
proof -
  assume "speaks_for s m iv" "i_mode iv = MENTION \<or> i_mode iv = AMBIENT"
  moreover have "granted s m (i_mode iv) = []" if "\<not> is_creator s m" "\<not> is_admin s m" "\<not> is_moderator s m"
    using that by (simp add: granted_def)
  moreover have "a_caps (i_context iv) = [] \<longleftrightarrow> granted s m (i_mode iv) = []" if "speaks_for s m iv"
    using that by (metis set_empty speaks_for_def)
  ultimately show ?thesis
    using granted_ambient [of s m] by (auto simp: rights_ok_def speaks_for_def granted_simps)
qed

text \<open>C6. What the agent hears of a room is safe: whatever is submitted because of a message was written publicly by a user who is
  neither a bot nor the bot itself, and is not a command; there is at most one request on behalf of the author and at most one
  of the moderation.  A request on behalf of the author runs under the author's name, is a \<open>MENTION\<close> exactly if the message is
  claimed, never carries the rights of a permanent ban or of administration, carries rights only for creators, administrators
  and moderators, and unasked only for the creator.  A request of the moderation runs under the bot's name, holds the moderation
  commands alone, and targets the author, whom the gate has accepted.\<close>

theorem participation_is_safe:
  assumes "handle_room su gate ambient every s rm author (Some m) p = (p1, (claimed, err), sent)" "iv \<in> set sent"
  shows "\<not> m_whisper m \<and> \<not> m_is_whisper m \<and> \<not> equal_fold (m_name m) (rm_name rm) \<and> \<not> is_conventional_bot (m_name m)
    \<and> (\<forall>a. author = Some a \<longrightarrow> \<not> u_isbot a) \<and> match_command_prefix (trim_space (m_text m)) (current_prefixes rm) = []
    \<and> length (filter (\<lambda>v. i_mode v \<noteq> MODERATION) sent) \<le> 1 \<and> length (filter (\<lambda>v. i_mode v = MODERATION) sent) \<le> 1
    \<and> i_current iv = Some (m_text m) \<and> \<not> a_whisper (i_context iv) \<and> a_room (i_context iv) = tr_room s
    \<and> (if i_mode iv = MODERATION
       then \<exists>a g. author = Some a \<and> gate = Some g \<and> g (m_text m) \<and> \<not> u_isme a \<and> moderates s (rm_name rm) (u_name a) iv
       else i_mode iv = (if claimed then MENTION else AMBIENT) \<and> speaks_for s m iv \<and> rights_ok s m iv)"
proof -
  define e where "e = room_event gate ambient every s rm author m"
  obtain out where h: "handle_event su e p = (p1, out, sent)" and claimed: "claimed = (po_decision out = Claimed)"
    using assms(1) by (auto simp: handle_room_def e_def split: prod.splits)
  have sel: "ev_message e = m" "ev_bot e = rm_name rm" "ev_snapshot e = s" "ev_target e = moderation_target gate author m"
      "ev_candidate e = (moderation_target gate author m \<noteq> [])" "ev_author_bot e = (case author of None \<Rightarrow> False | Some a \<Rightarrow> u_isbot a)"
    by (simp_all add: e_def room_event_def Let_def)
  have prefixes: "match_command_prefix b (current_prefixes rm) = []"
    if "match_command_prefix b (case ev_prefixes e of None \<Rightarrow> [ev_prefix e] | Some ps \<Rightarrow> ps) = []" for b
    using that by (auto simp: e_def room_event_def Let_def match_command_prefix_def split: if_splits)
  note facts = effects_ok_cases [OF handle_event_effects [OF h] assms(2)]
  have "is_eligible e" using facts by simp
  then have author: "\<not> m_whisper m \<and> \<not> m_is_whisper m \<and> \<not> equal_fold (m_name m) (rm_name rm) \<and> \<not> is_conventional_bot (m_name m)
    \<and> (\<forall>a. author = Some a \<longrightarrow> \<not> u_isbot a) \<and> match_command_prefix (trim_space (m_text m)) (current_prefixes rm) = []"
    using prefixes by (auto simp: is_eligible_def Let_def sel)
  have target: "\<exists>a g. author = Some a \<and> gate = Some g \<and> g (m_text m) \<and> \<not> u_isme a \<and> ev_target e = u_name a" if "ev_candidate e"
    using that by (auto simp: sel moderation_target_def split: option.splits if_splits)
  have "i_current iv = Some (m_text m) \<and> \<not> a_whisper (i_context iv) \<and> a_room (i_context iv) = tr_room s
    \<and> (if i_mode iv = MODERATION
       then ev_candidate e \<and> moderates s (rm_name rm) (ev_target e) iv
       else i_mode iv = (if claimed then MENTION else AMBIENT) \<and> speaks_for s m iv)"
    using facts by (auto simp: carries_def sel claimed split: if_splits)
  then show ?thesis
    using author facts target speaks_for_rights [of s m iv] by (auto split: if_splits)
qed

text \<open>A mention at noon in a room with the creator\<close>

definition demo_message :: "str \<Rightarrow> str \<Rightarrow> chat_message" where
  "demo_message trip body = \<lparr>m_whisper = False, m_is_whisper = False, m_cmd = lit ''chat'', m_name = lit ''ann'', m_trip = trip, m_hash = lit ''h'',
     m_time = 0, m_channel = lit ''lounge'', m_text = body, m_type = [], m_mod = False, m_flair = JNull, m_color = []\<rparr>"

definition demo_trusted :: trusted_snapshot where
  "demo_trusted = \<lparr>tr_room = lit ''lounge'', tr_users = Some [lit ''ann''], tr_creator = lit ''zq'', tr_admins = [], tr_roles = Map.empty\<rparr>"

definition demo_event :: "str \<Rightarrow> str \<Rightarrow> agent_event" where
  "demo_event trip body = \<lparr>ev_message = demo_message trip body, ev_snapshot = demo_trusted, ev_bot = lit ''sat'', ev_prefix = [],
     ev_prefixes = Some [lit ''*''], ev_author_bot = False, ev_ambient = True, ev_every = 2, ev_candidate = False, ev_target = []\<rparr>"

lemma demo_plain:
  "is_eligible (demo_event (lit ''t'') (lit ''so'')) \<and> \<not> is_polite_quiet_request (lit ''so'') \<and> parse_mention (lit ''so'') (lit ''sat'') = None"
  by code_simp

lemma demo_mention:
  "is_eligible (demo_event (lit ''t'') (lit ''@Sat, hi'')) \<and> \<not> is_polite_quiet_request (lit ''@Sat, hi'')
   \<and> parse_mention (lit ''@Sat, hi'') (lit ''sat'') = Some (lit ''hi'')"
  by code_simp

lemma demo_quiet:
  "is_eligible (demo_event (lit ''t'') (lit ''please be quiet'')) \<and> is_polite_quiet_request (lit ''please be quiet'')"
  by code_simp

definition demo_services_of_room :: "time \<Rightarrow> submission_services" where
  "demo_services_of_room now = \<lparr>su_now = now, su_id = (\<lambda>_. lit ''r1''), su_submit = (\<lambda>_. None)\<rparr>"

definition demo_pipeline :: pipeline where
  "demo_pipeline = \<lparr>pl_submits = True, pl_ready = False, pl_quiet = Some \<lparr>qr_duration = 900, qr_entries = Map.empty\<rparr>, pl_eligible = 0\<rparr>"

definition demo_request :: "str \<Rightarrow> str \<Rightarrow> invocation_mode \<Rightarrow> bool \<Rightarrow> api_invocation" where
  "demo_request body prompt mode command =
     \<lparr>i_request = lit ''r1'', i_prompt = prompt,
      i_context = \<lparr>a_room = lit ''lounge'', a_nick = lit ''ann'', a_trip = Some (lit ''t''), a_hash = Some (lit ''h''), a_whisper = False,
        a_users = [lit ''ann''], a_caps = [], a_target = None\<rparr>,
      i_mode = mode, i_current = Some body, i_command = command\<rparr>"

definition demo_author :: api_context where
  "demo_author = \<lparr>a_room = lit ''lounge'', a_nick = lit ''ann'', a_trip = Some (lit ''t''), a_hash = Some (lit ''h''), a_whisper = False,
        a_users = [lit ''ann''], a_caps = [], a_target = None\<rparr>"

lemma demo_context: "event_context (demo_event (lit ''t'') body) = Inr demo_author"
  by (simp add: event_context_def demo_event_def demo_trusted_def demo_message_def new_api_context_def nullable_string_def
      distinct_first_def demo_author_def lit_def)

lemma demo_granted: "mode \<noteq> MODERATION \<Longrightarrow> granted demo_trusted (demo_message (lit ''t'') body) mode = []"
  by (simp add: granted_def is_creator_def is_admin_def is_moderator_def demo_trusted_def demo_message_def lit_def)

lemma demo_request_mode: "i_mode (demo_request body prompt mode command) = mode"
  by (simp add: demo_request_def)

lemma demo_texts: "java_strip (lit ''r1'') \<noteq> [] \<and> java_strip (lit ''hi'') \<noteq> [] \<and> java_strip (lit ''so'') \<noteq> []
   \<and> trim_space (lit ''so'') = lit ''so'' \<and> trim_space (lit ''@Sat, hi'') = lit ''@Sat, hi'' \<and> trim_space (lit ''please be quiet'') = lit ''please be quiet''"
  by code_simp

lemma demo_create:
  "java_strip prompt \<noteq> [] \<Longrightarrow> mode = MENTION \<or> mode = AMBIENT \<Longrightarrow>
   create_invocation (lit ''r1'') demo_trusted (demo_message (lit ''t'') body) prompt mode command = Inr (demo_request body prompt mode command)"
  using demo_texts
  by (auto simp: create_invocation_def demo_granted new_api_context_with_capabilities_def new_api_context_def new_api_invocation_def
      validate_api_invocation_def valid_mode_def demo_request_def demo_trusted_def demo_message_def users_copy_def nullable_string_def
      nonblank_def trim_space_def trim_left_def trim_right_def distinct_first_def lit_def granted_def is_creator_def is_admin_def
      is_moderator_def)

definition demo_lounge :: room where
  "demo_lounge = demo_room\<lparr>rm_name := lit ''sat'', rm_prefixes := [lit ''*'']\<rparr>"

lemma demo_room_event: "room_event None True 2 demo_trusted demo_lounge None (demo_message (lit ''t'') body) = demo_event (lit ''t'') body"
  by (simp add: room_event_def demo_event_def moderation_target_def demo_lounge_def current_prefixes_def demo_room_def lit_def Let_def)

lemma demo_event_sel [simp]:
  "ev_message (demo_event t body) = demo_message t body" "m_text (demo_message t body) = body"
  "ev_bot (demo_event t body) = lit ''sat''" "ev_snapshot (demo_event t body) = demo_trusted"
  "ev_ambient (demo_event t body)" "ev_every (demo_event t body) = 2" "\<not> ev_candidate (demo_event t body)"
  by (simp_all add: demo_event_def demo_message_def)

lemma demo_mention_handled:
  "handle_room (demo_services_of_room 0) None True 2 demo_trusted demo_lounge None (Some (demo_message (lit ''t'') (lit ''@Sat, hi''))) demo_pipeline
   = (demo_pipeline, (True, None), [demo_request (lit ''@Sat, hi'') (lit ''hi'') MENTION True])"
  using demo_texts demo_mention
  by (simp add: handle_room_def demo_room_event handle_event_def demo_context submit_event_def demo_create Let_def
      demo_services_of_room_def demo_pipeline_def del: lit_simps)

theorem participation_is_safe_witness:
  "i_mode (demo_request (lit ''@Sat, hi'') (lit ''hi'') MENTION True) = MENTION
   \<and> rights_ok demo_trusted (demo_message (lit ''t'') (lit ''@Sat, hi'')) (demo_request (lit ''@Sat, hi'') (lit ''hi'') MENTION True)"
  using participation_is_safe [OF demo_mention_handled, of "demo_request (lit ''@Sat, hi'') (lit ''hi'') MENTION True"]
  by (simp add: demo_request_mode del: lit_simps)

text \<open>Two ordinary messages, of which every second one is answered\<close>

definition so_event :: agent_event where "so_event = demo_event (lit ''t'') (lit ''so'')"

lemma so_handled:
  "handle_event (demo_services_of_room now) so_event (demo_pipeline\<lparr>pl_eligible := c\<rparr>) =
     (if (c + 1) mod 2 = 0
      then (demo_pipeline\<lparr>pl_eligible := c + 1\<rparr>, \<lparr>po_decision = Pass, po_submitted = True, po_mode = AMBIENT, po_error = None\<rparr>,
            [demo_request (lit ''so'') (lit ''so'') AMBIENT False])
      else (demo_pipeline\<lparr>pl_eligible := c + 1\<rparr>, passed, []))"
  using demo_texts demo_plain
  by (simp add: so_event_def handle_event_def demo_context try_ambient_def check_quiet_def is_quiet_def submit_event_def demo_create Let_def
      demo_services_of_room_def demo_pipeline_def del: lit_simps)

definition so_run :: "(submission_services \<times> agent_event) list" where
  "so_run = [(demo_services_of_room 0, so_event), (demo_services_of_room 1, so_event)]"

lemma so_run_handled:
  "handle_all (demo_pipeline\<lparr>pl_eligible := 0\<rparr>) so_run =
     (demo_pipeline\<lparr>pl_eligible := 2\<rparr>, [(passed, []),
        (\<lparr>po_decision = Pass, po_submitted = True, po_mode = AMBIENT, po_error = None\<rparr>, [demo_request (lit ''so'') (lit ''so'') AMBIENT False])])"
  by (simp add: so_run_def so_handled del: lit_simps)

theorem ambient_rate_witness:
  "length (filter is_ambient [(passed, []),
      (\<lparr>po_decision = Pass, po_submitted = True, po_mode = AMBIENT, po_error = None\<rparr>, [demo_request (lit ''so'') (lit ''so'') AMBIENT False])]) = 1
   \<and> 2 \<le> length (filter (\<lambda>x. is_eligible (snd x)) so_run)"
  using ambient_rate [OF _ so_run_handled, of 2]
  by (simp add: so_run_def so_event_def is_ambient_def passed_def del: lit_simps)

text \<open>After a request for quiet the second of two messages is not answered.\<close>

definition hush_event :: agent_event where "hush_event = demo_event (lit ''t'') (lit ''please be quiet'')"

definition hushed :: pipeline where
  "hushed = demo_pipeline\<lparr>pl_eligible := 1, pl_quiet := Some \<lparr>qr_duration = 900, qr_entries = [lit ''lounge|trip:t'' \<mapsto> 900]\<rparr>\<rparr>"

lemma demo_key: "quiet_key demo_author = lit ''lounge|trip:t''"
  by code_simp

lemma demo_silence:
  "silence 0 demo_author \<lparr>qr_duration = 900, qr_entries = Map.empty\<rparr> = \<lparr>qr_duration = 900, qr_entries = [lit ''lounge|trip:t'' \<mapsto> 900]\<rparr>"
  by (simp add: silence_def demo_key del: lit_simps)

lemma demo_is_quiet:
  "is_quiet 5 demo_author \<lparr>qr_duration = 900, qr_entries = [lit ''lounge|trip:t'' \<mapsto> 900]\<rparr> =
     (True, \<lparr>qr_duration = 900, qr_entries = [lit ''lounge|trip:t'' \<mapsto> 900]\<rparr>)"
  by (simp add: is_quiet_def demo_key del: lit_simps)

lemma hush_handled: "handle_event (demo_services_of_room 0) hush_event (demo_pipeline\<lparr>pl_eligible := 1\<rparr>) = (hushed, passed, [])"
  using demo_texts demo_quiet
  by (simp add: hush_event_def handle_event_def demo_context Let_def silence_def del: lit_simps)
     (simp add: demo_services_of_room_def demo_pipeline_def hushed_def demo_silence demo_is_quiet del: lit_simps)

lemma so_hushed: "handle_all hushed [(demo_services_of_room 5, so_event)] = (hushed, [(passed, [])])"
  using demo_texts demo_plain
  by (simp add: so_event_def handle_event_def demo_context try_ambient_def check_quiet_def is_quiet_def Let_def del: lit_simps)
     (simp add: demo_services_of_room_def demo_pipeline_def hushed_def demo_silence demo_is_quiet del: lit_simps)

theorem quiet_is_respected_witness: "keeps_quiet ([(passed, [] :: api_invocation list)] ! 0)"
  using quiet_is_respected [OF _ _ _ _ hush_handled so_hushed, of "\<lparr>qr_duration = 900, qr_entries = Map.empty\<rparr>" demo_author 0 demo_author]
    demo_quiet demo_texts demo_context
  by (simp add: hush_event_def so_event_def demo_pipeline_def demo_services_of_room_def demo_author_def del: lit_simps)

end
