(* ===== verification/Config.thy ===== *)
theory Config
  imports Prelude
begin

text \<open>
  The configuration of the agent, \<open>internal/config/agent_config.go\<close>, \<open>agent_sql_config.go\<close> and \<open>value_reader.go\<close>: how file,
  environment and runtime values, compatibility names and defaults combine, and which result is accepted.  A Go \<open>int\<close> has
  64 bits.  Fields of one type are a function on the names of the fields, so the tables of the code are lists here.  A
  loop over a Go map meets its entries in an order the code does not choose; each such loop treats its fields
  independently, and which of several errors is reported is left open.
\<close>

section \<open>Fields\<close>

datatype (plugins only: code) int_field =
    TimeoutMillis | RequestTimeoutMillis | MaxTokens | MaxSteps | MaxTools | MaxToolCalls | MaxCallsPerTool |
    MaxToolFailures | MaxPromptChars | MaxContextTokens | ContextReserveTokens | MaxRetries | RetryBackoffMillis |
    AmbientEveryMessages | QuietMinutes | ContextMessageLimit | MemoryTurns | MemoryRawTurns |
    MemorySummaryMaxChars | MemoryTtlMinutes | MaxOutputChars | MaxConcurrentRequests | QueueCapacity |
    ModerationJoinBurstCount | ModerationJoinWindowSeconds | ModerationJoinBurstWindowSeconds |
    ModerationSameHashCount | ModerationSameHashWindowSeconds | ModerationSameHashJoinCount |
    ModerationSameHashJoinWindowSeconds | ModerationNameClusterCount | ModerationNameClusterWindowSeconds |
    ModerationSuspiciousNameJoinCount | ModerationSuspiciousNameJoinWindowSeconds |
    ModerationPostKickWindowSeconds | ModerationActionCooldownSeconds | ModerationMessageBurstCount |
    ModerationMessageBurstWindowSeconds | ModerationRepeatedMessageCount | ModerationRepeatedMessageWindowSeconds |
    ModerationSecondBreachWindowSeconds | TimeoutSeconds | MaxCompletionTokens | MaxToolCallsPerTurn |
    ToolTimeoutMillis | MemoryTtlHours | DynamicSQLMaxSQLChars | DynamicSQLMaxRows | DynamicSQLMaxColumns |
    DynamicSQLMaxCellChars | DynamicSQLMaxResultChars | DynamicSQLTimeoutMillis | SQLMaxSQLChars | SQLMaxRows |
    SQLMaxColumns | SQLMaxCellChars | SQLMaxResultChars | SQLTimeoutMillis

datatype bool_field = Enabled | ThinkingEnabled | Ambient | ModerationEnabled | AmbientEnabled | DynamicSQLEnabled | SQLEnabled

datatype str_field = Endpoint | ModelName | APIKeyEnv | CreatorTrip | NoReplyMarker

record agent_config =
  ag_int :: "int_field \<Rightarrow> int"
  ag_bool :: "bool_field \<Rightarrow> bool"
  ag_str :: "str_field \<Rightarrow> str"

definition set_int :: "int_field \<Rightarrow> int \<Rightarrow> agent_config \<Rightarrow> agent_config" where
  "set_int f v c = c\<lparr>ag_int := (ag_int c)(f := v)\<rparr>"

definition set_bool :: "bool_field \<Rightarrow> bool \<Rightarrow> agent_config \<Rightarrow> agent_config" where
  "set_bool f v c = c\<lparr>ag_bool := (ag_bool c)(f := v)\<rparr>"

definition set_str :: "str_field \<Rightarrow> str \<Rightarrow> agent_config \<Rightarrow> agent_config" where
  "set_str f v c = c\<lparr>ag_str := (ag_str c)(f := v)\<rparr>"

text \<open>Arithmetic of 64 bits\<close>

definition wrap64 :: "int \<Rightarrow> int" where
  "wrap64 x = (x + 2 ^ 63) mod 2 ^ 64 - 2 ^ 63"

section \<open>Values\<close>

record value_reader =
  vr_runtime :: "str \<Rightarrow> str option"
  vr_environment :: "str \<Rightarrow> str option"
  vr_file :: "str \<Rightarrow> str option"

text \<open>\<open>strings.ToUpper\<close> of a key; keys are ASCII, as names of environment variables are.\<close>

definition upper_key :: "str \<Rightarrow> str" where
  "upper_key k = map (\<lambda>c. if is_lower_ascii c then c - 32 else c) k"

definition find_value :: "value_reader \<Rightarrow> str \<Rightarrow> str option" where
  "find_value r key =
     (let k = trim_space key;
          look = (\<lambda>m :: str \<Rightarrow> str option. case m k of Some v \<Rightarrow> Some v | None \<Rightarrow> m (upper_key k))
      in case look (vr_runtime r) of Some v \<Rightarrow> Some v
         | None \<Rightarrow> (case look (vr_environment r) of Some v \<Rightarrow> Some v | None \<Rightarrow> look (vr_file r)))"

text \<open>\<open>strconv.ParseInt(s, 10, 0)\<close> and \<open>strconv.ParseBool\<close>\<close>

definition parse_int10 :: "str \<Rightarrow> int option" where
  "parse_int10 s =
     (let neg = (s \<noteq> [] \<and> hd s = 45); ds = (if s \<noteq> [] \<and> (hd s = 45 \<or> hd s = 43) then tl s else s);
          v = (if neg then - digits_value ds else digits_value ds)
      in if ds \<noteq> [] \<and> list_all is_digit_ascii ds \<and> - (2 ^ 63) \<le> v \<and> v < 2 ^ 63 then Some v else None)"

definition parse_bool :: "str \<Rightarrow> bool option" where
  "parse_bool s =
     (if s \<in> {lit ''1'', lit ''t'', lit ''T'', lit ''TRUE'', lit ''true'', lit ''True''} then Some True
      else if s \<in> {lit ''0'', lit ''f'', lit ''F'', lit ''FALSE'', lit ''false'', lit ''False''} then Some False
      else None)"

datatype config_error = Not_bool str | Not_int str | Rejected | Ttl_overflow

definition read_string :: "value_reader \<Rightarrow> str \<Rightarrow> str \<Rightarrow> str" where
  "read_string r key fallback = (case find_value r key of Some v \<Rightarrow> v | None \<Rightarrow> fallback)"

definition read_bool :: "value_reader \<Rightarrow> str \<Rightarrow> bool \<Rightarrow> config_error + bool" where
  "read_bool r key fallback =
     (case find_value r key of
        None \<Rightarrow> Inr fallback
      | Some v \<Rightarrow>
          if trim_space v = [] then Inr fallback
          else case parse_bool (trim_space v) of None \<Rightarrow> Inl (Not_bool key) | Some x \<Rightarrow> Inr x)"

definition read_int :: "value_reader \<Rightarrow> str \<Rightarrow> int \<Rightarrow> config_error + int" where
  "read_int r key fallback =
     (case find_value r key of
        None \<Rightarrow> Inr fallback
      | Some v \<Rightarrow>
          if trim_space v = [] then Inr fallback
          else case parse_int10 (trim_space v) of None \<Rightarrow> Inl (Not_int key) | Some x \<Rightarrow> Inr x)"

section \<open>Environment names\<close>

definition aliases :: "(str \<times> str) list" where
  "aliases = [
     (lit ''enabled'', lit ''SATURN_AGENT_ENABLED''), (lit ''endpoint'', lit ''SATURN_AGENT_ENDPOINT''),
     (lit ''model'', lit ''SATURN_AGENT_MODEL''), (lit ''apiKeyEnv'', lit ''SATURN_AGENT_API_KEY_ENV''),
     (lit ''requestTimeoutMillis'', lit ''SATURN_AGENT_REQUEST_TIMEOUT_MILLIS''),
     (lit ''thinkingEnabled'', lit ''SATURN_AGENT_THINKING_ENABLED''),
     (lit ''maxTokens'', lit ''SATURN_AGENT_MAX_COMPLETION_TOKENS''),
     (lit ''maxSteps'', lit ''SATURN_AGENT_MAX_STEPS''),
     (lit ''maxTools'', lit ''SATURN_AGENT_MAX_TOOL_CALLS_PER_TURN''),
     (lit ''maxRetries'', lit ''SATURN_AGENT_MAX_RETRIES''),
     (lit ''maxToolCalls'', lit ''SATURN_AGENT_MAX_TOOL_CALLS''),
     (lit ''maxCallsPerTool'', lit ''SATURN_AGENT_MAX_CALLS_PER_TOOL''),
     (lit ''maxToolFailures'', lit ''SATURN_AGENT_MAX_TOOL_FAILURES''),
     (lit ''maxPromptChars'', lit ''SATURN_AGENT_MAX_PROMPT_CHARS''),
     (lit ''maxContextTokens'', lit ''SATURN_AGENT_MAX_CONTEXT_TOKENS''),
     (lit ''contextReserveTokens'', lit ''SATURN_AGENT_CONTEXT_RESERVE_TOKENS''),
     (lit ''retryBackoffMillis'', lit ''SATURN_AGENT_RETRY_BACKOFF_MILLIS''),
     (lit ''ambient'', lit ''SATURN_AGENT_AMBIENT_ENABLED''),
     (lit ''creatorTrip'', lit ''SATURN_AGENT_CREATOR_TRIP''),
     (lit ''ambientEveryMessages'', lit ''SATURN_AGENT_AMBIENT_EVERY_MESSAGES''),
     (lit ''quietMinutes'', lit ''SATURN_AGENT_QUIET_MINUTES''),
     (lit ''contextMessageLimit'', lit ''SATURN_AGENT_CONTEXT_MESSAGE_LIMIT''),
     (lit ''memoryTurns'', lit ''SATURN_AGENT_MEMORY_TURNS''),
     (lit ''memoryRawTurns'', lit ''SATURN_AGENT_MEMORY_RAW_TURNS''),
     (lit ''memorySummaryMaxChars'', lit ''SATURN_AGENT_MEMORY_SUMMARY_MAX_CHARS''),
     (lit ''noReplyMarker'', lit ''SATURN_AGENT_NO_REPLY_MARKER''),
     (lit ''maxOutputChars'', lit ''SATURN_AGENT_MAX_OUTPUT_CHARS''),
     (lit ''maxConcurrentRequests'', lit ''SATURN_AGENT_MAX_CONCURRENT_REQUESTS''),
     (lit ''queueCapacity'', lit ''SATURN_AGENT_QUEUE_CAPACITY''),
     (lit ''toolTimeoutMillis'', lit ''SATURN_AGENT_TOOL_TIMEOUT_MILLIS''),
     (lit ''moderationEnabled'', lit ''SATURN_AGENT_MODERATION_ENABLED''),
     (lit ''moderationMessageBurstCount'', lit ''SATURN_AGENT_MODERATION_MESSAGE_BURST_COUNT''),
     (lit ''moderationMessageBurstWindowSeconds'', lit ''SATURN_AGENT_MODERATION_MESSAGE_BURST_WINDOW_SECONDS''),
     (lit ''moderationRepeatedMessageCount'', lit ''SATURN_AGENT_MODERATION_REPEATED_MESSAGE_COUNT''),
     (lit ''moderationRepeatedMessageWindowSeconds'', lit ''SATURN_AGENT_MODERATION_REPEATED_MESSAGE_WINDOW_SECONDS''),
     (lit ''moderationSecondBreachWindowSeconds'', lit ''SATURN_AGENT_MODERATION_SECOND_BREACH_WINDOW_SECONDS''),
     (lit ''moderationPostKickWindowSeconds'', lit ''SATURN_AGENT_MODERATION_POST_KICK_WINDOW_SECONDS''),
     (lit ''moderationJoinBurstCount'', lit ''SATURN_AGENT_MODERATION_JOIN_BURST_COUNT''),
     (lit ''moderationJoinWindowSeconds'', lit ''SATURN_AGENT_MODERATION_JOIN_BURST_WINDOW_SECONDS''),
     (lit ''moderationSameHashCount'', lit ''SATURN_AGENT_MODERATION_SAME_HASH_JOIN_COUNT''),
     (lit ''moderationSameHashWindowSeconds'', lit ''SATURN_AGENT_MODERATION_SAME_HASH_JOIN_WINDOW_SECONDS''),
     (lit ''moderationNameClusterCount'', lit ''SATURN_AGENT_MODERATION_SUSPICIOUS_NAME_JOIN_COUNT''),
     (lit ''moderationNameClusterWindowSeconds'', lit ''SATURN_AGENT_MODERATION_SUSPICIOUS_NAME_JOIN_WINDOW_SECONDS''),
     (lit ''moderationActionCooldownSeconds'', lit ''SATURN_AGENT_MODERATION_ACTION_COOLDOWN_SECONDS''),
     (lit ''dynamicSqlEnabled'', lit ''SATURN_AGENT_DYNAMIC_SQL_ENABLED''),
     (lit ''dynamicSqlMaxSqlChars'', lit ''SATURN_AGENT_DYNAMIC_SQL_MAX_SQL_CHARS''),
     (lit ''dynamicSqlMaxRows'', lit ''SATURN_AGENT_DYNAMIC_SQL_MAX_ROWS''),
     (lit ''dynamicSqlMaxColumns'', lit ''SATURN_AGENT_DYNAMIC_SQL_MAX_COLUMNS''),
     (lit ''dynamicSqlMaxCellChars'', lit ''SATURN_AGENT_DYNAMIC_SQL_MAX_CELL_CHARS''),
     (lit ''dynamicSqlMaxResultChars'', lit ''SATURN_AGENT_DYNAMIC_SQL_MAX_RESULT_CHARS''),
     (lit ''dynamicSqlTimeoutMillis'', lit ''SATURN_AGENT_DYNAMIC_SQL_TIMEOUT_MILLIS'')]"

text \<open>A number of seconds or hours in an older variable, in the unit of the option; text that is no number is passed on.\<close>

definition scaled :: "int \<Rightarrow> str \<Rightarrow> str" where
  "scaled n v = (case parse_int10 (trim_space v) of Some x \<Rightarrow> itoa (wrap64 (x * n)) | None \<Rightarrow> v)"

definition aliased :: "(str \<Rightarrow> str option) \<Rightarrow> str \<Rightarrow> str option" where
  "aliased env key =
     (case env key of
        Some v \<Rightarrow> Some v
      | None \<Rightarrow>
          if key = lit ''timeoutMillis'' then
            (case env (lit ''SATURN_AGENT_TIMEOUT_MILLIS'') of
               Some v \<Rightarrow> Some v
             | None \<Rightarrow> map_option (scaled 1000) (env (lit ''SATURN_AGENT_TIMEOUT_SECONDS'')))
          else if key = lit ''memoryTtlMinutes'' then map_option (scaled 60) (env (lit ''SATURN_AGENT_MEMORY_TTL_HOURS''))
          else Option.bind (map_of aliases key) env)"

definition with_aliases :: "value_reader \<Rightarrow> value_reader" where
  "with_aliases r = r\<lparr>vr_environment := aliased (vr_environment r)\<rparr>"

section \<open>Defaults\<close>

definition set_default :: "int_field \<times> int \<Rightarrow> agent_config \<Rightarrow> agent_config" where
  "set_default d c = (if ag_int c (fst d) = 0 then set_int (fst d) (snd d) c else c)"

definition apply_defaults :: "(int_field \<times> int) list \<Rightarrow> agent_config \<Rightarrow> agent_config" where
  "apply_defaults ds c = fold set_default ds c"

definition default_str :: "str_field \<Rightarrow> str \<Rightarrow> agent_config \<Rightarrow> agent_config" where
  "default_str f v c = (if ag_str c f = [] then set_str f v c else c)"

definition execution_defaults :: "(int_field \<times> int) list" where
  "execution_defaults = [(TimeoutMillis, 30000), (RequestTimeoutMillis, 180000), (MaxTokens, 1024), (MaxSteps, 5), (MaxTools, 4),
     (MaxRetries, 2), (RetryBackoffMillis, 250), (MaxContextTokens, 16000), (ContextReserveTokens, 2048)]"

definition apply_execution_defaults :: "agent_config \<Rightarrow> agent_config" where
  "apply_execution_defaults c =
     apply_defaults execution_defaults
       (default_str APIKeyEnv (lit ''SATURN_AGENT_API_KEY'') (default_str Endpoint (lit ''http://localhost:16261'') c))"

definition sql_defaults :: "(int_field \<times> int) list" where
  "sql_defaults = [(SQLMaxSQLChars, 4000), (SQLMaxRows, 50), (SQLMaxColumns, 32), (SQLMaxCellChars, 2000),
     (SQLMaxResultChars, 32000), (SQLTimeoutMillis, 1000)]"

definition moderation_defaults :: "(int_field \<times> int) list" where
  "moderation_defaults = [(ModerationMessageBurstCount, 6), (ModerationMessageBurstWindowSeconds, 5), (ModerationRepeatedMessageCount, 4),
     (ModerationRepeatedMessageWindowSeconds, 10), (ModerationSecondBreachWindowSeconds, 30),
     (ModerationPostKickWindowSeconds, 600), (ModerationJoinBurstCount, 8), (ModerationJoinWindowSeconds, 10),
     (ModerationSameHashCount, 5), (ModerationSameHashWindowSeconds, 20), (ModerationNameClusterCount, 5),
     (ModerationNameClusterWindowSeconds, 20), (ModerationActionCooldownSeconds, 30)]"

definition remaining_defaults :: "(int_field \<times> int) list" where
  "remaining_defaults = [(AmbientEveryMessages, 8), (QuietMinutes, 15), (ContextMessageLimit, 60), (MemoryTurns, 30),
     (MemoryTtlMinutes, 10080), (MaxOutputChars, 8000), (MaxPromptChars, 8000), (MaxContextTokens, 16000),
     (ContextReserveTokens, 2048), (MaxToolCalls, 4), (MaxCallsPerTool, 2), (MaxToolFailures, 2),
     (MaxConcurrentRequests, 2), (ToolTimeoutMillis, 10000)]"

text \<open>Names of older versions\<close>

definition moderation_names :: "(int_field \<times> int_field) list" where
  "moderation_names = [(ModerationJoinWindowSeconds, ModerationJoinBurstWindowSeconds),
     (ModerationSameHashCount, ModerationSameHashJoinCount),
     (ModerationSameHashWindowSeconds, ModerationSameHashJoinWindowSeconds),
     (ModerationNameClusterCount, ModerationSuspiciousNameJoinCount),
     (ModerationNameClusterWindowSeconds, ModerationSuspiciousNameJoinWindowSeconds)]"

definition apply_moderation_names :: "agent_config \<Rightarrow> agent_config" where
  "apply_moderation_names c = fold (\<lambda>(f, g) c. set_default (f, ag_int c g) c) moderation_names c"

definition flat_sql_names :: "(int_field \<times> int_field) list" where
  "flat_sql_names = [(SQLMaxSQLChars, DynamicSQLMaxSQLChars), (SQLMaxRows, DynamicSQLMaxRows), (SQLMaxColumns, DynamicSQLMaxColumns),
     (SQLMaxCellChars, DynamicSQLMaxCellChars), (SQLMaxResultChars, DynamicSQLMaxResultChars),
     (SQLTimeoutMillis, DynamicSQLTimeoutMillis)]"

definition apply_flat_sql :: "agent_config \<Rightarrow> agent_config" where
  "apply_flat_sql c =
     fold (\<lambda>(f, g) c. if 0 < ag_int c g then set_int f (ag_int c g) c else c) flat_sql_names
       (if ag_bool c DynamicSQLEnabled then set_bool SQLEnabled True c else c)"

definition apply_old_name :: "int_field \<times> int_field \<times> int \<Rightarrow> agent_config \<Rightarrow> agent_config" where
  "apply_old_name x c =
     (case x of (f, g, n) \<Rightarrow> if ag_int c f = 0 \<and> 0 < ag_int c g then set_int f (wrap64 (ag_int c g * n)) c else c)"

text \<open>The configuration before any value is read\<close>

definition prepared_config :: "agent_config \<Rightarrow> agent_config" where
  "prepared_config c =
     (let c1 = fold apply_old_name [(TimeoutMillis, TimeoutSeconds, 1000), (MaxTokens, MaxCompletionTokens, 1),
                  (MaxTools, MaxToolCallsPerTurn, 1), (MemoryTtlMinutes, MemoryTtlHours, 60)] c;
          c2 = (if ag_bool c1 AmbientEnabled then set_bool Ambient True c1 else c1);
          c3 = apply_execution_defaults (apply_flat_sql (apply_moderation_names c2));
          c4 = default_str NoReplyMarker (lit ''[[SATURN_NO_REPLY]]'') (apply_defaults remaining_defaults c3)
      in apply_defaults moderation_defaults (apply_defaults sql_defaults c4))"

section \<open>Reading\<close>

datatype config_read =
    Read_bool bool_field str | Read_int int_field str | Read_str str_field str | Default_raw_turns | Default_summary_chars

definition config_reads :: "config_read list" where
  "config_reads = [
     Read_bool Enabled (lit ''enabled''), Read_str Endpoint (lit ''endpoint''), Read_str ModelName (lit ''model''),
     Read_str APIKeyEnv (lit ''apiKeyEnv''), Read_int TimeoutMillis (lit ''timeoutMillis''),
     Read_int RequestTimeoutMillis (lit ''requestTimeoutMillis''), Read_int MaxTokens (lit ''maxTokens''),
     Read_bool ThinkingEnabled (lit ''thinkingEnabled''), Read_int MaxSteps (lit ''maxSteps''),
     Read_int MaxTools (lit ''maxTools''), Read_int MaxToolCalls (lit ''maxToolCalls''),
     Read_int MaxCallsPerTool (lit ''maxCallsPerTool''), Read_int MaxToolFailures (lit ''maxToolFailures''),
     Read_int MaxPromptChars (lit ''maxPromptChars''), Read_int MaxContextTokens (lit ''maxContextTokens''),
     Read_int ContextReserveTokens (lit ''contextReserveTokens''), Read_int MaxRetries (lit ''maxRetries''),
     Read_int RetryBackoffMillis (lit ''retryBackoffMillis''), Read_bool Ambient (lit ''ambient''),
     Read_str CreatorTrip (lit ''creatorTrip''), Read_int AmbientEveryMessages (lit ''ambientEveryMessages''),
     Read_int QuietMinutes (lit ''quietMinutes''), Read_int ContextMessageLimit (lit ''contextMessageLimit''),
     Read_int MemoryTurns (lit ''memoryTurns''), Default_raw_turns, Read_int MemoryRawTurns (lit ''memoryRawTurns''),
     Default_summary_chars, Read_int MemorySummaryMaxChars (lit ''memorySummaryMaxChars''),
     Read_int MemoryTtlMinutes (lit ''memoryTtlMinutes''), Read_str NoReplyMarker (lit ''noReplyMarker''),
     Read_int MaxOutputChars (lit ''maxOutputChars''),
     Read_int MaxConcurrentRequests (lit ''maxConcurrentRequests''), Read_int QueueCapacity (lit ''queueCapacity''),
     Read_int ToolTimeoutMillis (lit ''toolTimeoutMillis'')]"

definition moderation_reads :: "config_read list" where
  "moderation_reads = [
     Read_bool ModerationEnabled (lit ''moderationEnabled''),
     Read_int ModerationMessageBurstCount (lit ''moderationMessageBurstCount''),
     Read_int ModerationMessageBurstWindowSeconds (lit ''moderationMessageBurstWindowSeconds''),
     Read_int ModerationRepeatedMessageCount (lit ''moderationRepeatedMessageCount''),
     Read_int ModerationRepeatedMessageWindowSeconds (lit ''moderationRepeatedMessageWindowSeconds''),
     Read_int ModerationSecondBreachWindowSeconds (lit ''moderationSecondBreachWindowSeconds''),
     Read_int ModerationPostKickWindowSeconds (lit ''moderationPostKickWindowSeconds''),
     Read_int ModerationJoinBurstCount (lit ''moderationJoinBurstCount''),
     Read_int ModerationJoinWindowSeconds (lit ''moderationJoinWindowSeconds''),
     Read_int ModerationSameHashCount (lit ''moderationSameHashCount''),
     Read_int ModerationSameHashWindowSeconds (lit ''moderationSameHashWindowSeconds''),
     Read_int ModerationNameClusterCount (lit ''moderationNameClusterCount''),
     Read_int ModerationNameClusterWindowSeconds (lit ''moderationNameClusterWindowSeconds''),
     Read_int ModerationActionCooldownSeconds (lit ''moderationActionCooldownSeconds'')]"

definition sql_reads :: "config_read list" where
  "sql_reads = [
     Read_bool SQLEnabled (lit ''dynamicSqlEnabled''), Read_int SQLMaxSQLChars (lit ''dynamicSqlMaxSqlChars''),
     Read_int SQLMaxRows (lit ''dynamicSqlMaxRows''), Read_int SQLMaxColumns (lit ''dynamicSqlMaxColumns''),
     Read_int SQLMaxCellChars (lit ''dynamicSqlMaxCellChars''),
     Read_int SQLMaxResultChars (lit ''dynamicSqlMaxResultChars''),
     Read_int SQLTimeoutMillis (lit ''dynamicSqlTimeoutMillis'')]"

definition read_field :: "value_reader \<Rightarrow> config_read \<Rightarrow> agent_config \<Rightarrow> config_error + agent_config" where
  "read_field r x c =
     (case x of
        Read_bool f n \<Rightarrow> map_sum id (\<lambda>v. set_bool f v c) (read_bool r n (ag_bool c f))
      | Read_int f n \<Rightarrow> map_sum id (\<lambda>v. set_int f v c) (read_int r n (ag_int c f))
      | Read_str f n \<Rightarrow> Inr (set_str f (read_string r n (ag_str c f)) c)
      | Default_raw_turns \<Rightarrow> Inr (set_default (MemoryRawTurns, min 20 (ag_int c MemoryTurns)) c)
      | Default_summary_chars \<Rightarrow> Inr (set_default (MemorySummaryMaxChars, 12000) c))"

fun read_fields :: "value_reader \<Rightarrow> config_read list \<Rightarrow> agent_config \<Rightarrow> config_error + agent_config" where
  "read_fields r [] c = Inr c"
| "read_fields r (x # xs) c = (case read_field r x c of Inl e \<Rightarrow> Inl e | Inr c' \<Rightarrow> read_fields r xs c')"

section \<open>Validation\<close>

text \<open>\<open>parse_url\<close> is \<open>net/url\<close>'s parser: the scheme and the host of a text that it accepts.\<close>

definition trim_slashes :: "str \<Rightarrow> str" where
  "trim_slashes s = trim_right (\<lambda>c. c = 47) s"

definition endpoint_ok :: "(str \<Rightarrow> (str \<times> str) option) \<Rightarrow> str \<Rightarrow> bool" where
  "endpoint_ok parse_url e \<longleftrightarrow>
     (case parse_url (trim_slashes e) of
        None \<Rightarrow> False | Some (scheme, host) \<Rightarrow> host \<noteq> [] \<and> (scheme = lit ''http'' \<or> scheme = lit ''https''))"

definition positive_fields :: "int_field list" where
  "positive_fields = [MaxTokens, MaxSteps, MaxTools, MaxToolCalls, MaxCallsPerTool, MaxToolFailures, MaxPromptChars, MaxContextTokens,
     ContextReserveTokens, MaxConcurrentRequests, ToolTimeoutMillis, RequestTimeoutMillis]"

definition nonnegative_fields :: "int_field list" where
  "nonnegative_fields = [MaxRetries, RetryBackoffMillis, QueueCapacity]"

definition enabled_fields :: "int_field list" where
  "enabled_fields = [AmbientEveryMessages, QuietMinutes, ContextMessageLimit]"

definition moderation_fields :: "int_field list" where
  "moderation_fields = [ModerationJoinBurstCount, ModerationJoinWindowSeconds, ModerationSameHashCount, ModerationSameHashWindowSeconds,
     ModerationNameClusterCount, ModerationNameClusterWindowSeconds, ModerationPostKickWindowSeconds,
     ModerationActionCooldownSeconds, ModerationMessageBurstCount, ModerationMessageBurstWindowSeconds,
     ModerationRepeatedMessageCount, ModerationRepeatedMessageWindowSeconds, ModerationSecondBreachWindowSeconds]"

definition sql_fields :: "int_field list" where
  "sql_fields = [SQLMaxSQLChars, SQLMaxRows, SQLMaxColumns, SQLMaxCellChars, SQLMaxResultChars, SQLTimeoutMillis]"

abbreviation config_limit :: int where "config_limit \<equiv> 1000000"

definition between :: "int \<Rightarrow> int \<Rightarrow> int \<Rightarrow> bool" where
  "between lo hi v \<longleftrightarrow> lo \<le> v \<and> v \<le> hi"

definition sql_valid :: "agent_config \<Rightarrow> bool" where
  "sql_valid c \<longleftrightarrow> list_all (\<lambda>f. 0 < ag_int c f \<and> ag_int c f \<le> config_limit) sql_fields"

definition valid_config :: "(str \<Rightarrow> (str \<times> str) option) \<Rightarrow> agent_config \<Rightarrow> bool" where
  "valid_config parse_url c \<longleftrightarrow>
     (ag_str c Endpoint \<noteq> [] \<longrightarrow> endpoint_ok parse_url (ag_str c Endpoint))
     \<and> 0 < ag_int c TimeoutMillis
     \<and> list_all (\<lambda>f. 0 < ag_int c f \<and> ag_int c f \<le> config_limit) positive_fields
     \<and> ag_int c ContextReserveTokens < ag_int c MaxContextTokens
     \<and> list_all (\<lambda>f. 0 \<le> ag_int c f \<and> ag_int c f \<le> config_limit) nonnegative_fields
     \<and> (ag_bool c Enabled \<longrightarrow> trim_space (ag_str c Endpoint) \<noteq> [] \<and> trim_space (ag_str c CreatorTrip) \<noteq> []
           \<and> trim_space (ag_str c NoReplyMarker) \<noteq> [] \<and> list_all (\<lambda>f. 0 < ag_int c f) enabled_fields)
     \<and> (ag_bool c ModerationEnabled \<longrightarrow> list_all (\<lambda>f. 0 < ag_int c f) moderation_fields)
     \<and> between 1 60 (ag_int c MemoryTurns)
     \<and> between 1 (ag_int c MemoryTurns) (ag_int c MemoryRawTurns)
     \<and> between 1 config_limit (ag_int c MemorySummaryMaxChars)
     \<and> between 1 525600 (ag_int c MemoryTtlMinutes)
     \<and> between 1 config_limit (ag_int c MaxOutputChars)
     \<and> between 1 config_limit (ag_int c MaxPromptChars)
     \<and> between 1 config_limit (ag_int c ToolTimeoutMillis)
     \<and> sql_valid c"

section \<open>Resolution\<close>

record resolved_config =
  rc_config :: agent_config
  rc_api_key :: str
  rc_timeout :: duration
  rc_memory_ttl :: duration

definition resolve_config ::
  "(str \<Rightarrow> (str \<times> str) option) \<Rightarrow> value_reader \<Rightarrow> agent_config \<Rightarrow> config_error + resolved_config" where
  "resolve_config parse_url reader c =
     (let r = with_aliases reader
      in case read_fields r (config_reads @ moderation_reads @ sql_reads) (prepared_config c) of
           Inl e \<Rightarrow> Inl e
         | Inr c1 \<Rightarrow>
             let v = set_str Endpoint (trim_slashes (trim_space (ag_str c1 Endpoint))) c1;
                 ttl = wrap64 (ag_int v MemoryTtlMinutes * 60000000000)
             in if \<not> valid_config parse_url v then Inl Rejected
                else if ttl \<le> 0 then Inl Ttl_overflow
                else Inr \<lparr>rc_config = v,
                       rc_api_key = (if ag_str v APIKeyEnv = [] then [] else read_string r (ag_str v APIKeyEnv) []),
                       rc_timeout = wrap64 (ag_int v TimeoutMillis * 1000000), rc_memory_ttl = ttl\<rparr>)"

section \<open>Lemmas\<close>

fun written :: "config_read \<Rightarrow> int_field option" where
  "written (Read_int f n) = Some f"
| "written Default_raw_turns = Some MemoryRawTurns"
| "written Default_summary_chars = Some MemorySummaryMaxChars"
| "written _ = None"

lemma set_sel [simp]:
  "ag_int (set_int f v c) = (ag_int c)(f := v)" "ag_bool (set_int f v c) = ag_bool c" "ag_str (set_int f v c) = ag_str c"
  "ag_int (set_bool b x c) = ag_int c" "ag_int (set_str t y c) = ag_int c"
  by (simp_all add: set_int_def set_bool_def set_str_def)




lemma read_fields_append:
  "read_fields r (xs @ ys) c = (case read_fields r xs c of Inl e \<Rightarrow> Inl e | Inr c' \<Rightarrow> read_fields r ys c')"
  by (induction xs arbitrary: c) (auto split: sum.splits)



lemma wrap64_id: "- (2 ^ 63) \<le> x \<Longrightarrow> x < 2 ^ 63 \<Longrightarrow> wrap64 x = x"
  by (simp add: wrap64_def)

lemma resolve_config_Inr:
  assumes "resolve_config parse_url reader c = Inr rc"
  obtains c1 where "read_fields (with_aliases reader) (config_reads @ moderation_reads @ sql_reads) (prepared_config c) = Inr c1"
    "ag_int (rc_config rc) = ag_int c1" "valid_config parse_url (rc_config rc)"
    "rc_timeout rc = wrap64 (ag_int (rc_config rc) TimeoutMillis * 1000000)"
    "rc_memory_ttl rc = wrap64 (ag_int (rc_config rc) MemoryTtlMinutes * 60000000000)"
  using assms by (auto simp: resolve_config_def Let_def split: sum.splits if_splits)

lemma ttl_exact: "valid_config parse_url c \<Longrightarrow>
    wrap64 (ag_int c MemoryTtlMinutes * 60000000000) = ag_int c MemoryTtlMinutes * 60000000000 \<and> 0 < ag_int c MemoryTtlMinutes"
  by (intro conjI wrap64_id) (auto simp: valid_config_def between_def)


text \<open>An accepted configuration keeps every limit that the agent relies on, its memory lives for exactly the configured
  minutes (the product never overflows, so the check of the code for that never fires), and the time limit of a request to the
  provider is exact for all timeouts up to about 292 years, beyond which it wraps around.\<close>

theorem config_in_bounds:
  assumes "resolve_config parse_url reader c = Inr rc"
  shows "let v = ag_int (rc_config rc) in
      (\<forall>f \<in> set (positive_fields @ sql_fields). 1 \<le> v f \<and> v f \<le> config_limit)
    \<and> v ContextReserveTokens < v MaxContextTokens
    \<and> 1 \<le> v MemoryRawTurns \<and> v MemoryRawTurns \<le> v MemoryTurns \<and> v MemoryTurns \<le> 60
    \<and> 0 \<le> v QueueCapacity \<and> 1 \<le> v MaxOutputChars \<and> v MaxOutputChars \<le> config_limit
    \<and> rc_memory_ttl rc = v MemoryTtlMinutes * 60000000000 \<and> 0 < rc_memory_ttl rc
    \<and> (v TimeoutMillis < 9223372036855 \<longrightarrow> rc_timeout rc = v TimeoutMillis * 1000000 \<and> 0 < rc_timeout rc)"
proof -
  from assms obtain c1 where v: "valid_config parse_url (rc_config rc)"
    and t: "rc_timeout rc = wrap64 (ag_int (rc_config rc) TimeoutMillis * 1000000)"
    and m: "rc_memory_ttl rc = wrap64 (ag_int (rc_config rc) MemoryTtlMinutes * 60000000000)"
    by (rule resolve_config_Inr)
  have "\<forall>f \<in> set (positive_fields @ sql_fields). 1 \<le> ag_int (rc_config rc) f \<and> ag_int (rc_config rc) f \<le> config_limit"
    using v by (auto simp: valid_config_def sql_valid_def list_all_iff)
  moreover have "0 \<le> ag_int (rc_config rc) QueueCapacity"
    using v by (auto simp: valid_config_def list_all_iff nonnegative_fields_def)
  moreover have "ag_int (rc_config rc) TimeoutMillis < 9223372036855 \<Longrightarrow>
      rc_timeout rc = ag_int (rc_config rc) TimeoutMillis * 1000000 \<and> 0 < rc_timeout rc"
    using v wrap64_id [of "ag_int (rc_config rc) TimeoutMillis * 1000000"] unfolding t by (auto simp: valid_config_def)
  ultimately show ?thesis
    using v assms ttl_exact [OF v] unfolding m by (auto simp: valid_config_def between_def Let_def)
qed

text \<open>The overflow check of the code never fires.\<close>

lemma read_fields_error: "read_fields r xs c = Inl e \<Longrightarrow> e \<noteq> Ttl_overflow"
  by (induction xs arbitrary: c)
    (auto simp: read_field_def read_bool_def read_int_def split: sum.splits config_read.splits option.splits if_splits)

lemma no_ttl_overflow: "resolve_config parse_url reader c \<noteq> Inl Ttl_overflow"
proof
  assume "resolve_config parse_url reader c = Inl Ttl_overflow"
  then obtain v where v: "valid_config parse_url v" "wrap64 (ag_int v MemoryTtlMinutes * 60000000000) \<le> 0"
    using read_fields_error by (auto simp: resolve_config_def Let_def split: sum.splits if_splits)
  then show False using ttl_exact [OF v(1)] by simp
qed

text \<open>A read that changes nothing\<close>

fun silent :: "value_reader \<Rightarrow> agent_config \<Rightarrow> config_read \<Rightarrow> bool" where
  "silent r c (Read_bool f n) \<longleftrightarrow> find_value r n = None"
| "silent r c (Read_int f n) \<longleftrightarrow> find_value r n = None"
| "silent r c (Read_str f n) \<longleftrightarrow> find_value r n = None"
| "silent r c Default_raw_turns \<longleftrightarrow> ag_int c MemoryRawTurns \<noteq> 0"
| "silent r c Default_summary_chars \<longleftrightarrow> ag_int c MemorySummaryMaxChars \<noteq> 0"

lemma read_fields_silent: "list_all (silent r c) xs \<Longrightarrow> read_fields r xs c = Inr c"
proof (induction xs)
  case (Cons x xs)
  then have "read_field r x c = Inr c"
    by (cases x) (auto simp: read_field_def read_bool_def read_int_def read_string_def set_int_def set_bool_def set_str_def set_default_def)
  then show ?case using Cons by simp
qed simp

definition demo_url :: "str \<Rightarrow> (str \<times> str) option" where
  "demo_url s = (if has_prefix s (lit ''http://'') then Some (lit ''http'', drop 7 s) else None)"

definition demo_config :: "int \<Rightarrow> agent_config" where
  "demo_config t =
     \<lparr>ag_int = (\<lambda>f. if f \<in> set (map snd flat_sql_names) then 0 else if f = MaxContextTokens then 4000 else if f = TimeoutMillis then t else 10),
      ag_bool = (\<lambda>_. False),
      ag_str = (\<lambda>f. case f of Endpoint \<Rightarrow> lit ''http://localhost:16261'' | APIKeyEnv \<Rightarrow> lit ''KEY'' | NoReplyMarker \<Rightarrow> lit ''[[NO]]'' | _ \<Rightarrow> [])\<rparr>"

definition demo_reader :: value_reader where
  "demo_reader = \<lparr>vr_runtime = [lit ''maxSteps'' \<mapsto> lit '' 9 ''], vr_environment = Map.empty, vr_file = [lit ''maxSteps'' \<mapsto> lit ''7'']\<rparr>"

lemma no_environment: "vr_environment r = Map.empty \<Longrightarrow> with_aliases r = r"
  by (cases r) (auto simp: with_aliases_def aliased_def fun_eq_iff simp del: lit_simps split: bind_splits)

lemma defaults_silent: "\<forall>d \<in> set ds. ag_int c (fst d) \<noteq> 0 \<Longrightarrow> apply_defaults ds c = c"
  unfolding apply_defaults_def by (induction ds) (auto simp: set_default_def)

lemma demo_zero: "t \<noteq> 0 \<Longrightarrow> ag_int (demo_config t) f = 0 \<longleftrightarrow> f \<in> {DynamicSQLMaxSQLChars, DynamicSQLMaxRows,
    DynamicSQLMaxColumns, DynamicSQLMaxCellChars, DynamicSQLMaxResultChars, DynamicSQLTimeoutMillis}"
  by (simp add: demo_config_def flat_sql_names_def)

lemma demo_prepared:
  assumes t: "t \<noteq> 0"
  shows "prepared_config (demo_config t) = demo_config t"
proof -
  note z = demo_zero [OF t]
  have b: "ag_bool (demo_config t) f = False" for f by (simp add: demo_config_def)
  have 1: "fold apply_old_name [(TimeoutMillis, TimeoutSeconds, 1000), (MaxTokens, MaxCompletionTokens, 1),
      (MaxTools, MaxToolCallsPerTurn, 1), (MemoryTtlMinutes, MemoryTtlHours, 60)] (demo_config t) = demo_config t"
    by (simp add: apply_old_name_def z)
  have 2: "apply_moderation_names (demo_config t) = demo_config t"
    by (simp add: apply_moderation_names_def moderation_names_def set_default_def z)
  have 3: "apply_flat_sql (demo_config t) = demo_config t"
    by (simp add: apply_flat_sql_def flat_sql_names_def b) (simp add: demo_config_def flat_sql_names_def)
  have 4: "apply_defaults execution_defaults (demo_config t) = demo_config t"
    "apply_defaults remaining_defaults (demo_config t) = demo_config t"
    "apply_defaults sql_defaults (demo_config t) = demo_config t" "apply_defaults moderation_defaults (demo_config t) = demo_config t"
    by (rule defaults_silent; simp add: execution_defaults_def remaining_defaults_def sql_defaults_def moderation_defaults_def z)+
  have 5: "default_str f v (demo_config t) = demo_config t" if "f \<in> {APIKeyEnv, Endpoint, NoReplyMarker}" for f v
    using that by (auto simp: default_str_def demo_config_def)
  show ?thesis unfolding prepared_config_def 1 Let_def by (simp add: b 2 3 apply_execution_defaults_def 4 5)
qed

abbreviation all_reads :: "config_read list" where
  "all_reads \<equiv> config_reads @ moderation_reads @ sql_reads"

lemma demo_reads:
  "all_reads = takeWhile (\<lambda>x. written x \<noteq> Some MaxSteps) all_reads
     @ Read_int MaxSteps (lit ''maxSteps'') # tl (dropWhile (\<lambda>x. written x \<noteq> Some MaxSteps) all_reads)"
  by code_simp

lemma demo_silent:
  "list_all (silent demo_reader (demo_config 500)) (takeWhile (\<lambda>x. written x \<noteq> Some MaxSteps) all_reads)"
  "list_all (silent demo_reader (set_int MaxSteps 9 (demo_config 500))) (tl (dropWhile (\<lambda>x. written x \<noteq> Some MaxSteps) all_reads))"
  by code_simp+

lemma demo_read: "read_fields demo_reader all_reads (demo_config 500) = Inr (set_int MaxSteps 9 (demo_config 500))"
proof -
  have "read_field demo_reader (Read_int MaxSteps (lit ''maxSteps'')) (demo_config 500) = Inr (set_int MaxSteps 9 (demo_config 500))"
  proof -
    have "read_int demo_reader (lit ''maxSteps'') (ag_int (demo_config 500) MaxSteps) = Inr 9" by code_simp
    then show ?thesis by (simp add: read_field_def)
  qed
  then show ?thesis
    using read_fields_silent [OF demo_silent(1)] read_fields_silent [OF demo_silent(2)]
    by (subst demo_reads) (simp add: read_fields_append)
qed

definition demo_resolved :: resolved_config where
  "demo_resolved = \<lparr>rc_config = set_int MaxSteps 9 (demo_config 500), rc_api_key = [], rc_timeout = 500000000,
     rc_memory_ttl = 600000000000\<rparr>"

lemma demo_valid: "valid_config demo_url (set_int MaxSteps 9 (demo_config 500))"
  by code_simp

lemma demo_endpoint:
  "trim_slashes (trim_space (lit ''http://localhost:16261'')) = lit ''http://localhost:16261''" "find_value demo_reader (lit ''KEY'') = None"
  by code_simp+

lemma demo_resolve: "resolve_config demo_url demo_reader (demo_config 500) = Inr demo_resolved"
proof -
  have r: "with_aliases demo_reader = demo_reader" by (rule no_environment) (simp add: demo_reader_def)
  have e: "set_str Endpoint (trim_slashes (trim_space (ag_str (set_int MaxSteps 9 (demo_config 500)) Endpoint))) (set_int MaxSteps 9 (demo_config 500))
      = set_int MaxSteps 9 (demo_config 500)"
    using demo_endpoint(1) by (auto simp: set_str_def set_int_def demo_config_def fun_eq_iff simp del: lit_simps)
  have k: "ag_str (set_int MaxSteps 9 (demo_config 500)) APIKeyEnv = lit ''KEY''" by (simp add: demo_config_def)
  have v: "ag_int (set_int MaxSteps 9 (demo_config 500)) MemoryTtlMinutes = 10" "ag_int (set_int MaxSteps 9 (demo_config 500)) TimeoutMillis = 500"
    by (simp_all add: demo_config_def flat_sql_names_def)
  show ?thesis
    unfolding resolve_config_def r Let_def demo_prepared [of 500, simplified] demo_read sum.case e v k
    using demo_valid demo_endpoint(2) by (simp add: read_string_def demo_resolved_def wrap64_def)
qed

text \<open>A timeout in milliseconds has no upper limit: a large one is accepted and its product is negative.\<close>

lemma timeout_wraps:
  "\<exists>rc. resolve_config demo_url \<lparr>vr_runtime = Map.empty, vr_environment = Map.empty, vr_file = Map.empty\<rparr> (demo_config 9223372036855)
      = Inr rc \<and> rc_timeout rc < 0"
proof -
  let ?r = "\<lparr>vr_runtime = Map.empty, vr_environment = Map.empty, vr_file = Map.empty\<rparr>" and ?c = "demo_config 9223372036855"
  have r: "with_aliases ?r = ?r" by (rule no_environment) simp
  have none: "find_value ?r n = None" for n by (simp add: find_value_def Let_def)
  have "silent ?r ?c x" for x by (cases x) (simp_all add: none demo_zero)
  then have reads: "read_fields ?r all_reads ?c = Inr ?c" by (intro read_fields_silent) (simp add: list_all_iff)
  have e: "set_str Endpoint (trim_slashes (trim_space (ag_str ?c Endpoint))) ?c = ?c"
    using demo_endpoint(1) by (auto simp: set_str_def demo_config_def fun_eq_iff simp del: lit_simps)
  have v: "ag_int ?c MemoryTtlMinutes = 10" "ag_int ?c TimeoutMillis = 9223372036855" by (simp_all add: demo_config_def flat_sql_names_def)
  have "valid_config demo_url ?c" by code_simp
  then show ?thesis
    unfolding resolve_config_def r Let_def demo_prepared [of 9223372036855, simplified] reads sum.case e v by (simp add: wrap64_def)
qed


theorem config_in_bounds_witness:
  "resolve_config demo_url demo_reader (demo_config 500) = Inr demo_resolved \<and> rc_timeout demo_resolved = 500000000
   \<and> rc_memory_ttl demo_resolved = 600000000000"
  using demo_resolve config_in_bounds [OF demo_resolve] by (simp add: demo_resolved_def Let_def)

end
