(* ===== verification/HostLifecycle.thy ===== *)
theory HostLifecycle
  imports Prelude Transition
begin

text \<open>
  \<open>internal/core/host_lifecycle.go\<close>: the owner of restart and shutdown requests.  Everything the code
  does under \<open>h.mu\<close> is one atomic operation; the goroutine \<open>run\<close> is a program counter that moves
  between them; callers, the parent context and the callbacks are the environment.  A
  \<open>LifecycleOperation\<close> is a record in a store under its identity, so that a handle coalesced
  requests share is one number.
\<close>

section \<open>State\<close>

datatype lc_kind = Restart | Shutdown

datatype lc_error =
    Host_closed
  | Host_busy
  | Host_terminal
  | Host_unavailable
  | Host_superseded
  | Host_context
  | Host_callback str

text \<open>\<open>op_result\<close> is \<open>None\<close> until the operation has finished; then the error, if any.\<close>

record lc_operation =
  op_kind :: lc_kind
  op_result :: "lc_error option option"

datatype run_loop =
    Waiting
  | Woken
  | Calling nat
  | Running nat
  | Completed nat
  | Closing "nat option"
  | Clearing
  | Exited

record host =
  h_restart :: bool
  h_shutdown :: bool
  h_reporter :: bool
  h_pending :: "nat option"
  h_active :: "nat option"
  h_dispatches :: int
  h_terminal :: bool
  h_closed :: bool
  h_cancelled :: bool
  h_wake :: bool
  h_loop :: run_loop
  h_ops :: "nat \<rightharpoonup> lc_operation"
  h_next :: nat
  h_reports :: "(nat \<times> lc_operation) list"

definition new_host :: "bool \<Rightarrow> bool \<Rightarrow> bool \<Rightarrow> host" where
  "new_host restart shutdown reporter =
     \<lparr>h_restart = restart, h_shutdown = shutdown, h_reporter = reporter, h_pending = None,
      h_active = None, h_dispatches = 0, h_terminal = False, h_closed = False, h_cancelled = False,
      h_wake = False, h_loop = Waiting, h_ops = Map.empty, h_next = 0, h_reports = []\<rparr>"

section \<open>Operations\<close>

text \<open>\<open>signal\<close> on a channel with room for one token\<close>

definition signal :: "host \<Rightarrow> host" where
  "signal h = h\<lparr>h_wake := True\<rparr>"

text \<open>\<open>LifecycleOperation.finish\<close>: the first result stays\<close>

definition finish_op :: "nat \<Rightarrow> lc_error option \<Rightarrow> host \<Rightarrow> host" where
  "finish_op n err h =
     (case h_ops h n of
        None \<Rightarrow> h
      | Some op1 \<Rightarrow>
          if op_result op1 = None then h\<lparr>h_ops := (h_ops h)(n \<mapsto> op1\<lparr>op_result := Some err\<rparr>)\<rparr> else h)"

definition report_op :: "nat \<Rightarrow> host \<Rightarrow> host" where
  "report_op n h =
     (case h_ops h n of
        None \<Rightarrow> h
      | Some op1 \<Rightarrow> if h_reporter h then h\<lparr>h_reports := h_reports h @ [(n, op1)]\<rparr> else h)"

definition complete_op :: "nat \<Rightarrow> lc_error option \<Rightarrow> host \<Rightarrow> host" where
  "complete_op n err h = report_op n (finish_op n err h)"

definition admission_error :: "host \<Rightarrow> lc_error option" where
  "admission_error h =
     (if h_closed h \<or> h_cancelled h then Some Host_closed
      else if h_terminal h then Some Host_terminal
      else None)"

text \<open>\<open>BeginDispatch\<close> and the release function it returns, which the caller's \<open>sync.Once\<close> runs once\<close>

definition begin_dispatch :: "bool \<Rightarrow> host \<Rightarrow> lc_error option \<times> host" where
  "begin_dispatch ctx_ended h =
     (if ctx_ended then (Some Host_context, h)
      else case admission_error h of
        Some e \<Rightarrow> (Some e, h)
      | None \<Rightarrow>
          if h_pending h \<noteq> None \<or> h_active h \<noteq> None then (Some Host_busy, h)
          else (None, h\<lparr>h_dispatches := h_dispatches h + 1\<rparr>))"

definition release_dispatch :: "host \<Rightarrow> host" where
  "release_dispatch h = signal (h\<lparr>h_dispatches := h_dispatches h - 1\<rparr>)"

definition kind_of :: "host \<Rightarrow> nat option \<Rightarrow> lc_kind option" where
  "kind_of h n = Option.bind n (\<lambda>i. map_option op_kind (h_ops h i))"

text \<open>An admission: the shared operation and whether an earlier request is shared.\<close>

definition request :: "bool \<Rightarrow> lc_kind \<Rightarrow> host \<Rightarrow> (lc_error + nat \<times> bool) \<times> host" where
  "request ctx_ended kind h =
     (if ctx_ended then (Inl Host_context, h)
      else if h_closed h \<or> h_cancelled h then (Inl Host_closed, h)
      else if (kind = Restart \<and> \<not> h_restart h) \<or> (kind = Shutdown \<and> \<not> h_shutdown h)
        then (Inl Host_unavailable, h)
      else if h_terminal h \<and> kind \<noteq> Shutdown then (Inl Host_terminal, h)
      else if kind_of h (h_active h) = Some kind then (Inr (the (h_active h), True), h)
      else if kind_of h (h_pending h) = Some kind then (Inr (the (h_pending h), True), h)
      else if h_terminal h then (Inl Host_terminal, h)
      else
        let n = h_next h;
            superseded = h_pending h;
            h1 = h\<lparr>h_terminal := (h_terminal h \<or> kind = Shutdown), h_pending := Some n,
                   h_ops := (h_ops h)(n \<mapsto> \<lparr>op_kind = kind, op_result = None\<rparr>), h_next := Suc n\<rparr>;
            h2 = (case superseded of None \<Rightarrow> h1 | Some old \<Rightarrow> complete_op old (Some Host_superseded) h1)
        in (Inr (n, False), signal h2))"

text \<open>The locked section of \<open>run\<close> after it has been woken\<close>

definition loop_check :: "host \<Rightarrow> host" where
  "loop_check h =
     (if h_closed h \<or> h_cancelled h then h\<lparr>h_closed := True, h_loop := Closing (h_pending h)\<rparr>
      else if h_dispatches h \<noteq> 0 \<or> h_pending h = None then h\<lparr>h_loop := Waiting\<rparr>
      else h\<lparr>h_pending := None, h_active := h_pending h, h_loop := Calling (the (h_pending h))\<rparr>)"

text \<open>The locked section after a callback has completed\<close>

definition loop_done :: "host \<Rightarrow> host" where
  "loop_done h =
     (let h1 = h\<lparr>h_active := None, h_loop := Waiting\<rparr>
      in if h_pending h1 \<noteq> None then signal h1 else h1)"

text \<open>The completion of a pending operation when the owner is closed, and the end of \<open>run\<close>\<close>

definition loop_close :: "nat option \<Rightarrow> host \<Rightarrow> host" where
  "loop_close pending h =
     (case pending of
        None \<Rightarrow> h\<lparr>h_loop := Clearing\<rparr>
      | Some n \<Rightarrow> (complete_op n (Some Host_closed) h)\<lparr>h_loop := Clearing\<rparr>)"

definition loop_exit :: "host \<Rightarrow> host" where
  "loop_exit h = h\<lparr>h_pending := None, h_loop := Exited, h_cancelled := True\<rparr>"

definition close_host :: "host \<Rightarrow> host" where
  "close_host h = signal (h\<lparr>h_closed := True, h_cancelled := True\<rparr>)"

text \<open>\<open>Terminal\<close>, and the condition \<open>Wait\<close> waits for\<close>

definition terminal :: "host \<Rightarrow> bool" where
  "terminal h \<longleftrightarrow> h_terminal h \<or> h_closed h \<or> h_cancelled h"

definition wait_over :: "host \<Rightarrow> bool" where
  "wait_over h \<longleftrightarrow> h_pending h = None \<and> h_active h = None"

section \<open>Steps\<close>

text \<open>The steps of \<open>run\<close>: \<open>wake\<close> and \<open>stop\<close> are the two branches of its \<open>select\<close>, \<open>call_cancelled\<close> and
  \<open>call\<close> the two of \<open>callHostLifecycle\<close>, and a callback that returns or panics with \<open>err\<close> is \<open>callback\<close>.\<close>

inductive loop_step :: "host \<Rightarrow> host \<Rightarrow> bool" where
  wake: "h_loop h = Waiting \<Longrightarrow> h_wake h \<Longrightarrow> loop_step h (h\<lparr>h_wake := False, h_loop := Woken\<rparr>)"
| stop: "h_loop h = Waiting \<Longrightarrow> h_cancelled h \<Longrightarrow> loop_step h (h\<lparr>h_loop := Woken\<rparr>)"
| check: "h_loop h = Woken \<Longrightarrow> loop_step h (loop_check h)"
| call_cancelled: "h_loop h = Calling n \<Longrightarrow> h_cancelled h \<Longrightarrow>
    loop_step h ((complete_op n (Some Host_context) h)\<lparr>h_loop := Completed n\<rparr>)"
| call: "h_loop h = Calling n \<Longrightarrow> \<not> h_cancelled h \<Longrightarrow> loop_step h (h\<lparr>h_loop := Running n\<rparr>)"
| callback: "h_loop h = Running n \<Longrightarrow>
    loop_step h ((complete_op n (map_option Host_callback err) h)\<lparr>h_loop := Completed n\<rparr>)"
| completed: "h_loop h = Completed n \<Longrightarrow> loop_step h (loop_done h)"
| closing: "h_loop h = Closing p \<Longrightarrow> loop_step h (loop_close p h)"
| clearing: "h_loop h = Clearing \<Longrightarrow> loop_step h (loop_exit h)"

text \<open>The steps of the other goroutines, between those of \<open>run\<close>\<close>

inductive host_step :: "host \<Rightarrow> host \<Rightarrow> bool" where
  dispatch: "begin_dispatch c h = (r, h') \<Longrightarrow> host_step h h'"
| release: "0 < h_dispatches h \<Longrightarrow> host_step h (release_dispatch h)"
| request: "request c k h = (r, h') \<Longrightarrow> host_step h h'"
| cancel: "host_step h (h\<lparr>h_cancelled := True\<rparr>)"
| close: "host_step h (close_host h)"
| loop: "loop_step h h' \<Longrightarrow> host_step h h'"

definition host_init :: "host \<Rightarrow> bool" where
  "host_init h \<longleftrightarrow> (\<exists>r s p. h = new_host r s p)"

section \<open>The invariant\<close>

definition unfinished :: "(nat \<rightharpoonup> lc_operation) \<Rightarrow> nat \<Rightarrow> bool" where
  "unfinished ops n \<longleftrightarrow> (\<exists>op1. ops n = Some op1 \<and> op_result op1 = None)"

definition finished :: "(nat \<rightharpoonup> lc_operation) \<Rightarrow> nat \<Rightarrow> bool" where
  "finished ops n \<longleftrightarrow> (\<exists>op1. ops n = Some op1 \<and> op_result op1 \<noteq> None)"

text \<open>An operation that has not finished is pending or active, and the run loop says which.\<close>

definition store_ok :: "host \<Rightarrow> bool" where
  "store_ok h \<longleftrightarrow>
     dom (h_ops h) = {..<h_next h}
     \<and> (\<forall>n. h_pending h \<noteq> Some n \<and> h_active h \<noteq> Some n \<longrightarrow> \<not> unfinished (h_ops h) n)
     \<and> (\<forall>n. h_pending h = Some n \<longrightarrow> h_active h \<noteq> Some n \<and>
          (if h_loop h = Clearing then finished (h_ops h) n else unfinished (h_ops h) n))"

definition loop_ok :: "host \<Rightarrow> bool" where
  "loop_ok h \<longleftrightarrow> (case h_loop h of
       Waiting \<Rightarrow> h_active h = None
     | Woken \<Rightarrow> h_active h = None
     | Calling n \<Rightarrow> h_active h = Some n \<and> unfinished (h_ops h) n
     | Running n \<Rightarrow> h_active h = Some n \<and> unfinished (h_ops h) n
     | Completed n \<Rightarrow> h_active h = Some n \<and> finished (h_ops h) n
     | Closing p \<Rightarrow> h_active h = None \<and> h_closed h \<and> h_pending h = p
     | Clearing \<Rightarrow> h_active h = None \<and> h_closed h
     | Exited \<Rightarrow> h_active h = None \<and> h_pending h = None \<and> h_closed h)"

definition lease_ok :: "host \<Rightarrow> bool" where
  "lease_ok h \<longleftrightarrow> 0 \<le> h_dispatches h \<and> (h_active h \<noteq> None \<longrightarrow> h_dispatches h = 0)"

text \<open>A pending operation that could run has a token in the wake channel.\<close>

definition wake_ok :: "host \<Rightarrow> bool" where
  "wake_ok h \<longleftrightarrow> (h_closed h \<longrightarrow> h_cancelled h)
     \<and> (h_loop h = Waiting \<and> h_pending h \<noteq> None \<and> h_dispatches h = 0 \<longrightarrow> h_wake h \<or> h_cancelled h)"

text \<open>A shutdown is the last operation ever admitted and is never superseded.\<close>

definition shutdown_inv :: "bool \<Rightarrow> nat \<Rightarrow> (nat \<rightharpoonup> lc_operation) \<Rightarrow> bool" where
  "shutdown_inv tm nxt ops \<longleftrightarrow>
     (\<forall>n op1. ops n = Some op1 \<and> op_kind op1 = Shutdown \<longrightarrow>
        tm \<and> Suc n = nxt \<and> op_result op1 \<noteq> Some (Some Host_superseded))
     \<and> (tm \<longrightarrow> (\<exists>n op1. ops n = Some op1 \<and> op_kind op1 = Shutdown))"

text \<open>The reporter has seen the result of every finished operation, once.\<close>

definition reports_inv :: "bool \<Rightarrow> (nat \<times> lc_operation) list \<Rightarrow> (nat \<rightharpoonup> lc_operation) \<Rightarrow> bool" where
  "reports_inv reporter reports ops \<longleftrightarrow> (reporter \<longrightarrow>
     distinct (map fst reports)
     \<and> (\<forall>n op1. (n, op1) \<in> set reports \<longleftrightarrow> ops n = Some op1 \<and> op_result op1 \<noteq> None))"

definition host_inv :: "host \<Rightarrow> bool" where
  "host_inv h \<longleftrightarrow> store_ok h \<and> loop_ok h \<and> lease_ok h \<and> wake_ok h
     \<and> shutdown_inv (h_terminal h) (h_next h) (h_ops h)
     \<and> reports_inv (h_reporter h) (h_reports h) (h_ops h)"

lemmas host_inv_defs = host_inv_def store_ok_def loop_ok_def lease_ok_def wake_ok_def

lemma host_inv_init: "host_init h \<Longrightarrow> host_inv h"
  by (auto simp: host_init_def new_host_def host_inv_defs shutdown_inv_def reports_inv_def unfinished_def)

subsection \<open>Changes of the store\<close>

definition with_result :: "(nat \<rightharpoonup> lc_operation) \<Rightarrow> nat \<Rightarrow> lc_error option \<Rightarrow> (nat \<rightharpoonup> lc_operation)" where
  "with_result ops n err = ops(n \<mapsto> (the (ops n))\<lparr>op_result := Some err\<rparr>)"

lemma unfinished_with_result [simp]: "unfinished (with_result ops n err) m \<longleftrightarrow> m \<noteq> n \<and> unfinished ops m"
  by (auto simp: unfinished_def with_result_def)

lemma finished_with_result [simp]: "finished (with_result ops n err) m \<longleftrightarrow> m = n \<or> finished ops m"
  by (auto simp: finished_def with_result_def)

lemma dom_with_result: "unfinished ops n \<Longrightarrow> dom (with_result ops n err) = dom ops"
  by (auto simp: unfinished_def with_result_def)

lemma shutdown_with_result:
  assumes "shutdown_inv tm nxt ops" "unfinished ops n"
    and "err \<noteq> Some Host_superseded \<or> \<not> tm"
  shows "shutdown_inv tm nxt (with_result ops n err)"
proof -
  obtain op1 where op1: "ops n = Some op1" using assms(2) by (auto simp: unfinished_def)
  have kind: "with_result ops n err m = Some x \<Longrightarrow>
      \<exists>y. ops m = Some y \<and> op_kind y = op_kind x \<and> (m \<noteq> n \<longrightarrow> y = x) \<and> (m = n \<longrightarrow> op_result x = Some err)" for m x
    using op1 by (auto simp: with_result_def split: if_splits)
  have kept: "ops m = Some y \<Longrightarrow> \<exists>x. with_result ops n err m = Some x \<and> op_kind x = op_kind y" for m y
    using op1 by (auto simp: with_result_def)
  show ?thesis
    unfolding shutdown_inv_def
  proof (intro conjI allI impI, goal_cases)
    case (1 m x)
    then obtain y where "ops m = Some y" "op_kind y = Shutdown" using kind by metis
    then show ?case using assms(1) by (auto simp: shutdown_inv_def)
  next
    case (2 m x)
    then obtain y where "ops m = Some y" "op_kind y = Shutdown" using kind by metis
    then show ?case using assms(1) by (auto simp: shutdown_inv_def)
  next
    case (3 m x)
    then obtain y where y: "ops m = Some y" "op_kind y = Shutdown" "m \<noteq> n \<longrightarrow> y = x"
      "m = n \<longrightarrow> op_result x = Some err" using kind by metis
    then have "tm" "op_result y \<noteq> Some (Some Host_superseded)" using assms(1) by (auto simp: shutdown_inv_def)
    then show ?case using y assms(3) by auto
  next
    case 4
    then obtain m y where "ops m = Some y" "op_kind y = Shutdown" using assms(1) by (auto simp: shutdown_inv_def)
    then show ?case using kept by metis
  qed
qed

lemma reports_with_result:
  assumes "reports_inv reporter reports ops" "unfinished ops n"
  shows "reports_inv reporter
    (if reporter then reports @ [(n, (the (ops n))\<lparr>op_result := Some err\<rparr>)] else reports) (with_result ops n err)"
proof (cases reporter)
  case True
  obtain op1 where op1: "ops n = Some op1" "op_result op1 = None" using assms(2) by (auto simp: unfinished_def)
  then have "n \<notin> fst ` set reports"
    using assms(1) True by (force simp: reports_inv_def)
  then show ?thesis
    using assms(1) True op1 by (auto simp: reports_inv_def with_result_def)
qed (simp add: reports_inv_def)

lemma complete_op_eq:
  assumes "unfinished (h_ops h) n"
  shows "complete_op n err h = h\<lparr>h_ops := with_result (h_ops h) n err,
     h_reports := (if h_reporter h
       then h_reports h @ [(n, (the (h_ops h n))\<lparr>op_result := Some err\<rparr>)] else h_reports h)\<rparr>"
  using assms by (auto simp: unfinished_def complete_op_def report_op_def finish_op_def with_result_def)

lemma finished_complete_op: "unfinished (h_ops h) n \<Longrightarrow> finished (h_ops (complete_op n err h)) n"
  by (simp add: complete_op_eq)

text \<open>A new operation\<close>

definition with_new :: "(nat \<rightharpoonup> lc_operation) \<Rightarrow> nat \<Rightarrow> lc_kind \<Rightarrow> (nat \<rightharpoonup> lc_operation)" where
  "with_new ops n kind = ops(n \<mapsto> \<lparr>op_kind = kind, op_result = None\<rparr>)"

lemma unfinished_with_new [simp]: "unfinished (with_new ops n kind) m \<longleftrightarrow> m = n \<or> unfinished ops m"
  by (auto simp: unfinished_def with_new_def)

lemma finished_with_new [simp]: "finished (with_new ops n kind) m \<longleftrightarrow> m \<noteq> n \<and> finished ops m"
  by (auto simp: finished_def with_new_def)

lemma shutdown_with_new:
  assumes "shutdown_inv False nxt ops" "nxt \<notin> dom ops"
  shows "shutdown_inv (kind = Shutdown) (Suc nxt) (with_new ops nxt kind)"
  using assms by (auto simp: shutdown_inv_def with_new_def)

lemma reports_with_new:
  assumes "reports_inv reporter reports ops" "n \<notin> dom ops"
  shows "reports_inv reporter reports (with_new ops n kind)"
  using assms by (auto simp: reports_inv_def with_new_def dom_def)

subsection \<open>Every step keeps the invariant\<close>

lemma finished_not_unfinished: "finished ops n \<Longrightarrow> \<not> unfinished ops n"
  by (auto simp: finished_def unfinished_def)

text \<open>Fields the parts of the invariant do not read\<close>

lemma store_ok_frame [simp]:
  "store_ok (h\<lparr>h_dispatches := d\<rparr>) = store_ok h"
  "store_ok (h\<lparr>h_wake := w\<rparr>) = store_ok h"
  "store_ok (h\<lparr>h_cancelled := c\<rparr>) = store_ok h"
  "store_ok (h\<lparr>h_closed := c\<rparr>) = store_ok h"
  by (simp_all add: store_ok_def)

lemma loop_ok_frame [simp]:
  "loop_ok (h\<lparr>h_dispatches := d\<rparr>) = loop_ok h"
  "loop_ok (h\<lparr>h_wake := w\<rparr>) = loop_ok h"
  "loop_ok (h\<lparr>h_cancelled := c\<rparr>) = loop_ok h"
  by (simp_all add: loop_ok_def cong: run_loop.case_cong)

lemma loop_ok_closed: "loop_ok h \<Longrightarrow> loop_ok (h\<lparr>h_closed := True\<rparr>)"
  by (cases "h_loop h") (simp_all add: loop_ok_def)

lemma store_ok_loop:
  "store_ok h \<Longrightarrow> h_loop h \<noteq> Clearing \<Longrightarrow> l \<noteq> Clearing \<Longrightarrow> store_ok (h\<lparr>h_loop := l\<rparr>)"
  by (simp add: store_ok_def)

lemma dispatch_inv: "host_inv h \<Longrightarrow> begin_dispatch c h = (r, h') \<Longrightarrow> host_inv h'"
  by (auto simp: host_inv_def lease_ok_def wake_ok_def begin_dispatch_def split: if_splits option.splits)

lemma release_inv: "host_inv h \<Longrightarrow> 0 < h_dispatches h \<Longrightarrow> host_inv (release_dispatch h)"
  by (simp add: host_inv_def lease_ok_def wake_ok_def release_dispatch_def signal_def)

lemma cancel_inv: "host_inv h \<Longrightarrow> host_inv (h\<lparr>h_cancelled := True\<rparr>)"
  by (simp add: host_inv_def lease_ok_def wake_ok_def)

lemma close_inv: "host_inv h \<Longrightarrow> host_inv (close_host h)"
  by (simp add: host_inv_def lease_ok_def wake_ok_def close_host_def signal_def loop_ok_closed)

lemma wake_inv: "host_inv h \<Longrightarrow> h_loop h = Waiting \<Longrightarrow> host_inv (h\<lparr>h_wake := False, h_loop := Woken\<rparr>)"
  by (simp add: host_inv_def store_ok_loop)
    (simp add: loop_ok_def lease_ok_def wake_ok_def)

lemma stop_inv: "host_inv h \<Longrightarrow> h_loop h = Waiting \<Longrightarrow> host_inv (h\<lparr>h_loop := Woken\<rparr>)"
  by (simp add: host_inv_def store_ok_loop)
    (simp add: loop_ok_def lease_ok_def wake_ok_def)

lemma store_ok_start:
  "store_ok h \<Longrightarrow> h_loop h = Woken \<Longrightarrow> h_active h = None \<Longrightarrow> h_pending h = Some n \<Longrightarrow>
    store_ok (h\<lparr>h_pending := None, h_active := Some n, h_loop := Calling n\<rparr>)"
  by (simp add: store_ok_def)

lemma check_inv: 
  assumes "host_inv h" "h_loop h = Woken"
  shows "host_inv (loop_check h)"
proof -
  consider (closed) "h_closed h \<or> h_cancelled h"
    | (skip) "\<not> (h_closed h \<or> h_cancelled h)" "h_dispatches h \<noteq> 0 \<or> h_pending h = None"
    | (start) n where "\<not> (h_closed h \<or> h_cancelled h)" "h_dispatches h = 0" "h_pending h = Some n"
    by (cases "h_pending h") auto
  then show ?thesis
  proof cases
    case closed
    then show ?thesis
      using assms by (auto simp: host_inv_def loop_check_def store_ok_loop loop_ok_def lease_ok_def wake_ok_def)
  next
    case skip
    then show ?thesis
      using assms by (auto simp: host_inv_def loop_check_def store_ok_loop loop_ok_def lease_ok_def wake_ok_def)
  next
    case start
    then show ?thesis
      using assms
      by (auto simp: host_inv_def loop_check_def store_ok_start loop_ok_def lease_ok_def wake_ok_def)
        (auto simp: store_ok_def)
  qed
qed

lemma running_inv: "host_inv h \<Longrightarrow> h_loop h = Calling n \<Longrightarrow> host_inv (h\<lparr>h_loop := Running n\<rparr>)"
  by (simp add: host_inv_def store_ok_loop)
    (simp add: loop_ok_def lease_ok_def wake_ok_def)

lemma complete_active_inv:
  assumes inv: "host_inv h" and loop: "h_loop h = Calling n \<or> h_loop h = Running n"
    and err: "err \<noteq> Some Host_superseded"
  shows "host_inv ((complete_op n err h)\<lparr>h_loop := Completed n\<rparr>)"
proof -
  have active: "h_active h = Some n" "unfinished (h_ops h) n"
    using inv loop by (auto simp: host_inv_def loop_ok_def)
  have "store_ok ((complete_op n err h)\<lparr>h_loop := Completed n\<rparr>)"
    using inv active loop
    by (auto simp: host_inv_def store_ok_def complete_op_eq dom_with_result)
  then show ?thesis
    using inv active loop err shutdown_with_result reports_with_result
    by (simp add: complete_op_eq host_inv_def) (simp add: loop_ok_def lease_ok_def wake_ok_def)
qed

lemma host_done_inv:
  assumes inv: "host_inv h" and loop: "h_loop h = Completed n"
  shows "host_inv (loop_done h)"
proof -
  have active: "h_active h = Some n" "finished (h_ops h) n" "h_dispatches h = 0"
    using inv loop by (auto simp: host_inv_def loop_ok_def lease_ok_def)
  have "store_ok (h\<lparr>h_active := None, h_loop := Waiting\<rparr>)"
    using inv active loop finished_not_unfinished by (auto simp: host_inv_def store_ok_def)
  then have "store_ok (loop_done h)" "loop_ok (loop_done h)"
    by (simp_all add: loop_done_def signal_def Let_def) (simp_all add: loop_ok_def)
  moreover have "lease_ok (loop_done h)" "wake_ok (loop_done h)"
    using inv active by (simp_all add: host_inv_def loop_done_def signal_def Let_def lease_ok_def wake_ok_def)
  ultimately show ?thesis
    using inv by (simp add: host_inv_def loop_done_def signal_def Let_def)
qed

lemma closing_inv:
  assumes inv: "host_inv h" and loop: "h_loop h = Closing p"
  shows "host_inv (loop_close p h)"
proof (cases p)
  case None
  then show ?thesis
    using inv loop
    by (auto simp: loop_close_def host_inv_def store_ok_def) (auto simp: loop_ok_def lease_ok_def wake_ok_def)
next
  case (Some n)
  then have pending: "h_pending h = Some n" "h_active h = None" "h_closed h" "unfinished (h_ops h) n"
    using inv loop by (auto simp: host_inv_def loop_ok_def store_ok_def)
  have "store_ok (loop_close p h)"
    using inv pending loop unfolding Some loop_close_def option.case complete_op_eq [OF pending(4)]
    by (simp add: host_inv_def store_ok_def dom_with_result)
  moreover have "loop_ok (loop_close p h)" "lease_ok (loop_close p h)" "wake_ok (loop_close p h)"
    using inv pending unfolding Some loop_close_def option.case complete_op_eq [OF pending(4)]
    by (simp_all add: host_inv_def loop_ok_def lease_ok_def wake_ok_def)
  ultimately show ?thesis
    using inv pending shutdown_with_result reports_with_result
    unfolding Some loop_close_def option.case complete_op_eq [OF pending(4)]
    by (simp add: host_inv_def)
qed

lemma host_exit_inv:
  assumes inv: "host_inv h" and loop: "h_loop h = Clearing"
  shows "host_inv (loop_exit h)"
proof -
  have "store_ok (loop_exit h)"
    using inv loop by (simp add: host_inv_def store_ok_def loop_exit_def loop_ok_def) (metis finished_not_unfinished option.distinct(1))
  then show ?thesis
    using inv loop by (simp add: host_inv_def loop_exit_def) (simp add: loop_ok_def lease_ok_def wake_ok_def)
qed

subsection \<open>Requests\<close>

text \<open>A new operation takes the place of the pending one.\<close>

definition admit :: "lc_kind \<Rightarrow> host \<Rightarrow> host" where
  "admit kind h = h\<lparr>h_terminal := (h_terminal h \<or> kind = Shutdown), h_pending := Some (h_next h),
     h_ops := with_new (h_ops h) (h_next h) kind, h_next := Suc (h_next h)\<rparr>"

lemma request_cases:
  assumes "request c k h = (r, h')"
  obtains (refused) e where "r = Inl e" "h' = h"
    | (coalesced) n where "r = Inr (n, True)" "h' = h" "h_active h = Some n \<or> h_pending h = Some n"
        "map_option op_kind (h_ops h n) = Some k"
    | (admitted) "r = Inr (h_next h, False)" "\<not> h_closed h" "\<not> h_cancelled h" "\<not> h_terminal h"
        "kind_of h (h_pending h) \<noteq> Some k"
        "h' = signal (case h_pending h of None \<Rightarrow> admit k h
                      | Some old \<Rightarrow> complete_op old (Some Host_superseded) (admit k h))"
proof -
  have share: "kind_of h x = Some k \<Longrightarrow> x = Some (the x) \<and> map_option op_kind (h_ops h (the x)) = Some k" for x
    by (cases x) (simp_all add: kind_of_def)
  have new: "h\<lparr>h_terminal := (h_terminal h \<or> k = Shutdown), h_pending := Some (h_next h),
      h_ops := (h_ops h)(h_next h \<mapsto> \<lparr>op_kind = k, op_result = None\<rparr>), h_next := Suc (h_next h)\<rparr> = admit k h"
    by (simp add: admit_def with_new_def)
  show thesis
  proof (cases "c \<or> h_closed h \<or> h_cancelled h \<or> (k = Restart \<and> \<not> h_restart h)
      \<or> (k = Shutdown \<and> \<not> h_shutdown h) \<or> (h_terminal h \<and> k \<noteq> Shutdown)")
    case True
    then show thesis
      using assms refused unfolding request_def by (metis prod.inject)
  next
    case False
    then have req: "request c k h = (if kind_of h (h_active h) = Some k then (Inr (the (h_active h), True), h)
        else if kind_of h (h_pending h) = Some k then (Inr (the (h_pending h), True), h)
        else if h_terminal h then (Inl Host_terminal, h)
        else (Inr (h_next h, False), signal (case h_pending h of None \<Rightarrow> admit k h
                      | Some old \<Rightarrow> complete_op old (Some Host_superseded) (admit k h))))"
    proof -
      have "\<not> c" "\<not> (h_closed h \<or> h_cancelled h)" "\<not> (h_terminal h \<and> k \<noteq> Shutdown)"
        "\<not> ((k = Restart \<and> \<not> h_restart h) \<or> (k = Shutdown \<and> \<not> h_shutdown h))"
        using False by blast+
      then show ?thesis
        unfolding request_def new Let_def by (simp only: if_False)
    qed
    show thesis
    proof (cases "kind_of h (h_active h) = Some k \<or> kind_of h (h_pending h) = Some k")
      case True
      then show thesis
        using assms share coalesced unfolding req by (metis prod.inject)
    next
      case open1: False
      then show thesis
        using assms refused admitted False unfolding req by (metis prod.inject)
    qed
  qed
qed

lemma with_result_new: "m \<noteq> n \<Longrightarrow> with_result (with_new ops n kind) m err = with_new (with_result ops m err) n kind"
  by (auto simp: with_result_def with_new_def fun_eq_iff)

lemma with_new_other: "m \<noteq> n \<Longrightarrow> with_new ops n kind m = ops m"
  by (simp add: with_new_def)

lemma dom_with_new: "dom (with_new ops n kind) = insert n (dom ops)"
  by (simp add: with_new_def)

lemma admitted_eq:
  assumes "\<And>n. h_pending h = Some n \<Longrightarrow> unfinished (h_ops h) n \<and> n \<noteq> h_next h"
    and "reports_inv (h_reporter h) (h_reports h) (h_ops h)"
    and "shutdown_inv False (h_next h) (h_ops h)"
  obtains ops reports where
    "signal (case h_pending h of None \<Rightarrow> admit k h
             | Some old \<Rightarrow> complete_op old (Some Host_superseded) (admit k h))
     = h\<lparr>h_terminal := (h_terminal h \<or> k = Shutdown), h_pending := Some (h_next h),
         h_ops := with_new ops (h_next h) k, h_next := Suc (h_next h), h_reports := reports, h_wake := True\<rparr>"
    "dom ops = dom (h_ops h)"
    "\<And>m. unfinished ops m \<longleftrightarrow> unfinished (h_ops h) m \<and> h_pending h \<noteq> Some m"
    "\<And>m. finished ops m \<longleftrightarrow> finished (h_ops h) m \<or> h_pending h = Some m"
    "reports_inv (h_reporter h) reports ops" "shutdown_inv False (h_next h) ops"
proof (cases "h_pending h")
  case None
  show thesis
    by (rule that [of "h_reports h" "h_ops h"]) (use assms None in \<open>simp_all add: signal_def admit_def\<close>)
next
  case (Some m)
  note old = assms(1) [OF Some]
  then have in_new: "unfinished (h_ops (admit k h)) m"
    by (simp add: admit_def)
  have "signal (complete_op m (Some Host_superseded) (admit k h))
     = h\<lparr>h_terminal := (h_terminal h \<or> k = Shutdown), h_pending := Some (h_next h),
         h_ops := with_new (with_result (h_ops h) m (Some Host_superseded)) (h_next h) k, h_next := Suc (h_next h),
         h_reports := (if h_reporter h
            then h_reports h @ [(m, (the (h_ops h m))\<lparr>op_result := Some (Some Host_superseded)\<rparr>)] else h_reports h),
         h_wake := True\<rparr>"
    using old unfolding complete_op_eq [OF in_new]
    by (simp add: signal_def admit_def with_result_new with_new_other)
  then show thesis
    using Some old assms dom_with_result [of "h_ops h" m] reports_with_result shutdown_with_result
    by (intro that [of "if h_reporter h
        then h_reports h @ [(m, (the (h_ops h m))\<lparr>op_result := Some (Some Host_superseded)\<rparr>)] else h_reports h"
        "with_result (h_ops h) m (Some Host_superseded)"]) auto
qed

lemma request_inv:
  assumes inv: "host_inv h" and req: "request c k h = (r, h')"
  shows "host_inv h'"
  using req
proof (cases rule: request_cases)
  case admitted
  have fresh: "h_next h \<notin> dom (h_ops h)" and dom: "dom (h_ops h) = {..<h_next h}"
    using inv by (auto simp: host_inv_def store_ok_def)
  have open1: "h_loop h \<noteq> Exited" "h_loop h \<noteq> Clearing" "\<And>p. h_loop h \<noteq> Closing p"
    using inv admitted(2) by (auto simp: host_inv_def loop_ok_def)
  have old: "h_pending h = Some n \<Longrightarrow> unfinished (h_ops h) n \<and> n \<noteq> h_next h" for n
    using inv open1 dom by (auto simp: host_inv_def store_ok_def unfinished_def)
  obtain ops reports where h': "h' = h\<lparr>h_terminal := (h_terminal h \<or> k = Shutdown), h_pending := Some (h_next h),
         h_ops := with_new ops (h_next h) k, h_next := Suc (h_next h), h_reports := reports, h_wake := True\<rparr>"
    and ops: "dom ops = dom (h_ops h)"
      "\<And>m. unfinished ops m \<longleftrightarrow> unfinished (h_ops h) m \<and> h_pending h \<noteq> Some m"
      "\<And>m. finished ops m \<longleftrightarrow> finished (h_ops h) m \<or> h_pending h = Some m"
      "reports_inv (h_reporter h) reports ops" "shutdown_inv False (h_next h) ops"
  proof -
    have "reports_inv (h_reporter h) (h_reports h) (h_ops h)" "shutdown_inv False (h_next h) (h_ops h)"
      using inv admitted(4) by (simp_all add: host_inv_def)
    then show thesis
      using admitted_eq [OF old, of k thesis] that unfolding admitted(6) by blast
  qed
  have active: "h_active h \<noteq> Some (h_next h)"
    using inv fresh by (cases "h_loop h") (auto simp: host_inv_def loop_ok_def unfinished_def finished_def)
  have apart: "h_active h = Some n \<Longrightarrow> h_pending h \<noteq> Some n" for n
    using inv by (auto simp: host_inv_def store_ok_def)
  have "store_ok h'"
    using inv open1 ops(1,2) dom active unfolding h' host_inv_def store_ok_def
    by (simp add: dom_with_new lessThan_Suc) blast
  moreover have "loop_ok h'"
    using inv open1 fresh ops apart active unfolding h' host_inv_def loop_ok_def by (cases "h_loop h") auto
  moreover have "lease_ok h'" "wake_ok h'"
    using inv unfolding h' host_inv_def lease_ok_def wake_ok_def by simp_all
  moreover have "shutdown_inv (h_terminal h') (h_next h') (h_ops h')"
      "reports_inv (h_reporter h') (h_reports h') (h_ops h')"
    using shutdown_with_new reports_with_new ops fresh admitted(4) unfolding h' by simp_all
  ultimately show ?thesis unfolding host_inv_def by blast
qed (use inv in simp_all)

lemma loop_inv_step: "host_inv h \<Longrightarrow> loop_step h h' \<Longrightarrow> host_inv h'"
  by (erule loop_step.cases)
    (auto intro: wake_inv stop_inv check_inv complete_active_inv running_inv host_done_inv closing_inv host_exit_inv)

lemma host_inv_step: "host_inv h \<Longrightarrow> host_step h h' \<Longrightarrow> host_inv h'"
  by (erule host_step.cases)
    (auto intro: dispatch_inv release_inv request_inv cancel_inv close_inv loop_inv_step)

interpretation host: invariant_of host_init host_step host_inv
  by unfold_locales (fact host_inv_init, erule (1) host_inv_step)

section \<open>Progress\<close>

lemma finish_calling:
  assumes "host_inv h" "h_loop h = Calling n"
  shows "\<exists>h'. loop_step\<^sup>*\<^sup>* h h' \<and> finished (h_ops h') n"
proof (cases "h_cancelled h")
  case True
  have "finished (h_ops ((complete_op n (Some Host_context) h)\<lparr>h_loop := Completed n\<rparr>)) n"
    using assms by (simp add: host_inv_def loop_ok_def complete_op_eq)
  then show ?thesis
    using loop_step.call_cancelled [OF assms(2) True] by blast
next
  case False
  define h1 where "h1 = h\<lparr>h_loop := Running n\<rparr>"
  have "loop_step h h1" unfolding h1_def using loop_step.call [OF assms(2) False] .
  moreover have "loop_step h1 ((complete_op n None h1)\<lparr>h_loop := Completed n\<rparr>)"
    using loop_step.callback [of h1 n None] by (simp add: h1_def)
  moreover have "finished (h_ops ((complete_op n None h1)\<lparr>h_loop := Completed n\<rparr>)) n"
    using assms by (simp add: h1_def host_inv_def loop_ok_def complete_op_eq)
  ultimately show ?thesis by (meson rtranclp.rtrancl_refl converse_rtranclp_into_rtranclp)
qed

lemma finish_waiting:
  assumes inv: "host_inv h" and loop: "h_loop h = Waiting \<or> h_loop h = Woken"
    and n: "h_pending h = Some n" "h_dispatches h = 0"
  shows "\<exists>h'. loop_step\<^sup>*\<^sup>* h h' \<and> finished (h_ops h') n"
proof -
  obtain h1 where h1: "loop_step\<^sup>*\<^sup>* h h1" "host_inv h1" "h_loop h1 = Woken" "h_pending h1 = Some n" "h_dispatches h1 = 0"
  proof (cases "h_loop h = Woken")
    case True
    then show thesis using that inv n by blast
  next
    case False
    then have waiting: "h_loop h = Waiting" and "h_wake h \<or> h_cancelled h"
      using loop inv n by (auto simp: host_inv_def wake_ok_def)
    then obtain h1 where "loop_step h h1" "h_loop h1 = Woken" "h_pending h1 = Some n" "h_dispatches h1 = 0"
      using loop_step.wake [of h] loop_step.stop [of h] n by auto
    then show thesis using that loop_inv_step inv by blast
  qed
  have step: "loop_step h1 (loop_check h1)" using loop_step.check h1(3) .
  show ?thesis
  proof (cases "h_closed h1 \<or> h_cancelled h1")
    case True
    then have "h_loop (loop_check h1) = Closing (Some n)" "h_ops (loop_check h1) = h_ops h1"
      using h1(4) by (simp_all add: loop_check_def)
    moreover have "unfinished (h_ops h1) n"
      using h1 by (auto simp: host_inv_def store_ok_def)
    ultimately have "loop_step (loop_check h1) (loop_close (Some n) (loop_check h1))"
      and "unfinished (h_ops (loop_check h1)) n"
      using loop_step.closing by auto
    moreover from this(2) have "finished (h_ops (loop_close (Some n) (loop_check h1))) n"
      by (simp add: loop_close_def finished_complete_op)
    ultimately have "\<exists>h'. loop_step (loop_check h1) h' \<and> finished (h_ops h') n"
      by blast
    then show ?thesis using step h1(1) by (meson rtranclp.rtrancl_into_rtrancl)
  next
    case False
    then have "h_loop (loop_check h1) = Calling n"
      using h1 by (simp add: loop_check_def)
    then show ?thesis
      using finish_calling loop_inv_step [OF h1(2) step] step h1(1) by (meson rtranclp.rtrancl_into_rtrancl rtranclp_trans)
  qed
qed

lemma complete_op_frame [simp]:
  "h_pending (complete_op n err h) = h_pending h" "h_active (complete_op n err h) = h_active h"
  "h_dispatches (complete_op n err h) = h_dispatches h" "h_terminal (complete_op n err h) = h_terminal h"
  "h_next (complete_op n err h) = h_next h"
  by (simp_all add: complete_op_def report_op_def finish_op_def split: option.split)

lemma loop_completes:
  assumes "h_loop h = Calling m \<or> h_loop h = Running m \<or> h_loop h = Completed m"
  obtains h' where "loop_step\<^sup>*\<^sup>* h h'" "h_loop h' = Completed m" "h_pending h' = h_pending h"
    "h_dispatches h' = h_dispatches h"
proof -
  have runs: "\<exists>h'. loop_step\<^sup>*\<^sup>* g h' \<and> h_loop h' = Completed m \<and> h_pending h' = h_pending g
      \<and> h_dispatches h' = h_dispatches g" if "h_loop g = Running m" for g
    using loop_step.callback [OF that, of None]
    by (intro exI [of _ "(complete_op m (map_option Host_callback None) g)\<lparr>h_loop := Completed m\<rparr>"]) auto
  consider (cancelled) "h_loop h = Calling m" "h_cancelled h" | (called) "h_loop h = Calling m" "\<not> h_cancelled h"
    | (running) "h_loop h = Running m" | (completed) "h_loop h = Completed m"
    using assms by blast
  then show thesis
  proof cases
    case cancelled
    then have "loop_step h ((complete_op m (Some Host_context) h)\<lparr>h_loop := Completed m\<rparr>)"
      by (rule loop_step.call_cancelled)
    then show thesis
      by (rule that [OF r_into_rtranclp]) simp_all
  next
    case called
    then have "loop_step h (h\<lparr>h_loop := Running m\<rparr>)" by (rule loop_step.call)
    then show thesis
      using runs [of "h\<lparr>h_loop := Running m\<rparr>"] that by (auto intro: converse_rtranclp_into_rtranclp)
  next
    case running
    then show thesis using runs that by blast
  next
    case completed
    then show thesis using that [of h] by simp
  qed
qed

lemma operation_can_finish:
  assumes inv: "host_inv h" and quiet: "h_dispatches h = 0" and n: "unfinished (h_ops h) n"
  shows "\<exists>h'. loop_step\<^sup>*\<^sup>* h h' \<and> finished (h_ops h') n"
proof -
  have where1: "h_pending h = Some n \<or> h_active h = Some n"
    using inv n by (auto simp: host_inv_def store_ok_def)
  show ?thesis
  proof (cases "h_loop h = Waiting \<or> h_loop h = Woken")
    case True
    then have "h_active h = None" using inv by (auto simp: host_inv_def loop_ok_def)
    then show ?thesis using finish_waiting [OF inv True _ quiet] where1 by simp
  next
    case False
    consider (busy) m where "h_loop h = Calling m \<or> h_loop h = Running m \<or> h_loop h = Completed m"
        "h_active h = Some m"
      | (closing) "h_loop h = Closing (Some n)"
      using inv where1 n False finished_not_unfinished
      by (cases "h_loop h") (auto simp: host_inv_def loop_ok_def store_ok_def)
    then show ?thesis
    proof cases
      case busy
      then obtain h1 where h1: "loop_step\<^sup>*\<^sup>* h h1" "h_loop h1 = Completed m" "h_pending h1 = h_pending h"
          "h_dispatches h1 = h_dispatches h"
        using loop_completes by blast
      have inv1: "host_inv h1"
        using h1(1) inv by (induction rule: rtranclp_induct) (auto intro: loop_inv_step)
      show ?thesis
      proof (cases "n = m")
        case True
        then have "finished (h_ops h1) n" using inv1 h1(2) by (simp add: host_inv_def loop_ok_def)
        then show ?thesis using h1(1) by blast
      next
        case False
        then have "h_pending (loop_done h1) = Some n" "h_loop (loop_done h1) = Waiting" "h_dispatches (loop_done h1) = 0"
          using where1 busy h1 quiet by (simp_all add: loop_done_def signal_def Let_def)
        moreover have "loop_step h1 (loop_done h1)" using loop_step.completed h1(2) .
        ultimately show ?thesis
          using finish_waiting [of "loop_done h1" n] loop_inv_step [OF inv1] h1(1)
          by (meson rtranclp.rtrancl_into_rtrancl rtranclp_trans)
      qed
    next
      case closing
      then have "loop_step h (loop_close (Some n) h)" by (rule loop_step.closing)
      moreover have "finished (h_ops (loop_close (Some n) h)) n"
        using n by (simp add: loop_close_def complete_op_eq)
      ultimately show ?thesis by blast
    qed
  qed
qed

section \<open>Properties\<close>

text \<open>C9. Callbacks are exclusive.  While a lifecycle callback is active no command dispatch holds a lease
  and the pending operation is another one; as long as an operation is pending or active every
  new dispatch is refused and leaves the owner as it was.\<close>

theorem callbacks_are_exclusive:
  assumes "host_init h0" "host_step\<^sup>*\<^sup>* h0 h"
  shows "(h_active h \<noteq> None \<longrightarrow> h_dispatches h = 0 \<and> h_pending h \<noteq> h_active h)
    \<and> (h_pending h \<noteq> None \<or> h_active h \<noteq> None \<longrightarrow>
        fst (begin_dispatch c h) \<noteq> None \<and> snd (begin_dispatch c h) = h)"
  using host.inv_reachable [OF assms]
  by (auto simp: host_inv_def lease_ok_def store_ok_def begin_dispatch_def split: option.split)

text \<open>C10. No admitted operation is lost.  Every operation ever admitted has its result, or is the pending
  or the active one; from every reachable state without dispatch leases the run loop alone can
  bring it to its result (no wake-up is lost); and when the loop has returned every operation has
  a result and \<open>Wait\<close> does not block.\<close>

theorem no_operation_is_lost:
  assumes "host_init h0" "host_step\<^sup>*\<^sup>* h0 h"
  shows "(n < h_next h \<longrightarrow> finished (h_ops h) n \<or> h_pending h = Some n \<or> h_active h = Some n)
    \<and> (n < h_next h \<and> h_dispatches h = 0 \<longrightarrow> (\<exists>h'. loop_step\<^sup>*\<^sup>* h h' \<and> finished (h_ops h') n))
    \<and> (h_loop h = Exited \<longrightarrow> wait_over h \<and> (n < h_next h \<longrightarrow> finished (h_ops h) n))"
proof -
  have inv: "host_inv h" using host.inv_reachable [OF assms] .
  have known: "n < h_next h \<Longrightarrow> finished (h_ops h) n \<or> unfinished (h_ops h) n"
  proof -
    assume "n < h_next h"
    then have "n \<in> dom (h_ops h)" using inv by (simp add: host_inv_def store_ok_def)
    then show ?thesis by (auto simp: finished_def unfinished_def)
  qed
  have "unfinished (h_ops h) n \<Longrightarrow> h_pending h = Some n \<or> h_active h = Some n"
    using inv by (auto simp: host_inv_def store_ok_def)
  moreover have "h_loop h = Exited \<Longrightarrow> wait_over h"
    using inv by (simp add: host_inv_def loop_ok_def wait_over_def)
  ultimately show ?thesis
    using known operation_can_finish [OF inv, of n] by (auto simp: wait_over_def)
qed

text \<open>C11. A shutdown is final.  Once a shutdown has been admitted it is the last operation of the owner: no
  request is admitted any more (each is refused, or shares the operation there is), no
  dispatch begins, and the shutdown itself is never superseded.\<close>

theorem shutdown_is_final:
  assumes "host_init h0" "host_step\<^sup>*\<^sup>* h0 h"
    and "h_ops h n = Some op1" "op_kind op1 = Shutdown"
  shows "terminal h \<and> Suc n = h_next h \<and> op_result op1 \<noteq> Some (Some Host_superseded)
    \<and> h_next (snd (request c k h)) = h_next h \<and> fst (begin_dispatch c h) \<noteq> None"
proof -
  have inv: "host_inv h" using host.inv_reachable [OF assms(1,2)] .
  then have last: "h_terminal h" "Suc n = h_next h" "op_result op1 \<noteq> Some (Some Host_superseded)"
    using assms(3,4) by (auto simp: host_inv_def shutdown_inv_def)
  have "h_next (snd (request c k h)) = h_next h"
    using last(1) by (cases "request c k h") (auto elim: request_cases)
  then show ?thesis
    using last by (simp add: terminal_def begin_dispatch_def admission_error_def)
qed

text \<open>Results are reported exactly once.  The reporter is told of an operation if and only if it has a
  result, with that result, and never twice.\<close>

theorem results_reported_once:
  assumes "host_init h0" "host_step\<^sup>*\<^sup>* h0 h" "h_reporter h"
  shows "distinct (map fst (h_reports h))
    \<and> ((n, op1) \<in> set (h_reports h) \<longleftrightarrow> h_ops h n = Some op1 \<and> op_result op1 \<noteq> None)"
  using host.inv_reachable [OF assms(1,2)] assms(3) by (simp add: host_inv_def reports_inv_def)

section \<open>Witnesses\<close>

text \<open>A dispatch that requests a restart and then a shutdown, releases its lease, and the shutdown runs.\<close>

definition demo_host :: "nat \<Rightarrow> host" where
  "demo_host n = fold (\<lambda>f h. f h) (take n
     [\<lambda>h. snd (begin_dispatch False h), \<lambda>h. snd (request False Restart h), \<lambda>h. snd (request False Shutdown h),
      release_dispatch, \<lambda>h. h\<lparr>h_wake := False, h_loop := Woken\<rparr>, loop_check])
     (new_host True True True)"

lemmas demo_host_simps = demo_host_def new_host_def begin_dispatch_def admission_error_def request_def kind_of_def
  signal_def Let_def complete_op_def finish_op_def report_op_def release_dispatch_def loop_check_def

lemma demo_host_init: "host_init (demo_host 0)"
  by (simp add: host_init_def demo_host_def) blast

lemma demo_host_run: "host_step\<^sup>*\<^sup>* (demo_host 0) (demo_host 6)"
proof -
  have "host_step (demo_host 0) (demo_host (Suc 0))"
    by (rule host_step.dispatch [of False _ "None"]) (simp add: demo_host_simps)
  moreover have "host_step (demo_host (Suc 0)) (demo_host 2)"
    by (rule host_step.request [of False Restart _ "Inr (0, False)"]) (simp add: demo_host_simps)
  moreover have "host_step (demo_host 2) (demo_host 3)"
    by (rule host_step.request [of False Shutdown _ "Inr (1, False)"]) (simp add: demo_host_simps)
  moreover have "host_step (demo_host 3) (demo_host 4)"
    using host_step.release [of "demo_host 3"] by (simp add: demo_host_simps)
  moreover have "host_step (demo_host 4) (demo_host 5)"
    using host_step.loop [OF loop_step.wake [of "demo_host 4"]] by (simp add: demo_host_simps)
  moreover have "host_step (demo_host 5) (demo_host 6)"
    using host_step.loop [OF loop_step.check [of "demo_host 5"]] by (simp add: demo_host_simps)
  ultimately show ?thesis by (meson rtranclp.rtrancl_refl rtranclp.rtrancl_into_rtrancl)
qed

lemma callbacks_are_exclusive_witness:
  "h_active (demo_host 6) = Some 1 \<and> h_dispatches (demo_host 6) = 0 \<and> h_pending (demo_host 6) \<noteq> h_active (demo_host 6)
   \<and> fst (begin_dispatch False (demo_host 6)) \<noteq> None"
proof -
  have "h_active (demo_host 6) = Some 1" by (simp add: demo_host_simps)
  then show ?thesis using callbacks_are_exclusive [OF demo_host_init demo_host_run, of False] by simp
qed

lemma no_operation_is_lost_witness:
  "\<exists>h'. loop_step\<^sup>*\<^sup>* (demo_host 6) h' \<and> finished (h_ops h') 1"
proof -
  have "1 < h_next (demo_host 6) \<and> h_dispatches (demo_host 6) = 0" by (simp add: demo_host_simps)
  then show ?thesis using no_operation_is_lost [OF demo_host_init demo_host_run, of 1] by blast
qed

lemma shutdown_is_final_witness: "h_next (snd (request False Restart (demo_host 6))) = 2"
proof -
  have "h_ops (demo_host 6) 1 = Some \<lparr>op_kind = Shutdown, op_result = None\<rparr>" "h_next (demo_host 6) = 2"
    by (simp_all add: demo_host_simps)
  then show ?thesis
    using shutdown_is_final [OF demo_host_init demo_host_run, of 1 _ False Restart] by simp
qed

lemma results_reported_once_witness:
  "(0, \<lparr>op_kind = Restart, op_result = Some (Some Host_superseded)\<rparr>) \<in> set (h_reports (demo_host 6))"
proof -
  have "h_reporter (demo_host 6)"
    "h_ops (demo_host 6) 0 = Some \<lparr>op_kind = Restart, op_result = Some (Some Host_superseded)\<rparr>"
    by (simp_all add: demo_host_simps)
  then show ?thesis
    using results_reported_once [OF demo_host_init demo_host_run, of 0] by simp
qed

end
