(* ===== verification/Dispatch.thy ===== *)
theory Dispatch
  imports Commands HostLifecycle
begin

text \<open>
  From a chat message to a command: the chain of handlers of \<open>internal/listener/message\<close> (\<open>chain.go\<close>, \<open>handlers.go\<close>), the
  chain of whispers of \<open>internal/listener/info\<close>, the relay of \<open>internal/relay/topology.go\<close> and \<open>InvokeCommand\<close> of
  \<open>internal/common/command_dispatch.go\<close>, which runs a command under a lease of \<open>HostLifecycle\<close>.  What the services
  called on the way answer is an argument; the calls made are recorded in order.
\<close>

section \<open>The chain of a chat message\<close>

datatype chat_call =
    Audit chat_message bool
  | Relay_host str
  | Deliver_mail str str
  | Say str
  | Ask_preview str
  | Ask_agent chat_message
  | Run str

record chain =
  ch_message :: chat_message
  ch_author :: "user option"
  ch_room :: room
  ch_host :: "host option"
  ch_calls :: "chat_call list"

datatype youtube = Yt_error | Yt_nothing | Yt_found str

text \<open>What the environment answers: whether the context has ended before each handler and at the four checks of
  \<open>InvokeCommand\<close>, whether storing the audit, relaying, delivering mail and sending a text fail, and so on.  An
  absent service is \<open>None\<close>.\<close>

record chain_env =
  ce_cancelled :: "nat \<Rightarrow> bool"
  ce_auditor :: bool
  ce_audit_fails :: bool
  ce_agent :: bool
  ce_relay :: "bool option"
  ce_mail :: "bool option"
  ce_youtube :: "youtube option"
  ce_participates :: "chat_message \<Rightarrow> user option \<Rightarrow> bool \<times> bool"
  ce_send_fails :: "str \<Rightarrow> bool"
  ce_registry :: "command registry_maps"
  ce_auth :: auth_view
  ce_ended :: "nat \<Rightarrow> bool"
  ce_run_fails :: bool

text \<open>\<open>RelayAgentMessage\<close> of \<open>topology.go\<close> hands this text to the host.\<close>

definition relay_text :: "str \<Rightarrow> str \<Rightarrow> str" where
  "relay_text author body = chat_text [] (author @ lit '': '' @ body) False"

definition call :: "chat_call \<Rightarrow> chain \<Rightarrow> chain" where
  "call x st = st\<lparr>ch_calls := ch_calls st @ [x]\<rparr>"

text \<open>\<open>InvokeCommand\<close> with \<open>BeginCommandDispatch\<close>: whether there is an error, and the state afterwards\<close>

definition begin_command_dispatch :: "chain_env \<Rightarrow> host option \<Rightarrow> bool \<times> host option" where
  "begin_command_dispatch e h =
     (if ce_ended e 1 then (True, h)
      else case h of None \<Rightarrow> (False, None)
      | Some h0 \<Rightarrow> (case begin_dispatch (ce_ended e 2) h0 of (err, h1) \<Rightarrow> (err \<noteq> None, Some h1)))"

definition invoke_command :: "chain_env \<Rightarrow> command \<Rightarrow> chain \<Rightarrow> bool \<times> chain" where
  "invoke_command e c st =
     (if ce_ended e 0 then (True, st)
      else case begin_command_dispatch e (ch_host st) of (err, h) \<Rightarrow>
        (if err then (True, st\<lparr>ch_host := h\<rparr>)
         else let released = map_option release_dispatch h
         in if ce_ended e 3 then (True, st\<lparr>ch_host := released\<rparr>)
            else (ce_run_fails e, (call (Run (cm_name c)) st)\<lparr>ch_host := released\<rparr>)))"

text \<open>Each handler: whether the chain goes on, whether there is an error, and the state afterwards\<close>

datatype handler =
    Resolve_user | Audit_message | Ignore_bot | Relay_agent | Log_message | Pending_mail | Update_afk
  | Youtube_preview | Cern_egg | Agent_participation | Dispatch_command

definition resolve_user :: "chain \<Rightarrow> chain" where
  "resolve_user st =
     (case find (\<lambda>u. equal_fold (u_name u) (m_name (ch_message st))) (rm_active (ch_room st)) of
        None \<Rightarrow> st
      | Some u \<Rightarrow> st\<lparr>ch_author := Some u, ch_message := (ch_message st)\<lparr>m_hash := u_hash u\<rparr>\<rparr>)"

definition update_afk :: "chain \<Rightarrow> chain" where
  "update_afk st =
     (case ch_author st of None \<Rightarrow> st
      | Some u \<Rightarrow>
          (case remove_if_afk (Some u) (ch_room st) of (rm1, s1) \<Rightarrow>
             (case notify_afk (ch_message st) rm1 of (rm2, s2) \<Rightarrow>
                st\<lparr>ch_room := rm2, ch_calls := ch_calls st @ map Say (s1 @ s2)\<rparr>)))"

definition cern_text :: str where
  "cern_text = lit ''has cern ended the universe''"

text \<open>The word after the prefix and the command it names, if any\<close>

definition requested :: "chain_env \<Rightarrow> room \<Rightarrow> chat_message \<Rightarrow> (str \<times> command) option" where
  "requested e rm m =
     (let body = trim_space (m_text m); p = match_command_prefix body (current_prefixes rm)
      in if p = [] then None
         else case str_fields (trim_prefix body p) of
           [] \<Rightarrow> None
         | w # ws \<Rightarrow> map_option (Pair w) (build_indexed w (ce_registry e)))"

definition dispatch_command :: "chain_env \<Rightarrow> chain \<Rightarrow> bool \<times> chain" where
  "dispatch_command e st =
     (case requested e (ch_room st) (ch_message st) of
        None \<Rightarrow> (False, st)
      | Some (w, c) \<Rightarrow>
          (case ch_author st of
             None \<Rightarrow> (False, st)
           | Some u \<Rightarrow>
               if is_command_authorized (Some (ce_auth e)) (Some c) (Some u) then invoke_command e c st
               else
                 let reply = chat_text (u_name u) (lit '' you are not authorized to run: '' @ w @ lit '' command.'')
                       (m_is_whisper (ch_message st))
                 in (ce_send_fails e reply, call (Say reply) st)))"

fun handle :: "chain_env \<Rightarrow> handler \<Rightarrow> chain \<Rightarrow> (bool \<times> bool) \<times> chain" where
  "handle e Resolve_user st = ((True, False), resolve_user st)"
| "handle e Audit_message st =
     (let w = is_whisper_message (ch_message st)
      in if \<not> ce_auditor e \<and> w then ((False, True), st)
         else ((True, ce_audit_fails e), call (Audit (ch_message st) w) st))"
| "handle e Ignore_bot st = ((\<not> equal_fold (rm_name (ch_room st)) (m_name (ch_message st)), False), st)"
| "handle e Relay_agent st =
     (if \<not> ce_agent e then ((True, False), st)
      else case ce_relay e of
        None \<Rightarrow> ((False, False), st)
      | Some fails \<Rightarrow>
          ((False, fails), call (Relay_host (relay_text (m_name (ch_message st)) (m_text (ch_message st)))) st))"
| "handle e Log_message st = ((True, False), st)"
| "handle e Pending_mail st =
     (case ce_mail e of
        None \<Rightarrow> ((True, False), st)
      | Some fails \<Rightarrow> ((True, fails), call (Deliver_mail (m_name (ch_message st)) (m_trip (ch_message st))) st))"
| "handle e Update_afk st = ((True, False), update_afk st)"
| "handle e Youtube_preview st =
     (case ce_youtube e of
        None \<Rightarrow> ((True, False), st)
      | Some y \<Rightarrow>
          let st1 = call (Ask_preview (m_text (ch_message st))) st
          in (case y of
               Yt_found preview \<Rightarrow>
                 let s = chat_text (m_name (ch_message st)) preview False
                 in if ce_send_fails e s then ((False, True), call (Say s) st1) else ((True, False), call (Say s) st1)
             | _ \<Rightarrow> ((True, False), st1)))"
| "handle e Cern_egg st =
     (if cut_at cern_text (to_lower (m_text (ch_message st))) \<noteq> None
      then ((True, ce_send_fails e (chat_text [] (lit ''no'') False)), call (Say (chat_text [] (lit ''no'') False)) st)
      else ((True, False), st))"
| "handle e Agent_participation st =
     (case ce_participates e (ch_message st) (ch_author st) of (claimed, fails) \<Rightarrow>
        ((\<not> fails \<and> \<not> claimed, fails), call (Ask_agent (ch_message st)) st))"
| "handle e Dispatch_command st = (case dispatch_command e st of (err, st') \<Rightarrow> ((False, err), st'))"

definition default_chain :: "handler list" where
  "default_chain = [Resolve_user, Audit_message, Ignore_bot, Relay_agent, Log_message, Pending_mail, Update_afk,
     Youtube_preview, Cern_egg, Agent_participation, Dispatch_command]"

fun process :: "chain_env \<Rightarrow> nat \<Rightarrow> handler list \<Rightarrow> chain \<Rightarrow> bool \<times> chain" where
  "process e i [] st = (False, st)"
| "process e i (h # hs) st =
     (if ce_cancelled e i then (True, st)
      else case handle e h st of ((next, err), st') \<Rightarrow>
        if err then (True, st') else if next then process e (Suc i) hs st' else (False, st'))"

text \<open>\<open>NotifyContext\<close> on a decoded message\<close>

definition notify_chat :: "chain_env \<Rightarrow> chat_message \<Rightarrow> room \<Rightarrow> host option \<Rightarrow> bool \<times> chain" where
  "notify_chat e m rm h =
     process e 0 default_chain
       \<lparr>ch_message = m\<lparr>m_is_whisper := is_whisper_message m\<rparr>, ch_author = None, ch_room = rm, ch_host = h, ch_calls = []\<rparr>"

section \<open>The chain of an information message\<close>

datatype info_handler = Capture_banished | Ignore_self | Rename_afk | Convert_whisper | Audit_whisper | Dispatch_whisper

record info_chain =
  ic_info :: info_message
  ic_chain :: chain
  ic_converted :: bool

text \<open>The author of a whisper is looked up again for its authorization.\<close>

definition dispatch_whisper :: "chain_env \<Rightarrow> chain \<Rightarrow> bool \<times> chain" where
  "dispatch_whisper e st =
     (case requested e (ch_room st) (ch_message st) of
        None \<Rightarrow> (False, st)
      | Some (w, c) \<Rightarrow>
          if is_command_authorized (Some (ce_auth e)) (Some c)
               (find (\<lambda>u. equal_fold (u_name u) (m_name (ch_message st))) (rm_active (ch_room st)))
          then invoke_command e c st else (False, st))"

fun handle_info :: "chain_env \<Rightarrow> info_handler \<Rightarrow> info_chain \<Rightarrow> (bool \<times> bool) \<times> info_chain" where
  "handle_info e Capture_banished s =
     ((True, False), s\<lparr>ic_chain := (ic_chain s)\<lparr>ch_room := capture_banished (ic_info s) (ch_room (ic_chain s))\<rparr>\<rparr>)"
| "handle_info e Ignore_self s = ((ignore_self_whisper (ic_info s), False), s)"
| "handle_info e Rename_afk s =
     ((True, False), s\<lparr>ic_chain := (ic_chain s)\<lparr>ch_room := rename_users (ic_info s) (ch_room (ic_chain s))\<rparr>\<rparr>)"
| "handle_info e Convert_whisper s =
     (case convert_whisper (ic_info s) (ch_room (ic_chain s)) of
        None \<Rightarrow> ((False, False), s)
      | Some m \<Rightarrow> ((True, False), s\<lparr>ic_chain := (ic_chain s)\<lparr>ch_message := m\<rparr>, ic_converted := True\<rparr>))"
| "handle_info e Audit_whisper s =
     (if \<not> ic_converted s then ((False, False), s)
      else if \<not> ce_auditor e then ((False, True), s)
      else ((True, ce_audit_fails e), s\<lparr>ic_chain := call (Audit (ch_message (ic_chain s)) True) (ic_chain s)\<rparr>))"
| "handle_info e Dispatch_whisper s =
     (if \<not> ic_converted s then ((False, False), s)
      else case dispatch_whisper e (ic_chain s) of (err, st) \<Rightarrow> ((False, err), s\<lparr>ic_chain := st\<rparr>))"

definition info_default_chain :: "info_handler list" where
  "info_default_chain = [Capture_banished, Ignore_self, Rename_afk, Convert_whisper, Audit_whisper, Dispatch_whisper]"

fun process_info :: "chain_env \<Rightarrow> nat \<Rightarrow> info_handler list \<Rightarrow> info_chain \<Rightarrow> bool \<times> info_chain" where
  "process_info e i [] s = (False, s)"
| "process_info e i (h # hs) s =
     (if ce_cancelled e i then (True, s)
      else case handle_info e h s of ((next, err), s') \<Rightarrow>
        if err then (True, s') else if next then process_info e (Suc i) hs s' else (False, s'))"

definition blank_message :: chat_message where
  "blank_message = \<lparr>m_whisper = False, m_is_whisper = False, m_cmd = [], m_name = [], m_trip = [], m_hash = [], m_time = 0,
     m_channel = [], m_text = [], m_type = [], m_mod = False, m_flair = JNull, m_color = []\<rparr>"

definition notify_info :: "chain_env \<Rightarrow> info_message \<Rightarrow> room \<Rightarrow> host option \<Rightarrow> bool \<times> info_chain" where
  "notify_info e im rm h =
     process_info e 0 info_default_chain
       \<lparr>ic_info = im, ic_chain = \<lparr>ch_message = blank_message, ch_author = None, ch_room = rm, ch_host = h, ch_calls = []\<rparr>,
        ic_converted = False\<rparr>"

section \<open>Which handlers let a message pass\<close>

text \<open>The handlers between the first and the last keep everything the dispatch looks at.\<close>

definition runs :: "chat_call list \<Rightarrow> str list" where
  "runs cs = concat (map (\<lambda>x. case x of Run n \<Rightarrow> [n] | _ \<Rightarrow> []) cs)"

lemma runs_simps [simp]:
  "runs [] = []" "runs (Run n # cs) = n # runs cs" "runs (cs @ ds) = runs cs @ runs ds"
  "runs (Audit m w # cs) = runs cs" "runs (Relay_host s # cs) = runs cs" "runs (Deliver_mail s t # cs) = runs cs"
  "runs (Say s # cs) = runs cs" "runs (Ask_preview s # cs) = runs cs" "runs (Ask_agent m # cs) = runs cs"
  "runs (map Say ss) = []"
  by (simp_all add: runs_def comp_def)

definition quiet :: "chain \<Rightarrow> chain \<Rightarrow> bool" where
  "quiet st st' \<longleftrightarrow> ch_message st' = ch_message st \<and> ch_author st' = ch_author st \<and> ch_host st' = ch_host st
     \<and> rm_name (ch_room st') = rm_name (ch_room st) \<and> rm_active (ch_room st') = rm_active (ch_room st)
     \<and> current_prefixes (ch_room st') = current_prefixes (ch_room st) \<and> runs (ch_calls st') = runs (ch_calls st)"

lemma quiet_refl [simp]: "quiet st st"
  and quiet_trans: "quiet st st1 \<Longrightarrow> quiet st1 st2 \<Longrightarrow> quiet st st2"
  by (simp_all add: quiet_def)

lemma quiet_call: "runs [x] = [] \<Longrightarrow> quiet st (call x st)"
  by (simp add: quiet_def call_def)

lemma afk_keeps:
  "remove_if_afk u rm = (rm1, s) \<Longrightarrow> rm_name rm1 = rm_name rm \<and> rm_active rm1 = rm_active rm \<and> current_prefixes rm1 = current_prefixes rm"
  "notify_afk m rm = (rm2, s) \<Longrightarrow> rm_name rm2 = rm_name rm \<and> rm_active rm2 = rm_active rm \<and> current_prefixes rm2 = current_prefixes rm"
  by (auto simp: remove_if_afk_def notify_afk_def current_prefixes_def split: option.splits if_splits)

lemma update_afk_quiet: "quiet st (update_afk st)"
  using afk_keeps by (auto simp: update_afk_def quiet_def split: option.splits prod.splits)

fun lets_pass :: "chain_env \<Rightarrow> handler \<Rightarrow> chain \<Rightarrow> bool" where
  "lets_pass e Audit_message st \<longleftrightarrow> (ce_auditor e \<or> \<not> is_whisper_message (ch_message st)) \<and> \<not> ce_audit_fails e"
| "lets_pass e Ignore_bot st \<longleftrightarrow> \<not> equal_fold (rm_name (ch_room st)) (m_name (ch_message st))"
| "lets_pass e Relay_agent st \<longleftrightarrow> \<not> ce_agent e"
| "lets_pass e Pending_mail st \<longleftrightarrow> ce_mail e \<noteq> Some True"
| "lets_pass e Youtube_preview st \<longleftrightarrow>
     (\<forall>s. ce_youtube e = Some (Yt_found s) \<longrightarrow> \<not> ce_send_fails e (chat_text (m_name (ch_message st)) s False))"
| "lets_pass e Cern_egg st \<longleftrightarrow>
     (cut_at cern_text (to_lower (m_text (ch_message st))) \<noteq> None \<longrightarrow> \<not> ce_send_fails e (chat_text [] (lit ''no'') False))"
| "lets_pass e Agent_participation st \<longleftrightarrow> ce_participates e (ch_message st) (ch_author st) = (False, False)"
| "lets_pass e h st \<longleftrightarrow> True"

lemma handle_quiet:
  assumes "h \<noteq> Resolve_user" "h \<noteq> Dispatch_command"
  shows "quiet st (snd (handle e h st))"
  using assms update_afk_quiet [of st]
  by (cases h) (auto simp: Let_def quiet_def call_def split: option.splits youtube.splits prod.splits)

lemma handle_passes:
  assumes "h \<noteq> Resolve_user" "h \<noteq> Dispatch_command"
  shows "fst (handle e h st) = (True, False) \<longleftrightarrow> lets_pass e h st"
  using assms by (cases h) (auto simp: Let_def split: option.splits youtube.splits prod.splits)

lemma lets_pass_quiet: "quiet st st' \<Longrightarrow> lets_pass e h st' = lets_pass e h st"
  by (cases h) (simp_all add: quiet_def)

text \<open>Either all of them let the message pass, or the chain stops without having run a command.\<close>

lemma process_quiet:
  assumes "Resolve_user \<notin> set hs" "Dispatch_command \<notin> set hs"
  shows "if (\<forall>j < length hs. \<not> ce_cancelled e (i + j)) \<and> (\<forall>h \<in> set hs. lets_pass e h st)
    then \<exists>st'. quiet st st' \<and> process e i (hs @ rest) st = process e (i + length hs) rest st'
    else quiet st (snd (process e i (hs @ rest) st))"
  using assms
proof (induction hs arbitrary: i st)
  case (Cons h hs)
  obtain next_h err st1 where h: "handle e h st = ((next_h, err), st1)" by (metis surj_pair)
  have h_ne: "h \<noteq> Resolve_user" "h \<noteq> Dispatch_command" using Cons.prems by auto
  have q: "quiet st st1" using handle_quiet [OF h_ne, of st e] h by simp
  have pass: "next_h \<and> \<not> err \<longleftrightarrow> lets_pass e h st" using handle_passes [OF h_ne, of e st] h by auto
  have IH: "if (\<forall>j < length hs. \<not> ce_cancelled e (Suc i + j)) \<and> (\<forall>h \<in> set hs. lets_pass e h st1)
    then \<exists>st'. quiet st1 st' \<and> process e (Suc i) (hs @ rest) st1 = process e (Suc i + length hs) rest st'
    else quiet st1 (snd (process e (Suc i) (hs @ rest) st1))"
    by (rule Cons.IH) (use Cons.prems in auto)
  have cancelled: "(\<forall>j < length (h # hs). \<not> ce_cancelled e (i + j))
      \<longleftrightarrow> \<not> ce_cancelled e i \<and> (\<forall>j < length hs. \<not> ce_cancelled e (Suc i + j))"
    by (auto simp: less_Suc_eq_0_disj)
  show ?case
  proof (cases "\<not> ce_cancelled e i \<and> next_h \<and> \<not> err")
    case True
    then have step: "process e i ((h # hs) @ rest) st = process e (Suc i) (hs @ rest) st1" using h by simp
    have all: "(\<forall>h \<in> set (h # hs). lets_pass e h st) \<longleftrightarrow> (\<forall>h \<in> set hs. lets_pass e h st1)"
      using True pass lets_pass_quiet [OF q] by simp
    show ?thesis using IH quiet_trans [OF q] True unfolding step cancelled all by (auto split: if_splits)
  next
    case False
    then have "quiet st (snd (process e i ((h # hs) @ rest) st))" using h q by auto
    then show ?thesis using False pass unfolding cancelled by auto
  qed
qed (auto intro: quiet_refl)

section \<open>When a command runs\<close>

definition lease_granted :: "chain_env \<Rightarrow> host option \<Rightarrow> bool" where
  "lease_granted e h \<longleftrightarrow> \<not> ce_ended e 0 \<and> \<not> ce_ended e 1 \<and> \<not> ce_ended e 3
     \<and> (\<forall>h0. h = Some h0 \<longrightarrow>
          \<not> ce_ended e 2 \<and> admission_error h0 = None \<and> h_pending h0 = None \<and> h_active h0 = None)"

definition same_leases :: "host option \<Rightarrow> host option \<Rightarrow> bool" where
  "same_leases h h' \<longleftrightarrow> (\<exists>w. h' = map_option (\<lambda>h0. h0\<lparr>h_wake := (h_wake h0 \<or> w)\<rparr>) h)"

lemma same_leases_refl [simp]: "same_leases h h"
  unfolding same_leases_def by (rule exI [of _ False]) (cases h; simp)

lemma begin_release:
  "begin_dispatch ended h0 = (None, h1) \<Longrightarrow> release_dispatch h1 = h0\<lparr>h_wake := True\<rparr>"
  by (auto simp: begin_dispatch_def release_dispatch_def signal_def split: if_splits option.splits)

lemma begin_dispatch_None:
  "fst (begin_dispatch ended h0) = None \<longleftrightarrow> \<not> ended \<and> admission_error h0 = None \<and> h_pending h0 = None \<and> h_active h0 = None"
  "fst (begin_dispatch ended h0) \<noteq> None \<Longrightarrow> snd (begin_dispatch ended h0) = h0"
  by (auto simp: begin_dispatch_def split: option.splits)

lemma invoke_command_effect:
  "runs (ch_calls (snd (invoke_command e c st)))
     = runs (ch_calls st) @ (if lease_granted e (ch_host st) then [cm_name c] else [])
   \<and> same_leases (ch_host st) (ch_host (snd (invoke_command e c st)))"
proof (cases "ch_host st")
  case None
  then show ?thesis
    by (simp add: invoke_command_def begin_command_dispatch_def lease_granted_def call_def)
next
  case (Some h0)
  obtain err h1 where b: "begin_dispatch (ce_ended e 2) h0 = (err, h1)" by (metis surj_pair)
  have woken: "same_leases (Some h0) (Some (release_dispatch h1))" if "err = None"
    using begin_release [of "ce_ended e 2" h0 h1] b that unfolding same_leases_def by (intro exI [of _ True]) simp
  show ?thesis
  proof (cases err)
    case None
    then have ok: "\<not> ce_ended e 2 \<and> admission_error h0 = None \<and> h_pending h0 = None \<and> h_active h0 = None"
      using begin_dispatch_None(1) [of "ce_ended e 2" h0] b by simp
    then show ?thesis using Some None b woken
      by (simp add: invoke_command_def begin_command_dispatch_def lease_granted_def call_def)
  next
    case (Some x)
    have "h1 = h0" using begin_dispatch_None(2) [of "ce_ended e 2" h0] b Some by simp
    moreover have "\<not> (\<not> ce_ended e 2 \<and> admission_error h0 = None \<and> h_pending h0 = None \<and> h_active h0 = None)"
      using begin_dispatch_None(1) [of "ce_ended e 2" h0] b Some by simp
    ultimately show ?thesis using Some b \<open>ch_host st = Some h0\<close>
      by (auto simp: invoke_command_def begin_command_dispatch_def lease_granted_def)
  qed
qed

definition command_for :: "chain_env \<Rightarrow> room \<Rightarrow> chat_message \<Rightarrow> user option \<Rightarrow> host option \<Rightarrow> str list" where
  "command_for e rm m author h =
     (case (requested e rm m, author) of
        (Some (w, c), Some u) \<Rightarrow>
          if is_command_authorized (Some (ce_auth e)) (Some c) (Some u) \<and> lease_granted e h then [cm_name c] else []
      | _ \<Rightarrow> [])"

lemma dispatch_command_effect:
  "runs (ch_calls (snd (dispatch_command e st)))
     = runs (ch_calls st) @ command_for e (ch_room st) (ch_message st) (ch_author st) (ch_host st)
   \<and> same_leases (ch_host st) (ch_host (snd (dispatch_command e st)))"
  using invoke_command_effect [of e _ st]
  by (auto simp: dispatch_command_def command_for_def Let_def call_def split: option.splits prod.splits)

lemma requested_cong:
  "current_prefixes rm = current_prefixes rm' \<Longrightarrow> m_text m = m_text m' \<Longrightarrow> requested e rm m = requested e rm' m'"
  by (simp add: requested_def)

text \<open>A message that has arrived, its author resolved\<close>

definition arrived :: "chat_message \<Rightarrow> room \<Rightarrow> host option \<Rightarrow> chain" where
  "arrived m rm h = resolve_user
     \<lparr>ch_message = m\<lparr>m_is_whisper := is_whisper_message m\<rparr>, ch_author = None, ch_room = rm, ch_host = h, ch_calls = []\<rparr>"

lemma arrived_simps:
  "ch_room (arrived m rm h) = rm" "ch_host (arrived m rm h) = h" "ch_calls (arrived m rm h) = []"
  "ch_author (arrived m rm h) = find (\<lambda>u. equal_fold (u_name u) (m_name m)) (rm_active rm)"
  "m_text (ch_message (arrived m rm h)) = m_text m"
  by (simp_all add: arrived_def resolve_user_def split: option.splits)

definition reaches_dispatch :: "chain_env \<Rightarrow> chain \<Rightarrow> bool" where
  "reaches_dispatch e st \<longleftrightarrow> (\<forall>i < length default_chain. \<not> ce_cancelled e i) \<and> (\<forall>h \<in> set default_chain. lets_pass e h st)"

text \<open>
  C33. A chat message runs at most one command, and exactly when every handler before the dispatch lets it pass (it
  is audited, not the bot's own, not for an agent's host, not claimed by the agent), its text starts with a command
  prefix, its first word resolves, its author is a user of the room who is authorized for that command, and the
  host grants a lease; no lease is left behind.
\<close>

theorem command_runs_exactly_when:
  "let st = arrived m rm h; author = find (\<lambda>u. equal_fold (u_name u) (m_name m)) (rm_active rm)
   in runs (ch_calls (snd (notify_chat e m rm h)))
        = (if reaches_dispatch e st then command_for e rm m author h else [])
      \<and> same_leases h (ch_host (snd (notify_chat e m rm h)))"
proof -
  define hs where "hs = [Audit_message, Ignore_bot, Relay_agent, Log_message, Pending_mail, Update_afk, Youtube_preview,
    Cern_egg, Agent_participation]"
  define st where "st = arrived m rm h"
  have chain: "default_chain = Resolve_user # hs @ [Dispatch_command]" by (simp add: default_chain_def hs_def)
  have len: "length hs = 9" and ne: "Resolve_user \<notin> set hs" "Dispatch_command \<notin> set hs" by (simp_all add: hs_def)
  have start: "notify_chat e m rm h =
      (if ce_cancelled e 0 then (True, \<lparr>ch_message = m\<lparr>m_is_whisper := is_whisper_message m\<rparr>, ch_author = None,
          ch_room = rm, ch_host = h, ch_calls = []\<rparr>)
       else process e 1 (hs @ [Dispatch_command]) st)"
    by (simp add: notify_chat_def chain st_def arrived_def)
  have reach: "reaches_dispatch e st \<longleftrightarrow> \<not> ce_cancelled e 0 \<and> \<not> ce_cancelled e 10
      \<and> (\<forall>j < length hs. \<not> ce_cancelled e (1 + j)) \<and> (\<forall>h \<in> set hs. lets_pass e h st)"
    unfolding reaches_dispatch_def chain by (auto simp: len less_Suc_eq_0_disj eval_nat_numeral)
  have end_step: "process e 10 [Dispatch_command] st' = (if ce_cancelled e 10 then (True, st') else dispatch_command e st')" for st'
    by (simp split: prod.splits)
  have main: "runs (ch_calls (snd (process e 1 (hs @ [Dispatch_command]) st)))
        = (if reaches_dispatch e st then command_for e rm m (ch_author st) h else [])
      \<and> same_leases h (ch_host (snd (process e 1 (hs @ [Dispatch_command]) st)))" if "\<not> ce_cancelled e 0"
  proof (cases "(\<forall>j < length hs. \<not> ce_cancelled e (1 + j)) \<and> (\<forall>h \<in> set hs. lets_pass e h st)")
    case True
    then obtain st' where q: "quiet st st'" and p: "process e 1 (hs @ [Dispatch_command]) st = process e 10 [Dispatch_command] st'"
      using process_quiet [OF ne, of e 1 st "[Dispatch_command]"] len by (auto simp del: process.simps)
    have "command_for e (ch_room st') (ch_message st') (ch_author st') (ch_host st') = command_for e rm m (ch_author st) h"
      using q requested_cong [of "ch_room st'" rm "ch_message st'" m e]
      by (simp add: command_for_def quiet_def st_def arrived_simps)
    then show ?thesis using that True q dispatch_command_effect [of e st'] unfolding p end_step reach
      by (auto simp: quiet_def st_def arrived_simps)
  next
    case False
    have "quiet st (snd (process e 1 (hs @ [Dispatch_command]) st))"
      using process_quiet [OF ne, of e 1 st "[Dispatch_command]"] unfolding if_not_P [OF False] .
    then show ?thesis using False unfolding reach by (auto simp: quiet_def st_def arrived_simps)
  qed
  show ?thesis
    using main reach unfolding Let_def start st_def [symmetric]
    by (auto simp: st_def arrived_simps)
qed

definition demo_env :: chain_env where
  "demo_env = \<lparr>ce_cancelled = (\<lambda>i. False), ce_auditor = True, ce_audit_fails = False, ce_agent = False, ce_relay = None,
     ce_mail = None, ce_youtube = None, ce_participates = (\<lambda>m a. (False, False)), ce_send_fails = (\<lambda>s. False),
     ce_registry = register_each [(\<lparr>cm_name = lit ''ping'', cm_policy = By_adapter (lit ''ping'') REGULAR\<rparr>, [lit ''ping'']),
       (\<lparr>cm_name = lit ''ban'', cm_policy = By_adapter (lit ''ban'') MODERATOR\<rparr>, [lit ''ban''])] blank_registry,
     ce_auth = \<lparr>av_security = Some \<lparr>sc_admin_trips = [lit ''boss''], sc_user_trips = [], sc_stored = False,
       sc_runtime_admins = []\<rparr>, av_bundle = None, av_trips = Map.empty, av_io_fails = False\<rparr>,
     ce_ended = (\<lambda>i. False), ce_run_fails = False\<rparr>"

definition demo_lounge :: room where
  "demo_lounge = demo_room\<lparr>rm_active := [demo_user (lit ''ann'') (lit ''boss''), demo_user (lit ''bob'') []]\<rparr>"

lemma demo_dispatch:
  "runs (ch_calls (snd (notify_chat demo_env (demo_message (lit ''bob'') (lit '' !PING now'')) demo_lounge None))) = [lit ''ping'']"
  "runs (ch_calls (snd (notify_chat demo_env (demo_message (lit ''bob'') (lit ''!ban ann'')) demo_lounge None))) = []"
  "runs (ch_calls (snd (notify_chat demo_env (demo_message (lit ''Ann'') (lit ''!ban bob'')) demo_lounge None))) = [lit ''ban'']"
  by code_simp+

section \<open>Whispers\<close>

definition reaches_whisper :: "chain_env \<Rightarrow> info_message \<Rightarrow> bool" where
  "reaches_whisper e im \<longleftrightarrow> (\<forall>i < length info_default_chain. \<not> ce_cancelled e i) \<and> ignore_self_whisper im
     \<and> ce_auditor e \<and> \<not> ce_audit_fails e"

lemma info_room_keeps:
  "rm_active (capture_banished im rm) = rm_active rm" "current_prefixes (capture_banished im rm) = current_prefixes rm"
  "rm_channel (capture_banished im rm) = rm_channel rm"
  "rm_active (rename_users im rm) = rm_active rm" "current_prefixes (rename_users im rm) = current_prefixes rm"
  "rm_channel (rename_users im rm) = rm_channel rm"
  by (auto simp: capture_banished_def rename_users_def rename_afk_user_def current_prefixes_def Let_def split: option.splits prod.splits)

lemma convert_whisper_cong:
  assumes "rm_active rm = rm_active rm'" "rm_channel rm = rm_channel rm'"
  shows "convert_whisper im rm = convert_whisper im rm'"
  unfolding convert_whisper_def assms by (rule refl)

lemma unknown_not_authorized: "\<not> is_command_authorized v c None"
  by (auto simp: is_command_authorized_def split: option.splits)

lemma dispatch_whisper_effect:
  "runs (ch_calls (snd (dispatch_whisper e st)))
     = runs (ch_calls st) @ command_for e (ch_room st) (ch_message st)
         (find (\<lambda>u. equal_fold (u_name u) (m_name (ch_message st))) (rm_active (ch_room st))) (ch_host st)
   \<and> same_leases (ch_host st) (ch_host (snd (dispatch_whisper e st)))"
proof -
  define a where "a = find (\<lambda>u. equal_fold (u_name u) (m_name (ch_message st))) (rm_active (ch_room st))"
  show ?thesis
    unfolding dispatch_whisper_def command_for_def a_def [symmetric]
    using invoke_command_effect [of e _ st] unknown_not_authorized by (auto split: option.splits prod.splits)
qed

text \<open>
  A whisper runs at most one command, under the same conditions, with the identity of the active user whom the
  server names as its sender, and only if it has been audited; the bot's own whispers and any other information
  run nothing.
\<close>

theorem whisper_runs_exactly_when:
  "runs (ch_calls (ic_chain (snd (notify_info e im rm h))))
     = (case convert_whisper im rm of
          Some m \<Rightarrow>
            if reaches_whisper e im
            then command_for e rm m (find (\<lambda>u. equal_fold (u_name u) (m_name m)) (rm_active rm)) h else []
        | None \<Rightarrow> [])"
proof -
  let ?s = "\<lambda>rm'. \<lparr>ic_info = im, ic_chain = \<lparr>ch_message = blank_message, ch_author = None, ch_room = rm', ch_host = h,
      ch_calls = []\<rparr>, ic_converted = False\<rparr>"
  let ?rm1 = "capture_banished im rm" and ?rm2 = "rename_users im (capture_banished im rm)"
  have conv: "convert_whisper im ?rm2 = convert_whisper im rm"
    by (rule convert_whisper_cong) (simp_all add: info_room_keeps)
  have three: "(\<forall>i < 3. \<not> ce_cancelled e i) \<longleftrightarrow> \<not> ce_cancelled e 0 \<and> \<not> ce_cancelled e (Suc 0) \<and> \<not> ce_cancelled e (Suc (Suc 0))"
    by (simp add: All_less_Suc eval_nat_numeral) blast
  have front: "runs (ch_calls (ic_chain (snd (notify_info e im rm h))))
    = (if (\<forall>i < 3. \<not> ce_cancelled e i) \<and> ignore_self_whisper im
       then runs (ch_calls (ic_chain (snd (process_info e (Suc (Suc (Suc 0))) [Convert_whisper, Audit_whisper, Dispatch_whisper] (?s ?rm2)))))
       else [])"
    unfolding three by (simp add: notify_info_def info_default_chain_def)
  have lim: "(\<forall>i < length info_default_chain. \<not> ce_cancelled e i) \<longleftrightarrow>
      (\<forall>i < 3. \<not> ce_cancelled e i) \<and> \<not> ce_cancelled e (Suc (Suc (Suc 0))) \<and> \<not> ce_cancelled e (Suc (Suc (Suc (Suc 0)))) \<and> \<not> ce_cancelled e (Suc (Suc (Suc (Suc (Suc 0)))))"
    by (simp add: info_default_chain_def All_less_Suc eval_nat_numeral) blast
  show ?thesis
  proof (cases "convert_whisper im rm")
    case None
    then show ?thesis unfolding front by (simp add: conv)
  next
    case (Some m)
    let ?st = "call (Audit m True) \<lparr>ch_message = m, ch_author = None, ch_room = ?rm2, ch_host = h, ch_calls = []\<rparr>"
    have cmd: "command_for e ?rm2 m a h = command_for e rm m a h" for a
      using requested_cong [of ?rm2 rm m m e] by (simp add: command_for_def info_room_keeps)
    have tail: "runs (ch_calls (ic_chain (snd (process_info e (Suc (Suc (Suc 0))) [Convert_whisper, Audit_whisper, Dispatch_whisper] (?s ?rm2)))))
      = (if \<not> ce_cancelled e (Suc (Suc (Suc 0))) \<and> \<not> ce_cancelled e (Suc (Suc (Suc (Suc 0)))) \<and> ce_auditor e \<and> \<not> ce_audit_fails e \<and> \<not> ce_cancelled e (Suc (Suc (Suc (Suc (Suc 0)))))
         then runs (ch_calls (snd (dispatch_whisper e ?st))) else [])"
      by (cases "dispatch_whisper e ?st") (simp add: conv Some call_def)
    show ?thesis
      unfolding front tail reaches_whisper_def lim using dispatch_whisper_effect [of e ?st] cmd Some
      by (auto simp: call_def info_room_keeps)
  qed
qed

end
