(* ===== verification/Replicas.thy ===== *)
theory Replicas
  imports Room
begin

text \<open>
  The further rooms an engine serves: the manager of replicas and the goroutines that add and remove them
  (\<open>internal/core/replica_manager.go\<close>, \<open>replica_controller.go\<close>), and what rests on them: the directory of rooms
  (\<open>room_directory.go\<close>), the relay to the support room (\<open>support_relay.go\<close>), moving users (\<open>resurrect.go\<close>,
  \<open>auto_move.go\<close>, \<open>internal/listener/automove_join.go\<close>).  Every call of \<open>AddReplica\<close> is an attempt with a program
  counter; what the manager does under its lock, and what happens under \<open>registrationMu\<close>, is atomic.
\<close>

section \<open>The manager\<close>

record manager =
  mg_replicas :: "str \<rightharpoonup> nat"
  mg_host :: str
  mg_stopped :: bool

datatype replica_error =
    Invalid_replica | Manager_stopped | Host_channel | Replica_exists | Replica_missing | Not_configured
  | Channel_required | Context_ended

definition new_manager :: "str \<Rightarrow> manager" where
  "new_manager host = \<lparr>mg_replicas = Map.empty, mg_host = host, mg_stopped = False\<rparr>"

definition manager_add :: "str \<Rightarrow> nat \<Rightarrow> manager \<Rightarrow> replica_error option \<times> manager" where
  "manager_add channel r m =
     (let c = trim_space channel
      in if c = [] then (Some Invalid_replica, m)
         else if mg_stopped m then (Some Manager_stopped, m)
         else if c = mg_host m then (Some Host_channel, m)
         else if mg_replicas m c \<noteq> None then (Some Replica_exists, m)
         else (None, m\<lparr>mg_replicas := (mg_replicas m)(c \<mapsto> r)\<rparr>))"

text \<open>The locked part of \<open>remove\<close>: the replica that must be stopped now\<close>

definition manager_remove :: "str \<Rightarrow> nat option \<Rightarrow> manager \<Rightarrow> nat option \<times> manager" where
  "manager_remove channel expected m =
     (case mg_replicas m channel of
        None \<Rightarrow> (None, m)
      | Some r \<Rightarrow>
          if expected \<noteq> None \<and> expected \<noteq> Some r then (None, m)
          else (Some r, m\<lparr>mg_replicas := (mg_replicas m)(channel := None)\<rparr>))"

definition manager_stop :: "manager \<Rightarrow> nat set \<times> manager" where
  "manager_stop m = (ran (mg_replicas m), m\<lparr>mg_stopped := True, mg_replicas := Map.empty\<rparr>)"

section \<open>Attempts\<close>

datatype add_pc = Constructing | Starting | Started | Cleaning | Added | Refused

text \<open>The handler of runtime failures, which an engine calls at most once\<close>

datatype failure_pc = No_failure | Noted | Handled

record add_attempt =
  at_channel :: str
  at_pc :: add_pc
  at_constructed :: bool
  at_failed :: bool
  at_handler :: failure_pc
  at_owed :: nat
  at_stops :: nat

record replicas =
  rs_manager :: manager
  rs_attempts :: "add_attempt list"

definition set_attempt :: "nat \<Rightarrow> (add_attempt \<Rightarrow> add_attempt) \<Rightarrow> replicas \<Rightarrow> replicas" where
  "set_attempt i f s = s\<lparr>rs_attempts := (rs_attempts s)[i := f (rs_attempts s ! i)]\<rparr>"

text \<open>The checks at the start of \<open>AddReplica\<close>\<close>

definition add_replica :: "bool \<Rightarrow> bool \<Rightarrow> str \<Rightarrow> replicas \<Rightarrow> replica_error option \<times> replicas" where
  "add_replica configured ended channel s =
     (let c = trim_space channel
      in if \<not> configured then (Some Not_configured, s)
         else if c = [] then (Some Channel_required, s)
         else if ended then (Some Context_ended, s)
         else (None, s\<lparr>rs_attempts := rs_attempts s
                @ [\<lparr>at_channel = c, at_pc = Constructing, at_constructed = False, at_failed = False,
                    at_handler = No_failure, at_owed = 0, at_stops = 0\<rparr>]\<rparr>))"

definition constructed :: "bool \<Rightarrow> add_attempt \<Rightarrow> add_attempt" where
  "constructed ok a = (if ok then a\<lparr>at_pc := Starting, at_constructed := True\<rparr> else a\<lparr>at_pc := Refused\<rparr>)"

definition start_returned :: "bool \<Rightarrow> add_attempt \<Rightarrow> add_attempt" where
  "start_returned ok a = a\<lparr>at_pc := (if ok then Started else Cleaning)\<rparr>"

text \<open>The section under \<open>registrationMu\<close>, or the cleanup before it when the request has ended\<close>

definition register_replica :: "bool \<Rightarrow> nat \<Rightarrow> replicas \<Rightarrow> replicas" where
  "register_replica ended i s =
     (if ended \<or> at_failed (rs_attempts s ! i) then set_attempt i (\<lambda>a. a\<lparr>at_pc := Cleaning\<rparr>) s
      else case manager_add (at_channel (rs_attempts s ! i)) i (rs_manager s) of
        (None, m) \<Rightarrow> (set_attempt i (\<lambda>a. a\<lparr>at_pc := Added\<rparr>) s)\<lparr>rs_manager := m\<rparr>
      | (Some e, m) \<Rightarrow> set_attempt i (\<lambda>a. a\<lparr>at_pc := Cleaning\<rparr>) s)"

definition clean_up :: "add_attempt \<Rightarrow> add_attempt" where
  "clean_up a = a\<lparr>at_pc := Refused, at_stops := Suc (at_stops a)\<rparr>"

definition note_failure :: "add_attempt \<Rightarrow> add_attempt" where
  "note_failure a = a\<lparr>at_failed := True, at_handler := Noted\<rparr>"

definition owe_stop :: "add_attempt \<Rightarrow> add_attempt" where
  "owe_stop a = a\<lparr>at_owed := Suc (at_owed a)\<rparr>"

definition stop_owed :: "add_attempt \<Rightarrow> add_attempt" where
  "stop_owed a = a\<lparr>at_owed := at_owed a - 1, at_stops := Suc (at_stops a)\<rparr>"

text \<open>\<open>Remove\<close> by a command, and by the failure handler, which names its own replica\<close>

definition remove_replica :: "str \<Rightarrow> nat option \<Rightarrow> replicas \<Rightarrow> replicas" where
  "remove_replica channel expected s =
     (case manager_remove channel expected (rs_manager s) of
        (None, m) \<Rightarrow> s
      | (Some r, m) \<Rightarrow> (set_attempt r owe_stop s)\<lparr>rs_manager := m\<rparr>)"

definition handle_failure :: "nat \<Rightarrow> replicas \<Rightarrow> replicas" where
  "handle_failure i s =
     remove_replica (at_channel (rs_attempts s ! i)) (Some i) (set_attempt i (\<lambda>a. a\<lparr>at_handler := Handled\<rparr>) s)"

definition stop_all :: "replicas \<Rightarrow> replicas" where
  "stop_all s =
     (case manager_stop (rs_manager s) of (rs, m) \<Rightarrow>
        s\<lparr>rs_manager := m,
          rs_attempts := map (\<lambda>i. if i \<in> rs then owe_stop (rs_attempts s ! i) else rs_attempts s ! i) [0..<length (rs_attempts s)]\<rparr>)"

definition replica_channels :: "replicas \<Rightarrow> str set" where
  "replica_channels s = dom (mg_replicas (rs_manager s))"

abbreviation at_step :: "replicas \<Rightarrow> nat \<Rightarrow> add_pc \<Rightarrow> bool" where
  "at_step s i pc \<equiv> i < length (rs_attempts s) \<and> at_pc (rs_attempts s ! i) = pc"

inductive replica_step :: "replicas \<Rightarrow> replicas \<Rightarrow> bool" where
  step_add: "replica_step s (snd (add_replica configured ended channel s))"
| step_construct: "at_step s i Constructing \<Longrightarrow> replica_step s (set_attempt i (constructed ok) s)"
| step_start: "at_step s i Starting \<Longrightarrow> replica_step s (set_attempt i (start_returned ok) s)"
| step_register: "at_step s i Started \<Longrightarrow> replica_step s (register_replica ended i s)"
| step_clean: "at_step s i Cleaning \<Longrightarrow> replica_step s (set_attempt i clean_up s)"
| step_fail: "i < length (rs_attempts s) \<Longrightarrow> at_constructed (rs_attempts s ! i) \<Longrightarrow> at_handler (rs_attempts s ! i) = No_failure \<Longrightarrow>
    replica_step s (set_attempt i note_failure s)"
| step_handle: "i < length (rs_attempts s) \<Longrightarrow> at_handler (rs_attempts s ! i) = Noted \<Longrightarrow> replica_step s (handle_failure i s)"
| step_remove: "replica_step s (remove_replica (trim_space channel) None s)"
| step_stop_all: "replica_step s (stop_all s)"
| step_stop: "i < length (rs_attempts s) \<Longrightarrow> 0 < at_owed (rs_attempts s ! i) \<Longrightarrow> replica_step s (set_attempt i stop_owed s)"

definition no_replicas :: "str \<Rightarrow> replicas" where
  "no_replicas host = \<lparr>rs_manager = new_manager host, rs_attempts = []\<rparr>"

section \<open>Ownership\<close>

text \<open>An attempt that is registered owes nothing and has not been stopped; one that no longer is has been handed to
  somebody who stops it, once; one that was refused has been stopped by its own goroutine.\<close>

definition registered_as :: "replicas \<Rightarrow> nat \<Rightarrow> bool" where
  "registered_as s i \<longleftrightarrow> mg_replicas (rs_manager s) (at_channel (rs_attempts s ! i)) = Some i"

definition attempt_ok :: "bool \<Rightarrow> add_attempt \<Rightarrow> bool" where
  "attempt_ok registered a \<longleftrightarrow>
     (registered \<longrightarrow> at_pc a = Added)
     \<and> (case at_pc a of
          Added \<Rightarrow> at_owed a + at_stops a = (if registered then 0 else 1) \<and> (registered \<and> at_failed a \<longrightarrow> at_handler a = Noted)
        | Refused \<Rightarrow> at_owed a = 0 \<and> at_stops a = (if at_constructed a then 1 else 0)
        | _ \<Rightarrow> at_owed a = 0 \<and> at_stops a = 0)
     \<and> (at_constructed a = (at_pc a \<noteq> Constructing \<and> (at_pc a = Refused \<longrightarrow> at_constructed a)))
     \<and> (at_handler a \<noteq> No_failure \<longleftrightarrow> at_failed a)
     \<and> trim_space (at_channel a) = at_channel a"

definition replicas_ok :: "replicas \<Rightarrow> bool" where
  "replicas_ok s \<longleftrightarrow>
     (\<forall>c i. mg_replicas (rs_manager s) c = Some i \<longrightarrow>
        i < length (rs_attempts s) \<and> at_channel (rs_attempts s ! i) = c \<and> c \<noteq> [] \<and> c \<noteq> mg_host (rs_manager s))
     \<and> (mg_stopped (rs_manager s) \<longrightarrow> mg_replicas (rs_manager s) = Map.empty)
     \<and> (\<forall>i < length (rs_attempts s). attempt_ok (registered_as s i) (rs_attempts s ! i))"

lemma set_attempt_simps [simp]:
  "rs_manager (set_attempt i f s) = rs_manager s"
  "length (rs_attempts (set_attempt i f s)) = length (rs_attempts s)"
  "i < length (rs_attempts s) \<Longrightarrow> rs_attempts (set_attempt i f s) ! j = (if j = i then f (rs_attempts s ! i) else rs_attempts s ! j)"
  by (simp_all add: set_attempt_def nth_list_update)

text \<open>A step of one attempt that leaves the manager alone\<close>

lemma ok_set_attempt:
  assumes "replicas_ok s" "i < length (rs_attempts s)" "at_channel (f (rs_attempts s ! i)) = at_channel (rs_attempts s ! i)"
    and "attempt_ok (registered_as s i) (rs_attempts s ! i) \<Longrightarrow> attempt_ok (registered_as s i) (f (rs_attempts s ! i))"
  shows "replicas_ok (set_attempt i f s)"
proof -
  have "registered_as (set_attempt i f s) j = registered_as s j" for j
    using assms(2,3) by (auto simp: registered_as_def)
  then show ?thesis using assms by (auto simp: replicas_ok_def)
qed

lemma ok_add:
  assumes "replicas_ok s"
  shows "replicas_ok (snd (add_replica configured ended channel s))"
proof (cases "configured \<and> trim_space channel \<noteq> [] \<and> \<not> ended")
  case True
  let ?s = "snd (add_replica configured ended channel s)"
  have old: "rs_attempts ?s ! i = rs_attempts s ! i" "registered_as ?s i = registered_as s i" if "i < length (rs_attempts s)" for i
    using that True by (auto simp: add_replica_def Let_def nth_append registered_as_def)
  have man: "rs_manager ?s = rs_manager s" and len: "length (rs_attempts ?s) = Suc (length (rs_attempts s))"
    using True by (auto simp: add_replica_def Let_def)
  have "\<not> registered_as ?s (length (rs_attempts s))"
    using assms man unfolding replicas_ok_def registered_as_def by (metis nat_neq_iff)
  then have new: "attempt_ok (registered_as ?s (length (rs_attempts s))) (rs_attempts ?s ! length (rs_attempts s))"
    using True by (auto simp: add_replica_def Let_def attempt_ok_def)
  have "attempt_ok (registered_as ?s i) (rs_attempts ?s ! i)" if "i < length (rs_attempts ?s)" for i
    using that new old assms unfolding len replicas_ok_def by (cases "i = length (rs_attempts s)") auto
  then show ?thesis using assms old(1) unfolding replicas_ok_def man len by (auto simp: less_Suc_eq)
qed (use assms in \<open>auto simp: add_replica_def Let_def\<close>)

lemma attempt_ok_register:
  "attempt_ok r a \<Longrightarrow> at_pc a = Started \<Longrightarrow> \<not> at_failed a \<Longrightarrow> attempt_ok True (a\<lparr>at_pc := Added\<rparr>)"
  "attempt_ok r a \<Longrightarrow> at_pc a = Started \<Longrightarrow> attempt_ok False (a\<lparr>at_pc := Cleaning\<rparr>)"
  by (auto simp: attempt_ok_def)

lemma attempt_ok_Started: "attempt_ok r a \<Longrightarrow> at_pc a = Started \<Longrightarrow> \<not> r"
  by (auto simp: attempt_ok_def)

lemma ok_at: "replicas_ok s \<Longrightarrow> i < length (rs_attempts s) \<Longrightarrow> attempt_ok (registered_as s i) (rs_attempts s ! i)"
  by (simp add: replicas_ok_def)

lemma ok_register:
  assumes ok: "replicas_ok s" and pc: "at_step s i Started"
  shows "replicas_ok (register_replica ended i s)"
proof -
  let ?a = "rs_attempts s ! i"
  have a: "attempt_ok (registered_as s i) ?a" using ok pc by (simp add: ok_at)
  have not_reg: "\<not> registered_as s i" using attempt_ok_Started [OF a] pc by blast
  have clean: "replicas_ok (set_attempt i (\<lambda>a. a\<lparr>at_pc := Cleaning\<rparr>) s)"
    using pc attempt_ok_register(2) [OF a] not_reg by (intro ok_set_attempt [OF ok]) auto
  show ?thesis
  proof (cases "ended \<or> at_failed ?a \<or> (\<exists>e m. manager_add (at_channel ?a) i (rs_manager s) = (Some e, m))")
    case True
    then show ?thesis using clean by (auto simp: register_replica_def split: prod.splits option.splits)
  next
    case False
    then obtain m where m: "manager_add (at_channel ?a) i (rs_manager s) = (None, m)"
      by (metis not_None_eq surj_pair)
    let ?s = "(set_attempt i (\<lambda>a. a\<lparr>at_pc := Added\<rparr>) s)\<lparr>rs_manager := m\<rparr>"
    have s: "register_replica ended i s = ?s" using False m by (simp add: register_replica_def)
    have trimmed: "trim_space (at_channel ?a) = at_channel ?a" using a by (simp add: attempt_ok_def)
    have free: "at_channel ?a \<noteq> []" "\<not> mg_stopped (rs_manager s)" "at_channel ?a \<noteq> mg_host (rs_manager s)"
      "mg_replicas (rs_manager s) (at_channel ?a) = None"
      and m_def: "m = (rs_manager s)\<lparr>mg_replicas := (mg_replicas (rs_manager s))(at_channel ?a \<mapsto> i)\<rparr>"
      using m trimmed by (auto simp: manager_add_def Let_def split: if_splits)
    have att: "rs_attempts ?s ! j = (if j = i then ?a\<lparr>at_pc := Added\<rparr> else rs_attempts s ! j)" for j using pc by simp
    have reg: "registered_as ?s j = (if j = i then True else registered_as s j)" for j
      using pc free(4) by (auto simp: registered_as_def m_def)
    have "attempt_ok (registered_as ?s j) (rs_attempts ?s ! j)" if "j < length (rs_attempts s)" for j
      unfolding reg att using ok_at [OF ok that] attempt_ok_register(1) [OF a] pc False by simp
    then show ?thesis unfolding s using ok pc free by (auto simp: replicas_ok_def m_def)
  qed
qed

text \<open>A registered attempt is handed over to be stopped.\<close>

lemma ok_unregister:
  assumes ok: "replicas_ok s" and ci: "mg_replicas (rs_manager s) c = Some i"
    and f: "attempt_ok False (f (rs_attempts s ! i))" "at_channel (f (rs_attempts s ! i)) = at_channel (rs_attempts s ! i)"
  shows "replicas_ok ((set_attempt i f s)\<lparr>rs_manager := (rs_manager s)\<lparr>mg_replicas := (mg_replicas (rs_manager s))(c := None)\<rparr>\<rparr>)"
    (is "replicas_ok ?s")
proof -
  have i: "i < length (rs_attempts s)" "at_channel (rs_attempts s ! i) = c" using ok ci by (auto simp: replicas_ok_def)
  have att: "rs_attempts ?s ! j = (if j = i then f (rs_attempts s ! i) else rs_attempts s ! j)" for j using i by simp
  have reg: "registered_as ?s j = (if j = i then False else registered_as s j)" for j
    using i ci f(2) by (auto simp: registered_as_def)
  have "attempt_ok (registered_as ?s j) (rs_attempts ?s ! j)" if "j < length (rs_attempts s)" for j
    unfolding reg att using ok_at [OF ok that] f(1) by simp
  then show ?thesis using ok i f(2) by (auto simp: replicas_ok_def)
qed

lemma registered_iff: "replicas_ok s \<Longrightarrow> i < length (rs_attempts s) \<Longrightarrow>
    registered_as s i \<longleftrightarrow> (\<exists>c. mg_replicas (rs_manager s) c = Some i)"
  by (auto simp: registered_as_def replicas_ok_def)

lemma ok_remove:
  assumes ok: "replicas_ok s"
  shows "replicas_ok (remove_replica c expected s)"
proof (cases "manager_remove c expected (rs_manager s)")
  case (Pair r m)
  show ?thesis
  proof (cases r)
    case None
    then show ?thesis using ok Pair by (simp add: remove_replica_def)
  next
    case (Some i)
    have ci: "mg_replicas (rs_manager s) c = Some i"
      and m: "m = (rs_manager s)\<lparr>mg_replicas := (mg_replicas (rs_manager s))(c := None)\<rparr>"
      using Pair Some by (auto simp: manager_remove_def split: option.splits if_splits)
    have i: "i < length (rs_attempts s)" using ok ci by (auto simp: replicas_ok_def)
    have "registered_as s i" using registered_iff [OF ok i] ci by blast
    then have "attempt_ok True (rs_attempts s ! i)" using ok_at [OF ok i] by simp
    then have "attempt_ok False (owe_stop (rs_attempts s ! i))" by (auto simp: attempt_ok_def owe_stop_def)
    then show ?thesis
      using ok_unregister [OF ok ci, of owe_stop] Pair Some m by (simp add: remove_replica_def owe_stop_def)
  qed
qed

lemma ok_handle:
  assumes ok: "replicas_ok s" and i: "i < length (rs_attempts s)" and noted: "at_handler (rs_attempts s ! i) = Noted"
  shows "replicas_ok (handle_failure i s)"
proof (cases "registered_as s i")
  case True
  let ?f = "\<lambda>a. owe_stop (a\<lparr>at_handler := Handled\<rparr>)" and ?c = "at_channel (rs_attempts s ! i)"
  have ci: "mg_replicas (rs_manager s) ?c = Some i" using True by (simp add: registered_as_def)
  have "attempt_ok True (rs_attempts s ! i)" using ok_at [OF ok i] True by simp
  then have f: "attempt_ok False (?f (rs_attempts s ! i))" using noted by (auto simp: attempt_ok_def owe_stop_def)
  have "handle_failure i s
      = (set_attempt i ?f s)\<lparr>rs_manager := (rs_manager s)\<lparr>mg_replicas := (mg_replicas (rs_manager s))(?c := None)\<rparr>\<rparr>"
    using i ci by (simp add: handle_failure_def remove_replica_def manager_remove_def set_attempt_def)
  then show ?thesis using ok_unregister [OF ok ci, of ?f] f by (simp add: owe_stop_def)
next
  case False
  have a: "attempt_ok False (rs_attempts s ! i)" using ok_at [OF ok i] False by simp
  have "mg_replicas (rs_manager s) (at_channel (rs_attempts s ! i)) \<noteq> Some i" using False by (simp add: registered_as_def)
  then have "handle_failure i s = set_attempt i (\<lambda>a. a\<lparr>at_handler := Handled\<rparr>) s"
    by (auto simp: handle_failure_def remove_replica_def manager_remove_def split: option.splits)
  moreover have "attempt_ok False ((rs_attempts s ! i)\<lparr>at_handler := Handled\<rparr>)"
    using a noted by (auto simp: attempt_ok_def split: add_pc.splits)
  ultimately show ?thesis using False by (auto intro!: ok_set_attempt [OF ok i])
qed

lemma ok_stop_all:
  assumes ok: "replicas_ok s"
  shows "replicas_ok (stop_all s)"
proof -
  have reg: "registered_as s i \<longleftrightarrow> i \<in> ran (mg_replicas (rs_manager s))" if "i < length (rs_attempts s)" for i
    using registered_iff [OF ok that] by (simp add: ran_def)
  have owe: "attempt_ok True a \<Longrightarrow> attempt_ok False (owe_stop a)" for a by (auto simp: attempt_ok_def owe_stop_def)
  have all: "\<forall>i < length (rs_attempts s). attempt_ok False
      (if i \<in> ran (mg_replicas (rs_manager s)) then owe_stop (rs_attempts s ! i) else rs_attempts s ! i)"
  proof (intro allI impI)
    fix i assume i: "i < length (rs_attempts s)"
    show "attempt_ok False (if i \<in> ran (mg_replicas (rs_manager s)) then owe_stop (rs_attempts s ! i) else rs_attempts s ! i)"
      using ok_at [OF ok i] reg [OF i] owe by (cases "i \<in> ran (mg_replicas (rs_manager s))") simp_all
  qed
  from all have "\<forall>i < length (rs_attempts (stop_all s)). attempt_ok (registered_as (stop_all s) i) (rs_attempts (stop_all s) ! i)"
    by (simp add: stop_all_def manager_stop_def registered_as_def split del: if_split cong: if_cong)
  moreover have "mg_replicas (rs_manager (stop_all s)) = Map.empty" by (simp add: stop_all_def manager_stop_def)
  ultimately show ?thesis by (simp add: replicas_ok_def)
qed

lemma replicas_step_ok:
  assumes ok: "replicas_ok s" and "replica_step s s'"
  shows "replicas_ok s'"
  using assms(2)
proof cases
  case (step_construct i ok')
  show ?thesis unfolding step_construct(1)
    by (rule ok_set_attempt [OF ok]) (use step_construct in \<open>auto simp: attempt_ok_def constructed_def\<close>)
next
  case (step_start i ok')
  show ?thesis unfolding step_start(1)
    by (rule ok_set_attempt [OF ok]) (use step_start in \<open>auto simp: attempt_ok_def start_returned_def\<close>)
next
  case (step_clean i)
  show ?thesis unfolding step_clean(1)
    by (rule ok_set_attempt [OF ok]) (use step_clean in \<open>auto simp: attempt_ok_def clean_up_def\<close>)
next
  case (step_fail i)
  show ?thesis unfolding step_fail(1)
    by (rule ok_set_attempt [OF ok]) (use step_fail in \<open>auto simp: attempt_ok_def note_failure_def split: add_pc.splits\<close>)
next
  case (step_stop i)
  show ?thesis unfolding step_stop(1)
    by (rule ok_set_attempt [OF ok]) (use step_stop in \<open>auto simp: attempt_ok_def stop_owed_def split: add_pc.splits\<close>)
qed (use ok ok_add ok_register ok_remove ok_stop_all ok_handle in auto)

interpretation replica_runs: invariant_of "\<lambda>s. \<exists>host. s = no_replicas host" replica_step replicas_ok
proof
  show "replicas_ok s" if "\<exists>host. s = no_replicas host" for s
    using that by (auto simp: no_replicas_def new_manager_def replicas_ok_def)
  show "replicas_ok t" if "replicas_ok s" "replica_step s t" for s t using that by (rule replicas_step_ok)
qed

lemma host_stays: "replica_step\<^sup>*\<^sup>* s t \<Longrightarrow> mg_host (rs_manager t) = mg_host (rs_manager s)"
proof (induction rule: rtranclp_induct)
  case (step t u)
  have "mg_host (rs_manager u) = mg_host (rs_manager t)"
    using step.hyps(2)
    by cases (auto simp: add_replica_def register_replica_def manager_add_def handle_failure_def remove_replica_def
        manager_remove_def stop_all_def manager_stop_def Let_def split: option.splits prod.splits)
  with step show ?case by simp
qed simp

definition settled_attempt :: "add_attempt \<Rightarrow> bool" where
  "settled_attempt a \<longleftrightarrow> at_pc a \<in> {Added, Refused} \<and> at_owed a = 0 \<and> at_handler a \<noteq> Noted"

text \<open>
  C34. No engine of a replica is lost and none is stopped twice.  However the goroutines that add, remove, fail and
  shut down interleave: a room has at most one replica, which is not the host's room, was added successfully and
  has not been stopped; after the shutdown there is none and none can be added; every constructed engine is
  stopped at most once; and when its goroutines have returned it is either registered, healthy and running, or
  stopped exactly once.
\<close>

theorem replica_ownership:
  assumes "replica_step\<^sup>*\<^sup>* (no_replicas host) s"
  shows "(\<forall>c i. mg_replicas (rs_manager s) c = Some i \<longrightarrow>
        i < length (rs_attempts s) \<and> at_channel (rs_attempts s ! i) = c \<and> c \<noteq> [] \<and> c \<noteq> host
        \<and> at_pc (rs_attempts s ! i) = Added \<and> at_stops (rs_attempts s ! i) = 0)
    \<and> (mg_stopped (rs_manager s) \<longrightarrow> mg_replicas (rs_manager s) = Map.empty
        \<and> fst (manager_add c' i' (rs_manager s)) \<noteq> None)
    \<and> (\<forall>a \<in> set (rs_attempts s). at_stops a \<le> 1)
    \<and> (\<forall>i < length (rs_attempts s). at_constructed (rs_attempts s ! i) \<and> settled_attempt (rs_attempts s ! i) \<longrightarrow>
        (if registered_as s i then at_stops (rs_attempts s ! i) = 0 \<and> \<not> at_failed (rs_attempts s ! i)
         else at_stops (rs_attempts s ! i) = 1))"
proof -
  have ok: "replicas_ok s" using replica_runs.inv_reachable [OF _ assms] by blast
  have host: "mg_host (rs_manager s) = host" using host_stays [OF assms] by (simp add: no_replicas_def new_manager_def)
  have att: "attempt_ok (registered_as s i) (rs_attempts s ! i)" if "i < length (rs_attempts s)" for i using ok_at [OF ok that] .
  have reg: "i < length (rs_attempts s) \<and> at_channel (rs_attempts s ! i) = c \<and> c \<noteq> [] \<and> c \<noteq> host
      \<and> at_pc (rs_attempts s ! i) = Added \<and> at_stops (rs_attempts s ! i) = 0"
    if ci: "mg_replicas (rs_manager s) c = Some i" for c i
  proof -
    have i: "i < length (rs_attempts s)" "at_channel (rs_attempts s ! i) = c" "c \<noteq> []" "c \<noteq> host"
      using ok ci host by (auto simp: replicas_ok_def)
    then have "registered_as s i" using ci by (simp add: registered_as_def)
    then show ?thesis using att [OF i(1)] i by (auto simp: attempt_ok_def)
  qed
  have stops: "at_stops a \<le> 1" if a: "a \<in> set (rs_attempts s)" for a
  proof -
    obtain i where "i < length (rs_attempts s)" "a = rs_attempts s ! i" using a by (metis in_set_conv_nth)
    then show ?thesis using att [of i] by (cases "at_pc a") (auto simp: attempt_ok_def split: if_splits)
  qed
  have settled: "if registered_as s i then at_stops (rs_attempts s ! i) = 0 \<and> \<not> at_failed (rs_attempts s ! i)
      else at_stops (rs_attempts s ! i) = 1"
    if "i < length (rs_attempts s)" "at_constructed (rs_attempts s ! i)" "settled_attempt (rs_attempts s ! i)" for i
    using att [OF that(1)] that(2,3) by (auto simp: attempt_ok_def settled_attempt_def)
  have "mg_stopped (rs_manager s) \<longrightarrow> mg_replicas (rs_manager s) = Map.empty \<and> fst (manager_add c' i' (rs_manager s)) \<noteq> None"
    using ok by (auto simp: replicas_ok_def manager_add_def Let_def)
  with reg stops settled show ?thesis by blast
qed

definition demo_replicas :: replicas where
  "demo_replicas =
     handle_failure 0 (set_attempt 0 note_failure (register_replica False 0 (set_attempt 0 (start_returned True)
       (set_attempt 0 (constructed True) (snd (add_replica True False (lit ''lounge'') (no_replicas (lit ''home''))))))))"

theorem replica_ownership_witness:
  "replica_step\<^sup>*\<^sup>* (no_replicas (lit ''home'')) (set_attempt 0 stop_owed demo_replicas)
   \<and> at_stops (rs_attempts (set_attempt 0 stop_owed demo_replicas) ! 0) \<le> 1
   \<and> map at_stops (rs_attempts (set_attempt 0 stop_owed demo_replicas)) = [1]"
proof -
  let ?s0 = "no_replicas (lit ''home'')"
  let ?s1 = "snd (add_replica True False (lit ''lounge'') ?s0)"
  let ?s2 = "set_attempt 0 (constructed True) ?s1"
  let ?s3 = "set_attempt 0 (start_returned True) ?s2"
  let ?s4 = "register_replica False 0 ?s3"
  let ?s5 = "set_attempt 0 note_failure ?s4"
  have pcs: "at_step ?s1 0 Constructing" "at_step ?s2 0 Starting" "at_step ?s3 0 Started"
    "0 < length (rs_attempts ?s4) \<and> at_constructed (rs_attempts ?s4 ! 0) \<and> at_handler (rs_attempts ?s4 ! 0) = No_failure"
    "0 < length (rs_attempts ?s5) \<and> at_handler (rs_attempts ?s5 ! 0) = Noted"
    "0 < length (rs_attempts demo_replicas) \<and> 0 < at_owed (rs_attempts demo_replicas ! 0)"
    by code_simp+
  have "replica_step ?s0 ?s1" by (rule step_add)
  moreover have "replica_step ?s1 ?s2" by (rule step_construct) (rule pcs(1))
  moreover have "replica_step ?s2 ?s3" by (rule step_start) (rule pcs(2))
  moreover have "replica_step ?s3 ?s4" by (rule step_register) (rule pcs(3))
  moreover have "replica_step ?s4 ?s5" by (rule step_fail) (use pcs(4) in auto)
  moreover have "replica_step ?s5 demo_replicas" unfolding demo_replicas_def by (rule step_handle) (use pcs(5) in auto)
  moreover have "replica_step demo_replicas (set_attempt 0 stop_owed demo_replicas)" by (rule step_stop) (use pcs(6) in auto)
  ultimately have run: "replica_step\<^sup>*\<^sup>* ?s0 (set_attempt 0 stop_owed demo_replicas)"
    by (meson converse_rtranclp_into_rtranclp rtranclp.rtrancl_refl)
  moreover have stops: "map at_stops (rs_attempts (set_attempt 0 stop_owed demo_replicas)) = [1]" by code_simp
  moreover have "rs_attempts (set_attempt 0 stop_owed demo_replicas) ! 0 \<in> set (rs_attempts (set_attempt 0 stop_owed demo_replicas))"
    using stops by (intro nth_mem) (cases "rs_attempts (set_attempt 0 stop_owed demo_replicas)"; simp)
  ultimately show ?thesis using replica_ownership [OF run] by blast
qed

section \<open>Moving users automatically\<close>

record auto_move =
  am_enabled :: bool
  am_sources :: "str list"
  am_destination :: str

definition new_auto_move :: auto_move where
  "new_auto_move = \<lparr>am_enabled = False, am_sources = [lit ''purgatory''], am_destination = lit ''lounge''\<rparr>"

text \<open>The sources in the order of a snapshot\<close>

definition sorted_sources :: "auto_move \<Rightarrow> str list" where
  "sorted_sources a = sort (am_sources a)"

definition configure_auto_move :: "str \<Rightarrow> str \<Rightarrow> auto_move \<Rightarrow> bool \<times> auto_move" where
  "configure_auto_move source destination a =
     (if trim_space source = [] \<or> trim_space destination = [] then (True, a)
      else (False, a\<lparr>am_sources := List.insert (trim_space source) (am_sources a), am_destination := trim_space destination\<rparr>))"

definition set_auto_move :: "bool \<Rightarrow> auto_move \<Rightarrow> auto_move" where
  "set_auto_move b a = a\<lparr>am_enabled := b\<rparr>"

definition eligible_replica :: "str \<Rightarrow> auto_move \<Rightarrow> str \<times> bool" where
  "eligible_replica channel a = (am_destination a, am_enabled a \<and> channel \<in> set (am_sources a))"

text \<open>Adding and removing a replica are arguments, as is the channels they leave present.\<close>

fun add_missing :: "(str \<Rightarrow> 's \<Rightarrow> 'e option \<times> 's) \<Rightarrow> str set \<Rightarrow> str list \<Rightarrow> 's \<Rightarrow> 'e option \<times> 's" where
  "add_missing add present [] s = (None, s)"
| "add_missing add present (c # cs) s =
     (if c \<in> present then add_missing add present cs s
      else case add c s of (Some e, s') \<Rightarrow> (Some e, s') | (None, s') \<Rightarrow> add_missing add present cs s')"

fun remove_present :: "(str \<Rightarrow> 's \<Rightarrow> 'e option \<times> 's) \<Rightarrow> str set \<Rightarrow> str list \<Rightarrow> 'e option \<Rightarrow> 's \<Rightarrow> 'e option \<times> 's" where
  "remove_present rem present [] first s = (first, s)"
| "remove_present rem present (c # cs) first s =
     (if c \<notin> present then remove_present rem present cs first s
      else case rem c s of (e, s') \<Rightarrow> remove_present rem present cs (if first = None then e else first) s')"

definition enable_auto_move ::
  "('s \<Rightarrow> str set) \<Rightarrow> (str \<Rightarrow> 's \<Rightarrow> 'e option \<times> 's) \<Rightarrow> auto_move \<Rightarrow> 's \<Rightarrow> 'e option \<times> auto_move \<times> 's" where
  "enable_auto_move channels add a s =
     (let a' = set_auto_move True a
      in case add_missing add (channels s) (sorted_sources a') s of (e, s') \<Rightarrow> (e, a', s'))"

definition disable_auto_move ::
  "('s \<Rightarrow> str set) \<Rightarrow> (str \<Rightarrow> 's \<Rightarrow> 'e option \<times> 's) \<Rightarrow> auto_move \<Rightarrow> 's \<Rightarrow> 'e option \<times> auto_move \<times> 's" where
  "disable_auto_move channels rem a s =
     (let a' = set_auto_move False a
      in case remove_present rem (channels s) (sorted_sources a') None s of (e, s') \<Rightarrow> (e, a', s'))"

text \<open>A join in a replica's room: the notice sent and the move made, if any\<close>

definition auto_move_notice :: str where
  "auto_move_notice = lit ''your trip is authorized to join ?lounge, you will be moved to ?lounge''"

definition auto_move_join :: "bool \<Rightarrow> bool \<Rightarrow> str \<Rightarrow> auto_move \<Rightarrow> str list option \<Rightarrow> user option \<Rightarrow> (str \<times> moderation_op) option" where
  "auto_move_join ended is_replica channel a trips u =
     (case u of None \<Rightarrow> None
      | Some v \<Rightarrow>
          if ended \<or> trim_space (u_name v) = [] \<or> \<not> is_replica \<or> \<not> snd (eligible_replica channel a) then None
          else (case trips of None \<Rightarrow> None
            | Some ts \<Rightarrow>
                if u_trip v \<in> set ts
                then Some (chat_text (u_name v) auto_move_notice False, Kick_nick_to (u_name v) (fst (eligible_replica channel a)))
                else None))"

section \<open>The support room, the directory and moves\<close>

record relay_request =
  rq_author :: str
  rq_trip :: str
  rq_anonymous :: bool
  rq_arguments :: "str list"

definition plain_char :: "rune \<Rightarrow> bool" where
  "plain_char c \<longleftrightarrow> is_upper_ascii c \<or> is_lower_ascii c \<or> is_digit_ascii c \<or> c = 32"

text \<open>The text for the support room; \<open>None\<close> is an error\<close>

definition relay_to_support :: "bool \<Rightarrow> bool \<Rightarrow> bool \<Rightarrow> str list \<Rightarrow> relay_request \<Rightarrow> str option" where
  "relay_to_support ended configured available_support admins q =
     (if ended \<or> \<not> configured \<or> \<not> available_support then None
      else let body = join (lit '' '') (rq_arguments q) @ lit '' '';
               safe = (if rq_trip q \<in> set admins then body else filter plain_char body)
           in Some (chat_text [] ((if rq_anonymous q then lit ''anon_from_hc'' else rq_author q) @ lit '': '' @ safe) False))"

definition find_room_users :: "str \<Rightarrow> room option \<Rightarrow> room list \<Rightarrow> (str \<times> str list) option" where
  "find_room_users name host replica_rooms =
     (let n = trim_space name; snapshot = (\<lambda>rm. (rm_channel rm, active_user_names rm))
      in if n = [] then None
         else case host of
           Some h \<Rightarrow> if equal_fold n (rm_channel h) then Some (snapshot h)
              else map_option snapshot (find (\<lambda>rm. equal_fold n (rm_channel rm)) replica_rooms)
         | None \<Rightarrow> map_option snapshot (find (\<lambda>rm. equal_fold n (rm_channel rm)) replica_rooms))"

text \<open>Whether a room was found, and what is sent there\<close>

definition move_user :: "bool \<Rightarrow> room \<Rightarrow> str \<Rightarrow> str \<Rightarrow> send_error + str" where
  "move_user ended rm selector target =
     (if ended then Inl Send_context
      else case active_user_by_name selector rm of
        None \<Rightarrow> Inl Send_inactive
      | Some u \<Rightarrow> if trim_space (u_name u) = [] then Inl Send_inactive else moderation_send ended (Kick_nick_to (u_name u) target))"

definition move_from_serving_room ::
  "bool \<Rightarrow> str \<Rightarrow> str \<Rightarrow> str \<Rightarrow> room \<Rightarrow> (str \<rightharpoonup> room) \<Rightarrow> bool \<times> (send_error + str) option" where
  "move_from_serving_room ended source selector target host replica_rooms =
     (if ended then (False, Some (Inl Send_context))
      else case replica_rooms source of
        Some rm \<Rightarrow> (True, Some (move_user ended rm selector target))
      | None \<Rightarrow> if source = rm_channel host then (True, Some (move_user ended host selector target)) else (False, None))"

text \<open>What enabling and disabling rely on of the replicas\<close>

locale replica_set =
  fixes channels :: "'s \<Rightarrow> str set" and add rem :: "str \<Rightarrow> 's \<Rightarrow> 'e option \<times> 's"
  assumes add_ok: "trim_space c = c \<Longrightarrow> add c s = (None, s') \<Longrightarrow> channels s' = insert c (channels s)"
    and add_error: "add c s = (Some e, s') \<Longrightarrow> channels s' = channels s"
    and rem_channels: "rem c s = (x, s') \<Longrightarrow> channels s' = channels s - {c}"
begin

lemma add_missing_channels:
  "add_missing add present cs s = (e, s') \<Longrightarrow> present \<subseteq> channels s \<Longrightarrow> \<forall>c \<in> set cs. trim_space c = c \<Longrightarrow>
     channels s \<subseteq> channels s' \<and> channels s' \<subseteq> channels s \<union> set cs \<and> (e = None \<longrightarrow> set cs \<subseteq> channels s')"
proof (induction cs arbitrary: s)
  case (Cons c cs)
  have trimmed: "\<forall>c \<in> set cs. trim_space c = c" "trim_space c = c" using Cons.prems(3) by simp_all
  show ?case
  proof (cases "c \<in> present")
    case True
    then have "add_missing add present cs s = (e, s')" using Cons.prems(1) by simp
    from Cons.IH [OF this Cons.prems(2) trimmed(1)] show ?thesis using True Cons.prems(2) by auto
  next
    case False
    obtain x s1 where a: "add c s = (x, s1)" by (cases "add c s")
    show ?thesis
    proof (cases x)
      case None
      have s1: "channels s1 = insert c (channels s)" using add_ok [OF trimmed(2)] a None by simp
      have run: "add_missing add present cs s1 = (e, s')" using Cons.prems(1) False a None by simp
      have "present \<subseteq> channels s1" using Cons.prems(2) s1 by blast
      from Cons.IH [OF run this trimmed(1)] show ?thesis using s1 by auto
    next
      case (Some y)
      then show ?thesis using Cons.prems(1) False a add_error [of c s y s1] by auto
    qed
  qed
qed simp

lemma remove_present_channels:
  "remove_present rem present cs first s = (e, s') \<Longrightarrow> channels s' = channels s - (set cs \<inter> present)"
proof (induction cs arbitrary: first s)
  case (Cons c cs)
  obtain x s1 where r: "rem c s = (x, s1)" by (cases "rem c s")
  show ?case
  proof (cases "c \<in> present")
    case True
    then show ?thesis using Cons.IH [of "if first = None then x else first" s1] Cons.prems r rem_channels [OF r] by auto
  next
    case False
    then show ?thesis using Cons.IH [of first s] Cons.prems by auto
  qed
qed simp

end

definition remove_channel :: "str \<Rightarrow> manager \<Rightarrow> replica_error option \<times> manager" where
  "remove_channel c m = (case manager_remove c None m of (None, m') \<Rightarrow> (Some Replica_missing, m') | (Some r, m') \<Rightarrow> (None, m'))"

interpretation managed: replica_set "\<lambda>m. dom (mg_replicas m)" "\<lambda>c. manager_add c i" remove_channel
  by unfold_locales
    (auto simp: manager_add_def remove_channel_def manager_remove_def Let_def split: if_splits option.splits prod.splits)

text \<open>Once automatic moves are enabled every source has its replica; once disabled none has.\<close>

lemma auto_move_replicas:
  assumes "\<forall>c \<in> set (am_sources a). trim_space c = c"
  shows "enable_auto_move (\<lambda>m. dom (mg_replicas m)) (\<lambda>c. manager_add c i) a m = (None, a', m')
      \<Longrightarrow> am_enabled a' \<and> set (am_sources a) \<subseteq> dom (mg_replicas m')"
    and "disable_auto_move (\<lambda>m. dom (mg_replicas m)) remove_channel a m = (e, a', m')
      \<Longrightarrow> \<not> am_enabled a' \<and> set (am_sources a) \<inter> dom (mg_replicas m') = {}"
proof -
  assume "enable_auto_move (\<lambda>m. dom (mg_replicas m)) (\<lambda>c. manager_add c i) a m = (None, a', m')"
  then have e: "add_missing (\<lambda>c. manager_add c i) (dom (mg_replicas m)) (sorted_sources (set_auto_move True a)) m = (None, m')"
    and a': "a' = set_auto_move True a" by (auto simp: enable_auto_move_def Let_def split: prod.splits)
  show "am_enabled a' \<and> set (am_sources a) \<subseteq> dom (mg_replicas m')"
    using managed.add_missing_channels [OF e] assms by (auto simp: a' sorted_sources_def set_auto_move_def)
next
  assume "disable_auto_move (\<lambda>m. dom (mg_replicas m)) remove_channel a m = (e, a', m')"
  then have r: "remove_present remove_channel (dom (mg_replicas m)) (sorted_sources (set_auto_move False a)) None m = (e, m')"
    and a': "a' = set_auto_move False a" by (auto simp: disable_auto_move_def Let_def split: prod.splits)
  show "\<not> am_enabled a' \<and> set (am_sources a) \<inter> dom (mg_replicas m') = {}"
    using managed.remove_present_channels [OF r] by (auto simp: a' sorted_sources_def set_auto_move_def)
qed

lemma configured_trimmed:
  "\<forall>c \<in> set (am_sources a). trim_space c = c \<Longrightarrow> \<forall>c \<in> set (am_sources (snd (configure_auto_move s d a))). trim_space c = c"
  by (auto simp: configure_auto_move_def)

text \<open>What reaches the support room from someone who is no admin is plain text after the first colon.\<close>

lemma support_text_plain:
  "relay_to_support ended configured av admins q = Some s \<Longrightarrow> rq_trip q \<notin> set admins \<Longrightarrow>
     \<exists>body. s = (if rq_anonymous q then lit ''anon_from_hc'' else rq_author q) @ lit '': '' @ body \<and> list_all plain_char body"
  by (auto simp: relay_to_support_def chat_text_def Let_def list_all_iff split: if_splits)

end
