(* ===== verification/MemoryDb.thy ===== *)
theory MemoryDb
  imports TurnState Transition "HOL-Library.Product_Lexorder"
begin

text \<open>
  The durable memory of the agent, \<open>internal/repository/sqlite/agent_memory.go\<close>: the tables \<open>agent_memory\<close>,
  \<open>agent_tool_memory\<close> and \<open>agent_memory_summary\<close> of \<open>schema.sql\<close> as lists of rows in the order of their
  automatic identifiers, and each statement as the list operation it denotes.  A transaction that fails is rolled
  back, so an operation whose context or database fails leaves the tables as they are.
\<close>

section \<open>Tables\<close>

record message_row =
  mr_id :: int
  mr_key :: str
  mr_role :: str
  mr_content :: str
  mr_created :: int
  mr_expires :: int

record evidence_row =
  er_id :: int
  er_key :: str
  er_tool :: str
  er_content :: str
  er_created :: int
  er_expires :: int

record summary_row =
  sr_content :: str
  sr_covered :: int
  sr_fingerprint :: str
  sr_created :: int
  sr_expires :: int

record memory_db =
  db_messages :: "message_row list"
  db_seq :: int
  db_evidence :: "evidence_row list"
  db_evidence_seq :: int
  db_summaries :: "str \<Rightarrow> summary_row option"

definition empty_db :: memory_db where
  "empty_db = \<lparr>db_messages = [], db_seq = 0, db_evidence = [], db_evidence_seq = 0, db_summaries = Map.empty\<rparr>"

datatype db_error = Db_key | Db_clock | Db_limit | Db_expiry | Db_evidence | Db_stored | Db_summary | Db_io

definition user_role :: str where "user_role = lit ''user''"
definition assistant_role :: str where "assistant_role = lit ''assistant''"

definition blank :: "str \<Rightarrow> bool" where
  "blank s \<longleftrightarrow> trim_space s = []"

section \<open>Statements\<close>

text \<open>\<open>ORDER BY created_on DESC, id DESC LIMIT n\<close> of the rows, in ascending order again\<close>

definition recent :: "('r \<Rightarrow> int \<times> int) \<Rightarrow> nat \<Rightarrow> 'r list \<Rightarrow> 'r list" where
  "recent order n rows = sort_key order (take n (rev (sort_key order rows)))"

definition message_order :: "message_row \<Rightarrow> int \<times> int" where
  "message_order r = (mr_created r, mr_id r)"

definition evidence_order :: "evidence_row \<Rightarrow> int \<times> int" where
  "evidence_order r = (er_created r, er_id r)"

definition insert_message :: "str \<Rightarrow> str \<Rightarrow> str \<Rightarrow> int \<Rightarrow> int \<Rightarrow> memory_db \<Rightarrow> memory_db" where
  "insert_message key role content1 created expires db =
     db\<lparr>db_messages := db_messages db @ [\<lparr>mr_id = db_seq db + 1, mr_key = key, mr_role = role, mr_content = content1,
           mr_created = created, mr_expires = expires\<rparr>],
        db_seq := db_seq db + 1\<rparr>"

definition insert_evidence :: "str \<Rightarrow> str \<Rightarrow> str \<Rightarrow> int \<Rightarrow> int \<Rightarrow> memory_db \<Rightarrow> memory_db" where
  "insert_evidence key tool1 content1 created expires db =
     db\<lparr>db_evidence := db_evidence db @ [\<lparr>er_id = db_evidence_seq db + 1, er_key = key, er_tool = tool1, er_content = content1,
           er_created = created, er_expires = expires\<rparr>],
        db_evidence_seq := db_evidence_seq db + 1\<rparr>"

definition purge_messages :: "int \<Rightarrow> memory_db \<Rightarrow> memory_db" where
  "purge_messages t db = db\<lparr>db_messages := filter (\<lambda>r. \<not> mr_expires r \<le> t) (db_messages db)\<rparr>"

definition purge_evidence :: "int \<Rightarrow> memory_db \<Rightarrow> memory_db" where
  "purge_evidence t db = db\<lparr>db_evidence := filter (\<lambda>r. \<not> er_expires r \<le> t) (db_evidence db)\<rparr>"

definition purge_summaries :: "int \<Rightarrow> memory_db \<Rightarrow> memory_db" where
  "purge_summaries t db =
     db\<lparr>db_summaries := (\<lambda>k. case db_summaries db k of Some s \<Rightarrow> if sr_expires s \<le> t then None else Some s | None \<Rightarrow> None)\<rparr>"

section \<open>Operations\<close>

text \<open>\<open>io\<close> is the error of the context or of the database, if there is one.\<close>

definition load_agent_memory :: "db_error option \<Rightarrow> str \<Rightarrow> int \<Rightarrow> int \<Rightarrow> memory_db \<Rightarrow> db_error + message_row list" where
  "load_agent_memory io key now turns db =
     (if blank key then Inl Db_key
      else if now < 0 then Inl Db_clock
      else if turns < 1 then Inl Db_limit
      else case io of Some e \<Rightarrow> Inl e
      | None \<Rightarrow>
          let rows = recent message_order (nat (turns * 2))
                (filter (\<lambda>r. mr_key r = key \<and> now < mr_expires r \<and> mr_role r \<in> {user_role, assistant_role}) (db_messages db))
          in if list_all (\<lambda>r. mr_role r \<in> {user_role, assistant_role} \<and> \<not> blank (mr_content r)) rows then Inr rows
             else Inl Db_stored)"

definition append_agent_memory ::
  "db_error option \<Rightarrow> str \<Rightarrow> str \<Rightarrow> str \<Rightarrow> int \<Rightarrow> int \<Rightarrow> memory_db \<Rightarrow> db_error option \<times> memory_db" where
  "append_agent_memory io key user1 assistant created expires db =
     (if blank key \<or> blank user1 \<or> blank assistant then (Some Db_key, db)
      else if expires \<le> created then (Some Db_expiry, db)
      else case io of Some e \<Rightarrow> (Some e, db)
      | None \<Rightarrow>
          (None, insert_message key assistant_role assistant created expires
             (insert_message key user_role user1 created expires (purge_messages created db))))"

record turn_record =
  tr_key :: str
  tr_user :: str
  tr_assistant :: str
  tr_evidence :: "(str \<times> str) list"
  tr_created :: int
  tr_expires :: int

definition append_agent_turn :: "db_error option \<Rightarrow> turn_record \<Rightarrow> memory_db \<Rightarrow> db_error option \<times> memory_db" where
  "append_agent_turn io t db =
     (if blank (tr_key t) \<or> blank (tr_user t) \<or> blank (tr_assistant t) then (Some Db_key, db)
      else if tr_expires t \<le> tr_created t then (Some Db_expiry, db)
      else if list_ex (\<lambda>(tool1, c). blank tool1 \<or> blank c) (tr_evidence t) then (Some Db_evidence, db)
      else case io of Some e \<Rightarrow> (Some e, db)
      | None \<Rightarrow>
          let db1 = purge_summaries (tr_created t) (purge_evidence (tr_created t) (purge_messages (tr_created t) db));
              db2 = insert_message (tr_key t) assistant_role (tr_assistant t) (tr_created t) (tr_expires t)
                      (insert_message (tr_key t) user_role (tr_user t) (tr_created t) (tr_expires t) db1)
          in (None, fold (\<lambda>(tool1, c). insert_evidence (tr_key t) tool1 c (tr_created t) (tr_expires t)) (tr_evidence t) db2))"

definition load_tool_evidence :: "db_error option \<Rightarrow> str \<Rightarrow> int \<Rightarrow> int \<Rightarrow> memory_db \<Rightarrow> db_error + evidence_row list" where
  "load_tool_evidence io key now limit db =
     (if blank key then Inl Db_key
      else if now < 0 then Inl Db_clock
      else if limit < 1 then Inl Db_limit
      else case io of Some e \<Rightarrow> Inl e
      | None \<Rightarrow>
          let rows = recent evidence_order (nat limit) (filter (\<lambda>r. er_key r = key \<and> now < er_expires r) (db_evidence db))
          in if list_all (\<lambda>r. \<not> blank (er_tool r) \<and> \<not> blank (er_content r) \<and> json_valid (er_content r) \<and> 0 \<le> er_created r) rows
             then Inr rows else Inl Db_stored)"

definition append_tool_evidence ::
  "db_error option \<Rightarrow> str \<Rightarrow> str \<Rightarrow> str \<Rightarrow> int \<Rightarrow> int \<Rightarrow> memory_db \<Rightarrow> db_error option \<times> memory_db" where
  "append_tool_evidence io key tool1 content1 created expires db =
     (if blank key \<or> blank tool1 \<or> blank content1 then (Some Db_key, db)
      else if expires \<le> created then (Some Db_expiry, db)
      else case io of Some e \<Rightarrow> (Some e, db)
      | None \<Rightarrow> (None, insert_evidence key tool1 content1 created expires (purge_evidence created db)))"

definition load_memory_summary :: "db_error option \<Rightarrow> str \<Rightarrow> int \<Rightarrow> memory_db \<Rightarrow> db_error + summary_row option" where
  "load_memory_summary io key now db =
     (if blank key \<or> now < 0 then Inl Db_key
      else case io of Some e \<Rightarrow> Inl e
      | None \<Rightarrow>
          (case db_summaries db key of
             None \<Rightarrow> Inr None
           | Some s \<Rightarrow>
               if \<not> now < sr_expires s then Inr None
               else if blank (sr_content s) \<or> sr_covered s < 1 \<or> blank (sr_fingerprint s) \<or> sr_expires s \<le> sr_created s then Inl Db_summary
               else Inr (Some s)))"

definition upsert_memory_summary :: "db_error option \<Rightarrow> str \<Rightarrow> summary_row \<Rightarrow> memory_db \<Rightarrow> db_error option \<times> memory_db" where
  "upsert_memory_summary io key s db =
     (if blank key \<or> blank (sr_content s) \<or> sr_covered s < 1 \<or> blank (sr_fingerprint s) \<or> sr_expires s \<le> sr_created s
        then (Some Db_summary, db)
      else case io of Some e \<Rightarrow> (Some e, db)
      | None \<Rightarrow> (None, db\<lparr>db_summaries := (db_summaries db)(key \<mapsto> s)\<rparr>))"

section \<open>The history the tables stand for\<close>

text \<open>The abstract memory forgets nothing: it is the log of the accepted exchanges, notes and summaries.\<close>

record exchange =
  x_key :: str
  x_user :: str
  x_assistant :: str
  x_created :: int
  x_expires :: int

record memo =
  n_key :: str
  n_tool :: str
  n_content :: str
  n_created :: int
  n_expires :: int

record history =
  h_exchanges :: "exchange list"
  h_notes :: "memo list"
  h_summaries :: "str \<Rightarrow> summary_row option"

definition empty_history :: history where
  "empty_history = \<lparr>h_exchanges = [], h_notes = [], h_summaries = Map.empty\<rparr>"

datatype memory_op =
    Op_exchange str str str int int
  | Op_turn turn_record
  | Op_note str str str int int
  | Op_summary str summary_row

fun op_time :: "memory_op \<Rightarrow> int" where
  "op_time (Op_exchange k u a c e) = c"
| "op_time (Op_turn t) = tr_created t"
| "op_time (Op_note k tn c cr e) = cr"
| "op_time (Op_summary k s) = sr_created s"

fun op_accepted :: "memory_op \<Rightarrow> bool" where
  "op_accepted (Op_exchange k u a c e) \<longleftrightarrow> \<not> blank k \<and> \<not> blank u \<and> \<not> blank a \<and> c < e"
| "op_accepted (Op_turn t) \<longleftrightarrow> \<not> blank (tr_key t) \<and> \<not> blank (tr_user t) \<and> \<not> blank (tr_assistant t) \<and> tr_created t < tr_expires t
     \<and> list_all (\<lambda>(tn, c). \<not> blank tn \<and> \<not> blank c) (tr_evidence t)"
| "op_accepted (Op_note k tn c cr e) \<longleftrightarrow> \<not> blank k \<and> \<not> blank tn \<and> \<not> blank c \<and> cr < e"
| "op_accepted (Op_summary k s) \<longleftrightarrow> \<not> blank k \<and> \<not> blank (sr_content s) \<and> 1 \<le> sr_covered s \<and> \<not> blank (sr_fingerprint s)
     \<and> sr_created s < sr_expires s"

fun log_op :: "memory_op \<Rightarrow> history \<Rightarrow> history" where
  "log_op (Op_exchange k u a c e) h =
     h\<lparr>h_exchanges := h_exchanges h @ [\<lparr>x_key = k, x_user = u, x_assistant = a, x_created = c, x_expires = e\<rparr>]\<rparr>"
| "log_op (Op_turn t) h =
     h\<lparr>h_exchanges := h_exchanges h @
         [\<lparr>x_key = tr_key t, x_user = tr_user t, x_assistant = tr_assistant t, x_created = tr_created t, x_expires = tr_expires t\<rparr>],
       h_notes := h_notes h @
         map (\<lambda>(tn, c). \<lparr>n_key = tr_key t, n_tool = tn, n_content = c, n_created = tr_created t, n_expires = tr_expires t\<rparr>) (tr_evidence t)\<rparr>"
| "log_op (Op_note k tn c cr e) h =
     h\<lparr>h_notes := h_notes h @ [\<lparr>n_key = k, n_tool = tn, n_content = c, n_created = cr, n_expires = e\<rparr>]\<rparr>"
| "log_op (Op_summary k s) h = h\<lparr>h_summaries := (h_summaries h)(k \<mapsto> s)\<rparr>"

fun apply_op :: "db_error option \<Rightarrow> memory_op \<Rightarrow> memory_db \<Rightarrow> db_error option \<times> memory_db" where
  "apply_op io (Op_exchange k u a c e) db = append_agent_memory io k u a c e db"
| "apply_op io (Op_turn t) db = append_agent_turn io t db"
| "apply_op io (Op_note k tn c cr e) db = append_tool_evidence io k tn c cr e db"
| "apply_op io (Op_summary k s) db = upsert_memory_summary io k s db"

text \<open>A run of operations, each with the failure of the database it meets, if any\<close>

definition db_run :: "(db_error option \<times> memory_op) list \<Rightarrow> memory_db" where
  "db_run ops = fold (\<lambda>(io, op) db. snd (apply_op io op db)) ops empty_db"

definition history_run :: "(db_error option \<times> memory_op) list \<Rightarrow> history" where
  "history_run ops = fold (\<lambda>(io, op) h. if io = None \<and> op_accepted op then log_op op h else h) ops empty_history"

text \<open>What a caller may see of the history at a time: the last exchanges and notes of its key that have not expired\<close>

definition last_n :: "nat \<Rightarrow> 'a list \<Rightarrow> 'a list" where
  "last_n n xs = drop (length xs - n) xs"

definition visible_exchanges :: "str \<Rightarrow> int \<Rightarrow> nat \<Rightarrow> history \<Rightarrow> exchange list" where
  "visible_exchanges key now n h = last_n n (filter (\<lambda>x. x_key x = key \<and> now < x_expires x) (h_exchanges h))"

definition visible_notes :: "str \<Rightarrow> int \<Rightarrow> nat \<Rightarrow> history \<Rightarrow> memo list" where
  "visible_notes key now n h = last_n n (filter (\<lambda>x. n_key x = key \<and> now < n_expires x) (h_notes h))"

definition visible_summary :: "str \<Rightarrow> int \<Rightarrow> history \<Rightarrow> summary_row option" where
  "visible_summary key now h = (case h_summaries h key of Some s \<Rightarrow> if now < sr_expires s then Some s else None | None \<Rightarrow> None)"

section \<open>Refinement\<close>

type_synonym message_view = "str \<times> str \<times> str \<times> int \<times> int"

definition message_view :: "message_row \<Rightarrow> message_view" where
  "message_view r = (mr_key r, mr_role r, mr_content r, mr_created r, mr_expires r)"

definition exchange_views :: "exchange \<Rightarrow> message_view list" where
  "exchange_views x = [(x_key x, user_role, x_user x, x_created x, x_expires x),
     (x_key x, assistant_role, x_assistant x, x_created x, x_expires x)]"

definition note_view :: "evidence_row \<Rightarrow> memo" where
  "note_view r = \<lparr>n_key = er_key r, n_tool = er_tool r, n_content = er_content r, n_created = er_created r, n_expires = er_expires r\<rparr>"

definition unexpired :: "int \<Rightarrow> summary_row option \<Rightarrow> summary_row option" where
  "unexpired now so = (case so of Some s \<Rightarrow> if now < sr_expires s then Some s else None | None \<Rightarrow> None)"

text \<open>Rows inserted by time \<open>t\<close>: in the order of insertion, of creation and of identifiers at once\<close>

definition in_order :: "('r \<Rightarrow> int \<times> int) \<Rightarrow> int \<Rightarrow> int \<Rightarrow> 'r list \<Rightarrow> bool" where
  "in_order order t seq rows \<longleftrightarrow> sorted_wrt (\<lambda>a b. fst (order a) \<le> fst (order b) \<and> snd (order a) < snd (order b)) rows \<and>
     (\<forall>r \<in> set rows. fst (order r) \<le> t \<and> 0 < snd (order r) \<and> snd (order r) \<le> seq)"

text \<open>The simulation: from time \<open>t\<close> on, what has not expired is the same on both sides.\<close>

definition represents :: "int \<Rightarrow> memory_db \<Rightarrow> history \<Rightarrow> bool" where
  "represents t db h \<longleftrightarrow>
     (\<forall>now \<ge> t. map message_view (filter (\<lambda>r. now < mr_expires r) (db_messages db))
        = concat (map exchange_views (filter (\<lambda>x. now < x_expires x) (h_exchanges h)))) \<and>
     (\<forall>now \<ge> t. map note_view (filter (\<lambda>r. now < er_expires r) (db_evidence db)) = filter (\<lambda>x. now < n_expires x) (h_notes h)) \<and>
     (\<forall>now \<ge> t. \<forall>k. unexpired now (db_summaries db k) = unexpired now (h_summaries h k)) \<and>
     in_order message_order t (db_seq db) (db_messages db) \<and>
     in_order evidence_order t (db_evidence_seq db) (db_evidence db) \<and> 0 \<le> db_seq db \<and> 0 \<le> db_evidence_seq db"

lemma represents_empty: "represents t empty_db empty_history"
  by (simp add: represents_def empty_db_def empty_history_def in_order_def)

lemma in_order_mono: "in_order f t seq rows \<Longrightarrow> t \<le> u \<Longrightarrow> in_order f u seq rows"
  by (auto simp: in_order_def)

lemma represents_mono: "represents t db h \<Longrightarrow> t \<le> u \<Longrightarrow> represents u db h"
  unfolding represents_def by (meson in_order_mono order_trans)

lemma in_order_filter: "in_order f t seq rows \<Longrightarrow> in_order f t seq (filter p rows)"
  by (auto simp: in_order_def sorted_wrt_filter)

lemma in_order_snoc:
  "in_order f t seq rows \<Longrightarrow> fst (f r) = t \<Longrightarrow> snd (f r) = seq + 1 \<Longrightarrow> 0 \<le> seq \<Longrightarrow> in_order f t (seq + 1) (rows @ [r])"
  by (fastforce simp: in_order_def sorted_wrt_append)

lemma filter_purge: "t \<le> now \<Longrightarrow> filter (\<lambda>r. now < e r) (filter (\<lambda>r. \<not> e r \<le> t) rows) = filter (\<lambda>r. now < (e r :: int)) rows"
  by (auto simp: filter_filter intro!: filter_cong)

lemma unexpired_purge:
  "t \<le> now \<Longrightarrow> unexpired now (case so of Some s \<Rightarrow> if sr_expires s \<le> t then None else Some s | None \<Rightarrow> None) = unexpired now so"
  by (auto simp: unexpired_def split: option.splits)

lemma represents_purge:
  assumes "represents t db h"
  shows "represents t (purge_messages t db) h" "represents t (purge_evidence t db) h" "represents t (purge_summaries t db) h"
  using assms
  by (simp_all add: represents_def purge_messages_def purge_evidence_def purge_summaries_def filter_purge unexpired_purge in_order_filter
      del: filter_filter)

lemma represents_exchange:
  assumes "represents t db h"
  shows "represents t (insert_message k assistant_role a t e (insert_message k user_role u t e db))
    (h\<lparr>h_exchanges := h_exchanges h @ [\<lparr>x_key = k, x_user = u, x_assistant = a, x_created = t, x_expires = e\<rparr>]\<rparr>)"
proof -
  let ?r = "\<lambda>seq role c. \<lparr>mr_id = seq, mr_key = k, mr_role = role, mr_content = c, mr_created = t, mr_expires = e\<rparr>"
  have seq: "0 \<le> db_seq db" and ord: "in_order message_order t (db_seq db) (db_messages db)"
    using assms by (simp_all add: represents_def)
  have "in_order message_order t (db_seq db + 1) (db_messages db @ [?r (db_seq db + 1) user_role u])"
    using in_order_snoc [OF ord _ _ seq] by (simp add: message_order_def)
  from in_order_snoc [OF this, of "?r (2 + db_seq db) assistant_role a"] seq
  have "in_order message_order t (2 + db_seq db) (db_messages db @ [?r (db_seq db + 1) user_role u, ?r (2 + db_seq db) assistant_role a])"
    by (simp add: message_order_def add.commute)
  with assms show ?thesis
    by (simp add: represents_def insert_message_def message_view_def exchange_views_def)
qed

lemma represents_note:
  assumes "represents t db h"
  shows "represents t (insert_evidence k tn c t e db)
    (h\<lparr>h_notes := h_notes h @ [\<lparr>n_key = k, n_tool = tn, n_content = c, n_created = t, n_expires = e\<rparr>]\<rparr>)"
proof -
  let ?r = "\<lparr>er_id = db_evidence_seq db + 1, er_key = k, er_tool = tn, er_content = c, er_created = t, er_expires = e\<rparr>"
  have "in_order evidence_order t (db_evidence_seq db + 1) (db_evidence db @ [?r])"
    using assms by (intro in_order_snoc) (simp_all add: represents_def evidence_order_def)
  with assms show ?thesis by (simp add: represents_def insert_evidence_def note_view_def)
qed

lemma represents_notes:
  "represents t db h \<Longrightarrow>
     represents t (fold (\<lambda>(tn, c). insert_evidence k tn c t e) es db)
       (h\<lparr>h_notes := h_notes h @ map (\<lambda>(tn, c). \<lparr>n_key = k, n_tool = tn, n_content = c, n_created = t, n_expires = e\<rparr>) es\<rparr>)"
proof (induction es arbitrary: db h)
  case (Cons x es)
  obtain tn c where x: "x = (tn, c)" by (cases x)
  show ?case using Cons.IH [OF represents_note [OF Cons.prems, of k tn c e]] by (simp add: x)
qed simp

lemma represents_summary: "represents t db h \<Longrightarrow>
    represents t (db\<lparr>db_summaries := (db_summaries db)(k \<mapsto> s)\<rparr>) (h\<lparr>h_summaries := (h_summaries h)(k \<mapsto> s)\<rparr>)"
  by (simp add: represents_def)

text \<open>Every operation is simulated by the abstract one, and fails exactly when the abstract one refuses it.\<close>

lemma apply_op_error: "fst (apply_op io op db) = None \<longleftrightarrow> io = None \<and> op_accepted op"
  by (cases op; cases io)
    (auto simp: append_agent_memory_def append_agent_turn_def append_tool_evidence_def upsert_memory_summary_def
      list_ex_iff list_all_iff Let_def not_le)

lemma apply_op_fails: "fst (apply_op io op db) \<noteq> None \<Longrightarrow> snd (apply_op io op db) = db"
  by (cases op; cases io)
    (auto simp: append_agent_memory_def append_agent_turn_def append_tool_evidence_def upsert_memory_summary_def Let_def)

lemma apply_op_represents:
  assumes "represents (op_time op) db h" "op_accepted op"
  shows "represents (op_time op) (snd (apply_op None op db)) (log_op op h)"
proof (cases op)
  case (Op_exchange k u a c e)
  then show ?thesis using assms represents_exchange [OF represents_purge(1)] by (simp add: append_agent_memory_def)
next
  case (Op_turn t)
  let ?t = "tr_created t"
  have "represents ?t (purge_summaries ?t (purge_evidence ?t (purge_messages ?t db))) h"
    using assms(1) Op_turn by (simp add: represents_purge)
  moreover have "\<not> list_ex (\<lambda>(tool1, c). blank tool1 \<or> blank c) (tr_evidence t)"
    using assms(2) Op_turn by (auto simp: list_ex_iff list_all_iff)
  moreover note represents_notes [OF represents_exchange [OF calculation(1)], of "tr_key t" "tr_expires t" "tr_evidence t"]
  ultimately show ?thesis
    using assms(2) by (simp add: Op_turn append_agent_turn_def Let_def)
next
  case (Op_note k tn c cr e)
  then show ?thesis using assms represents_note [OF represents_purge(2)] by (simp add: append_tool_evidence_def)
next
  case (Op_summary k s)
  then show ?thesis using assms represents_summary by (simp add: upsert_memory_summary_def)
qed

lemma run_represents:
  "sorted (map (\<lambda>x. op_time (snd x)) ops) \<Longrightarrow> \<forall>x \<in> set ops. t \<le> op_time (snd x) \<and> op_time (snd x) \<le> now \<Longrightarrow> t \<le> now \<Longrightarrow>
     represents t db h \<Longrightarrow>
     represents now (fold (\<lambda>(io, op) db. snd (apply_op io op db)) ops db)
       (fold (\<lambda>(io, op) h. if io = None \<and> op_accepted op then log_op op h else h) ops h)"
proof (induction ops arbitrary: t db h)
  case Nil
  then show ?case by (simp add: represents_mono)
next
  case (Cons x ops)
  obtain io op where x: "x = (io, op)" by (cases x)
  let ?h = "if io = None \<and> op_accepted op then log_op op h else h"
  have r: "represents (op_time op) db h"
    using Cons.prems(2,4) by (auto simp: x intro: represents_mono)
  have "represents (op_time op) (snd (apply_op io op db)) ?h"
    using apply_op_represents [OF r] apply_op_fails [of io op db] apply_op_error [of io op db] r by auto
  moreover have "\<forall>y \<in> set ops. op_time op \<le> op_time (snd y) \<and> op_time (snd y) \<le> now" "op_time op \<le> now"
    "sorted (map (\<lambda>x. op_time (snd x)) ops)"
    using Cons.prems(1,2) by (auto simp: x)
  ultimately show ?case using Cons.IH [of "op_time op" "snd (apply_op io op db)" ?h] by (simp add: x)
qed

text \<open>The rows a statement selects, in the order of insertion\<close>

lemma sort_in_order: "in_order f t seq rows \<Longrightarrow> sort_key f rows = rows"
proof (induction rows)
  case (Cons r rows)
  then have "in_order f t seq rows" by (simp add: in_order_def)
  moreover have "\<forall>x \<in> set rows. f r \<le> f x" using Cons.prems by (auto simp: in_order_def less_eq_prod_def)
  ultimately show ?case using Cons.IH by (simp add: insort_is_Cons)
qed simp

lemma in_order_distinct: "in_order f t seq rows \<Longrightarrow> distinct (map f rows)"
  by (induction rows) (auto simp: in_order_def)

lemma in_order_last_n: "in_order f t seq rows \<Longrightarrow> in_order f t seq (last_n n rows)"
  by (auto simp: in_order_def last_n_def sorted_wrt_drop dest: in_set_dropD)

lemma in_order_ids: "in_order message_order t seq rows \<Longrightarrow> sorted_wrt (<) (map mr_id rows) \<and> (\<forall>r \<in> set rows. 0 < mr_id r)"
  by (induction rows) (auto simp: in_order_def message_order_def)

lemma recent_in_order:
  assumes "in_order f t seq rows"
  shows "recent f n rows = last_n n rows"
proof -
  have "take n (rev rows) = rev (last_n n rows)" by (simp add: last_n_def take_rev)
  moreover have "sort_key f (rev (last_n n rows)) = last_n n rows"
  proof (rule sort_key_inj_key_eq)
    show "sorted (map f (last_n n rows))"
      using sort_in_order [OF in_order_last_n [OF assms]] by (metis sorted_sort_key)
    show "inj_on f (set (rev (last_n n rows)))"
      using in_order_distinct [OF assms] by (auto simp: last_n_def distinct_map intro: inj_on_subset dest: in_set_dropD)
  qed simp
  ultimately show ?thesis by (simp add: recent_def sort_in_order [OF assms])
qed

lemma last_n_pairs: "last_n (2 * n) (concat (map exchange_views xs)) = concat (map exchange_views (last_n n xs))"
proof -
  have len: "length (concat (map exchange_views ys)) = 2 * length ys" for ys
    by (induction ys) (simp_all add: exchange_views_def)
  have "drop (2 * k) (concat (map exchange_views ys)) = concat (map exchange_views (drop k ys))" for k ys
    by (induction ys arbitrary: k) (simp_all add: exchange_views_def drop_Cons' split: nat_diff_split)
  from this [of "length xs - n" xs] show ?thesis
    by (simp add: last_n_def len right_diff_distrib')
qed

lemma last_n_map: "last_n n (map f xs) = map f (last_n n xs)"
  by (simp add: last_n_def drop_map)

text \<open>All logged entries were accepted.\<close>

definition log_ok :: "history \<Rightarrow> bool" where
  "log_ok h \<longleftrightarrow> (\<forall>x \<in> set (h_exchanges h). \<not> blank (x_user x) \<and> \<not> blank (x_assistant x)) \<and>
     (\<forall>x \<in> set (h_notes h). \<not> blank (n_tool x) \<and> \<not> blank (n_content x)) \<and>
     (\<forall>k s. h_summaries h k = Some s \<longrightarrow> \<not> blank (sr_content s) \<and> 1 \<le> sr_covered s \<and> \<not> blank (sr_fingerprint s) \<and> sr_created s < sr_expires s)"

lemma log_op_ok: "log_ok h \<Longrightarrow> op_accepted op \<Longrightarrow> log_ok (log_op op h)"
  by (cases op) (auto simp: log_ok_def list_all_iff)

lemma log_run_ok: "log_ok h \<Longrightarrow> log_ok (fold (\<lambda>(io, op) h. if io = None \<and> op_accepted op then log_op op h else h) ops h)"
proof (induction ops arbitrary: h)
  case (Cons x ops)
  obtain io op where x: "x = (io, op)" by (cases x)
  have "log_ok (if io = None \<and> op_accepted op then log_op op h else h)" using Cons.prems by (simp add: log_op_ok)
  from Cons.IH [OF this] show ?case by (simp add: x)
qed simp

lemma history_run_ok: "log_ok (history_run ops)"
  unfolding history_run_def by (rule log_run_ok) (simp add: log_ok_def empty_history_def)

definition exchange_messages :: "exchange \<Rightarrow> (str \<times> str) list" where
  "exchange_messages x = [(user_role, x_user x), (assistant_role, x_assistant x)]"

lemma filter_views:
  "filter (\<lambda>v. fst v = key) (concat (map exchange_views xs)) = concat (map exchange_views (filter (\<lambda>x. x_key x = key) xs))"
  by (induction xs) (simp_all add: exchange_views_def)

lemma view_in_exchanges:
  "v \<in> set (concat (map exchange_views xs)) \<Longrightarrow> \<exists>x \<in> set xs. fst (snd v) = user_role \<and> fst (snd (snd v)) = x_user x \<or>
     fst (snd v) = assistant_role \<and> fst (snd (snd v)) = x_assistant x"
  by (fastforce simp: exchange_views_def)

lemma select_represents:
  assumes r: "represents now db h"
  shows "map message_view (filter (\<lambda>r. mr_key r = key \<and> now < mr_expires r \<and> mr_role r \<in> {user_role, assistant_role}) (db_messages db))
    = concat (map exchange_views (filter (\<lambda>x. x_key x = key \<and> now < x_expires x) (h_exchanges h)))"
proof -
  let ?live = "filter (\<lambda>r. now < mr_expires r) (db_messages db)" and ?xs = "filter (\<lambda>x. now < x_expires x) (h_exchanges h)"
  have v: "map message_view ?live = concat (map exchange_views ?xs)" using r by (simp add: represents_def)
  have "mr_role r \<in> {user_role, assistant_role}" if "r \<in> set ?live" for r
  proof -
    have "message_view r \<in> set (concat (map exchange_views ?xs))" using that unfolding v [symmetric] by simp
    from view_in_exchanges [OF this] show ?thesis by (auto simp: message_view_def)
  qed
  then have "filter (\<lambda>r. mr_key r = key \<and> now < mr_expires r \<and> mr_role r \<in> {user_role, assistant_role}) (db_messages db)
      = filter (\<lambda>r. mr_key r = key) ?live"
    unfolding filter_filter by (intro filter_cong) auto
  moreover have "map message_view (filter (\<lambda>r. mr_key r = key) ?live) = filter (\<lambda>v. fst v = key) (map message_view ?live)"
    by (simp add: filter_map comp_def message_view_def del: filter_filter)
  ultimately show ?thesis unfolding v filter_views filter_filter by (simp add: conj_commute)
qed

lemma load_represents:
  assumes r: "represents now db h" and ok: "log_ok h" and args: "\<not> blank key" "0 \<le> now" "1 \<le> turns"
  shows "\<exists>rows. load_agent_memory None key now turns db = Inr rows \<and>
    map (\<lambda>r. (mr_role r, mr_content r)) rows = concat (map exchange_messages (visible_exchanges key now (nat turns) h)) \<and>
    sorted_wrt (<) (map mr_id rows) \<and> (\<forall>r \<in> set rows. 0 < mr_id r)"
proof -
  let ?sel = "filter (\<lambda>r. mr_key r = key \<and> now < mr_expires r \<and> mr_role r \<in> {user_role, assistant_role}) (db_messages db)"
  let ?rows = "recent message_order (nat (turns * 2)) ?sel" and ?xs = "visible_exchanges key now (nat turns) h"
  have ord: "in_order message_order now (db_seq db) ?sel" using r by (simp add: represents_def in_order_filter)
  have rows: "?rows = last_n (2 * nat turns) ?sel"
    using args(3) recent_in_order [OF ord] by (simp add: nat_mult_distrib mult.commute)
  have v: "map message_view ?rows = concat (map exchange_views ?xs)"
    unfolding rows visible_exchanges_def last_n_pairs [symmetric] select_represents [OF r, symmetric] by (simp only: last_n_map)
  have "set ?xs \<subseteq> set (h_exchanges h)" by (auto simp: visible_exchanges_def last_n_def dest: in_set_dropD)
  then have valid: "mr_role r \<in> {user_role, assistant_role} \<and> \<not> blank (mr_content r)" if "r \<in> set ?rows" for r
  proof -
    have "message_view r \<in> set (concat (map exchange_views ?xs))" using that unfolding v [symmetric] by simp
    from view_in_exchanges [OF this] \<open>set ?xs \<subseteq> _\<close> ok show ?thesis by (auto simp: message_view_def log_ok_def)
  qed
  have "map (\<lambda>r. (mr_role r, mr_content r)) ?rows = map (\<lambda>v. (fst (snd v), fst (snd (snd v)))) (map message_view ?rows)"
    by (simp add: message_view_def comp_def)
  also have "\<dots> = concat (map exchange_messages ?xs)"
    unfolding v by (simp add: map_concat comp_def exchange_views_def exchange_messages_def [abs_def])
  finally have views: "map (\<lambda>r. (mr_role r, mr_content r)) ?rows = concat (map exchange_messages ?xs)" .
  have "sorted_wrt (<) (map mr_id ?rows) \<and> (\<forall>r \<in> set ?rows. 0 < mr_id r)"
    unfolding rows by (rule in_order_ids [OF in_order_last_n [OF ord]])
  moreover have "list_all (\<lambda>r. mr_role r \<in> {user_role, assistant_role} \<and> \<not> blank (mr_content r)) ?rows"
    unfolding list_all_iff using valid by blast
  then have "load_agent_memory None key now turns db = Inr ?rows"
    using args unfolding load_agent_memory_def Let_def by simp
  ultimately show ?thesis using views by blast
qed

definition readable :: "memo \<Rightarrow> bool" where
  "readable x \<longleftrightarrow> json_valid (n_content x) \<and> 0 \<le> n_created x"

lemma load_evidence_represents:
  assumes r: "represents now db h" and ok: "log_ok h" and args: "\<not> blank key" "0 \<le> now" "1 \<le> limit"
  shows "if list_all readable (visible_notes key now (nat limit) h)
    then \<exists>rows. load_tool_evidence None key now limit db = Inr rows \<and> map note_view rows = visible_notes key now (nat limit) h
    else load_tool_evidence None key now limit db = Inl Db_stored"
proof -
  let ?sel = "filter (\<lambda>r. er_key r = key \<and> now < er_expires r) (db_evidence db)"
  let ?rows = "recent evidence_order (nat limit) ?sel" and ?xs = "visible_notes key now (nat limit) h"
  have ord: "in_order evidence_order now (db_evidence_seq db) ?sel" using r by (simp add: represents_def in_order_filter)
  have "map note_view ?sel = filter (\<lambda>x. n_key x = key) (map note_view (filter (\<lambda>r. now < er_expires r) (db_evidence db)))"
    by (simp add: filter_map comp_def note_view_def conj_commute)
  also have "\<dots> = filter (\<lambda>x. n_key x = key) (filter (\<lambda>x. now < n_expires x) (h_notes h))"
    using r by (simp add: represents_def del: filter_filter)
  finally have v: "map note_view ?rows = ?xs"
    by (simp add: recent_in_order [OF ord] last_n_map [symmetric] visible_notes_def conj_commute)
  have "set ?xs \<subseteq> set (h_notes h)" by (auto simp: visible_notes_def last_n_def dest: in_set_dropD)
  then have "list_all (\<lambda>x. \<not> blank (n_tool x) \<and> \<not> blank (n_content x)) ?xs"
    using ok by (auto simp: log_ok_def list_all_iff)
  then have "list_all (\<lambda>r. \<not> blank (er_tool r) \<and> \<not> blank (er_content r) \<and> json_valid (er_content r) \<and> 0 \<le> er_created r) ?rows
      \<longleftrightarrow> list_all readable ?xs"
    unfolding v [symmetric] by (auto simp: list_all_iff note_view_def readable_def)
  then show ?thesis
    using args v by (auto simp: load_tool_evidence_def Let_def not_less)
qed

lemma load_summary_represents:
  assumes r: "represents now db h" and ok: "log_ok h" and args: "\<not> blank key" "0 \<le> now"
  shows "load_memory_summary None key now db = Inr (visible_summary key now h)"
proof -
  have "unexpired now (db_summaries db key) = unexpired now (h_summaries h key)" using r by (simp add: represents_def)
  then show ?thesis
    using ok args
    by (fastforce simp: load_memory_summary_def visible_summary_def unexpired_def log_ok_def split: option.splits if_splits)
qed

text \<open>C29. The tables implement the log of the accepted operations: after any operations with a monotone
  clock and any failures of the database, loading at a later time returns exactly the last exchanges of the key that
  have not expired, whole and in order, with increasing identifiers; the same holds for the tool evidence
  (unless an entry is not readable) and for the summary.\<close>

theorem memory_refines_history:
  assumes "sorted (map (\<lambda>x. op_time (snd x)) ops)" "\<forall>x \<in> set ops. op_time (snd x) \<le> now"
    "\<not> blank key" "0 \<le> now" "1 \<le> turns"
  shows "(\<exists>rows. load_agent_memory None key now turns (db_run ops) = Inr rows \<and>
      map (\<lambda>r. (mr_role r, mr_content r)) rows
        = concat (map exchange_messages (visible_exchanges key now (nat turns) (history_run ops))) \<and>
      sorted_wrt (<) (map mr_id rows)) \<and>
    (if list_all readable (visible_notes key now (nat turns) (history_run ops))
     then \<exists>rows. load_tool_evidence None key now turns (db_run ops) = Inr rows
       \<and> map note_view rows = visible_notes key now (nat turns) (history_run ops)
     else load_tool_evidence None key now turns (db_run ops) = Inl Db_stored) \<and>
    load_memory_summary None key now (db_run ops) = Inr (visible_summary key now (history_run ops))"
proof -
  obtain t where t: "t \<le> now" "\<forall>x \<in> set ops. t \<le> op_time (snd x)"
    using assms(1,2) by (cases ops) auto
  have r: "represents now (db_run ops) (history_run ops)"
    unfolding db_run_def history_run_def using run_represents [OF assms(1) _ t(1) represents_empty] assms(2) t(2) by simp
  note h = load_represents [OF r history_run_ok assms(3-5)] load_evidence_represents [OF r history_run_ok assms(3-5)]
    load_summary_represents [OF r history_run_ok assms(3,4)]
  then show ?thesis by blast
qed

definition demo_ops :: "(db_error option \<times> memory_op) list" where
  "demo_ops =
     [(None, Op_exchange (lit ''k'') (lit ''hi'') (lit ''hello'') 1 9), (Some Db_io, Op_note (lit ''k'') (lit ''t'') (lit ''{}'') 2 9),
      (None, Op_exchange (lit ''k'') (lit ''again'') (lit ''yes'') 2 5)]"

lemma demo_log: "visible_exchanges (lit ''k'') 5 1 (history_run demo_ops)
    = [\<lparr>x_key = lit ''k'', x_user = lit ''hi'', x_assistant = lit ''hello'', x_created = 1, x_expires = 9\<rparr>]"
  by code_simp

lemma memory_refines_history_witness:
  "\<exists>rows. load_agent_memory None (lit ''k'') 5 1 (db_run demo_ops) = Inr rows \<and>
     map (\<lambda>r. (mr_role r, mr_content r)) rows = [(user_role, lit ''hi''), (assistant_role, lit ''hello'')]"
proof -
  have "sorted (map (\<lambda>x. op_time (snd x)) demo_ops)" "\<forall>x \<in> set demo_ops. op_time (snd x) \<le> 5" "\<not> blank (lit ''k'')"
    by code_simp+
  from memory_refines_history [OF this, of 1] demo_log show ?thesis
    by (auto simp: exchange_messages_def)
qed

end
