(* ===== verification/TurnMemory.thy ===== *)
theory TurnMemory
  imports MemoryDb Context
begin

text \<open>
  The memory of turns: the process-local store and the checks of \<open>internal/agent/turn/memory.go\<close>, the compaction of
  old turns (\<open>compaction.go\<close>) and the durable store of \<open>internal/agent/live/memory.go\<close> on the tables of \<open>MemoryDb\<close>.
  The summarizer (a model call) and the SHA-256 digest are arguments.
\<close>

section \<open>Messages that are never replayed\<close>

text \<open>\<open>strings.Split\<close> at line ends\<close>

fun split_lines_from :: "str \<Rightarrow> str \<Rightarrow> str list" where
  "split_lines_from acc [] = [acc]"
| "split_lines_from acc (c # s) = (if c = 10 then acc # split_lines_from [] s else split_lines_from (acc @ [c]) s)"

definition strings_legacy :: "str \<Rightarrow> bool" where
  "strings_legacy s =
     (let lower = to_lower (trim_space s)
      in lower = lit ''[legacy persona]'' \<or> lower = lit ''legacy persona'' \<or> contains lower (lit ''[sips tea'')
         \<or> contains lower (lit ''the archives reveal'')
         \<or> list_ex (\<lambda>line. has_prefix (trim_space line) (lit ''carpe diem'') \<or> has_prefix (trim_space line) (lit ''your history shows:''))
             (split_lines_from [] lower))"

definition is_internal_tool_evidence :: "str \<Rightarrow> bool" where
  "is_internal_tool_evidence s = has_prefix s (lit ''[Internal tool evidence from '')"

definition interrupted_tool_turn_prefix :: str where
  "interrupted_tool_turn_prefix = lit ''INTERRUPTED_TOOL_TURN_UNTRUSTED_DATA=''"

definition text_message :: "str \<Rightarrow> str \<Rightarrow> llm_message" where
  "text_message role content1 = new_message role (Some content1) [] []"

section \<open>Evidence\<close>

definition schema_object :: "(str \<times> json) list \<Rightarrow> str list \<Rightarrow> bool \<Rightarrow> json" where
  "schema_object props required additional =
     JObj [(lit ''additionalProperties'', JBool additional), (lit ''properties'', JObj props),
           (lit ''required'', JArr (map JStr required)), (lit ''type'', JStr (lit ''object''))]"

definition schema_type :: "string \<Rightarrow> json" where
  "schema_type t = JObj [(lit ''type'', JStr (lit t))]"

definition int_or_null :: json where
  "int_or_null = JObj [(lit ''oneOf'', JArr [schema_type ''integer'', schema_type ''null''])]"

definition durable_evidence_schema :: "str \<Rightarrow> json option" where
  "durable_evidence_schema tool1 =
     (if tool1 = lit ''user_message_history'' then
        Some (schema_object
          [(lit ''newestCreatedOn'', int_or_null), (lit ''oldestCreatedOn'', int_or_null), (lit ''returnedCount'', schema_type ''integer''),
           (lit ''rows'', schema_type ''array'')]
          (map lit [''rows'', ''returnedCount'', ''oldestCreatedOn'', ''newestCreatedOn'']) False)
      else if tool1 = lit ''room_users'' then
        Some (schema_object
          [(lit ''count'', schema_type ''integer''), (lit ''returnedCount'', schema_type ''integer''), (lit ''room'', schema_type ''string''),
           (lit ''truncated'', schema_type ''boolean''),
           (lit ''users'', JObj [(lit ''items'', schema_type ''string''), (lit ''type'', JStr (lit ''array''))])]
          (map lit [''room'', ''users'', ''count'', ''returnedCount'', ''truncated'']) False)
      else None)"

definition max_durable_evidence_bytes :: nat where
  "max_durable_evidence_bytes = 32000"

definition valid_persistable_evidence :: "str \<times> str \<Rightarrow> bool" where
  "valid_persistable_evidence e =
     (case e of (tool1, content1) \<Rightarrow>
        (case durable_evidence_schema tool1 of None \<Rightarrow> False
         | Some sch \<Rightarrow> \<not> blank content1 \<and> utf8_len content1 \<le> max_durable_evidence_bytes \<and> json_valid content1
             \<and> validate_result sch content1))"

definition new_persistable_evidence :: "descriptor \<Rightarrow> tool_result \<Rightarrow> (str \<times> str) option" where
  "new_persistable_evidence d r =
     (let candidate = (d_name d, tr_content r)
      in if tr_error r \<or> d_mode d \<noteq> Model_data \<or> d_effect d \<noteq> Read_only \<or> \<not> d_idempotent d \<or> d_writes d \<noteq> [] \<or> d_reads d = []
            \<or> d_name d \<noteq> tr_tool r \<or> \<not> valid_persistable_evidence candidate \<or> \<not> validate_result (d_result d) (tr_content r)
         then None else Some candidate)"

section \<open>The process-local store\<close>

record memory_data =
  md_messages :: "llm_message list"
  md_evidence :: "(str \<times> str) list"

record local_store =
  ls_data :: "str \<Rightarrow> memory_data option"
  ls_failure :: bool

datatype memory_error = Memory_load | Memory_persistence | Invalid_evidence | Invalid_exchange | Not_configured | Ctx_ended
  | Bad_row | Compaction_failed | Bad_coverage | Store_error db_error

definition new_memory_store :: local_store where
  "new_memory_store = \<lparr>ls_data = Map.empty, ls_failure = False\<rparr>"

definition bucket :: "api_context \<Rightarrow> local_store \<Rightarrow> memory_data" where
  "bucket ctx m = (case ls_data m (api_memory_key ctx) of None \<Rightarrow> \<lparr>md_messages = [], md_evidence = []\<rparr> | Some d \<Rightarrow> d)"

definition put_bucket :: "api_context \<Rightarrow> memory_data \<Rightarrow> local_store \<Rightarrow> local_store" where
  "put_bucket ctx d m = m\<lparr>ls_data := (ls_data m)(api_memory_key ctx \<mapsto> d)\<rparr>"

definition local_load :: "api_context \<Rightarrow> local_store \<Rightarrow> memory_error + llm_message list" where
  "local_load ctx m =
     (if ls_failure m then Inl Memory_load
      else Inr (filter (\<lambda>x. \<not> (strings_legacy (message_content x) \<or> is_internal_tool_evidence (message_content x)))
             (md_messages (bucket ctx m))))"

definition local_append :: "api_context \<Rightarrow> str \<Rightarrow> str \<Rightarrow> local_store \<Rightarrow> memory_error option \<times> local_store" where
  "local_append ctx role content1 m =
     (if ls_failure m then (Some Memory_persistence, m)
      else (None, put_bucket ctx ((bucket ctx m)\<lparr>md_messages := md_messages (bucket ctx m) @ [text_message role content1]\<rparr>) m))"

definition local_append_evidence :: "api_context \<Rightarrow> (str \<times> str) list \<Rightarrow> local_store \<Rightarrow> memory_error option \<times> local_store" where
  "local_append_evidence ctx es m =
     (if list_ex (\<lambda>(tool1, c). blank tool1 \<or> blank c) es then (Some Invalid_evidence, m)
      else if ls_failure m then (Some Memory_persistence, m)
      else (None, put_bucket ctx ((bucket ctx m)\<lparr>md_evidence := md_evidence (bucket ctx m) @ es\<rparr>) m))"

definition local_evidence :: "api_context \<Rightarrow> local_store \<Rightarrow> (str \<times> str) list" where
  "local_evidence ctx m = md_evidence (bucket ctx m)"

section \<open>The facade of a request\<close>

text \<open>\<open>TurnMemory.LoadContext\<close> on the history of the store: a legacy answer takes its question with it, and a record
  of an interrupted turn is no assistant speech.\<close>

definition clean_step :: "llm_message list \<Rightarrow> llm_message \<Rightarrow> llm_message list" where
  "clean_step out m =
     (let c = message_content m
      in if strings_legacy c \<or> is_internal_tool_evidence c then
           (if strings_legacy c \<and> out \<noteq> [] \<and> lm_role (last out) = user_role then butlast out else out)
         else out @ [if lm_role m = assistant_role \<and> has_prefix c interrupted_tool_turn_prefix
                     then text_message user_role c else m])"

definition clean_history :: "llm_message list \<Rightarrow> llm_message list" where
  "clean_history ms = foldl clean_step [] ms"

definition turn_load :: "bool \<Rightarrow> memory_error + llm_message list \<Rightarrow> memory_error + llm_message list" where
  "turn_load ended stored =
     (if ended then Inl Ctx_ended else case stored of Inl e \<Rightarrow> Inl Memory_load | Inr h \<Rightarrow> Inr (clean_history h))"

text \<open>\<open>AppendTurnContext\<close> on the process-local store\<close>

definition local_append_exchange :: "api_context \<Rightarrow> str \<Rightarrow> str \<Rightarrow> local_store \<Rightarrow> memory_error option \<times> local_store" where
  "local_append_exchange ctx user1 assistant m =
     (let (e1, m1) = local_append ctx user_role user1 m
      in if e1 \<noteq> None then (Some Memory_persistence, m1)
         else let (e2, m2) = local_append ctx assistant_role assistant m1
              in (if e2 \<noteq> None then Some Memory_persistence else None, m2))"

definition local_append_tool_evidence :: "api_context \<Rightarrow> (str \<times> str) list \<Rightarrow> local_store \<Rightarrow> memory_error option \<times> local_store" where
  "local_append_tool_evidence ctx es m =
     (if es = [] then (None, m)
      else if list_ex (\<lambda>e. \<not> valid_persistable_evidence e) es then (Some Invalid_evidence, m)
      else case local_append_evidence ctx es m of
        (Some Invalid_evidence, m') \<Rightarrow> (Some Invalid_evidence, m')
      | (Some _, m') \<Rightarrow> (Some Memory_persistence, m')
      | (None, m') \<Rightarrow> (None, m'))"

definition local_append_turn ::
  "bool \<Rightarrow> api_context \<Rightarrow> str \<Rightarrow> str \<Rightarrow> (str \<times> str) list \<Rightarrow> local_store \<Rightarrow> memory_error option \<times> local_store" where
  "local_append_turn ended ctx user1 assistant es m =
     (if ended then (Some Ctx_ended, m)
      else if list_ex (\<lambda>e. \<not> valid_persistable_evidence e) es then (Some Invalid_evidence, m)
      else let (e, m1) = local_append_exchange ctx user1 assistant m
           in if e \<noteq> None then (e, m1)
              else if a_whisper ctx \<or> es = [] then (None, m1)
              else local_append_tool_evidence ctx es m1)"

section \<open>Compaction\<close>

record memory_summary =
  su_content :: str
  su_from :: int
  su_through :: int
  su_fingerprint :: str
  su_cursor :: int

type_synonym summarizer = "llm_message list \<Rightarrow> str option"


definition summary_message :: "memory_summary \<Rightarrow> llm_message" where
  "summary_message s = text_message user_role
     (lit ''UNTRUSTED_CONVERSATION_SUMMARY covered='' @ itoa (su_from s) @ lit ''..'' @ itoa (su_through s) @ lit '' fingerprint=''
       @ su_fingerprint s @ [10] @ su_content s)"




section \<open>The durable store\<close>

record persistent_store =
  ps_repository :: bool
  ps_evidence_repository :: bool
  ps_turns :: int
  ps_ttl :: duration
  ps_compactor :: "summarizer option option"
  ps_raw_limit :: int

definition unix_milli :: "time \<Rightarrow> int" where
  "unix_milli t = t div 1000000"

text \<open>\<open>AgentMemorySummary\<close> to \<open>MemorySummary\<close>: the covered range is not stored.\<close>

definition existing_summary :: "summary_row \<Rightarrow> memory_summary" where
  "existing_summary r = \<lparr>su_content = sr_content r, su_from = 0, su_through = 0, su_fingerprint = sr_fingerprint r, su_cursor = sr_covered r\<rparr>"







definition persistent_append_turn ::
  "bool \<Rightarrow> persistent_store \<Rightarrow> db_error option \<Rightarrow> time \<Rightarrow> api_context \<Rightarrow> str \<Rightarrow> str \<Rightarrow> (str \<times> str) list \<Rightarrow> memory_db
     \<Rightarrow> memory_error option \<times> memory_db" where
  "persistent_append_turn ended s io now ctx user1 assistant es db =
     (if ended then (Some Ctx_ended, db)
      else if list_ex (\<lambda>e. \<not> valid_persistable_evidence e) es then (Some Invalid_evidence, db)
      else if \<not> ps_repository s \<or> ps_ttl s \<le> 0 \<or> blank user1 \<or> blank assistant then (Some Memory_persistence, db)
      else let (e, db') = append_agent_turn io
                 \<lparr>tr_key = api_memory_key ctx, tr_user = user1, tr_assistant = assistant,
                  tr_evidence = (if a_whisper ctx then [] else es), tr_created = unix_milli now, tr_expires = unix_milli (now + ps_ttl s)\<rparr> db
           in (map_option (\<lambda>_. Memory_persistence) e, db'))"

definition persistent_append_exchange ::
  "bool \<Rightarrow> persistent_store \<Rightarrow> db_error option \<Rightarrow> time \<Rightarrow> api_context \<Rightarrow> str \<Rightarrow> str \<Rightarrow> memory_db \<Rightarrow> memory_error option \<times> memory_db" where
  "persistent_append_exchange ended s io now ctx user1 assistant db =
     (if ended then (Some Ctx_ended, db)
      else if \<not> ps_repository s \<or> ps_ttl s \<le> 0 \<or> blank user1 \<or> blank assistant then (Some Invalid_exchange, db)
      else let (e, db') = append_agent_memory io (api_memory_key ctx) user1 assistant (unix_milli now) (unix_milli (now + ps_ttl s)) db
           in (map_option Store_error e, db'))"

text \<open>\<open>AppendEvidenceContext\<close>: rows before a failing one stay.\<close>

fun append_evidence_rows :: "persistent_store \<Rightarrow> (nat \<Rightarrow> db_error option) \<Rightarrow> time \<Rightarrow> str \<Rightarrow> (str \<times> str) list \<Rightarrow> memory_db
     \<Rightarrow> memory_error option \<times> memory_db" where
  "append_evidence_rows s io now key [] db = (None, db)"
| "append_evidence_rows s io now key ((tool1, c) # es) db =
     (if blank tool1 \<or> blank c then (Some Invalid_evidence, db)
      else case append_tool_evidence (io (length es)) key tool1 c (unix_milli now) (unix_milli (now + ps_ttl s)) db of
        (Some e, db') \<Rightarrow> (Some (Store_error e), db')
      | (None, db') \<Rightarrow> append_evidence_rows s io now key es db')"

definition persistent_append_evidence ::
  "bool \<Rightarrow> persistent_store \<Rightarrow> (nat \<Rightarrow> db_error option) \<Rightarrow> time \<Rightarrow> api_context \<Rightarrow> (str \<times> str) list \<Rightarrow> memory_db
     \<Rightarrow> memory_error option \<times> memory_db" where
  "persistent_append_evidence ended s io now ctx es db =
     (if ended then (Some Ctx_ended, db)
      else if a_whisper ctx \<or> \<not> ps_evidence_repository s \<or> ps_ttl s \<le> 0 then (Some Not_configured, db)
      else append_evidence_rows s io now (api_memory_key ctx) es db)"

text \<open>\<open>LoadHistoricalEvidenceContext\<close> on the durable store: only for public requests, and only what is valid\<close>

definition load_historical_evidence ::
  "bool \<Rightarrow> persistent_store \<Rightarrow> db_error option \<Rightarrow> time \<Rightarrow> api_context \<Rightarrow> memory_db \<Rightarrow> memory_error + (str \<times> str \<times> int) list" where
  "load_historical_evidence ended s io now ctx db =
     (if ended then Inl Ctx_ended
      else if a_whisper ctx then Inr []
      else if \<not> ps_evidence_repository s \<or> ps_turns s < 1 \<or> ps_ttl s \<le> 0 then Inl Memory_load
      else case load_tool_evidence io (api_memory_key ctx) (unix_milli now) (ps_turns s) db of
        Inl e \<Rightarrow> Inl Memory_load
      | Inr rows \<Rightarrow>
          Inr (map (\<lambda>r. (er_tool r, er_content r, er_created r))
                 (filter (\<lambda>r. \<not> er_created r < 0 \<and> valid_persistable_evidence (er_tool r, er_content r)) rows)))"

section \<open>Compaction loses and repeats nothing\<close>

definition covered :: "summary_row option \<Rightarrow> int" where
  "covered record1 = (case record1 of None \<Rightarrow> 0 | Some r \<Rightarrow> sr_covered r)"














lemma blank_trim [simp]: "blank (trim_space s) = blank s"
  by (simp add: blank_def)










text \<open>A stored summary no longer tells which range it covers.\<close>

lemma reload_loses_range:
  "message_content (summary_message (existing_summary r)) = lit ''UNTRUSTED_CONVERSATION_SUMMARY covered=0..0 fingerprint=''
     @ sr_fingerprint r @ [10] @ sr_content r"
  by (simp add: summary_message_def existing_summary_def text_message_def new_message_def message_content_def itoa_def digits_of.simps)










end
