(* ===== verification/CoordinatorOutcome.thy ===== *)
theory CoordinatorOutcome
  imports Coordinator
begin

text \<open>
  What a finished workflow of the snapshot coordinator reports, that the first failure decides it, and
  that the goroutines end.
\<close>

section \<open>Outcomes\<close>

lemma failure_kept [simp]:
  "w_failure (run_create session e w) = w_failure w" "w_failure (run_check w) = w_failure w"
  "w_failure (run_start e w) = w_failure w" "w_failure (run_ended w) = w_failure w"
  "w_failure (run_payload parse w) = w_failure w" "w_failure (op_return r e w) = w_failure w"
  "w_failure (run_panic v w) = w_failure w" "w_failure (run_clean flush close w) = w_failure w"
  "w_failure (run_reply has_sink e w) = w_failure w" "w_failure (close_wf w) = w_failure w"
  "w_failure (finish_wf w) = w_failure w" "w_failure (snd (receive payload w)) = w_failure w"
  "w_failure (snd (op_send e w)) = w_failure w" "w_failure (op_reply e w) = w_failure w"
  by (simp_all add: run_create_def stop_with_def run_check_def run_start_def run_ended_def run_payload_def op_return_def
      run_panic_def run_clean_def run_reply_def close_wf_def finish_wf_def receive_def op_send_def op_reply_def Let_def
      split: sum.split)

lemma ctx_kept [simp]:
  "w_ctx (run_create session e w) = w_ctx w" "w_ctx (run_check w) = w_ctx w" "w_ctx (run_start e w) = w_ctx w"
  "w_ctx (run_ended w) = w_ctx w" "w_ctx (run_payload parse w) = w_ctx w" "w_ctx (op_return r e w) = w_ctx w"
  "w_ctx (run_panic v w) = w_ctx w" "w_ctx (run_clean flush close w) = w_ctx w"
  "w_ctx (run_reply has_sink e w) = w_ctx w" "w_ctx (finish_wf w) = w_ctx w"
  by (simp_all add: run_create_def stop_with_def run_check_def run_start_def run_ended_def run_payload_def op_return_def
      run_panic_def run_clean_def run_reply_def finish_wf_def Let_def split: sum.split)

lemma check_ctx_nth: "i < length (c_workflows s) \<Longrightarrow> wf (check_ctx i s) j = (if j = i then run_check (wf s i) else wf s j)"
  by (simp add: check_ctx_def on_wf_def nth_list_update)

lemma record_nth: "i < length (c_workflows s) \<Longrightarrow> wf (record_outcome i s) j = (if j = i then close_wf (wf s i) else wf s j)"
  by (simp add: record_outcome_eq on_wf_def nth_list_update Let_def)

lemma report_nth: "i < length (c_workflows s) \<Longrightarrow> wf (report i s) j = (if j = i then finish_wf (wf s i) else wf s j)"
  by (simp add: report_def on_wf_def nth_list_update finish_wf_def)

lemma step_length [simp]:
  "length (c_workflows (check_ctx i s)) = length (c_workflows s)"
  "length (c_workflows (record_outcome i s)) = length (c_workflows s)"
  "length (c_workflows (report i s)) = length (c_workflows s)"
  by (simp_all add: check_ctx_def record_outcome_eq report_def Let_def)

text \<open>Workflows stay where they are, and the first failure of a workflow stays.\<close>

definition grown :: "coordinator \<Rightarrow> coordinator \<Rightarrow> bool" where
  "grown s t \<longleftrightarrow> length (c_workflows s) \<le> length (c_workflows t) \<and>
     (\<forall>i < length (c_workflows s). w_failure (wf s i) \<noteq> None \<longrightarrow> w_failure (wf t i) = w_failure (wf s i))"

lemma grown_on_wf:
  "(w_failure (wf s i) \<noteq> None \<Longrightarrow> w_failure (f (wf s i)) = w_failure (wf s i)) \<Longrightarrow> grown s (on_wf i f s)"
  by (cases "i < length (c_workflows s)") (auto simp: grown_def on_wf_def nth_list_update)

lemma fail_kept: "w_failure w \<noteq> None \<Longrightarrow> w_failure (snd (fail st e w)) = w_failure w"
  by (simp add: fail_def)

lemma run_step_grown: "run_step parse has_sink s t \<Longrightarrow> grown s t"
proof (induction rule: run_step.induct)
  case (Check s i) then show ?case by (auto simp: grown_def at_pc_def check_ctx_nth)
next
  case (Record s i) then show ?case by (auto simp: grown_def at_pc_def record_nth)
next
  case (Report s i) then show ?case by (auto simp: grown_def at_pc_def report_nth)
qed (simp_all add: grown_on_wf)

lemma env_step_grown: "env_step has_sink s t \<Longrightarrow> grown s t"
proof (induction rule: env_step.induct)
  case (Submit s r parent) then show ?case by (simp add: submit_room_def grown_def nth_append)
next
  case (Cancel s wid reason)
  then show ?case
    by (cases "c_active s wid") (auto simp: cancel_workflow_def grown_def [of s s] intro!: grown_on_wf fail_kept)
qed (auto simp: on_snapshot_def on_closed_def on_transport_error_def intro!: grown_on_wf fail_kept)

lemma room_steps_grown: "(room_step parse has_sink)\<^sup>*\<^sup>* s t \<Longrightarrow> grown s t"
proof (induction rule: rtranclp_induct)
  case (step t u)
  then have "grown t u" by (auto simp: room_step_def run_step_grown env_step_grown)
  then show ?case using step.IH by (auto simp: grown_def)
qed (simp add: grown_def)

lemma finite_union_card: "dom m = A \<union> set xs \<Longrightarrow> finite A \<Longrightarrow> card (dom m) \<le> card A + length xs"
  by (metis card_Un_le card_length add_left_mono order_trans)

lemma registered_finite: "registered s \<Longrightarrow> finite (dom (c_active s))"
proof (rule finite_subset)
  assume "registered s"
  then show "dom (c_active s) \<subseteq> wf_id ` set (c_workflows s)"
    by (auto simp: registered_def)
qed simp

text \<open>In every reachable state of the snapshot coordinator the table of active workflows holds
  exactly the unfinished ones, one for each name; an active name is reported pending or running and any
  other known name with the final state of the last workflow of that name; and besides the active
  workflows no more than 256 outcomes are kept.\<close>

theorem snapshot_registry:
  assumes "(room_step parse has_sink)\<^sup>*\<^sup>* new_coordinator s"
  shows "(c_active s nm = Some i \<longleftrightarrow> i < length (c_workflows s) \<and> wf_id (wf s i) = nm \<and> w_pc (wf s i) \<notin> {W_report, W_done}) \<and>
    (c_active s nm \<noteq> None \<longrightarrow> c_states s nm \<in> {Some St_pending, Some St_running}) \<and>
    (c_active s nm = None \<and> c_states s nm = Some st \<longrightarrow>
       (\<exists>j < length (c_workflows s). wf_id (wf s j) = nm \<and> w_final (wf s j) = st \<and>
          (\<forall>k. j < k \<and> k < length (c_workflows s) \<longrightarrow> wf_id (wf s k) \<noteq> nm))) \<and>
    dom (c_states s) = dom (c_active s) \<union> set (c_retained s) \<and>
    card (dom (c_states s)) \<le> card (dom (c_active s)) + 256"
proof -
  have ok: "room_ok s" using assms by (rule room.inv_reachable [OF refl])
  then have reg: "registered s" and st: "states_ok s" by (simp_all add: room_ok_def)
  have d: "dom (c_states s) = dom (c_active s) \<union> set (c_retained s)" "length (c_retained s) \<le> 256"
    using st by (simp_all add: states_ok_def max_retained_def)
  moreover have "card (dom (c_states s)) \<le> card (dom (c_active s)) + 256"
    using finite_union_card [OF d(1) registered_finite [OF reg]] d(2) by linarith
  moreover have "c_active s nm \<noteq> None \<longrightarrow> c_states s nm \<in> {Some St_pending, Some St_running}"
    using st unfolding states_ok_def by blast
  moreover have "c_active s nm = None \<and> c_states s nm = Some st \<longrightarrow>
       (\<exists>j < length (c_workflows s). wf_id (wf s j) = nm \<and> w_final (wf s j) = st \<and>
          (\<forall>k. j < k \<and> k < length (c_workflows s) \<longrightarrow> wf_id (wf s k) \<noteq> nm))"
    using states_okD [OF st, of nm st] unfolding last_of_def by blast
  moreover have "c_active s nm = Some i \<longleftrightarrow> i < length (c_workflows s) \<and> wf_id (wf s i) = nm \<and> w_pc (wf s i) \<notin> {W_report, W_done}"
    using reg by (simp add: registered_def recorded_def)
  ultimately show ?thesis by (intro conjI) assumption+
qed

lemma wf_terminal_settled: "wf_ok w \<Longrightarrow> w_terminal w \<Longrightarrow> settled w"
  using terminal_phase [of "w_pc w" w] by (auto simp: wf_ok_def)

lemma wf_terminal:
  assumes "wf_ok w"
  shows "w_terminal w \<longrightarrow>
      (w_final w = St_completed \<longleftrightarrow> or_outcome (w_result w) \<noteq> Out_failed) \<and>
      (w_final w = St_completed \<longrightarrow> or_error (w_result w) = [] \<and> w_failure w = None \<and> w_dispatched w) \<and>
      (w_failure w \<noteq> None \<longrightarrow> w_final w = fst (the (w_failure w)) \<and> or_outcome (w_result w) = Out_failed \<and>
         set (snd (the (w_failure w))) \<subseteq> set (or_error (w_result w)) \<and> (w_dispatched w \<longrightarrow> or_unknown (w_result w)))"
proof
  assume "w_terminal w"
  with assms have s: "settled w" by (rule wf_terminal_settled)
  have "w_failure w \<noteq> None \<longrightarrow> fst (the (w_failure w)) \<noteq> St_completed"
    using assms by (auto simp: wf_ok_def calls_ok_def)
  with s show "(w_final w = St_completed \<longleftrightarrow> or_outcome (w_result w) \<noteq> Out_failed) \<and>
      (w_final w = St_completed \<longrightarrow> or_error (w_result w) = [] \<and> w_failure w = None \<and> w_dispatched w) \<and>
      (w_failure w \<noteq> None \<longrightarrow> w_final w = fst (the (w_failure w)) \<and> or_outcome (w_result w) = Out_failed \<and>
         set (snd (the (w_failure w))) \<subseteq> set (or_error (w_result w)) \<and> (w_dispatched w \<longrightarrow> or_unknown (w_result w)))"
    unfolding settled_def by metis
qed

lemma wf_done:
  assumes "wf_ok w"
  shows "w_pc w = W_done \<longrightarrow> w_submit w \<noteq> None \<and> (w_submit w = Some [] \<longleftrightarrow> w_started w) \<and>
    (w_final w = St_completed \<longrightarrow> w_action_err w = [])"
proof
  assume "w_pc w = W_done"
  with assms have "counted True w" "settled w" by (simp_all add: wf_ok_def)
  then show "w_submit w \<noteq> None \<and> (w_submit w = Some [] \<longleftrightarrow> w_started w) \<and> (w_final w = St_completed \<longrightarrow> w_action_err w = [])"
    by (auto simp: counted_def settled_def)
qed

text \<open>C12. Each workflow is reported exactly once, when it has finished. A workflow reported as completed had
  no failure, no error and no failed frame, and its operation ran, on the one payload that was claimed; a failure that
  was once accepted (of the transport, or a cancellation) makes the workflow fail in the
  state of that failure, with its error, and with an unknown outcome if the operation had begun. What \<open>Submit\<close> returns is
  no error exactly if the session was started.\<close>

theorem snapshot_outcome:
  assumes "(room_step parse has_sink)\<^sup>*\<^sup>* new_coordinator s" "(room_step parse has_sink)\<^sup>*\<^sup>* s t" "i < length (c_workflows s)"
  shows "reports_of t i = (if w_pc (wf t i) = W_done then [w_result (wf t i)] else []) \<and>
    (w_dispatched (wf t i) \<longrightarrow> w_claimed (wf t i) \<and> w_started (wf t i)) \<and>
    (w_terminal (wf t i) \<longrightarrow>
      (w_final (wf t i) = St_completed \<longleftrightarrow> or_outcome (w_result (wf t i)) \<noteq> Out_failed) \<and>
      (w_final (wf t i) = St_completed \<longrightarrow> or_error (w_result (wf t i)) = [] \<and> w_failure (wf t i) = None \<and> w_dispatched (wf t i)) \<and>
      (w_failure (wf s i) \<noteq> None \<longrightarrow> w_final (wf t i) = fst (the (w_failure (wf s i))) \<and>
         or_outcome (w_result (wf t i)) = Out_failed \<and> set (snd (the (w_failure (wf s i)))) \<subseteq> set (or_error (w_result (wf t i))) \<and>
         (w_dispatched (wf t i) \<longrightarrow> or_unknown (w_result (wf t i))))) \<and>
    (w_pc (wf t i) = W_done \<longrightarrow> w_submit (wf t i) \<noteq> None \<and> (w_submit (wf t i) = Some [] \<longleftrightarrow> w_started (wf t i)) \<and>
       (w_final (wf t i) = St_completed \<longrightarrow> w_action_err (wf t i) = []))"
proof -
  have "room_ok s" using assms(1) by (rule room.inv_reachable [OF refl])
  then have ok: "room_ok t" using assms(2) by (rule room.inv_steps [rotated])
  have g: "grown s t" by (rule room_steps_grown [OF assms(2)])
  then have i: "i < length (c_workflows t)" using assms(3) by (simp add: grown_def)
  have kept: "w_failure (wf s i) \<noteq> None \<Longrightarrow> w_failure (wf t i) = w_failure (wf s i)" using g assms(3) by (simp add: grown_def)
  have w: "wf_ok (wf t i)" using ok i by (rule room_wf_ok)
  have "reports_of t i = (if w_pc (wf t i) = W_done then [w_result (wf t i)] else [])"
    using ok i by (simp add: room_ok_def reports_ok_def)
  moreover have "w_dispatched (wf t i) \<longrightarrow> w_claimed (wf t i) \<and> w_started (wf t i)"
    using w by (simp add: wf_ok_def calls_ok_def)
  moreover note wf_terminal [OF w] wf_done [OF w]
  ultimately show ?thesis
  proof (cases "w_failure (wf s i) = None")
    case False
    from \<open>w_terminal (wf t i) \<longrightarrow> _\<close> [unfolded kept [OF False]] False
    show ?thesis
      using \<open>reports_of t i = _\<close> \<open>w_dispatched (wf t i) \<longrightarrow> _\<close> \<open>w_pc (wf t i) = W_done \<longrightarrow> _\<close>
      by (intro conjI) blast+
  qed blast
qed

section \<open>Termination\<close>

fun rank :: "wf_pc \<Rightarrow> nat" where
  "rank W_create = 10" | "rank W_created = 9" | "rank W_start = 8" | "rank W_wait = 7" | "rank W_apply = 6" | "rank W_clean = 5"
| "rank W_reply = 4" | "rank W_settle = 3" | "rank W_record = 2" | "rank W_report = 1" | "rank W_done = 0"

definition total_rank :: "coordinator \<Rightarrow> nat" where
  "total_rank s = sum_list (map (\<lambda>w. rank (w_pc w)) (c_workflows s))"

lemma total_rank_update:
  assumes "i < length (c_workflows s)" "c_workflows t = (c_workflows s)[i := w]" "rank (w_pc w) < rank (w_pc (wf s i))"
  shows "total_rank t < total_rank s"
proof -
  have "total_rank s = rank (w_pc (wf s i)) + sum_list (map (\<lambda>w. rank (w_pc w)) (take i (c_workflows s) @ drop (Suc i) (c_workflows s)))"
    using arg_cong [OF id_take_nth_drop [OF assms(1)], of "\<lambda>ws. sum_list (map (\<lambda>w. rank (w_pc w)) ws)"]
    by (simp add: total_rank_def)
  moreover have "total_rank t = rank (w_pc w) + sum_list (map (\<lambda>w. rank (w_pc w)) (take i (c_workflows s) @ drop (Suc i) (c_workflows s)))"
    using assms(1) by (simp add: total_rank_def assms(2) upd_conv_take_nth_drop)
  ultimately show ?thesis using assms(3) by simp
qed

lemma rank_run:
  "w_pc w = W_create \<Longrightarrow> rank (w_pc (run_create session e w)) < rank (w_pc w)"
  "w_pc w = W_created \<Longrightarrow> rank (w_pc (run_check w)) < rank (w_pc w)"
  "w_pc w = W_start \<Longrightarrow> rank (w_pc (run_start e w)) < rank (w_pc w)"
  "w_pc w = W_wait \<Longrightarrow> rank (w_pc (run_ended w)) < rank (w_pc w)"
  "w_pc w = W_wait \<Longrightarrow> rank (w_pc (run_payload parse w)) < rank (w_pc w)"
  "w_pc w = W_apply \<Longrightarrow> rank (w_pc (op_return r e w)) < rank (w_pc w)"
  "w_pc w \<in> {W_create, W_start, W_wait, W_apply} \<Longrightarrow> rank (w_pc (run_panic v w)) < rank (w_pc w)"
  "w_pc w = W_clean \<Longrightarrow> rank (w_pc (run_clean flush close w)) < rank (w_pc w)"
  "w_pc w = W_reply \<Longrightarrow> rank (w_pc (run_reply has_sink e w)) < rank (w_pc w)"
  "w_pc w = W_settle \<Longrightarrow> rank (w_pc (run_settle w)) < rank (w_pc w)"
  by (auto simp: run_create_def stop_with_def run_check_def run_start_def run_ended_def
      run_payload_def op_return_def run_panic_def run_clean_def run_reply_def Let_def split: sum.split)

lemma step_workflows [simp]:
  "c_workflows (on_wf i f s) = (c_workflows s)[i := f (wf s i)]"
  "c_workflows (check_ctx i s) = (c_workflows s)[i := run_check (wf s i)]"
  "c_workflows (record_outcome i s) = (c_workflows s)[i := close_wf (wf s i)]"
  "c_workflows (report i s) = (c_workflows s)[i := finish_wf (wf s i)]"
  by (simp_all add: on_wf_def check_ctx_def record_outcome_eq report_def finish_wf_def Let_def)

lemma run_step_rank: "run_step parse has_sink s t \<Longrightarrow> total_rank t < total_rank s"
proof (induction rule: run_step.induct)
  case (Panic s i p v)
  then show ?case by (auto simp: at_pc_def intro!: total_rank_update rank_run)
next
  case (Parse_panic s i v)
  then show ?case
    using rank_run(7) [of "wf s i\<lparr>w_payload := None\<rparr>" v] by (auto simp: at_pc_def intro!: total_rank_update)
qed (auto simp: at_pc_def intro!: total_rank_update rank_run)

lemma run_step_ctx:
  "run_step parse has_sink s t \<Longrightarrow> length (c_workflows t) = length (c_workflows s) \<and>
     (\<forall>i < length (c_workflows s). w_ctx (wf s i) \<noteq> Live \<longrightarrow> w_ctx (wf t i) \<noteq> Live)"
  by (induction rule: run_step.induct) (auto simp: nth_list_update close_wf_def end_ctx_def at_pc_def)

lemma run_blocked:
  assumes "\<And>t. \<not> run_step parse has_sink s t" "i < length (c_workflows s)"
  shows "w_pc (wf s i) = W_done \<or> w_pc (wf s i) = W_wait \<and> w_ctx (wf s i) = Live \<and> w_payload (wf s i) = None"
  using assms run_step.intros [of s i, where parse = parse and has_sink = has_sink]
  by (cases "w_pc (wf s i)"; cases "w_payload (wf s i)") (auto simp: at_pc_def)

lemma run_steps_bounded: "((run_step parse has_sink) ^^ n) s t \<Longrightarrow> n + total_rank t \<le> total_rank s"
proof (induction n arbitrary: t)
  case (Suc n)
  then obtain u where u: "((run_step parse has_sink) ^^ n) s u" "run_step parse has_sink u t" by auto
  with Suc.IH [OF u(1)] run_step_rank [OF u(2)] show ?case by simp
qed simp

lemma total_rank_le: "total_rank s \<le> 10 * length (c_workflows s)"
proof -
  have "rank p \<le> 10" for p by (cases p) simp_all
  then have "sum_list (map (\<lambda>w. rank (w_pc w)) ws) \<le> sum_list (map (\<lambda>w. 10) ws)" for ws :: "workflow list"
    by (intro sum_list_mono)
  from this [of "c_workflows s"] show ?thesis by (simp add: total_rank_def sum_list_triv mult.commute)
qed

lemma run_to_end:
  "\<exists>t. (run_step parse has_sink)\<^sup>*\<^sup>* s t \<and> (\<forall>u. \<not> run_step parse has_sink t u)"
proof (induction "total_rank s" arbitrary: s rule: less_induct)
  case less
  show ?case
  proof (cases "\<exists>u. run_step parse has_sink s u")
    case True
    then obtain u where "run_step parse has_sink s u" by blast
    with less [OF run_step_rank [OF this]] show ?thesis by (meson converse_rtranclp_into_rtranclp)
  qed blast
qed

lemma run_steps_ctx:
  "(run_step parse has_sink)\<^sup>*\<^sup>* s t \<Longrightarrow> (\<forall>i < length (c_workflows s). w_ctx (wf s i) \<noteq> Live) \<Longrightarrow>
     \<forall>i < length (c_workflows t). w_ctx (wf t i) \<noteq> Live"
  by (induction rule: rtranclp_induct) (simp_all add: run_step_ctx)

lemma run_steps_room: "(run_step parse has_sink)\<^sup>*\<^sup>* s t \<Longrightarrow> (room_step parse has_sink)\<^sup>*\<^sup>* s t"
  by (rule rtranclp_mono [THEN predicate2D]) (auto simp: room_step_def)

text \<open>C13. Whatever the sessions, operations and sinks return, the goroutines take at most ten steps for each
  workflow; one that cannot move is finished or waits for its payload with a live context; and
  once the contexts have ended the goroutines alone finish and report every workflow and leave the table of active ones empty.\<close>

theorem snapshot_workflows_end:
  assumes "(room_step parse has_sink)\<^sup>*\<^sup>* new_coordinator s"
  shows "(((run_step parse has_sink) ^^ n) s u \<longrightarrow> n \<le> 10 * length (c_workflows s)) \<and>
    ((\<forall>t. \<not> run_step parse has_sink s t) \<longrightarrow> (\<forall>i < length (c_workflows s). w_pc (wf s i) = W_done \<or>
       w_pc (wf s i) = W_wait \<and> w_ctx (wf s i) = Live \<and> w_payload (wf s i) = None)) \<and>
    ((\<forall>i < length (c_workflows s). w_ctx (wf s i) \<noteq> Live) \<longrightarrow>
       (\<exists>t. (run_step parse has_sink)\<^sup>*\<^sup>* s t \<and> c_active t = Map.empty \<and>
          (\<forall>i < length (c_workflows t). w_pc (wf t i) = W_done \<and> reports_of t i = [w_result (wf t i)])))"
proof (intro conjI impI)
  show "n \<le> 10 * length (c_workflows s)" if "((run_step parse has_sink) ^^ n) s u"
    using run_steps_bounded [OF that] total_rank_le [of s] by simp
  show "\<forall>i < length (c_workflows s). w_pc (wf s i) = W_done \<or>
       w_pc (wf s i) = W_wait \<and> w_ctx (wf s i) = Live \<and> w_payload (wf s i) = None" if "\<forall>t. \<not> run_step parse has_sink s t"
    using that run_blocked by blast
  assume ended: "\<forall>i < length (c_workflows s). w_ctx (wf s i) \<noteq> Live"
  obtain t where t: "(run_step parse has_sink)\<^sup>*\<^sup>* s t" "\<forall>u. \<not> run_step parse has_sink t u" using run_to_end by blast
  have ok: "room_ok t"
    using run_steps_room [OF t(1)] assms by (blast intro: room.inv_reachable [OF refl] rtranclp_trans)
  have "\<forall>i < length (c_workflows t). w_pc (wf t i) = W_done"
    using run_steps_ctx [OF t(1) ended] run_blocked [of parse has_sink t] t(2) by blast
  moreover from this have "c_active t = Map.empty"
    using ok unfolding room_ok_def registered_def recorded_def by (metis not_None_eq ext)
  ultimately show "\<exists>t. (run_step parse has_sink)\<^sup>*\<^sup>* s t \<and> c_active t = Map.empty \<and>
          (\<forall>i < length (c_workflows t). w_pc (wf t i) = W_done \<and> reports_of t i = [w_result (wf t i)])"
    using t(1) ok by (intro exI [of _ t]) (simp add: room_ok_def reports_ok_def)
qed

section \<open>A workflow that is cancelled\<close>

definition demo_request :: room_request where
  "demo_request = \<lparr>rq_id = lit ''w'', rq_author = lit ''a'', rq_source = lit ''here'', rq_target = lit ''there'',
     rq_reply = [], rq_has_operation = True\<rparr>"

definition demo_room :: "wf_state \<Rightarrow> workflow \<Rightarrow> coordinator" where
  "demo_room st w = \<lparr>c_active = [lit ''w'' \<mapsto> 0], c_states = [lit ''w'' \<mapsto> st], c_retained = [], c_workflows = [w], c_outcomes = []\<rparr>"

definition demo_waiting :: workflow where
  "demo_waiting = run_start [] (run_check (run_create (Some (lit ''s'')) [] (new_workflow demo_request Live)))"

definition demo_cancelled :: workflow where
  "demo_cancelled = snd (fail St_cancelled [lit ''stop''] (snd (receive (lit ''p'') demo_waiting)))"

definition demo_settled :: workflow where
  "demo_settled = run_settle (run_reply True [] (run_clean [] [] (run_ended demo_cancelled)))"

definition demo_done :: coordinator where
  "demo_done = report 0 (record_outcome 0 (demo_room St_running demo_settled))"

lemmas demo_defs = demo_request_def demo_waiting_def demo_cancelled_def demo_settled_def new_workflow_def run_start_def run_check_def
  run_create_def fail_def receive_def end_ctx_def run_ended_def

lemma demo_facts:
  "w_pc demo_waiting = W_wait" "w_pc demo_cancelled = W_wait" "w_ctx demo_cancelled = Ctx_canceled"
  "w_failure demo_cancelled = Some (St_cancelled, [lit ''stop''])" "wf_id demo_cancelled = lit ''w''" "wf_id demo_waiting = lit ''w''"
  by (simp_all add: demo_defs)

lemma demo_settled_facts:
  "w_pc demo_settled = W_record" "wf_id demo_settled = lit ''w''" "w_final demo_settled = St_cancelled"
  by (simp_all add: demo_defs run_settle_def run_reply_def run_clean_def reply_text_def settled_failure_def Let_def new_result_def)

lemma demo_on_wf: "on_wf 0 f (demo_room st w) = demo_room st (f w)"
  by (simp add: on_wf_def demo_room_def)

lemma demo_at: "at_pc (demo_room st w) 0 p \<longleftrightarrow> w_pc w = p"
  by (simp add: at_pc_def demo_room_def)

lemma demo_check: "w_ctx w = Live \<Longrightarrow> wf_id w = lit ''w'' \<Longrightarrow> check_ctx 0 (demo_room st w) = demo_room St_running (run_check w)"
  by (simp add: check_ctx_def on_wf_def demo_room_def)

lemma demo_run:
  "run_step parse True s t \<Longrightarrow> (room_step parse True)\<^sup>*\<^sup>* s0 s \<Longrightarrow> (room_step parse True)\<^sup>*\<^sup>* s0 t"
  "env_step True s t \<Longrightarrow> (room_step parse True)\<^sup>*\<^sup>* s0 s \<Longrightarrow> (room_step parse True)\<^sup>*\<^sup>* s0 t"
  by (auto simp: room_step_def intro: rtranclp.rtrancl_into_rtrancl)

lemma demo_reach_waiting: "(room_step parse True)\<^sup>*\<^sup>* new_coordinator (demo_room St_running demo_waiting)"
proof -
  let ?w = "new_workflow demo_request Live" and ?r = "(room_step parse True)\<^sup>*\<^sup>* new_coordinator"
  let ?c = "run_create (Some (lit ''s'')) [] ?w"
  have pcs: "w_pc ?w = W_create" "w_pc ?c = W_created" "w_pc (run_check ?c) = W_start" "w_ctx ?w = Live" "wf_id ?c = lit ''w''"
    by (simp_all add: demo_defs)
  have "snd (submit_room demo_request Live new_coordinator) = demo_room St_pending ?w"
    by (simp add: submit_room_def request_ok_def new_coordinator_def demo_room_def demo_request_def)
  then have "?r (demo_room St_pending ?w)"
    using demo_run(2) [OF Submit [of True new_coordinator demo_request Live] rtranclp.rtrancl_refl] by simp
  from demo_run(1) [OF Create [of _ 0] this] have "?r (demo_room St_pending ?c)"
    by (simp add: demo_on_wf demo_at pcs del: lit_simps)
  from demo_run(1) [OF Check [of _ 0] this] have "?r (demo_room St_running (run_check ?c))"
    by (simp add: demo_check demo_at pcs del: lit_simps)
  from demo_run(1) [OF Start [of _ 0] this] show ?thesis
    by (simp add: demo_on_wf demo_at pcs demo_waiting_def del: lit_simps)
qed

lemma demo_cancel_steps: "(room_step parse True)\<^sup>*\<^sup>* (demo_room St_running demo_waiting) (demo_room St_running demo_cancelled)"
proof -
  have "room_step parse True (demo_room St_running demo_waiting) (demo_room St_running (snd (receive (lit ''p'') demo_waiting)))"
    using Receive [of 0 "demo_room St_running demo_waiting" True "lit ''p''"]
    by (simp add: room_step_def demo_on_wf) (simp add: demo_room_def)
  moreover have "room_step parse True (demo_room St_running w) (demo_room St_running (snd (fail St_cancelled [lit ''stop''] w)))" for w
    using Cancel [of True "demo_room St_running w" "lit ''w''" "lit ''stop''"]
    by (simp add: room_step_def cancel_workflow_def) (simp add: demo_room_def on_wf_def)
  ultimately show ?thesis unfolding demo_cancelled_def by (meson r_into_rtranclp rtranclp_trans)
qed

lemma demo_end_steps: "(room_step parse True)\<^sup>*\<^sup>* (demo_room St_running demo_cancelled) demo_done"
proof -
  let ?e = "run_ended demo_cancelled" and ?reach = "(room_step parse True)\<^sup>*\<^sup>* (demo_room St_running demo_cancelled)"
  let ?c = "run_clean [] [] ?e"
  let ?r = "run_reply True [] ?c"
  have pcs: "w_pc ?e = W_clean" "w_pc ?c = W_reply" "w_pc ?r = W_settle"
    by (simp_all add: run_ended_def run_clean_def run_reply_def Let_def)
  have "at_pc (demo_room St_running demo_cancelled) 0 W_wait" "w_ctx (wf (demo_room St_running demo_cancelled) 0) \<noteq> Live"
    by (simp_all add: demo_at demo_facts) (simp add: demo_room_def demo_facts)
  from demo_run(1) [OF Ended [OF this] rtranclp.rtrancl_refl] have "?reach (demo_room St_running ?e)"
    by (simp add: demo_on_wf)
  from demo_run(1) [OF Clean [of _ 0] this] have "?reach (demo_room St_running ?c)"
    by (simp add: demo_on_wf demo_at pcs)
  from demo_run(1) [OF Reply [of _ 0] this] have "?reach (demo_room St_running ?r)"
    by (simp add: demo_on_wf demo_at pcs)
  from demo_run(1) [OF Settle [of _ 0] this] have "?reach (demo_room St_running demo_settled)"
    by (simp add: demo_on_wf demo_at pcs demo_settled_def)
  moreover have "at_pc (demo_room St_running demo_settled) 0 W_record" by (simp add: demo_at demo_settled_facts)
  ultimately have "?reach (record_outcome 0 (demo_room St_running demo_settled))"
    using demo_run(1) [OF Record] by blast
  moreover have "at_pc (record_outcome 0 (demo_room St_running demo_settled)) 0 W_report"
    by (simp add: at_pc_def) (simp add: demo_room_def)
  ultimately show ?thesis unfolding demo_done_def using demo_run(1) [OF Report] by blast
qed

lemma demo_done_active: "c_active demo_done = Map.empty"
  by (simp add: demo_done_def demo_room_def report_def record_outcome_eq on_wf_def demo_settled_facts Let_def fun_eq_iff)

lemma demo_done_facts:
  "w_pc (wf demo_done 0) = W_done" "c_states demo_done (lit ''w'') = Some St_cancelled"
  "w_final (wf demo_done 0) = St_cancelled" "length (c_workflows demo_done) = 1" "w_terminal (wf demo_done 0)"
  by (simp_all add: demo_done_def demo_room_def report_def record_outcome_def evict_def max_retained_def on_wf_def demo_settled_facts
      Let_def) (simp_all add: demo_settled_def)

lemmas demo_reach_cancelled = rtranclp_trans [OF demo_reach_waiting demo_cancel_steps]

lemma snapshot_registry_witness:
  "card (dom (c_states demo_done)) \<le> card (dom (c_active demo_done)) + 256 \<and>
   (\<exists>j < length (c_workflows demo_done). wf_id (wf demo_done j) = lit ''w'' \<and> w_final (wf demo_done j) = St_cancelled)"
  using snapshot_registry [of "\<lambda>_. Inr ()" True, OF rtranclp_trans [OF demo_reach_cancelled demo_end_steps], of "lit ''w''" 0 St_cancelled]
    demo_done_facts(2) demo_done_active by auto

lemma snapshot_outcome_witness:
  "reports_of demo_done 0 = [w_result (wf demo_done 0)] \<and> or_outcome (w_result (wf demo_done 0)) = Out_failed
   \<and> lit ''stop'' \<in> set (or_error (w_result (wf demo_done 0)))"
proof -
  have w: "wf (demo_room St_running demo_cancelled) 0 = demo_cancelled" "0 < length (c_workflows (demo_room St_running demo_cancelled))"
    by (simp_all add: demo_room_def)
  show ?thesis
    using snapshot_outcome [of "\<lambda>_. Inr ()" True, OF demo_reach_cancelled demo_end_steps w(2)] demo_done_facts(1,5) demo_facts(4)
    unfolding w(1) by simp
qed

lemma snapshot_workflows_end_witness:
  "\<exists>t. (run_step (\<lambda>_. Inr ()) True)\<^sup>*\<^sup>* (demo_room St_running demo_cancelled) t \<and> c_active t = Map.empty"
proof -
  have "\<forall>i < length (c_workflows (demo_room St_running demo_cancelled)). w_ctx (wf (demo_room St_running demo_cancelled) i) \<noteq> Live"
    by (simp add: demo_room_def demo_facts)
  then show ?thesis
    using snapshot_workflows_end [of "\<lambda>_. Inr ()" True "demo_room St_running demo_cancelled", OF demo_reach_cancelled] by blast
qed

end
