(* ===== verification/Moderation.thy ===== *)
theory Moderation
  imports Model
begin

text \<open>
  The automatic moderators of \<open>internal/agent/moderation\<close>: the decisions and their validation
  (\<open>action.go\<close>), the join monitor (\<open>join_monitor.go\<close>), the message monitor
  (\<open>message_monitor.go\<close>), the two executors and the join automation.  A monitor's operations run
  under its mutex, so each is one state transformer; \<open>now\<close> is the reading of the monitor's clock.
\<close>

section \<open>Decisions\<close>

datatype action = Warn | Captcha | Mute | Kick | ShadowBan | Other_action str

record decision =
  d_action :: action
  d_principal :: str
  d_reason :: str

datatype decision_error =
    Captcha_targets_principal
  | Requires_principal action
  | Principal_not_normalized action
  | Unknown_action action

definition validate :: "decision \<Rightarrow> decision_error option" where
  "validate d =
     (case d_action d of
        Captcha \<Rightarrow> if trim_space (d_principal d) \<noteq> [] then Some Captcha_targets_principal else None
      | Other_action a \<Rightarrow> Some (Unknown_action (Other_action a))
      | a \<Rightarrow>
          if trim_space (d_principal d) = [] then Some (Requires_principal a)
          else if d_principal d \<noteq> trim_space (d_principal d) then Some (Principal_not_normalized a)
          else None)"

text \<open>\<open>within\<close> of \<open>join_monitor.go\<close>, used by both monitors\<close>

definition in_window :: "time \<Rightarrow> time \<Rightarrow> duration \<Rightarrow> bool" where
  "in_window previous now window \<longleftrightarrow>
     0 \<le> time_sub now previous \<and> time_sub now previous \<le> window"

lemma in_window_iff:
  "w < max_duration \<Longrightarrow> in_window previous now w \<longleftrightarrow> previous \<le> now \<and> now \<le> previous + w"
  by (auto simp: in_window_def time_sub_def)

section \<open>What the two monitors share\<close>

text \<open>A log of timed records that is cut at the front when its records leave a window.\<close>

locale sliding_window =
  fixes stamp :: "'e \<Rightarrow> time"
    and prune :: "'e list \<Rightarrow> time \<Rightarrow> duration \<Rightarrow> 'e list"
  assumes prune_eq: "prune v now w = dropWhile (\<lambda>x. stamp x < now - w) v"
begin

definition chron :: "time \<Rightarrow> 'e list \<Rightarrow> bool" where
  "chron now v \<longleftrightarrow> sorted (map stamp v) \<and> (\<forall>x \<in> set v. stamp x \<le> now)"

lemma chron_Nil: "chron now []"
  by (simp add: chron_def)

lemma chron_later: "chron now v \<Longrightarrow> now \<le> now' \<Longrightarrow> chron now' v"
  by (force simp: chron_def)

lemma chron_snoc: "chron now v \<Longrightarrow> stamp e = now \<Longrightarrow> chron now (v @ [e])"
  by (auto simp: chron_def sorted_append)

lemma prune_filter: "chron now v \<Longrightarrow> prune v now' w = filter (\<lambda>x. now' - w \<le> stamp x) v"
  by (simp add: prune_eq chron_def sorted_dropWhile_filter not_less)

lemma chron_prune: "chron now v \<Longrightarrow> chron now (prune v now' w)"
  by (auto simp: prune_filter) (auto simp: chron_def sorted_filter)

lemma prune_recent: "chron now v \<Longrightarrow> x \<in> set (prune v now' w) \<Longrightarrow> now' - w \<le> stamp x"
  by (simp add: prune_filter)

lemma prune_id: "\<forall>x \<in> set v. now - w \<le> stamp x \<Longrightarrow> prune v now w = v"
  by (simp add: prune_eq dropWhile_eq_self_iff) (metis hd_in_set not_less)

lemma set_prune: "set (prune v now w) \<subseteq> set v"
  by (auto simp: prune_eq dest: set_dropWhileD)

end

text \<open>
  A table of the last time each action was granted: an action is refused while its last grant is
  within the cooldown, and a grant is recorded.
\<close>

locale cooldown =
  fixes window :: duration
    and actions :: "'s \<Rightarrow> 'k \<rightharpoonup> time"
    and allow :: "'s \<Rightarrow> 'k \<Rightarrow> time \<Rightarrow> bool \<times> 's"
  assumes allow_fst: "fst (allow s k now) \<longleftrightarrow> \<not> (\<exists>t. actions s k = Some t \<and> in_window t now window)"
    and allow_actions: "actions (snd (allow s k now)) =
      (if fst (allow s k now) then (actions s)(k \<mapsto> now) else actions s)"
begin

text \<open>After a request the last grant is known: this request, or an earlier one within the window.\<close>

lemma allow_recorded:
  assumes "0 \<le> window"
  shows "\<exists>t. actions (snd (allow s k now)) k = Some t \<and> in_window t now window"
  using assms allow_fst [of s k now] allow_actions [of s k now]
  by (auto simp: in_window_def time_sub_def)

lemma allow_twice:
  assumes "0 \<le> window" and "snd (allow s k now) = s'"
  shows "\<not> fst (allow s' k now)"
  using allow_recorded [OF assms(1), of s k now] assms(2) by (auto simp: allow_fst)

lemma allow_spaced:
  assumes "window < max_duration" and "actions s k = Some t" and "t \<le> now" and "fst (allow s k now)"
  shows "t + window < now"
  using assms by (auto simp: allow_fst in_window_iff)

lemma allow_other: "k' \<noteq> k \<Longrightarrow> actions (snd (allow s k now)) k' = actions s k'"
  by (simp add: allow_actions)

end

end
