(* ===== verification/JoinMonitor.thy ===== *)
theory JoinMonitor
  imports Moderation
begin

text \<open>
  \<open>internal/agent/moderation/join_monitor.go\<close>: the detector of join bursts, of one hash joining
  under several nicknames and of clusters of similar names.
\<close>

section \<open>State and operations\<close>

record join_config =
  jc_enabled :: bool
  jc_burst_count :: int
  jc_burst_window :: duration
  jc_hash_count :: int
  jc_hash_window :: duration
  jc_name_count :: int
  jc_name_window :: duration
  jc_post_kick :: duration
  jc_cooldown :: duration

record timed_join =
  tj_at :: time
  tj_nick :: str

type_synonym action_key = "action \<times> str"

record join_monitor =
  jm_room :: "timed_join list"
  jm_hashes :: "str \<rightharpoonup> timed_join list"
  jm_names :: "str \<rightharpoonup> timed_join list"
  jm_signals :: "str \<rightharpoonup> time"
  jm_actions :: "action_key \<rightharpoonup> time"

definition new_join_monitor :: join_monitor where
  "new_join_monitor =
     \<lparr>jm_room = [], jm_hashes = Map.empty, jm_names = Map.empty,
      jm_signals = Map.empty, jm_actions = Map.empty\<rparr>"

definition prune_joins :: "timed_join list \<Rightarrow> time \<Rightarrow> duration \<Rightarrow> timed_join list" where
  "prune_joins v now window = dropWhile (\<lambda>x. tj_at x < now - window) v"

definition at_least :: "timed_join list \<Rightarrow> int \<Rightarrow> bool" where
  "at_least v n \<longleftrightarrow> 0 < n \<and> n \<le> int (length v)"

definition distinct_nicks :: "timed_join list \<Rightarrow> int" where
  "distinct_nicks v = int (card (set (map (\<lambda>x. to_lower (trim_space (tj_nick x))) v)))"

definition normalize_cluster :: "str \<Rightarrow> str" where
  "normalize_cluster n =
     trim_right is_digit_ascii
       (filter (\<lambda>r. is_letter r \<or> is_number r) (to_lower (trim_space n)))"

text \<open>A bucket of a map is pruned; a bucket left empty is deleted.\<close>

definition prune_buckets :: "(str \<rightharpoonup> timed_join list) \<Rightarrow> time \<Rightarrow> duration \<Rightarrow> (str \<rightharpoonup> timed_join list)" where
  "prune_buckets m now window = (\<lambda>k. case m k of
       None \<Rightarrow> None
     | Some v \<Rightarrow> (let v' = prune_joins v now window in if v' = [] then None else Some v'))"

definition keep_within :: "('k \<rightharpoonup> time) \<Rightarrow> time \<Rightarrow> duration \<Rightarrow> ('k \<rightharpoonup> time)" where
  "keep_within m now window = (\<lambda>k. case m k of
       None \<Rightarrow> None
     | Some t \<Rightarrow> if in_window t now window then Some t else None)"

definition prune_expired :: "join_config \<Rightarrow> time \<Rightarrow> join_monitor \<Rightarrow> join_monitor" where
  "prune_expired c now m =
     \<lparr>jm_room = prune_joins (jm_room m) now (jc_burst_window c),
      jm_hashes = prune_buckets (jm_hashes m) now (jc_hash_window c),
      jm_names = prune_buckets (jm_names m) now (jc_name_window c),
      jm_signals = keep_within (jm_signals m) now (jc_post_kick c),
      jm_actions = keep_within (jm_actions m) now (jc_cooldown c)\<rparr>"

definition allow_join :: "join_config \<Rightarrow> join_monitor \<Rightarrow> action_key \<Rightarrow> time \<Rightarrow> bool \<times> join_monitor" where
  "allow_join c m k now =
     (case jm_actions m k of
        Some previous \<Rightarrow>
          if in_window previous now (jc_cooldown c) then (False, m)
          else (True, m\<lparr>jm_actions := (jm_actions m)(k \<mapsto> now)\<rparr>)
      | None \<Rightarrow> (True, m\<lparr>jm_actions := (jm_actions m)(k \<mapsto> now)\<rparr>))"

definition add_captcha ::
  "join_config \<Rightarrow> join_monitor \<Rightarrow> decision list \<Rightarrow> str \<Rightarrow> time \<Rightarrow> decision list \<times> join_monitor" where
  "add_captcha c m out reason now =
     (let (ok, m') = allow_join c m (Captcha, []) now
      in if ok then (out @ [\<lparr>d_action = Captcha, d_principal = [], d_reason = reason\<rparr>], m') else (out, m'))"

text \<open>The three detectors of \<open>OnJoin\<close>, in its order.\<close>

definition burst_stage ::
  "join_config \<Rightarrow> timed_join \<Rightarrow> time \<Rightarrow> decision list \<times> join_monitor \<Rightarrow> decision list \<times> join_monitor" where
  "burst_stage c j now = (\<lambda>(out, m).
     let m1 = m\<lparr>jm_room := jm_room m @ [j]\<rparr>
     in if at_least (jm_room m1) (jc_burst_count c)
        then (let (out', m2) = add_captcha c m1 out (lit ''join burst'') now
              in (out', m2\<lparr>jm_room := []\<rparr>))
        else (out, m1))"

definition hash_signal ::
  "join_config \<Rightarrow> user \<Rightarrow> str \<Rightarrow> time \<Rightarrow> decision list \<times> join_monitor \<Rightarrow> decision list \<times> join_monitor" where
  "hash_signal c u hash now = (\<lambda>(out, m).
     let (out1, m1) = add_captcha c m out (lit ''same-hash nick variants'') now;
         previous = jm_signals m1 hash;
         m2 = m1\<lparr>jm_signals := (jm_signals m1)(hash \<mapsto> now)\<rparr>
     in case previous of
          None \<Rightarrow> (out1, m2)
        | Some p \<Rightarrow>
            if in_window p now (jc_post_kick c)
            then (let (ok, m3) = allow_join c m2 (ShadowBan, u_name u) now
                  in if ok
                     then (out1 @ [\<lparr>d_action = ShadowBan, d_principal = trim_space (u_name u),
                                    d_reason = lit ''repeated same-hash raid''\<rparr>], m3)
                     else (out1, m3))
            else (out1, m2))"

definition hash_stage ::
  "join_config \<Rightarrow> user \<Rightarrow> timed_join \<Rightarrow> time \<Rightarrow> decision list \<times> join_monitor \<Rightarrow> decision list \<times> join_monitor" where
  "hash_stage c u j now = (\<lambda>(out, m).
     let hash = to_lower (trim_space (u_hash u))
     in if hash = [] then (out, m)
        else (let old = (case jm_hashes m hash of None \<Rightarrow> [] | Some v \<Rightarrow> v);
                  v = prune_joins old now (jc_hash_window c) @ [j]
              in if jc_hash_count c \<le> distinct_nicks v
                 then (let (out', m') = hash_signal c u hash now (out, m)
                       in (out', m'\<lparr>jm_hashes := (jm_hashes m')(hash \<mapsto> [])\<rparr>))
                 else (out, m\<lparr>jm_hashes := (jm_hashes m)(hash \<mapsto> v)\<rparr>)))"

definition name_stage ::
  "join_config \<Rightarrow> user \<Rightarrow> timed_join \<Rightarrow> time \<Rightarrow> decision list \<times> join_monitor \<Rightarrow> decision list \<times> join_monitor" where
  "name_stage c u j now = (\<lambda>(out, m).
     let cluster = normalize_cluster (u_name u)
     in if utf8_len cluster < 3 then (out, m)
        else (let old = (case jm_names m cluster of None \<Rightarrow> [] | Some v \<Rightarrow> v);
                  v = prune_joins old now (jc_name_window c) @ [j]
              in if jc_name_count c \<le> distinct_nicks v
                 then (let (out', m') = add_captcha c m out (lit ''suspicious name cluster'') now
                       in (out', m'\<lparr>jm_names := (jm_names m')(cluster \<mapsto> [])\<rparr>))
                 else (out, m\<lparr>jm_names := (jm_names m)(cluster \<mapsto> v)\<rparr>)))"

text \<open>\<open>OnJoin\<close>: \<open>None\<close> is the nil user.\<close>

definition on_join ::
  "join_config \<Rightarrow> (user \<Rightarrow> bool) \<Rightarrow> time \<Rightarrow> user option \<Rightarrow> join_monitor \<Rightarrow> decision list \<times> join_monitor" where
  "on_join c is_protected now who m =
     (case who of
        None \<Rightarrow> ([], m)
      | Some u \<Rightarrow>
          if \<not> jc_enabled c \<or> is_protected u then ([], m)
          else (let j = \<lparr>tj_at = now, tj_nick = u_name u\<rparr>
                in name_stage c u j now
                     (hash_stage c u j now
                       (burst_stage c j now ([], prune_expired c now m)))))"

text \<open>A history of joins: the decisions of each with the time they were made.\<close>

fun join_run ::
  "join_config \<Rightarrow> (user \<Rightarrow> bool) \<Rightarrow> (time \<times> user) list \<Rightarrow> join_monitor \<Rightarrow>
     (time \<times> decision) list \<times> join_monitor" where
  "join_run c p [] m = ([], m)"
| "join_run c p ((now, u) # es) m =
     (let (ds, m') = on_join c p now (Some u) m;
          (rest, m'') = join_run c p es m'
      in (map (Pair now) ds @ rest, m''))"

section \<open>The shared laws hold of the join monitor\<close>

interpretation jlog: sliding_window tj_at prune_joins
  by unfold_locales (simp add: prune_joins_def)

interpretation jcool: cooldown "jc_cooldown c" jm_actions "allow_join c" for c
  by unfold_locales (auto simp: allow_join_def split: option.splits)

text \<open>The action table is all that \<open>allow\<close> and \<open>addCaptcha\<close> write.\<close>

definition same_logs :: "join_monitor \<Rightarrow> join_monitor \<Rightarrow> bool" where
  "same_logs m m' \<longleftrightarrow> jm_room m' = jm_room m \<and> jm_hashes m' = jm_hashes m
     \<and> jm_names m' = jm_names m \<and> jm_signals m' = jm_signals m"

lemma allow_join_frame: "allow_join c m k now = (ok, m') \<Longrightarrow> same_logs m m'"
  by (auto simp: same_logs_def allow_join_def split: option.splits if_splits)

lemma add_captcha_frame: "add_captcha c m out r now = (out', m') \<Longrightarrow> same_logs m m'"
  by (auto simp: add_captcha_def dest: allow_join_frame split: prod.splits if_splits)

lemmas same_logsD = allow_join_frame [unfolded same_logs_def] add_captcha_frame [unfolded same_logs_def]

section \<open>One captcha per cooldown\<close>

abbreviation captcha_key :: action_key where "captcha_key \<equiv> (Captcha, [])"

definition is_captcha :: "decision \<Rightarrow> bool" where
  "is_captcha d \<longleftrightarrow> d_action d = Captcha"

text \<open>
  The stages touch the captcha entry of the action table, and decide captchas, through
  \<open>add_captcha\<close> only: a relation between decisions and state that \<open>add_captcha\<close> keeps and that
  depends on nothing else is kept by a join.
\<close>

definition captcha_frame :: "(decision list \<times> join_monitor \<Rightarrow> bool) \<Rightarrow> bool" where
  "captcha_frame P \<longleftrightarrow> (\<forall>out m out' m'. P (out, m) \<longrightarrow>
     jm_actions m' captcha_key = jm_actions m captcha_key \<longrightarrow>
     filter is_captcha out' = filter is_captcha out \<longrightarrow> P (out', m'))"

definition captcha_closed :: "join_config \<Rightarrow> time \<Rightarrow> (decision list \<times> join_monitor \<Rightarrow> bool) \<Rightarrow> bool" where
  "captcha_closed c now P \<longleftrightarrow> captcha_frame P \<and> (\<forall>out m r. P (out, m) \<longrightarrow> P (add_captcha c m out r now))"

lemma closed_frame:
  "captcha_closed c now P \<Longrightarrow> P (out, m) \<Longrightarrow> jm_actions m' captcha_key = jm_actions m captcha_key \<Longrightarrow>
     filter is_captcha out' = filter is_captcha out \<Longrightarrow> P (out', m')"
  unfolding captcha_closed_def captcha_frame_def by blast

lemma closed_captcha: "captcha_closed c now P \<Longrightarrow> P (out, m) \<Longrightarrow> P (add_captcha c m out r now)"
  by (simp add: captcha_closed_def)

lemma closed_burst:
  assumes cl: "captcha_closed c now P" and P: "P x"
  shows "P (burst_stage c j now x)"
proof (cases x)
  case (Pair out m)
  have 0: "P (out, m\<lparr>jm_room := jm_room m @ [j]\<rparr>)"
    using P Pair by (auto intro: closed_frame [OF cl])
  from closed_captcha [OF cl this, of "lit ''join burst''"] 0 show ?thesis
    unfolding Pair burst_stage_def Let_def
    by (auto split: prod.splits intro: closed_frame [OF cl] simp del: lit_simps)
qed

lemma closed_hash_signal:
  assumes cl: "captcha_closed c now P" and P: "P x"
  shows "P (hash_signal c u h now x)"
proof (cases x)
  case (Pair out m)
  obtain out1 m1 where 1: "add_captcha c m out (lit ''same-hash nick variants'') now = (out1, m1)"
    by fastforce
  have 0: "P (out1, m1)"
    using closed_captcha [OF cl] P Pair 1 by metis
  let ?m2 = "m1\<lparr>jm_signals := (jm_signals m1)(h \<mapsto> now)\<rparr>"
  obtain ok m3 where 3: "allow_join c ?m2 (ShadowBan, u_name u) now = (ok, m3)" by fastforce
  have "jm_actions m3 captcha_key = jm_actions m1 captcha_key"
    using jcool.allow_other [of captcha_key "(ShadowBan, u_name u)" c ?m2 now] 3 by simp
  with 0 1 3 show ?thesis
    unfolding Pair hash_signal_def
    by (auto simp: Let_def is_captcha_def intro: closed_frame [OF cl] split: option.splits
        simp del: lit_simps)
qed

lemma closed_hash:
  assumes cl: "captcha_closed c now P" and P: "P x"
  shows "P (hash_stage c u j now x)"
proof (cases x)
  case (Pair out m)
  obtain out' m' where "hash_signal c u (to_lower (trim_space (u_hash u))) now (out, m) = (out', m')"
    by fastforce
  with P Pair closed_hash_signal [OF cl P, of u "to_lower (trim_space (u_hash u))"] show ?thesis
    unfolding hash_stage_def Let_def by (auto intro: closed_frame [OF cl])
qed

lemma closed_name:
  assumes cl: "captcha_closed c now P" and P: "P x"
  shows "P (name_stage c u j now x)"
proof (cases x)
  case (Pair out m)
  obtain out' m' where 1: "add_captcha c m out (lit ''suspicious name cluster'') now = (out', m')"
    by fastforce
  then have "P (out', m')"
    using closed_captcha [OF cl] P Pair by metis
  with P Pair 1 show ?thesis
    unfolding name_stage_def Let_def by (auto intro: closed_frame [OF cl] simp del: lit_simps)
qed

lemmas closed_stages = closed_burst closed_hash closed_name

lemma closed_on_join:
  assumes "captcha_closed c now P" and "P ([], prune_expired c now m)" and "P ([], m)"
  shows "P (on_join c p now who m)"
  using assms by (auto simp: on_join_def Let_def intro: closed_stages split: option.splits)

text \<open>
  What holds between the stages of one join at \<open>now\<close> when the last captcha was granted at \<open>t\<close>:
  none has been decided and \<open>t\<close> is still recorded or has expired, or exactly one has, it is
  recorded, and \<open>t\<close> had expired.
\<close>

definition captcha_inv :: "join_config \<Rightarrow> time \<Rightarrow> time \<Rightarrow> decision list \<times> join_monitor \<Rightarrow> bool" where
  "captcha_inv c now t = (\<lambda>(out, m).
     (filter is_captcha out = [] \<and> (jm_actions m captcha_key = Some t \<or> t + jc_cooldown c < now))
     \<or> (length (filter is_captcha out) = 1 \<and> jm_actions m captcha_key = Some now
        \<and> t + jc_cooldown c < now))"

lemma captcha_inv_closed:
  assumes "0 \<le> jc_cooldown c" "jc_cooldown c < max_duration" "t \<le> now"
  shows "captcha_closed c now (captcha_inv c now t)"
  using assms
  by (auto simp: captcha_closed_def captcha_frame_def captcha_inv_def add_captcha_def allow_join_def
      is_captcha_def in_window_iff split: option.splits if_splits)

lemma inv_on_join:
  assumes ok: "0 \<le> jc_cooldown c" "jc_cooldown c < max_duration" "t \<le> now"
    and last: "jm_actions m captcha_key = Some t \<or> t + jc_cooldown c < now"
  shows "captcha_inv c now t (on_join c p now who m)"
proof (rule closed_on_join [OF captcha_inv_closed [OF ok]])
  show "captcha_inv c now t ([], prune_expired c now m)"
    using ok last
    by (auto simp: captcha_inv_def prune_expired_def keep_within_def in_window_iff split: option.splits)
  show "captcha_inv c now t ([], m)"
    using last by (simp add: captcha_inv_def)
qed

lemma captcha_inv_decided:
  assumes "captcha_inv c now t (ds, m')" and "d \<in> set ds" and "is_captcha d"
  shows "t + jc_cooldown c < now" "jm_actions m' captcha_key = Some now"
    "length (filter is_captcha ds) = 1"
  using assms by (auto simp: captcha_inv_def filter_empty_conv)

lemma join_run_spacing:
  assumes "0 \<le> jc_cooldown c" "jc_cooldown c < max_duration"
    and "sorted (map fst es)" and "\<forall>e \<in> set es. t \<le> fst e"
    and "jm_actions m captcha_key = Some t \<or> (\<forall>e \<in> set es. t + jc_cooldown c < fst e)"
  shows "sorted_wrt (\<lambda>a b. fst a + jc_cooldown c < fst b)
           (filter (\<lambda>e. is_captcha (snd e)) (fst (join_run c p es m)))
         \<and> (\<forall>e \<in> set (filter (\<lambda>e. is_captcha (snd e)) (fst (join_run c p es m))). t + jc_cooldown c < fst e)"
  using assms(3-5)
proof (induction es arbitrary: m t)
  case (Cons e es)
  obtain now u where e: "e = (now, u)" by fastforce
  obtain ds m' where step: "on_join c p now (Some u) m = (ds, m')" by fastforce
  let ?rest = "filter (\<lambda>e. is_captcha (snd e)) (fst (join_run c p es m'))"
  have ok: "t \<le> now"
    using Cons.prems e by simp
  have inv: "captcha_inv c now t (ds, m')"
    using inv_on_join [OF assms(1,2) ok, of m p "Some u"] Cons.prems e step by auto
  have late: "\<forall>x \<in> set es. now \<le> fst x" and sorted: "sorted (map fst es)"
    using Cons.prems e by auto
  have run: "filter (\<lambda>e. is_captcha (snd e)) (fst (join_run c p (e # es) m))
      = map (Pair now) (filter is_captcha ds) @ ?rest"
    by (simp add: e step filter_map o_def split: prod.splits)
  show ?case
  proof (cases "filter is_captcha ds = []")
    case True
    with inv have "jm_actions m' captcha_key = Some t \<or> t + jc_cooldown c < now"
      by (simp add: captcha_inv_def)
    then have "jm_actions m' captcha_key = Some t \<or> (\<forall>x \<in> set es. t + jc_cooldown c < fst x)"
      using late by fastforce
    moreover have "\<forall>x \<in> set es. t \<le> fst x" using Cons.prems by simp
    ultimately show ?thesis
      using Cons.IH [OF sorted, of t m'] unfolding run True by simp
  next
    case False
    then obtain d where d: "filter is_captcha ds = [d]" and "t + jc_cooldown c < now"
      and m': "jm_actions m' captcha_key = Some now"
      using inv by (auto simp: captcha_inv_def length_Suc_conv)
    moreover have "sorted_wrt (\<lambda>a b. fst a + jc_cooldown c < fst b) ?rest
        \<and> (\<forall>x \<in> set ?rest. now + jc_cooldown c < fst x)"
      using Cons.IH [OF sorted late] m' by blast
    ultimately show ?thesis
      unfolding run using assms(1) by force
  qed
qed simp

text \<open>C1. Two captcha decisions of the join monitor are always more than the action cooldown apart:
  in any history of joins with a clock that does not run backwards, from any state of the monitor
  and whichever users are protected, the captcha decisions are pairwise spaced.\<close>

theorem join_captcha_spacing:
  assumes "0 \<le> jc_cooldown c" and "jc_cooldown c < max_duration" and "sorted (map fst es)"
  shows "sorted_wrt (\<lambda>a b. fst a + jc_cooldown c < fst b)
           (filter (\<lambda>e. is_captcha (snd e)) (fst (join_run c p es m)))"
proof (cases es)
  case (Cons e es')
  let ?t = "fst e - jc_cooldown c - 1"
  have "\<forall>x \<in> set es. ?t + jc_cooldown c < fst x" and "\<forall>x \<in> set es. ?t \<le> fst x"
    using assms Cons by auto
  then show ?thesis
    using join_run_spacing [OF assms, of ?t m p] by blast
qed simp

section \<open>Every decision can be executed\<close>

definition join_decision_ok :: "user \<Rightarrow> decision \<Rightarrow> bool" where
  "join_decision_ok u d \<longleftrightarrow>
     (d_action d = Captcha \<and> d_principal d = [])
     \<or> (d_action d = ShadowBan \<and> d_principal d = trim_space (u_name u))"

lemma add_captcha_ok:
  "list_all (join_decision_ok u) out \<Longrightarrow> list_all (join_decision_ok u) (fst (add_captcha c m out r now))"
  by (auto simp: add_captcha_def join_decision_ok_def split: prod.splits)

lemma hash_signal_ok:
  assumes "list_all (join_decision_ok u) (fst x)"
  shows "list_all (join_decision_ok u) (fst (hash_signal c u h now x))"
proof (cases x)
  case (Pair out m)
  have "list_all (join_decision_ok u) (fst (add_captcha c m out (lit ''same-hash nick variants'') now))"
    using assms Pair by (simp add: add_captcha_ok del: lit_simps)
  then show ?thesis
    unfolding Pair hash_signal_def
    by (auto simp: Let_def join_decision_ok_def split: prod.splits option.splits simp del: lit_simps)
qed

lemma on_join_decisions:
  "list_all (join_decision_ok u) (fst (on_join c p now (Some u) m))"
proof -
  have burst: "list_all (join_decision_ok u) (fst (burst_stage c j now ([], m)))" for j m
    using add_captcha_ok [of u "[]" c "m\<lparr>jm_room := jm_room m @ [j]\<rparr>" "lit ''join burst''" now]
    by (auto simp: burst_stage_def Let_def split: prod.splits simp del: lit_simps)
  have hash: "list_all (join_decision_ok u) (fst x) \<Longrightarrow>
      list_all (join_decision_ok u) (fst (hash_stage c u j now x))" for j x
    using hash_signal_ok [of u x c _ now]
    by (cases x) (auto simp: hash_stage_def Let_def split: prod.splits, metis fst_conv)
  have name: "list_all (join_decision_ok u) (fst x) \<Longrightarrow>
      list_all (join_decision_ok u) (fst (name_stage c u j now x))" for j x
    using add_captcha_ok [of u "fst x" c "snd x" "lit ''suspicious name cluster''" now]
    by (cases x) (auto simp: name_stage_def Let_def split: prod.splits simp del: lit_simps)
  show ?thesis by (auto simp: on_join_def Let_def intro: burst hash name)
qed

section \<open>A burst of joins does not go unnoticed\<close>

text \<open>Without a captcha decision, a join can only forget the last captcha.\<close>

lemma silent_join_actions:
  assumes "filter is_captcha (fst (on_join c p now who m)) = []"
  shows "jm_actions (snd (on_join c p now who m)) captcha_key \<in> {None, jm_actions m captcha_key}"
proof -
  let ?P = "\<lambda>(out, m'). filter is_captcha out = [] \<longrightarrow> jm_actions m' captcha_key \<in> {None, jm_actions m captcha_key}"
  have "captcha_closed c now ?P"
    by (auto simp: captcha_closed_def captcha_frame_def add_captcha_def allow_join_def is_captcha_def
        split: option.splits if_splits)
  then have "?P (on_join c p now who m)"
    by (rule closed_on_join) (auto simp: prune_expired_def keep_within_def split: option.splits)
  then show ?thesis using assms by (auto split: prod.splits)
qed

lemma hash_signal_room: "hash_signal c u h now (out, m) = (out', m') \<Longrightarrow> jm_room m' = jm_room m"
  by (auto simp: hash_signal_def Let_def dest!: same_logsD split: prod.splits option.splits if_splits
      simp del: lit_simps)

lemma hash_stage_room: "hash_stage c u j now (out, m) = (out', m') \<Longrightarrow> jm_room m' = jm_room m"
  by (auto simp: hash_stage_def Let_def dest!: hash_signal_room split: prod.splits if_splits)

lemma name_stage_room: "name_stage c u j now (out, m) = (out', m') \<Longrightarrow> jm_room m' = jm_room m"
  by (auto simp: name_stage_def Let_def dest!: same_logsD split: prod.splits if_splits
      simp del: lit_simps)

lemma captcha_stays: "captcha_closed c now (\<lambda>(out, m). filter is_captcha out \<noteq> [])"
  by (auto simp: captcha_closed_def captcha_frame_def add_captcha_def split: prod.splits)

lemma silent_join_room:
  assumes "jc_enabled c" "\<not> p u" and step: "on_join c p now (Some u) m = (ds, m')"
    and silent: "filter is_captcha ds = []"
  shows "(\<exists>v. v = prune_joins (jm_room m) now (jc_burst_window c) @ [\<lparr>tj_at = now, tj_nick = u_name u\<rparr>]
           \<and> \<not> at_least v (jc_burst_count c) \<and> jm_room m' = v)
         \<or> (\<exists>t. jm_actions m captcha_key = Some t \<and> in_window t now (jc_cooldown c))"
proof -
  let ?j = "\<lparr>tj_at = now, tj_nick = u_name u\<rparr>" and ?m0 = "prune_expired c now m"
  let ?m1 = "?m0\<lparr>jm_room := jm_room ?m0 @ [?j]\<rparr>"
  obtain o1 b1 where burst: "burst_stage c ?j now ([], ?m0) = (o1, b1)" by fastforce
  obtain o2 b2 where hash: "hash_stage c u ?j now (o1, b1) = (o2, b2)" by fastforce
  have name: "name_stage c u ?j now (o2, b2) = (ds, m')"
    using assms(1,2) step burst hash by (simp add: on_join_def)
  have o1: "filter is_captcha o1 = []"
    using closed_hash [OF captcha_stays, of "(o1, b1)" c u ?j now]
      closed_name [OF captcha_stays, of "(o2, b2)" c u ?j now] hash name silent by auto
  have room: "jm_room m' = jm_room b1"
    using hash name by (simp add: hash_stage_room name_stage_room)
  show ?thesis
  proof (cases "at_least (jm_room ?m1) (jc_burst_count c)")
    case True
    then have "\<exists>t. jm_actions ?m0 captcha_key = Some t \<and> in_window t now (jc_cooldown c)"
      using burst o1
      by (auto simp: burst_stage_def Let_def add_captcha_def allow_join_def is_captcha_def
          split: prod.splits option.splits if_splits simp del: lit_simps)
    then show ?thesis
      by (auto simp: prune_expired_def keep_within_def split: option.splits if_splits)
  next
    case False
    then show ?thesis using burst room
      by (auto simp: burst_stage_def Let_def prune_expired_def)
  qed
qed

lemma prune_keeps_tail:
  "\<forall>x \<in> set suf. now - w \<le> tj_at x \<Longrightarrow> \<exists>pre'. prune_joins (pre @ suf) now w = pre' @ suf"
  by (induction pre) (auto simp: prune_joins_def dropWhile_eq_self_iff hd_in_set not_less)

lemma join_run_burst:
  assumes c: "jc_enabled c" and "k < nat (jc_burst_count c)" "nat (jc_burst_count c) \<le> k + length es"
    and "\<forall>e \<in> set es. \<not> p (snd e) \<and> fst e - jc_burst_window c \<le> lo \<and> lo \<le> fst e"
    and "jm_room m = pre @ suf" "length suf = k" "\<forall>x \<in> set suf. lo \<le> tj_at x"
  shows "(\<exists>e \<in> set (fst (join_run c p es m)). is_captcha (snd e))
       \<or> (\<exists>t. jm_actions m captcha_key = Some t \<and> (\<exists>e \<in> set es. in_window t (fst e) (jc_cooldown c)))"
  using assms(2-)
proof (induction es arbitrary: k m pre suf)
  case (Cons e es)
  obtain now u where e: "e = (now, u)" by fastforce
  obtain ds m' where step: "on_join c p now (Some u) m = (ds, m')" by fastforce
  let ?j = "\<lparr>tj_at = now, tj_nick = u_name u\<rparr>"
  have run: "set (fst (join_run c p (e # es) m)) = Pair now ` set ds \<union> set (fst (join_run c p es m'))"
    by (simp add: e step split: prod.splits)
  show ?case
  proof (cases "filter is_captcha ds = []")
    case False
    then show ?thesis unfolding run by (force simp: filter_empty_conv)
  next
    case True
    have late: "\<forall>x \<in> set suf. now - jc_burst_window c \<le> tj_at x"
      using Cons.prems(3,6) e by force
    obtain pre' where prune: "prune_joins (jm_room m) now (jc_burst_window c) = pre' @ suf"
      using prune_keeps_tail [OF late, of pre] Cons.prems(4) by auto
    from silent_join_room [OF c _ step True] Cons.prems(3) e prune
    consider (grew) "\<not> at_least (pre' @ suf @ [?j]) (jc_burst_count c)" "jm_room m' = pre' @ (suf @ [?j])"
      | (cooling) "\<exists>t. jm_actions m captcha_key = Some t \<and> in_window t now (jc_cooldown c)"
      by auto
    then show ?thesis
    proof cases
      case grew
      have "Suc k < nat (jc_burst_count c)"
        using grew(1) Cons.prems(1,5) by (auto simp: at_least_def)
      moreover have "nat (jc_burst_count c) \<le> Suc k + length es"
        using Cons.prems(2) by simp
      moreover have "\<forall>x \<in> set es. \<not> p (snd x) \<and> fst x - jc_burst_window c \<le> lo \<and> lo \<le> fst x"
        and "length (suf @ [?j]) = Suc k" and "\<forall>x \<in> set (suf @ [?j]). lo \<le> tj_at x"
        using Cons.prems(3,5,6) e by auto
      ultimately have "(\<exists>e \<in> set (fst (join_run c p es m')). is_captcha (snd e))
         \<or> (\<exists>t. jm_actions m' captcha_key = Some t \<and> (\<exists>e \<in> set es. in_window t (fst e) (jc_cooldown c)))"
        using Cons.IH grew(2) by blast
      then show ?thesis
        using silent_join_actions [of c p now "Some u" m] True step unfolding run by auto
    next
      case cooling
      then show ?thesis by (auto simp: e)
    qed
  qed
qed simp

text \<open>C2. A burst of joins is answered: when as many unprotected users as the configured burst count
  join within the burst window, a captcha is decided during the burst, unless one decided before
  it is still cooling down at one of its joins.\<close>

theorem join_burst_detected:
  assumes "jc_enabled c" and "0 < jc_burst_count c" and "jc_burst_count c \<le> int (length es)"
    and "\<forall>e \<in> set es. \<not> p (snd e) \<and> lo \<le> fst e \<and> fst e \<le> lo + jc_burst_window c"
  shows "(\<exists>e \<in> set (fst (join_run c p es m)). is_captcha (snd e))
       \<or> (\<exists>t. jm_actions m captcha_key = Some t \<and> (\<exists>e \<in> set es. in_window t (fst e) (jc_cooldown c)))"
  using assms by (intro join_run_burst [where k = 0 and lo = lo and pre = "jm_room m" and suf = "[]"]) auto

section \<open>The monitor forgets what has expired\<close>

definition log_within :: "time \<Rightarrow> duration \<Rightarrow> timed_join list \<Rightarrow> bool" where
  "log_within now w v \<longleftrightarrow> jlog.chron now v \<and> (\<forall>x \<in> set v. now - w \<le> tj_at x)"

definition chron_monitor :: "time \<Rightarrow> join_monitor \<Rightarrow> bool" where
  "chron_monitor now m \<longleftrightarrow> jlog.chron now (jm_room m)
     \<and> (\<forall>v \<in> ran (jm_hashes m) \<union> ran (jm_names m). jlog.chron now v)"

text \<open>
  Every record is within its window, and only the buckets of the join's own hash and name cluster
  may be empty.
\<close>

definition fresh_monitor :: "join_config \<Rightarrow> time \<Rightarrow> str \<Rightarrow> str \<Rightarrow> join_monitor \<Rightarrow> bool" where
  "fresh_monitor c now hash cluster m \<longleftrightarrow>
     log_within now (jc_burst_window c) (jm_room m)
     \<and> (\<forall>k v. jm_hashes m k = Some v \<longrightarrow> log_within now (jc_hash_window c) v \<and> (v = [] \<longrightarrow> k = hash))
     \<and> (\<forall>k v. jm_names m k = Some v \<longrightarrow> log_within now (jc_name_window c) v \<and> (v = [] \<longrightarrow> k = cluster))
     \<and> (\<forall>k t. jm_signals m k = Some t \<longrightarrow> in_window t now (jc_post_kick c))
     \<and> (\<forall>k t. jm_actions m k = Some t \<longrightarrow> in_window t now (jc_cooldown c))"

definition windows_ok :: "join_config \<Rightarrow> bool" where
  "windows_ok c \<longleftrightarrow> 0 \<le> jc_burst_window c \<and> 0 \<le> jc_hash_window c \<and> 0 \<le> jc_name_window c
     \<and> 0 \<le> jc_post_kick c \<and> 0 \<le> jc_cooldown c"

lemma log_within_Nil [simp]: "log_within now w []"
  by (simp add: log_within_def jlog.chron_Nil)

lemma log_within_snoc:
  "log_within now w v \<Longrightarrow> 0 \<le> w \<Longrightarrow> tj_at j = now \<Longrightarrow> log_within now w (v @ [j])"
  by (auto simp: log_within_def jlog.chron_snoc)

lemma log_within_prune: "log_within now w v \<Longrightarrow> log_within now w (prune_joins v now w)"
  by (auto simp: log_within_def jlog.prune_id)

lemma log_within_pruned: "jlog.chron t v \<Longrightarrow> t \<le> now \<Longrightarrow> log_within now w (prune_joins v now w)"
  by (auto simp: log_within_def intro: jlog.chron_prune jlog.chron_later dest: jlog.prune_recent)

lemma in_window_self: "0 \<le> w \<Longrightarrow> in_window now now w"
  by (simp add: in_window_def time_sub_def)

lemma fresh_prune:
  assumes "chron_monitor t m" "t \<le> now"
  shows "fresh_monitor c now h k (prune_expired c now m)"
  using assms
  by (auto simp: fresh_monitor_def chron_monitor_def prune_expired_def prune_buckets_def keep_within_def
      Let_def ran_def intro: log_within_pruned split: option.splits if_splits)

lemma fresh_allow:
  assumes "fresh_monitor c now h k m" "windows_ok c" and "allow_join c m a now = (ok, m')"
  shows "fresh_monitor c now h k m'"
  using assms
  by (auto simp: fresh_monitor_def windows_ok_def allow_join_def ran_def in_window_self
      split: option.splits if_splits)

lemma fresh_captcha:
  assumes "fresh_monitor c now h k m" "windows_ok c" and "add_captcha c m out r now = (out', m')"
  shows "fresh_monitor c now h k m'"
  using assms by (auto simp: add_captcha_def dest: fresh_allow split: prod.splits if_splits)

lemma fresh_burst:
  assumes "fresh_monitor c now h k m" "windows_ok c" "tj_at j = now"
    and "burst_stage c j now (out, m) = (out', m')"
  shows "fresh_monitor c now h k m'"
proof -
  let ?m1 = "m\<lparr>jm_room := jm_room m @ [j]\<rparr>"
  have 1: "fresh_monitor c now h k ?m1"
    using assms(1-3) by (auto simp: fresh_monitor_def windows_ok_def log_within_snoc)
  obtain o2 m2 where 2: "add_captcha c ?m1 out (lit ''join burst'') now = (o2, m2)" by fastforce
  have "fresh_monitor c now h k (m2\<lparr>jm_room := []\<rparr>)"
    using fresh_captcha [OF 1 assms(2) 2] by (simp add: fresh_monitor_def)
  then show ?thesis using assms(4) 1 2 by (auto simp: burst_stage_def Let_def split: if_splits)
qed

lemma fresh_hash_signal:
  assumes "fresh_monitor c now h k m" "windows_ok c" and "hash_signal c u x now (out, m) = (out', m')"
  shows "fresh_monitor c now h k m'"
proof -
  obtain o1 m1 where 1: "add_captcha c m out (lit ''same-hash nick variants'') now = (o1, m1)" by fastforce
  let ?m2 = "m1\<lparr>jm_signals := (jm_signals m1)(x \<mapsto> now)\<rparr>"
  have 2: "fresh_monitor c now h k ?m2"
    using fresh_captcha [OF assms(1,2) 1] assms(2)
    by (auto simp: fresh_monitor_def windows_ok_def ran_def in_window_self)
  obtain ok m3 where 3: "allow_join c ?m2 (ShadowBan, u_name u) now = (ok, m3)" by fastforce
  show ?thesis using assms(3) 1 2 3 fresh_allow [OF 2 assms(2) 3]
    by (auto simp: hash_signal_def Let_def split: option.splits if_splits simp del: lit_simps)
qed

lemma fresh_hash:
  assumes "fresh_monitor c now h k m" "windows_ok c" "tj_at j = now" "h = to_lower (trim_space (u_hash u))"
    and "hash_stage c u j now (out, m) = (out', m')"
  shows "fresh_monitor c now h k m'"
proof -
  have old: "log_within now (jc_hash_window c) (case jm_hashes m h of None \<Rightarrow> [] | Some v \<Rightarrow> v)"
    using assms(1) by (auto simp: fresh_monitor_def split: option.splits)
  obtain o1 m1 where 1: "hash_signal c u h now (out, m) = (o1, m1)" by fastforce
  show ?thesis
    using assms fresh_hash_signal [OF assms(1,2) 1] 1 log_within_prune [OF old]
    by (auto simp: hash_stage_def Let_def fresh_monitor_def windows_ok_def log_within_snoc
        split: if_splits)
qed

lemma fresh_name:
  assumes "fresh_monitor c now h k m" "windows_ok c" "tj_at j = now" "k = normalize_cluster (u_name u)"
    and "name_stage c u j now (out, m) = (out', m')"
  shows "fresh_monitor c now h k m'"
proof -
  have old: "log_within now (jc_name_window c) (case jm_names m k of None \<Rightarrow> [] | Some v \<Rightarrow> v)"
    using assms(1) by (auto simp: fresh_monitor_def split: option.splits)
  obtain o1 m1 where 1: "add_captcha c m out (lit ''suspicious name cluster'') now = (o1, m1)" by fastforce
  show ?thesis
    using assms fresh_captcha [OF assms(1,2) 1] 1 log_within_prune [OF old]
    by (auto simp: name_stage_def Let_def fresh_monitor_def windows_ok_def log_within_snoc
        split: if_splits simp del: lit_simps)
qed

lemma fresh_on_join:
  assumes "chron_monitor t m" "t \<le> now" "windows_ok c" "jc_enabled c" "\<not> p u"
    and "on_join c p now (Some u) m = (ds, m')"
  shows "fresh_monitor c now (to_lower (trim_space (u_hash u))) (normalize_cluster (u_name u)) m'"
proof -
  let ?j = "\<lparr>tj_at = now, tj_nick = u_name u\<rparr>"
  obtain o1 m1 where 1: "burst_stage c ?j now ([], prune_expired c now m) = (o1, m1)" by fastforce
  obtain o2 m2 where 2: "hash_stage c u ?j now (o1, m1) = (o2, m2)" by fastforce
  have 3: "name_stage c u ?j now (o2, m2) = (ds, m')"
    using assms(4-6) 1 2 by (simp add: on_join_def)
  show ?thesis
    by (rule fresh_name [OF fresh_hash [OF fresh_burst [OF fresh_prune [OF assms(1,2)] assms(3) _ 1]
            assms(3) _ refl 2] assms(3) _ refl 3]) simp_all
qed

lemma fresh_chron: "fresh_monitor c now h k m \<Longrightarrow> chron_monitor now m"
  by (auto simp: fresh_monitor_def chron_monitor_def log_within_def ran_def)

lemma chron_later_monitor: "chron_monitor t m \<Longrightarrow> t \<le> now \<Longrightarrow> chron_monitor now m"
  by (auto simp: chron_monitor_def intro: jlog.chron_later)

lemma chron_on_join:
  assumes "chron_monitor t m" "t \<le> now" "windows_ok c" and "on_join c p now (Some u) m = (ds, m')"
  shows "chron_monitor now m'"
proof (cases "jc_enabled c \<and> \<not> p u")
  case True
  then show ?thesis using fresh_on_join [OF assms(1-3) _ _ assms(4)] fresh_chron by blast
next
  case False
  then show ?thesis using assms by (auto simp: on_join_def intro: chron_later_monitor)
qed

lemma join_run_chron:
  assumes "chron_monitor t m" "windows_ok c" "sorted (map fst es)" "\<forall>e \<in> set es. t \<le> fst e \<and> fst e \<le> hi" "t \<le> hi"
  shows "chron_monitor hi (snd (join_run c p es m))"
  using assms
proof (induction es arbitrary: t m)
  case (Cons e es)
  obtain now u where e: "e = (now, u)" by fastforce
  obtain ds m' where step: "on_join c p now (Some u) m = (ds, m')" by fastforce
  have "chron_monitor now m'"
    using chron_on_join [OF Cons.prems(1) _ Cons.prems(2) step] Cons.prems(4) e by simp
  then have "chron_monitor hi (snd (join_run c p es m'))"
    using Cons.prems e by (intro Cons.IH [of now]) auto
  then show ?case by (simp add: e step case_prod_beta)
qed (simp add: chron_later_monitor)

text \<open>The monitor's memory is bounded by its windows: after any history of joins with a clock that
  does not run backwards, the join of an unprotected user at \<open>now\<close> leaves only records within the
  configured windows in every log, signal and action table, and only the two buckets that join
  itself touched can be empty.\<close>

theorem join_monitor_forgets:
  assumes "windows_ok c" and "jc_enabled c" and "\<not> p u" and "sorted (map fst (es @ [(now, u)]))"
    and "m = snd (join_run c p es new_join_monitor)"
  shows "fresh_monitor c now (to_lower (trim_space (u_hash u))) (normalize_cluster (u_name u))
           (snd (on_join c p now (Some u) m))"
proof -
  let ?lo = "Min (insert now (set (map fst es)))"
  have "chron_monitor ?lo new_join_monitor"
    by (simp add: chron_monitor_def new_join_monitor_def jlog.chron_Nil)
  then have "chron_monitor now (snd (join_run c p es new_join_monitor))"
    using assms(1,4) by (intro join_run_chron [of ?lo]) (auto simp: sorted_append)
  then show ?thesis
    using fresh_on_join [of now m now c p u] assms by (metis order_refl surjective_pairing)
qed

section \<open>Concrete histories\<close>

definition demo_join_config :: join_config where
  "demo_join_config = \<lparr>jc_enabled = True, jc_burst_count = 2, jc_burst_window = 10,
     jc_hash_count = 2, jc_hash_window = 10, jc_name_count = 3, jc_name_window = 10,
     jc_post_kick = 60, jc_cooldown = 30\<rparr>"

definition demo_user :: "string \<Rightarrow> string \<Rightarrow> user" where
  "demo_user name hash = \<lparr>u_channel = lit ''lounge'', u_isme = False, u_name = lit name,
     u_trip = [], u_utype = lit ''user'', u_hash = lit hash, u_level = 100, u_color = [],
     u_flair = JNull, u_userid = 1, u_isbot = False\<rparr>"

definition demo_joins :: "(time \<times> user) list" where
  "demo_joins = [(0, demo_user ''ann'' ''h1''), (5, demo_user ''bob'' ''h2''),
     (8, demo_user ''cid'' ''h1''), (40, demo_user ''dan'' ''h3''), (41, demo_user ''eve'' ''h4'')]"

lemma join_captcha_spacing_witness:
  "map fst (filter (\<lambda>e. is_captcha (snd e))
      (fst (join_run demo_join_config (\<lambda>_. False) demo_joins new_join_monitor))) = [5, 41]
   \<and> sorted_wrt (\<lambda>a b. fst a + jc_cooldown demo_join_config < fst b)
      (filter (\<lambda>e. is_captcha (snd e))
        (fst (join_run demo_join_config (\<lambda>_. False) demo_joins new_join_monitor)))"
proof
  show "sorted_wrt (\<lambda>a b. fst a + jc_cooldown demo_join_config < fst b)
      (filter (\<lambda>e. is_captcha (snd e))
        (fst (join_run demo_join_config (\<lambda>_. False) demo_joins new_join_monitor)))"
    by (rule join_captcha_spacing) (simp_all add: demo_join_config_def demo_joins_def)
qed code_simp

lemma join_burst_detected_witness:
  "(\<exists>e \<in> set (fst (join_run demo_join_config (\<lambda>_. False) (take 2 demo_joins) new_join_monitor)).
      is_captcha (snd e))"
  using join_burst_detected [of demo_join_config "take 2 demo_joins" "\<lambda>_. False" 0 new_join_monitor]
  by (simp add: demo_join_config_def demo_joins_def new_join_monitor_def)

lemma join_monitor_forgets_witness:
  "fresh_monitor demo_join_config 41 (lit ''h4'') (lit ''eve'')
     (snd (on_join demo_join_config (\<lambda>_. False) 41 (Some (demo_user ''eve'' ''h4''))
       (snd (join_run demo_join_config (\<lambda>_. False) (take 4 demo_joins) new_join_monitor))))"
proof -
  have "windows_ok demo_join_config" "jc_enabled demo_join_config"
    by (simp_all add: windows_ok_def demo_join_config_def)
  moreover have "to_lower (trim_space (u_hash (demo_user ''eve'' ''h4''))) = lit ''h4''"
    "normalize_cluster (u_name (demo_user ''eve'' ''h4'')) = lit ''eve''"
    by code_simp+
  ultimately show ?thesis
    using join_monitor_forgets [of demo_join_config "\<lambda>_. False" "demo_user ''eve'' ''h4''"
        "take 4 demo_joins" 41] by (simp add: demo_joins_def del: lit_simps)
qed

end
