(* ===== verification/MessageMonitor.thy ===== *)
theory MessageMonitor
  imports JoinMonitor
begin

text \<open>
  \<open>internal/agent/moderation/message_monitor.go\<close>: the detector of public message bursts and
  repetitions, and its escalation from a warning to a shadow ban.
\<close>

section \<open>State and operations\<close>

record message_config =
  mc_enabled :: bool
  mc_burst_count :: int
  mc_burst_window :: duration
  mc_repeated_count :: int
  mc_repeated_window :: duration
  mc_second_breach :: duration
  mc_post_kick :: duration
  mc_cooldown :: duration

record timed_message =
  tm_at :: time
  tm_normalized :: str

record offence =
  of_action :: action
  of_at :: time

record message_monitor =
  mm_messages :: "str \<rightharpoonup> timed_message list"
  mm_offences :: "str \<rightharpoonup> offence"
  mm_actions :: "action_key \<rightharpoonup> time"

definition new_message_monitor :: message_monitor where
  "new_message_monitor =
     \<lparr>mm_messages = Map.empty, mm_offences = Map.empty, mm_actions = Map.empty\<rparr>"

text \<open>The principal and the identity a message is counted under; two empty strings for none.\<close>

definition message_principal :: "chat_message \<Rightarrow> str \<times> str" where
  "message_principal msg =
     (let who = trim_space (m_name msg);
          hash = to_lower (trim_space (m_hash msg));
          trip = to_lower (trim_space (m_trip msg))
      in if who = [] then ([], [])
         else if hash \<noteq> [] then (who, lit ''hash:'' @ hash)
         else if trip \<noteq> [] then (who, lit ''trip:'' @ trip)
         else (who, lit ''nick:'' @ to_lower who))"

definition normalize_message :: "str \<Rightarrow> str" where
  "normalize_message text = join (lit '' '') (fields_func is_space (to_lower (trim_space text)))"

definition prune_messages :: "timed_message list \<Rightarrow> time \<Rightarrow> duration \<Rightarrow> timed_message list" where
  "prune_messages v now window = dropWhile (\<lambda>x. tm_at x < now - window) v"

definition count_messages :: "timed_message list \<Rightarrow> time \<Rightarrow> duration \<Rightarrow> int" where
  "count_messages v now window = int (length (filter (\<lambda>x. \<not> tm_at x < now - window) v))"

definition count_repeated :: "timed_message list \<Rightarrow> str \<Rightarrow> time \<Rightarrow> duration \<Rightarrow> int" where
  "count_repeated v normalized now window =
     int (length (filter (\<lambda>x. \<not> tm_at x < now - window \<and> tm_normalized x = normalized) v))"

definition at_least_messages :: "int \<Rightarrow> int \<Rightarrow> bool" where
  "at_least_messages n threshold \<longleftrightarrow> 0 < threshold \<and> threshold \<le> n"

definition max_duration_of :: "duration \<Rightarrow> duration \<Rightarrow> duration" where
  "max_duration_of a b = (if b \<le> a then a else b)"

definition log_window :: "message_config \<Rightarrow> duration" where
  "log_window c = max_duration_of (mc_burst_window c) (mc_repeated_window c)"

definition offence_limit :: "message_config \<Rightarrow> offence \<Rightarrow> duration" where
  "offence_limit c previous =
     (if of_action previous = Kick \<or> of_action previous = ShadowBan then mc_post_kick c
      else mc_second_breach c)"

definition prune_expired_messages :: "message_config \<Rightarrow> time \<Rightarrow> message_monitor \<Rightarrow> message_monitor" where
  "prune_expired_messages c now m =
     \<lparr>mm_messages = (\<lambda>k. case mm_messages m k of
          None \<Rightarrow> None
        | Some v \<Rightarrow> (let v' = prune_messages v now (log_window c) in if v' = [] then None else Some v')),
      mm_offences = (\<lambda>k. case mm_offences m k of
          None \<Rightarrow> None
        | Some previous \<Rightarrow>
            if in_window (of_at previous) now (offence_limit c previous) then Some previous else None),
      mm_actions = keep_within (mm_actions m) now (mc_cooldown c)\<rparr>"

definition allow_message ::
  "message_config \<Rightarrow> message_monitor \<Rightarrow> action_key \<Rightarrow> time \<Rightarrow> bool \<times> message_monitor" where
  "allow_message c m k now =
     (case mm_actions m k of
        Some previous \<Rightarrow>
          if in_window previous now (mc_cooldown c) then (False, m)
          else (True, m\<lparr>mm_actions := (mm_actions m)(k \<mapsto> now)\<rparr>)
      | None \<Rightarrow> (True, m\<lparr>mm_actions := (mm_actions m)(k \<mapsto> now)\<rparr>))"

text \<open>The rung of the ladder an offender is on.\<close>

definition next_action :: "message_config \<Rightarrow> offence option \<Rightarrow> bool \<Rightarrow> time \<Rightarrow> action" where
  "next_action c previous repeated now =
     (case previous of
        Some o1 \<Rightarrow>
          if of_action o1 = Kick \<and> in_window (of_at o1) now (mc_post_kick c) then ShadowBan
          else if of_action o1 = Mute \<and> in_window (of_at o1) now (mc_second_breach c) then Kick
          else if of_action o1 = Warn \<and> in_window (of_at o1) now (mc_second_breach c) then Mute
          else if repeated then Mute else Warn
      | None \<Rightarrow> if repeated then Mute else Warn)"

definition escalate ::
  "message_config \<Rightarrow> str \<Rightarrow> str \<Rightarrow> bool \<Rightarrow> time \<Rightarrow> message_monitor \<Rightarrow> decision option \<times> message_monitor" where
  "escalate c identity who repeated now m =
     (let previous = mm_offences m identity
      in if (case previous of Some o1 \<Rightarrow> of_action o1 = ShadowBan | None \<Rightarrow> False) then (None, m)
         else (let act = next_action c previous repeated now;
                   (ok, m') = allow_message c m (act, identity) now
               in if \<not> ok then (None, m')
                  else (Some \<lparr>d_action = act, d_principal = who,
                              d_reason = (if repeated then lit ''repeated message spam'' else lit ''message burst'')\<rparr>,
                        m'\<lparr>mm_offences := (mm_offences m')(identity \<mapsto> \<lparr>of_action = act, of_at = now\<rparr>)\<rparr>)))"

definition ignored_message :: "message_config \<Rightarrow> (chat_message \<Rightarrow> bool) \<Rightarrow> chat_message \<Rightarrow> bool" where
  "ignored_message c is_protected msg \<longleftrightarrow>
     \<not> mc_enabled c \<or> m_whisper msg \<or> m_is_whisper msg \<or> is_protected msg
     \<or> fst (message_principal msg) = [] \<or> snd (message_principal msg) = []
     \<or> normalize_message (m_text msg) = []"

definition on_message ::
  "message_config \<Rightarrow> (chat_message \<Rightarrow> bool) \<Rightarrow> time \<Rightarrow> chat_message \<Rightarrow> message_monitor \<Rightarrow>
     decision list \<times> message_monitor" where
  "on_message c is_protected now msg m =
     (if ignored_message c is_protected msg then ([], m)
      else
        let (who, identity) = message_principal msg;
            normalized = normalize_message (m_text msg);
            m0 = prune_expired_messages c now m;
            old = (case mm_messages m0 identity of None \<Rightarrow> [] | Some v \<Rightarrow> v);
            recent = prune_messages (old @ [\<lparr>tm_at = now, tm_normalized = normalized\<rparr>]) now (log_window c);
            m1 = m0\<lparr>mm_messages := (mm_messages m0)(identity \<mapsto> recent)\<rparr>;
            burst = count_messages recent now (mc_burst_window c);
            repeated = count_repeated recent normalized now (mc_repeated_window c)
        in if \<not> at_least_messages burst (mc_burst_count c) \<and> \<not> at_least_messages repeated (mc_repeated_count c)
           then ([], m1)
           else (let m2 = m1\<lparr>mm_messages := (mm_messages m1)(identity \<mapsto> [])\<rparr>
                 in case escalate c identity who (mc_repeated_count c \<le> repeated) now m2 of
                      (Some d, m3) \<Rightarrow> ([d], m3)
                    | (None, m3) \<Rightarrow> ([], m3)))"

text \<open>A history of messages: each decision with its time and the identity it was taken against.\<close>

record verdict =
  v_at :: time
  v_identity :: str
  v_decision :: decision

fun message_run ::
  "message_config \<Rightarrow> (chat_message \<Rightarrow> bool) \<Rightarrow> (time \<times> chat_message) list \<Rightarrow> message_monitor \<Rightarrow>
     verdict list \<times> message_monitor" where
  "message_run c p [] m = ([], m)"
| "message_run c p ((now, msg) # es) m =
     (let (ds, m') = on_message c p now msg m;
          (rest, m'') = message_run c p es m'
      in (map (\<lambda>d. \<lparr>v_at = now, v_identity = snd (message_principal msg), v_decision = d\<rparr>) ds @ rest, m''))"

section \<open>The shared laws hold of the message monitor\<close>

interpretation mlog: sliding_window tm_at prune_messages
  by unfold_locales (simp add: prune_messages_def)

interpretation mcool: cooldown "mc_cooldown c" mm_actions "allow_message c" for c
  by unfold_locales (auto simp: allow_message_def split: option.splits)

lemma allow_message_frame:
  "mm_messages (snd (allow_message c m k now)) = mm_messages m"
  "mm_offences (snd (allow_message c m k now)) = mm_offences m"
  by (auto simp: allow_message_def split: option.splits)

section \<open>One message\<close>

lemma message_principal_trimmed:
  "message_principal msg = (pr, ident) \<Longrightarrow> trim_space pr = pr"
  by (auto simp: message_principal_def Let_def split: if_splits)

text \<open>
  What one message does to the tables, leaving the message logs aside: nothing, or a decision that
  is the rung after the last recorded offence, becomes the recorded offence, and was not granted
  within the cooldown.
\<close>

definition same_tables :: "message_monitor \<Rightarrow> message_monitor \<Rightarrow> bool" where
  "same_tables m m' \<longleftrightarrow> mm_offences m' = mm_offences m \<and> mm_actions m' = mm_actions m"

definition decided ::
  "message_config \<Rightarrow> time \<Rightarrow> str \<Rightarrow> str \<Rightarrow> decision \<Rightarrow> message_monitor \<Rightarrow> message_monitor \<Rightarrow> bool" where
  "decided c now ident who d m m' \<longleftrightarrow>
     d_principal d = who
     \<and> (\<exists>repeated. d_action d = next_action c (mm_offences m ident) repeated now)
     \<and> (\<forall>o1. mm_offences m ident = Some o1 \<longrightarrow> of_action o1 \<noteq> ShadowBan)
     \<and> (\<forall>t. mm_actions m (d_action d, ident) = Some t \<longrightarrow> \<not> in_window t now (mc_cooldown c))
     \<and> mm_offences m' = (mm_offences m)(ident \<mapsto> \<lparr>of_action = d_action d, of_at = now\<rparr>)
     \<and> mm_actions m' = (mm_actions m)((d_action d, ident) \<mapsto> now)"

lemma escalate_effect:
  assumes "escalate c ident who repeated now m = (r, m')"
  shows "case r of None \<Rightarrow> same_tables m m' | Some d \<Rightarrow> decided c now ident who d m m'"
proof -
  obtain ok m1 where a: "allow_message c m (next_action c (mm_offences m ident) repeated now, ident) now = (ok, m1)"
    by fastforce
  have "mm_offences m1 = mm_offences m"
    using allow_message_frame(2) a by (metis snd_conv)
  moreover have "mm_actions m1 = (if ok then (mm_actions m)
      ((next_action c (mm_offences m ident) repeated now, ident) \<mapsto> now) else mm_actions m)"
    and "ok \<longleftrightarrow> \<not> (\<exists>t. mm_actions m (next_action c (mm_offences m ident) repeated now, ident) = Some t
      \<and> in_window t now (mc_cooldown c))"
    using mcool.allow_actions [of c m] mcool.allow_fst [of c m] a by (metis fst_conv snd_conv)+
  ultimately show ?thesis
    using assms a
    by (auto simp: escalate_def same_tables_def decided_def Let_def split: if_splits option.splits
        simp del: lit_simps)
qed

lemma on_message_effect:
  assumes "on_message c p now msg m = (ds, m')" and "message_principal msg = (who, ident)"
  shows "if ignored_message c p msg then ds = [] \<and> m' = m
    else (ds = [] \<and> same_tables (prune_expired_messages c now m) m')
       \<or> (\<exists>d. ds = [d] \<and> decided c now ident who d (prune_expired_messages c now m) m')"
proof (cases "ignored_message c p msg")
  case False
  define m0 where "m0 = prune_expired_messages c now m"
  define log where "log = prune_messages ((case mm_messages m0 ident of None \<Rightarrow> [] | Some v \<Rightarrow> v)
      @ [\<lparr>tm_at = now, tm_normalized = normalize_message (m_text msg)\<rparr>]) now (log_window c)"
  define m2 where "m2 = m0\<lparr>mm_messages := (mm_messages m0)(ident \<mapsto> [])\<rparr>"
  define rep where "rep = (mc_repeated_count c
      \<le> count_repeated log (normalize_message (m_text msg)) now (mc_repeated_window c))"
  obtain r m3 where esc: "escalate c ident who rep now m2 = (r, m3)" by fastforce
  have "on_message c p now msg m =
      (if \<not> at_least_messages (count_messages log now (mc_burst_window c)) (mc_burst_count c)
          \<and> \<not> at_least_messages (count_repeated log (normalize_message (m_text msg)) now
                (mc_repeated_window c)) (mc_repeated_count c)
       then ([], m0\<lparr>mm_messages := (mm_messages m0)(ident \<mapsto> log)\<rparr>)
       else (case r of Some d \<Rightarrow> ([d], m3) | None \<Rightarrow> ([], m3)))"
    using False assms(2) esc
    by (simp add: on_message_def Let_def m0_def log_def m2_def rep_def split: option.split)
  then have "(ds = [] \<and> m' = m0\<lparr>mm_messages := (mm_messages m0)(ident \<mapsto> log)\<rparr>)
      \<or> (ds, m') = (case r of Some d \<Rightarrow> [d] | None \<Rightarrow> [], m3)"
    using assms(1) by (auto split: if_splits option.splits)
  with escalate_effect [OF esc] False show ?thesis
    by (auto simp: m0_def same_tables_def decided_def m2_def split: option.splits)
qed (use assms in \<open>simp add: on_message_def\<close>)

section \<open>The escalation ladder\<close>

abbreviation v_action :: "verdict \<Rightarrow> action" where
  "v_action v \<equiv> d_action (v_decision v)"

definition has_rung :: "verdict list \<Rightarrow> str \<Rightarrow> action \<Rightarrow> time \<Rightarrow> duration \<Rightarrow> bool" where
  "has_rung seen ident act now w \<longleftrightarrow>
     (\<exists>u \<in> set seen. v_identity u = ident \<and> v_action u = act \<and> in_window (v_at u) now w)"

text \<open>
  A shadow ban needs an earlier kick of the same identity within the post-kick window, a kick
  needs an earlier mute within the second-breach window, and nothing else but a warning or a mute
  is ever decided.
\<close>

definition on_ladder :: "message_config \<Rightarrow> verdict list \<Rightarrow> verdict \<Rightarrow> bool" where
  "on_ladder c seen v \<longleftrightarrow>
     (case v_action v of
        ShadowBan \<Rightarrow> has_rung seen (v_identity v) Kick (v_at v) (mc_post_kick c)
      | Kick \<Rightarrow> has_rung seen (v_identity v) Mute (v_at v) (mc_second_breach c)
      | Mute \<Rightarrow> True | Warn \<Rightarrow> True | _ \<Rightarrow> False)"

fun climbs :: "message_config \<Rightarrow> verdict list \<Rightarrow> verdict list \<Rightarrow> bool" where
  "climbs c seen [] = True"
| "climbs c seen (v # vs) = (on_ladder c seen v \<and> climbs c (seen @ [v]) vs)"

definition offences_logged :: "verdict list \<Rightarrow> message_monitor \<Rightarrow> bool" where
  "offences_logged seen m \<longleftrightarrow> (\<forall>ident o1. mm_offences m ident = Some o1 \<longrightarrow>
     (\<exists>u \<in> set seen. v_identity u = ident \<and> v_action u = of_action o1 \<and> v_at u = of_at o1))"

lemma prune_offences:
  "mm_offences (prune_expired_messages c now m) ident = Some o1 \<longleftrightarrow>
     mm_offences m ident = Some o1 \<and> in_window (of_at o1) now (offence_limit c o1)"
  by (auto simp: prune_expired_messages_def split: option.splits)

lemma decided_on_ladder:
  assumes "decided c now ident who d (prune_expired_messages c now m) m'" and "offences_logged seen m"
  shows "on_ladder c seen \<lparr>v_at = now, v_identity = ident, v_decision = d\<rparr>"
    and "offences_logged (seen @ [\<lparr>v_at = now, v_identity = ident, v_decision = d\<rparr>]) m'"
proof -
  have log: "\<exists>u \<in> set seen. v_identity u = i \<and> v_action u = of_action o1 \<and> v_at u = of_at o1"
    if "mm_offences (prune_expired_messages c now m) i = Some o1" for i o1
    using that assms(2) by (auto simp: prune_offences offences_logged_def)
  show "on_ladder c seen \<lparr>v_at = now, v_identity = ident, v_decision = d\<rparr>"
    using assms(1) log [of ident]
    by (auto simp: decided_def on_ladder_def next_action_def has_rung_def
        split: option.splits action.splits if_splits) metis+
  show "offences_logged (seen @ [\<lparr>v_at = now, v_identity = ident, v_decision = d\<rparr>]) m'"
    using assms(1) log by (auto simp: decided_def offences_logged_def)
qed

lemma message_run_climbs:
  "offences_logged seen m \<Longrightarrow> climbs c seen (fst (message_run c p es m))"
proof (induction es arbitrary: seen m)
  case (Cons e es)
  obtain now msg where e: "e = (now, msg)" by fastforce
  obtain who ident where pr: "message_principal msg = (who, ident)" by fastforce
  obtain ds m' where step: "on_message c p now msg m = (ds, m')" by fastforce
  have kept: "offences_logged seen (prune_expired_messages c now m)"
    using Cons.prems by (auto simp: offences_logged_def prune_offences)
  from on_message_effect [OF step pr] consider
      (silent) "ds = []" "m' = m \<or> same_tables (prune_expired_messages c now m) m'"
    | (hit) d where "ds = [d]" "decided c now ident who d (prune_expired_messages c now m) m'"
    by (auto split: if_splits)
  then show ?case
  proof cases
    case silent
    then have "offences_logged seen m'"
      using Cons.prems kept by (auto simp: offences_logged_def same_tables_def)
    then show ?thesis using Cons.IH silent by (simp add: e step case_prod_beta)
  next
    case hit
    then show ?thesis
      using decided_on_ladder [OF hit(2) Cons.prems] Cons.IH
      by (simp add: e step pr case_prod_beta)
  qed
qed simp

text \<open>C3. Escalation is gradual: in every history of messages, nobody is shadow-banned without an
  earlier kick of the same identity within the post-kick window, nobody is kicked without an
  earlier mute within the second-breach window, and no other action than these, a mute or a
  warning is decided.\<close>

theorem escalation_is_gradual:
  "climbs c [] (fst (message_run c p es new_message_monitor))"
  by (rule message_run_climbs) (simp add: offences_logged_def new_message_monitor_def)

section \<open>Spacing of the decisions against one identity\<close>

definition spaced :: "message_config \<Rightarrow> verdict \<Rightarrow> verdict \<Rightarrow> bool" where
  "spaced c a b \<longleftrightarrow>
     (v_identity a = v_identity b \<longrightarrow>
       (v_action a = v_action b \<longrightarrow> v_at a + mc_cooldown c < v_at b)
       \<and> (v_action a = ShadowBan \<longrightarrow> v_at a + mc_post_kick c < v_at b))"

text \<open>A verdict is remembered by the tables until it has expired.\<close>

definition remembered :: "message_config \<Rightarrow> time \<Rightarrow> message_monitor \<Rightarrow> verdict \<Rightarrow> bool" where
  "remembered c now m a \<longleftrightarrow> v_at a \<le> now
     \<and> (v_at a + mc_cooldown c < now
        \<or> (\<exists>t. mm_actions m (v_action a, v_identity a) = Some t \<and> v_at a \<le> t \<and> t \<le> now))
     \<and> (v_action a = ShadowBan \<longrightarrow> v_at a + mc_post_kick c < now
        \<or> mm_offences m (v_identity a) = Some \<lparr>of_action = ShadowBan, of_at = v_at a\<rparr>)"

definition durations_ok :: "message_config \<Rightarrow> bool" where
  "durations_ok c \<longleftrightarrow> 0 \<le> mc_cooldown c \<and> mc_cooldown c < max_duration
     \<and> 0 \<le> mc_post_kick c \<and> mc_post_kick c < max_duration"

lemma remembered_later: "remembered c t m a \<Longrightarrow> t \<le> now \<Longrightarrow> remembered c now m a"
  by (force simp: remembered_def)

lemma remembered_prune:
  assumes "remembered c now m a" "durations_ok c"
  shows "remembered c now (prune_expired_messages c now m) a"
proof -
  have "v_at a + mc_cooldown c < now \<or> (\<exists>t. mm_actions (prune_expired_messages c now m)
      (v_action a, v_identity a) = Some t \<and> v_at a \<le> t \<and> t \<le> now)"
  proof (cases "v_at a + mc_cooldown c < now")
    case False
    then obtain t where "mm_actions m (v_action a, v_identity a) = Some t" "v_at a \<le> t" "t \<le> now"
      using assms(1) by (auto simp: remembered_def)
    moreover from this have "in_window t now (mc_cooldown c)"
      using False assms(2) by (simp add: in_window_iff durations_ok_def)
    ultimately show ?thesis
      by (simp add: prune_expired_messages_def keep_within_def)
  qed simp
  then show ?thesis
    using assms by (auto simp: remembered_def durations_ok_def prune_offences in_window_iff offence_limit_def)
qed

lemma remembered_same: "same_tables m m' \<Longrightarrow> remembered c now m a \<Longrightarrow> remembered c now m' a"
  by (simp add: same_tables_def remembered_def)

lemma remembered_decided:
  assumes "remembered c now m a" "durations_ok c" and "decided c now ident who d m m'"
  shows "remembered c now m' a" and "spaced c a \<lparr>v_at = now, v_identity = ident, v_decision = d\<rparr>"
proof -
  show sp: "spaced c a \<lparr>v_at = now, v_identity = ident, v_decision = d\<rparr>"
    using assms by (auto simp: spaced_def remembered_def decided_def durations_ok_def in_window_iff)
  show "remembered c now m' a"
    using assms sp by (auto simp: remembered_def decided_def spaced_def)
qed

lemma decided_remembered:
  "decided c now ident who d m m' \<Longrightarrow>
     remembered c now m' \<lparr>v_at = now, v_identity = ident, v_decision = d\<rparr>"
  by (auto simp: remembered_def decided_def)

lemma message_run_spaced:
  assumes "durations_ok c" "sorted (map fst es)" "\<forall>e \<in> set es. t \<le> fst e" "\<forall>a \<in> set seen. remembered c t m a"
  shows "sorted_wrt (spaced c) (fst (message_run c p es m))
    \<and> (\<forall>a \<in> set seen. \<forall>b \<in> set (fst (message_run c p es m)). spaced c a b)"
  using assms(2-)
proof (induction es arbitrary: t m seen)
  case (Cons e es)
  obtain now msg where e: "e = (now, msg)" by fastforce
  obtain who ident where pr: "message_principal msg = (who, ident)" by fastforce
  obtain ds m' where step: "on_message c p now msg m = (ds, m')" by fastforce
  let ?m0 = "prune_expired_messages c now m"
  have here: "remembered c now m a" if "a \<in> set seen" for a
    using Cons.prems e that by (auto intro: remembered_later)
  have pruned: "remembered c now ?m0 a" if "a \<in> set seen" for a
    by (rule remembered_prune [OF here [OF that] assms(1)])
  have es: "sorted (map fst es)" "\<forall>x \<in> set es. now \<le> fst x" using Cons.prems e by auto
  from on_message_effect [OF step pr] consider
      (silent) "ds = []" "m' = m \<or> same_tables ?m0 m'"
    | (hit) d where "ds = [d]" "decided c now ident who d ?m0 m'"
    by (auto split: if_splits)
  then show ?case
  proof cases
    case silent
    then have "\<forall>a \<in> set seen. remembered c now m' a"
      using here pruned remembered_same by blast
    then show ?thesis using Cons.IH [OF es, of seen m'] silent by (simp add: e step case_prod_beta)
  next
    case hit
    let ?v = "\<lparr>v_at = now, v_identity = ident, v_decision = d\<rparr>"
    have "\<forall>a \<in> set (seen @ [?v]). remembered c now m' a"
      using pruned remembered_decided(1) [OF _ assms(1) hit(2)] decided_remembered [OF hit(2)] by auto
    moreover have "\<forall>a \<in> set seen. spaced c a ?v"
      using pruned remembered_decided(2) [OF _ assms(1) hit(2)] by blast
    ultimately show ?thesis
      using Cons.IH [OF es, of "seen @ [?v]" m'] hit(1) by (simp add: e step pr case_prod_beta ball_Un)
  qed
qed simp

text \<open>C4. Nobody is sanctioned twice in a row: in any history of messages with a clock that does not run
  backwards, from any state of the monitor, two equal actions against one identity are more than
  the action cooldown apart, and nothing at all is decided against a shadow-banned identity until
  the post-kick window has passed.\<close>

theorem sanctions_are_spaced:
  assumes "durations_ok c" and "sorted (map fst es)"
  shows "sorted_wrt (spaced c) (fst (message_run c p es m))"
proof (cases es)
  case (Cons e es')
  then show ?thesis
    using message_run_spaced [OF assms(1), of es "fst e" "[]" m p] assms(2) by simp
qed simp

section \<open>What counts as a repetition\<close>

lemma fields_normalized:
  "fields_func is_space (normalize_message s) = fields_func is_space (to_lower (trim_space s))"
proof -
  have "is_space 32" by (simp add: is_space_def)
  then have "fields_func is_space (join [32] (fields_func is_space (to_lower (trim_space s))))
      = fields_func is_space (to_lower (trim_space s))"
    by (rule fields_func_join) (auto dest: fields_func_parts)
  then show ?thesis by (simp add: normalize_message_def)
qed

text \<open>Repetition matching compares the words of two messages and nothing else: two texts have the
  same normal form exactly if, in lower case, they consist of the same words in the same order,
  whatever white space separates them.\<close>

theorem normalize_message_words:
  "normalize_message s = normalize_message t \<longleftrightarrow>
     fields_func is_space (to_lower (trim_space s)) = fields_func is_space (to_lower (trim_space t))"
proof
  assume "normalize_message s = normalize_message t"
  then show "fields_func is_space (to_lower (trim_space s)) = fields_func is_space (to_lower (trim_space t))"
    using fields_normalized by metis
qed (simp add: normalize_message_def)

section \<open>Concrete histories\<close>

definition demo_message_config :: message_config where
  "demo_message_config = \<lparr>mc_enabled = True, mc_burst_count = 5, mc_burst_window = 10,
     mc_repeated_count = 2, mc_repeated_window = 10, mc_second_breach = 100, mc_post_kick = 200,
     mc_cooldown = 3\<rparr>"

definition demo_message :: "string \<Rightarrow> string \<Rightarrow> chat_message" where
  "demo_message name text = \<lparr>m_whisper = False, m_is_whisper = False, m_cmd = lit ''chat'',
     m_name = lit name, m_trip = [], m_hash = [], m_time = 0, m_channel = lit ''lounge'',
     m_text = lit text, m_type = [], m_mod = False, m_flair = JNull, m_color = []\<rparr>"

definition demo_messages :: "(time \<times> chat_message) list" where
  "demo_messages = map (\<lambda>t. (t, demo_message ''ann'' ''buy now'')) [0, 1, 10, 11, 20, 21, 30, 31]"

lemma sanctions_are_spaced_witness:
  "map v_action (fst (message_run demo_message_config (\<lambda>_. False) demo_messages new_message_monitor))
     = [Mute, Kick, ShadowBan]
   \<and> sorted_wrt (spaced demo_message_config)
       (fst (message_run demo_message_config (\<lambda>_. False) demo_messages new_message_monitor))"
proof
  show "sorted_wrt (spaced demo_message_config)
      (fst (message_run demo_message_config (\<lambda>_. False) demo_messages new_message_monitor))"
    by (rule sanctions_are_spaced) (simp_all add: durations_ok_def demo_message_config_def demo_messages_def)
qed code_simp

end
