(* ===== verification/ModerationExec.thy ===== *)
theory ModerationExec
  imports MessageMonitor
begin

text \<open>
  The executors of moderation decisions (\<open>message_executor.go\<close>, \<open>engine_executor.go\<close>) and the two
  bridges that feed the monitors and execute what they decide (\<open>automation.go\<close> and
  \<open>internal/agent/live/message_automation.go\<close>).  An executor either fails before it reaches the
  engine or makes exactly one call on it and returns that call's error.
\<close>

datatype moderator_call =
    Warn_flood str
  | Mute_principal str
  | Kick_principal str
  | Shadow_ban str
  | Enable_captcha

datatype exec_error =
    Executor_unavailable
  | Context_cancelled
  | Invalid_decision decision_error
  | Action_not_enabled action

definition guard_decision :: "bool \<Rightarrow> bool \<Rightarrow> decision \<Rightarrow> exec_error option" where
  "guard_decision available cancelled d =
     (if \<not> available then Some Executor_unavailable
      else if cancelled then Some Context_cancelled
      else map_option Invalid_decision (validate d))"

text \<open>\<open>messageActionExecutor.Execute\<close>\<close>

definition message_execute :: "bool \<Rightarrow> bool \<Rightarrow> decision \<Rightarrow> exec_error + moderator_call" where
  "message_execute available cancelled d =
     (case guard_decision available cancelled d of
        Some e \<Rightarrow> Inl e
      | None \<Rightarrow>
          (case d_action d of
             Warn \<Rightarrow> Inr (Warn_flood (d_principal d))
           | Mute \<Rightarrow> Inr (Mute_principal (d_principal d))
           | Kick \<Rightarrow> Inr (Kick_principal (d_principal d))
           | ShadowBan \<Rightarrow> Inr (Shadow_ban (d_principal d))
           | a \<Rightarrow> Inl (Action_not_enabled a)))"

text \<open>\<open>EngineActionExecutor.Execute\<close>\<close>

definition engine_execute :: "bool \<Rightarrow> bool \<Rightarrow> decision \<Rightarrow> exec_error + moderator_call" where
  "engine_execute available cancelled d =
     (case guard_decision available cancelled d of
        Some e \<Rightarrow> Inl e
      | None \<Rightarrow>
          (case d_action d of
             Captcha \<Rightarrow> Inr Enable_captcha
           | ShadowBan \<Rightarrow> Inr (Shadow_ban (d_principal d))
           | a \<Rightarrow> Inl (Action_not_enabled a)))"

text \<open>
  \<open>Automation.OnJoin\<close> and \<open>MessageAutomation.Observe\<close>: every decision is executed, in order, and a
  failure does not stop the ones after it.  \<open>cancelled\<close> says for each decision whether its context
  has ended by the time it is executed.
\<close>

definition automation_on_join ::
  "join_config \<Rightarrow> (user \<Rightarrow> bool) \<Rightarrow> bool \<Rightarrow> (decision \<Rightarrow> bool) \<Rightarrow> time \<Rightarrow> user option \<Rightarrow> join_monitor \<Rightarrow>
     (exec_error + moderator_call) list \<times> join_monitor" where
  "automation_on_join c p installed cancelled now who m =
     (if \<not> installed then ([], m)
      else (let (ds, m') = on_join c p now who m
            in (map (\<lambda>d. engine_execute True (cancelled d) d) ds, m')))"

definition message_automation_observe ::
  "message_config \<Rightarrow> (chat_message \<Rightarrow> bool) \<Rightarrow> bool \<Rightarrow> (decision \<Rightarrow> bool) \<Rightarrow> time \<Rightarrow> chat_message \<Rightarrow>
     message_monitor \<Rightarrow> (exec_error + moderator_call) list \<times> message_monitor" where
  "message_automation_observe c p installed cancelled now msg m =
     (if \<not> installed then ([], m)
      else (let (ds, m') = on_message c p now msg m
            in (map (\<lambda>d. message_execute True (cancelled d) d) ds, m')))"

section \<open>An executor for a set of actions\<close>

text \<open>
  What the two executors promise: nothing reaches the engine unless the decision validates and its
  action is one of theirs, and the call that does targets the decision's principal.
\<close>

definition call_of :: "decision \<Rightarrow> moderator_call option" where
  "call_of d = (case d_action d of
       Warn \<Rightarrow> Some (Warn_flood (d_principal d))
     | Mute \<Rightarrow> Some (Mute_principal (d_principal d))
     | Kick \<Rightarrow> Some (Kick_principal (d_principal d))
     | ShadowBan \<Rightarrow> Some (Shadow_ban (d_principal d))
     | Captcha \<Rightarrow> Some Enable_captcha
     | Other_action _ \<Rightarrow> None)"

locale executor =
  fixes enabled :: "action set" and execute :: "bool \<Rightarrow> bool \<Rightarrow> decision \<Rightarrow> exec_error + moderator_call"
  assumes guarded: "guard_decision a x d = Some e \<Longrightarrow> execute a x d = Inl e"
    and runs: "guard_decision a x d = None \<Longrightarrow> d_action d \<in> enabled \<Longrightarrow> map_sum id Some (execute a x d) = Inr (call_of d)"
    and refuses: "guard_decision a x d = None \<Longrightarrow> d_action d \<notin> enabled \<Longrightarrow>
      execute a x d = Inl (Action_not_enabled (d_action d))"
begin

lemma executed_iff:
  "execute a x d = Inr call \<longleftrightarrow>
     a \<and> \<not> x \<and> validate d = None \<and> d_action d \<in> enabled \<and> call_of d = Some call"
proof (cases "guard_decision a x d")
  case None
  then have "a" "\<not> x" "validate d = None"
    by (auto simp: guard_decision_def split: if_splits)
  moreover have "execute a x d = Inr call \<longleftrightarrow> d_action d \<in> enabled \<and> call_of d = Some call"
  proof (cases "d_action d \<in> enabled")
    case True
    with runs [OF None] show ?thesis by (cases "execute a x d") auto
  next
    case False
    with refuses [OF None] show ?thesis by simp
  qed
  ultimately show ?thesis by simp
next
  case (Some e)
  then show ?thesis using guarded [OF Some] by (auto simp: guard_decision_def split: if_splits)
qed

lemma all_executed:
  assumes "list_all (\<lambda>d. validate d = None \<and> d_action d \<in> enabled) ds"
  shows "\<exists>calls. map (execute True False) ds = map Inr calls \<and> map call_of ds = map Some calls"
  using assms
proof (induction ds)
  case (Cons d ds)
  then obtain calls where calls: "map (execute True False) ds = map Inr calls" "map call_of ds = map Some calls"
    by auto
  have "guard_decision True False d = None"
    using Cons.prems by (simp add: guard_decision_def)
  then obtain call where "execute True False d = Inr call" "call_of d = Some call"
    using runs [of True False d] Cons.prems by (cases "execute True False d") auto
  with calls have "map (execute True False) (d # ds) = map Inr (call # calls)"
    "map call_of (d # ds) = map Some (call # calls)" by simp_all
  then show ?case by blast
qed simp

end

interpretation msgx: executor "{Warn, Mute, Kick, ShadowBan}" message_execute
  by unfold_locales (auto simp: message_execute_def call_of_def split: action.splits)

interpretation engx: executor "{Captcha, ShadowBan}" engine_execute
  by unfold_locales (auto simp: engine_execute_def call_of_def split: action.splits)

section \<open>What the automations do\<close>

lemma on_message_decisions:
  assumes "on_message c p now msg m = (ds, m')"
  shows "list_all (\<lambda>d. validate d = None \<and> d_action d \<in> {Warn, Mute, Kick, ShadowBan}
      \<and> d_principal d = trim_space (m_name msg)) ds \<and> length ds \<le> 1"
proof -
  obtain who ident where pr: "message_principal msg = (who, ident)" by fastforce
  show ?thesis
  proof (cases "ignored_message c p msg")
    case True
    then show ?thesis using assms by (simp add: on_message_def)
  next
    case False
    then have who: "who = trim_space (m_name msg)" "who \<noteq> []"
      using pr by (auto simp: ignored_message_def message_principal_def Let_def split: if_splits)
    from on_message_effect [OF assms pr] False show ?thesis
      using who by (auto simp: decided_def validate_def next_action_def split: option.splits if_splits)
  qed
qed

text \<open>Every decision of the message monitor reaches the engine as the call its action names, for
  the trimmed name of the message's author, at most one per message: no decision is refused by the
  validation or by the executor while the automation is installed and its contexts are alive.\<close>

theorem message_decisions_execute:
  assumes "message_automation_observe c p True (\<lambda>_. False) now msg m = (results, m')"
  shows "\<exists>calls. results = map Inr calls \<and> length calls \<le> 1
      \<and> set calls \<subseteq> (\<lambda>f. f (trim_space (m_name msg))) ` {Warn_flood, Mute_principal, Kick_principal, Shadow_ban}"
proof -
  obtain ds where step: "on_message c p now msg m = (ds, m')"
    and results: "results = map (message_execute True False) ds"
    using assms by (auto simp: message_automation_observe_def split: prod.splits)
  have ok: "list_all (\<lambda>d. validate d = None \<and> d_action d \<in> {Warn, Mute, Kick, ShadowBan}
      \<and> d_principal d = trim_space (m_name msg)) ds" "length ds \<le> 1"
    using on_message_decisions [OF step] by blast+
  then obtain calls where calls: "map (message_execute True False) ds = map Inr calls" "map call_of ds = map Some calls"
    using msgx.all_executed [of ds] by (auto simp: list_all_iff)
  have "length calls \<le> 1"
    using ok(2) calls(2) by (metis length_map)
  moreover have "set calls \<subseteq> (\<lambda>f. f (trim_space (m_name msg))) ` {Warn_flood, Mute_principal, Kick_principal, Shadow_ban}"
  proof
    fix x
    assume x: "x \<in> set calls"
    then have "Some x \<in> set (map call_of ds)" using calls(2) by simp
    then obtain d where "d \<in> set ds" "call_of d = Some x" by auto
    then show "x \<in> (\<lambda>f. f (trim_space (m_name msg))) ` {Warn_flood, Mute_principal, Kick_principal, Shadow_ban}"
      using ok(1) by (auto simp: list_all_iff call_of_def)
  qed
  ultimately show ?thesis using results calls(1) by blast
qed

lemma join_decision_valid:
  "join_decision_ok u d \<Longrightarrow> trim_space (u_name u) \<noteq> [] \<Longrightarrow>
     validate d = None \<and> d_action d \<in> {Captcha, ShadowBan}"
  by (auto simp: join_decision_ok_def validate_def)

text \<open>Every decision of the join monitor about a user with a non-blank name reaches the engine: each
  becomes either the captcha switch of the room or a shadow ban of the trimmed name, in order, and
  none is refused by the validation or by the executor.\<close>

theorem join_decisions_execute:
  assumes "trim_space (u_name u) \<noteq> []"
    and "automation_on_join c p True (\<lambda>_. False) now (Some u) m = (results, m')"
  shows "\<exists>calls. results = map Inr calls
      \<and> set calls \<subseteq> {Enable_captcha, Shadow_ban (trim_space (u_name u))}"
proof -
  obtain ds where step: "on_join c p now (Some u) m = (ds, m')"
    and results: "results = map (engine_execute True False) ds"
    using assms(2) by (auto simp: automation_on_join_def split: prod.splits)
  have ok: "list_all (join_decision_ok u) ds"
    using on_join_decisions [of u c p now m] step by simp
  then have "list_all (\<lambda>d. validate d = None \<and> d_action d \<in> {Captcha, ShadowBan}) ds"
    using join_decision_valid [OF _ assms(1)] by (auto simp: list_all_iff)
  then obtain calls where calls: "map (engine_execute True False) ds = map Inr calls"
      "map call_of ds = map Some calls"
    using engx.all_executed [of ds] by blast
  have "set calls \<subseteq> {Enable_captcha, Shadow_ban (trim_space (u_name u))}"
  proof
    fix x
    assume "x \<in> set calls"
    then have "Some x \<in> set (map call_of ds)" using calls(2) by simp
    then obtain d where "d \<in> set ds" "call_of d = Some x" by auto
    then show "x \<in> {Enable_captcha, Shadow_ban (trim_space (u_name u))}"
      using ok by (auto simp: list_all_iff call_of_def join_decision_ok_def)
  qed
  then show ?thesis using results calls(1) by blast
qed

lemma message_decisions_execute_witness:
  "\<exists>calls m'. message_automation_observe demo_message_config (\<lambda>_. False) True (\<lambda>_. False) 1
       (demo_message '' ann'' ''buy now'')
       (snd (message_run demo_message_config (\<lambda>_. False) (take 1 demo_messages) new_message_monitor))
     = (map Inr calls, m') \<and> calls = [Mute_principal (lit ''ann'')]"
proof -
  let ?m = "snd (message_run demo_message_config (\<lambda>_. False) (take 1 demo_messages) new_message_monitor)"
  obtain results m' where obs: "message_automation_observe demo_message_config (\<lambda>_. False) True (\<lambda>_. False) 1
      (demo_message '' ann'' ''buy now'') ?m = (results, m')" by fastforce
  obtain calls where calls: "results = map Inr calls"
    using message_decisions_execute [OF obs] by blast
  have "fst (message_automation_observe demo_message_config (\<lambda>_. False) True (\<lambda>_. False) 1
      (demo_message '' ann'' ''buy now'') ?m) = [Inr (Mute_principal (lit ''ann''))]"
    by code_simp
  then have "results = [Inr (Mute_principal (lit ''ann''))]" using obs by simp
  then have "calls = [Mute_principal (lit ''ann'')]" using calls by auto
  then show ?thesis using obs calls by blast
qed

lemma join_decisions_execute_witness:
  "\<exists>calls m'. automation_on_join demo_join_config (\<lambda>_. False) True (\<lambda>_. False) 5
       (Some (demo_user ''bob'' ''h2''))
       (snd (join_run demo_join_config (\<lambda>_. False) (take 1 demo_joins) new_join_monitor))
     = (map Inr calls, m') \<and> calls = [Enable_captcha]"
proof -
  let ?m = "snd (join_run demo_join_config (\<lambda>_. False) (take 1 demo_joins) new_join_monitor)"
  obtain results m' where obs: "automation_on_join demo_join_config (\<lambda>_. False) True (\<lambda>_. False) 5
      (Some (demo_user ''bob'' ''h2'')) ?m = (results, m')" by fastforce
  have "trim_space (u_name (demo_user ''bob'' ''h2'')) \<noteq> []" by code_simp
  from join_decisions_execute [OF this obs] obtain calls where calls: "results = map Inr calls" by blast
  have "fst (automation_on_join demo_join_config (\<lambda>_. False) True (\<lambda>_. False) 5
      (Some (demo_user ''bob'' ''h2'')) ?m) = [Inr Enable_captcha]"
    by code_simp
  then have "results = [Inr Enable_captcha]" using obs by simp
  then have "calls = [Enable_captcha]" using calls by auto
  then show ?thesis using obs calls by blast
qed

end
