(* ===== verification/KeyedLock.thy ===== *)
theory KeyedLock
  imports Prelude Transition
begin

text \<open>
  \<open>internal/agent/runtime/keyed_lock.go\<close>: one mutex per key, allocated on demand and deleted with its last
  user.  Entries are pointers in the code, so they live in a store and the map holds their numbers:
  that every user of a key gets the same entry is a theorem.  \<open>Acquire\<close> and the function it returns
  lock twice each (the locker and the entry), so each is two atomic operations; a client is the
  goroutine that runs them.
\<close>

section \<open>The locker\<close>

record lock_entry =
  e_locked :: bool
  e_refs :: int

record keyed_locker =
  l_entries :: "str \<rightharpoonup> nat"
  l_store :: "lock_entry list"

definition new_keyed_locker :: keyed_locker where
  "new_keyed_locker = \<lparr>l_entries = Map.empty, l_store = []\<rparr>"

text \<open>The first critical section of \<open>Acquire\<close>\<close>

definition acquire_entry :: "str \<Rightarrow> keyed_locker \<Rightarrow> nat \<times> keyed_locker" where
  "acquire_entry key l =
     (let (e, l1) = (case l_entries l key of
            Some e \<Rightarrow> (e, l)
          | None \<Rightarrow> (length (l_store l),
              l\<lparr>l_entries := (l_entries l)(key \<mapsto> length (l_store l)),
                l_store := l_store l @ [\<lparr>e_locked = False, e_refs = 0\<rparr>]\<rparr>))
      in (e, l1\<lparr>l_store := (l_store l1)[e := (l_store l1 ! e)\<lparr>e_refs := e_refs (l_store l1 ! e) + 1\<rparr>]\<rparr>))"

text \<open>\<open>entry.mutex.Lock\<close>, possible when it is free, and \<open>entry.mutex.Unlock\<close>\<close>

definition lock_free :: "nat \<Rightarrow> keyed_locker \<Rightarrow> bool" where
  "lock_free e l \<longleftrightarrow> \<not> e_locked (l_store l ! e)"

definition set_locked :: "bool \<Rightarrow> nat \<Rightarrow> keyed_locker \<Rightarrow> keyed_locker" where
  "set_locked b e l = l\<lparr>l_store := (l_store l)[e := (l_store l ! e)\<lparr>e_locked := b\<rparr>]\<rparr>"

text \<open>The critical section of the release function\<close>

definition drop_entry :: "str \<Rightarrow> nat \<Rightarrow> keyed_locker \<Rightarrow> keyed_locker" where
  "drop_entry key e l =
     (let l1 = l\<lparr>l_store := (l_store l)[e := (l_store l ! e)\<lparr>e_refs := e_refs (l_store l ! e) - 1\<rparr>]\<rparr>
      in if e_refs (l_store l1 ! e) = 0 \<and> l_entries l1 key = Some e
         then l1\<lparr>l_entries := (l_entries l1)(key := None)\<rparr> else l1)"

definition locker_size :: "keyed_locker \<Rightarrow> nat" where
  "locker_size l = card (dom (l_entries l))"

section \<open>Clients\<close>

datatype phase =
    Outside
  | Wanting nat
  | Holding nat
  | Leaving nat

type_synonym clients = "(str \<times> phase) list"

text \<open>Client \<open>i\<close>, with its key, moves from phase to phase; new clients arrive at any time.\<close>

inductive lock_step :: "keyed_locker \<times> clients \<Rightarrow> keyed_locker \<times> clients \<Rightarrow> bool" where
  arrive: "lock_step (l, cs) (l, cs @ [(k, Outside)])"
| want: "i < length cs \<Longrightarrow> cs ! i = (k, Outside) \<Longrightarrow> acquire_entry k l = (e, l') \<Longrightarrow>
    lock_step (l, cs) (l', cs[i := (k, Wanting e)])"
| lock: "i < length cs \<Longrightarrow> cs ! i = (k, Wanting e) \<Longrightarrow> lock_free e l \<Longrightarrow>
    lock_step (l, cs) (set_locked True e l, cs[i := (k, Holding e)])"
| unlock: "i < length cs \<Longrightarrow> cs ! i = (k, Holding e) \<Longrightarrow>
    lock_step (l, cs) (set_locked False e l, cs[i := (k, Leaving e)])"
| drop: "i < length cs \<Longrightarrow> cs ! i = (k, Leaving e) \<Longrightarrow>
    lock_step (l, cs) (drop_entry k e l, cs[i := (k, Outside)])"

definition lock_init :: "keyed_locker \<times> clients \<Rightarrow> bool" where
  "lock_init s \<longleftrightarrow> s = (new_keyed_locker, [])"

section \<open>The invariant\<close>

fun entry_of :: "phase \<Rightarrow> nat option" where
  "entry_of Outside = None"
| "entry_of (Wanting e) = Some e"
| "entry_of (Holding e) = Some e"
| "entry_of (Leaving e) = Some e"

abbreviation users :: "str \<Rightarrow> clients \<Rightarrow> nat" where
  "users k cs \<equiv> count_if (\<lambda>c. fst c = k \<and> snd c \<noteq> Outside) cs"

abbreviation holders :: "nat \<Rightarrow> clients \<Rightarrow> nat" where
  "holders e cs \<equiv> count_if (\<lambda>c. snd c = Holding e) cs"

text \<open>An entry is mapped as long as it has users, all its users have the key it is mapped under, the
  references count them, and the mutex is locked exactly by the one client that holds it.\<close>

definition entry_ok :: "keyed_locker \<Rightarrow> clients \<Rightarrow> str \<Rightarrow> nat \<Rightarrow> bool" where
  "entry_ok l cs k e \<longleftrightarrow> e < length (l_store l) \<and> 0 < users k cs
     \<and> e_refs (l_store l ! e) = int (users k cs)
     \<and> holders e cs = (if e_locked (l_store l ! e) then 1 else 0)"

definition client_ok :: "keyed_locker \<Rightarrow> str \<Rightarrow> phase \<Rightarrow> bool" where
  "client_ok l k p \<longleftrightarrow> p = Outside \<or> l_entries l k = entry_of p"

definition lock_inv :: "keyed_locker \<times> clients \<Rightarrow> bool" where
  "lock_inv s \<longleftrightarrow> (case s of (l, cs) \<Rightarrow>
     (\<forall>k e. l_entries l k = Some e \<longrightarrow> entry_ok l cs k e)
     \<and> inj_on (l_entries l) (dom (l_entries l))
     \<and> (\<forall>i < length cs. client_ok l (fst (cs ! i)) (snd (cs ! i))))"

lemma lock_inv_entry: "lock_inv (l, cs) \<Longrightarrow> l_entries l k = Some e \<Longrightarrow> entry_ok l cs k e"
  by (simp add: lock_inv_def)

lemma lock_inv_same: 
  assumes "lock_inv (l, cs)" "l_entries l k = Some e" "l_entries l k' = Some e"
  shows "k = k'"
proof -
  have "inj_on (l_entries l) (dom (l_entries l))" using assms(1) by (simp add: lock_inv_def)
  moreover have "k \<in> dom (l_entries l)" "k' \<in> dom (l_entries l)" using assms by auto
  ultimately show ?thesis using assms(2,3) by (simp add: inj_on_eq_iff [symmetric])
qed

lemma lock_inv_client:
  "lock_inv (l, cs) \<Longrightarrow> i < length cs \<Longrightarrow> cs ! i = (k, p) \<Longrightarrow> p \<noteq> Outside \<Longrightarrow> l_entries l k = entry_of p"
  unfolding lock_inv_def prod.case client_ok_def by (metis fst_conv snd_conv)

lemma lock_invI:
  assumes "\<And>k e. l_entries l k = Some e \<Longrightarrow> entry_ok l cs k e"
    and "inj_on (l_entries l) (dom (l_entries l))"
    and "\<And>i. i < length cs \<Longrightarrow> client_ok l (fst (cs ! i)) (snd (cs ! i))"
  shows "lock_inv (l, cs)"
  unfolding lock_inv_def prod.case by (intro conjI allI impI assms)

lemma lock_inv_clients:
  assumes "lock_inv (l, cs)" "c \<in> set cs" "snd c \<noteq> Outside"
  shows "l_entries l (fst c) = entry_of (snd c)"
proof -
  obtain i where "i < length cs" "cs ! i = c"
    using assms(2) by (auto simp: in_set_conv_nth)
  then show ?thesis using lock_inv_client [OF assms(1), of i "fst c" "snd c"] assms(3) by simp
qed

lemma entry_of_None: "entry_of p = None \<longleftrightarrow> p = Outside"
  by (cases p) simp_all

lemma users_unmapped:
  assumes "lock_inv (l, cs)" "l_entries l k = None"
  shows "users k cs = 0"
  unfolding count_if_0 using lock_inv_clients [OF assms(1)] assms(2) entry_of_None by metis

lemma holders_fresh:
  assumes "lock_inv (l, cs)" "\<And>k. l_entries l k \<noteq> Some e"
  shows "holders e cs = 0"
  unfolding count_if_0
proof (intro ballI notI)
  fix c assume "c \<in> set cs" "snd c = Holding e"
  then show False using lock_inv_clients [OF assms(1), of c] assms(2) by simp
qed

lemma clients_update:
  assumes "\<And>j. j < length cs \<Longrightarrow> j \<noteq> i \<Longrightarrow> client_ok l (fst (cs ! j)) (snd (cs ! j))" "client_ok l k q"
    and "j < length (cs[i := (k, q)])"
  shows "client_ok l (fst (cs[i := (k, q)] ! j)) (snd (cs[i := (k, q)] ! j))"
  using assms by (cases "j = i") simp_all

lemma lock_inv_init: "lock_init s \<Longrightarrow> lock_inv s"
  by (simp add: lock_init_def lock_inv_def new_keyed_locker_def)

lemma arrive_inv: "lock_inv (l, cs) \<Longrightarrow> lock_inv (l, cs @ [(k, Outside)])"
  by (auto simp: lock_inv_def nth_append entry_ok_def client_ok_def)

text \<open>Moving client \<open>i\<close> with key \<open>k\<close> from phase \<open>p\<close> to phase \<open>q\<close>\<close>

lemma users_move:
  assumes "i < length cs" "cs ! i = (k, p)" "p \<noteq> Outside" "q \<noteq> Outside"
  shows "users k' (cs[i := (k, q)]) = users k' cs"
  using assms by (intro count_if_update_same) auto

lemma locked_inv:
  assumes inv: "lock_inv (l, cs)" and i: "i < length cs" "cs ! i = (k, Wanting e)" and free: "lock_free e l"
  shows "lock_inv (set_locked True e l, cs[i := (k, Holding e)])"
proof -
  have entry: "l_entries l k = Some e" using lock_inv_client [OF inv i] by simp
  have users: "users k' (cs[i := (k, Holding e)]) = users k' cs" for k'
    using users_move [OF i] by simp
  have "holders e cs = 0"
    using lock_inv_entry [OF inv entry] free by (simp add: entry_ok_def lock_free_def)
  then have holders: "holders e' (cs[i := (k, Holding e)]) = (if e' = e then 1 else holders e' cs)" for e'
    using i count_if_update_in [of i cs "\<lambda>c. snd c = Holding e" "(k, Holding e)"]
      count_if_update_same [of i cs "\<lambda>c. snd c = Holding e'" "(k, Holding e)"]
    by (cases "e' = e") simp_all
  show ?thesis
  proof (rule lock_invI)
    fix k' e' assume "l_entries (set_locked True e l) k' = Some e'"
    then have "entry_ok l cs k' e'" using lock_inv_entry [OF inv] by (simp add: set_locked_def)
    then show "entry_ok (set_locked True e l) (cs[i := (k, Holding e)]) k' e'"
      by (cases "e' = e") (simp_all add: entry_ok_def set_locked_def users holders)
  next
    fix j assume "j < length (cs[i := (k, Holding e)])"
    then show "client_ok (set_locked True e l) (fst (cs[i := (k, Holding e)] ! j)) (snd (cs[i := (k, Holding e)] ! j))"
      by (rule clients_update [rotated 2]) (use inv entry in \<open>auto simp: lock_inv_def set_locked_def client_ok_def\<close>)
  qed (use inv in \<open>simp add: lock_inv_def set_locked_def\<close>)
qed

lemma unlocked_inv:
  assumes inv: "lock_inv (l, cs)" and i: "i < length cs" "cs ! i = (k, Holding e)"
  shows "lock_inv (set_locked False e l, cs[i := (k, Leaving e)])"
proof -
  have entry: "l_entries l k = Some e" using lock_inv_client [OF inv i] by simp
  have users: "users k' (cs[i := (k, Leaving e)]) = users k' cs" for k'
    using users_move [OF i] by simp
  have "0 < holders e cs"
    unfolding count_if_pos using i nth_mem [of i cs] by force
  then have one: "holders e cs = 1"
    using lock_inv_entry [OF inv entry] by (auto simp: entry_ok_def split: if_splits)
  have holders: "holders e' (cs[i := (k, Leaving e)]) = (if e' = e then 0 else holders e' cs)" for e'
    using i one count_if_update_out [of i cs "\<lambda>c. snd c = Holding e" "(k, Leaving e)"]
      count_if_update_same [of i cs "\<lambda>c. snd c = Holding e'" "(k, Leaving e)"]
    by (cases "e' = e") simp_all
  show ?thesis
  proof (rule lock_invI)
    fix k' e' assume "l_entries (set_locked False e l) k' = Some e'"
    then have "entry_ok l cs k' e'" using lock_inv_entry [OF inv] by (simp add: set_locked_def)
    then show "entry_ok (set_locked False e l) (cs[i := (k, Leaving e)]) k' e'"
      by (cases "e' = e") (simp_all add: entry_ok_def set_locked_def users holders)
  next
    fix j assume "j < length (cs[i := (k, Leaving e)])"
    then show "client_ok (set_locked False e l) (fst (cs[i := (k, Leaving e)] ! j)) (snd (cs[i := (k, Leaving e)] ! j))"
      by (rule clients_update [rotated 2]) (use inv entry in \<open>auto simp: lock_inv_def set_locked_def client_ok_def\<close>)
  qed (use inv in \<open>simp add: lock_inv_def set_locked_def\<close>)
qed

lemma wanted_inv:
  assumes inv: "lock_inv (l, cs)" and i: "i < length cs" "cs ! i = (k, Outside)" and acq: "acquire_entry k l = (e, l')"
  shows "lock_inv (l', cs[i := (k, Wanting e)])"
proof -
  have users: "users k' (cs[i := (k, Wanting e)]) = (if k' = k then Suc (users k cs) else users k' cs)" for k'
    using i count_if_update_in [of i cs "\<lambda>c. fst c = k \<and> snd c \<noteq> Outside" "(k, Wanting e)"]
      count_if_update_same [of i cs "\<lambda>c. fst c = k' \<and> snd c \<noteq> Outside" "(k, Wanting e)"]
    by (cases "k' = k") simp_all
  have holders: "holders e' (cs[i := (k, Wanting e)]) = holders e' cs" for e'
    using i by (intro count_if_update_same) auto
  show ?thesis
  proof (cases "l_entries l k")
    case (Some e1)
    then have l': "e1 = e" "l' = l\<lparr>l_store := (l_store l)[e := (l_store l ! e)\<lparr>e_refs := e_refs (l_store l ! e) + 1\<rparr>]\<rparr>"
      using acq by (auto simp: acquire_entry_def)
    show ?thesis
    proof (rule lock_invI)
      fix k' e' assume "l_entries l' k' = Some e'"
      then have k': "l_entries l k' = Some e'" by (simp add: l')
      then have "entry_ok l cs k' e'" "k' = k \<longleftrightarrow> e' = e"
        using lock_inv_entry [OF inv] lock_inv_same [OF inv] Some l'(1) by auto
      then show "entry_ok l' (cs[i := (k, Wanting e)]) k' e'"
        by (cases "e' = e") (simp_all add: entry_ok_def l' users holders)
    next
      fix j assume "j < length (cs[i := (k, Wanting e)])"
      then show "client_ok l' (fst (cs[i := (k, Wanting e)] ! j)) (snd (cs[i := (k, Wanting e)] ! j))"
        by (rule clients_update [rotated 2]) (use inv Some l' in \<open>auto simp: lock_inv_def client_ok_def\<close>)
    qed (use inv l' in \<open>simp add: lock_inv_def\<close>)
  next
    case None
    then have l': "e = length (l_store l)" "l_entries l' = (l_entries l)(k \<mapsto> e)"
        "l_store l' = l_store l @ [\<lparr>e_locked = False, e_refs = 1\<rparr>]"
      using acq by (auto simp: acquire_entry_def Let_def)
    have fresh: "l_entries l k' \<noteq> Some e" for k'
      using lock_inv_entry [OF inv, of k' e] l'(1) by (auto simp: entry_ok_def)
    show ?thesis
    proof (rule lock_invI)
      fix k' e' assume k': "l_entries l' k' = Some e'"
      show "entry_ok l' (cs[i := (k, Wanting e)]) k' e'"
      proof (cases "k' = k")
        case True
        have "e' = e" using k' l'(2) True by simp
        moreover have "e < length (l_store l')" "l_store l' ! e = \<lparr>e_locked = False, e_refs = 1\<rparr>"
          by (simp_all add: l'(1,3))
        ultimately show ?thesis
          using True users_unmapped [OF inv None] holders_fresh [OF inv fresh]
          by (simp add: entry_ok_def users holders)
      next
        case False
        then have "entry_ok l cs k' e'" using k' l'(2) lock_inv_entry [OF inv] by simp
        then show ?thesis using False by (simp add: entry_ok_def l'(3) users holders nth_append)
      qed
    next
      have "inj_on (l_entries l) (dom (l_entries l))" using inv by (simp add: lock_inv_def)
      then show "inj_on (l_entries l') (dom (l_entries l'))"
        unfolding l'(2) using fresh by (auto simp: inj_on_def)
    next
      fix j assume "j < length (cs[i := (k, Wanting e)])"
      then show "client_ok l' (fst (cs[i := (k, Wanting e)] ! j)) (snd (cs[i := (k, Wanting e)] ! j))"
      proof (rule clients_update [rotated 2])
        fix j assume "j < length cs"
        then have "client_ok l (fst (cs ! j)) (snd (cs ! j))" using inv by (simp add: lock_inv_def)
        then show "client_ok l' (fst (cs ! j)) (snd (cs ! j))"
          using None entry_of_None [of "snd (cs ! j)"] by (auto simp: client_ok_def l'(2))
      qed (simp add: client_ok_def l'(2))
    qed
  qed
qed

lemma dropped_inv:
  assumes inv: "lock_inv (l, cs)" and i: "i < length cs" "cs ! i = (k, Leaving e)"
  shows "lock_inv (drop_entry k e l, cs[i := (k, Outside)])"
proof -
  have entry: "l_entries l k = Some e" using lock_inv_client [OF inv i] by simp
  then have ok: "entry_ok l cs k e" using lock_inv_entry [OF inv] by simp
  define l1 where "l1 = l\<lparr>l_store := (l_store l)[e := (l_store l ! e)\<lparr>e_refs := e_refs (l_store l ! e) - 1\<rparr>]\<rparr>"
  have gone: "users k cs = Suc (users k (cs[i := (k, Outside)]))"
    using i by (intro count_if_update_out) simp_all
  have users: "k' \<noteq> k \<Longrightarrow> users k' (cs[i := (k, Outside)]) = users k' cs" for k'
    using i by (intro count_if_update_same) auto
  have holders: "holders e' (cs[i := (k, Outside)]) = holders e' cs" for e'
    using i by (intro count_if_update_same) auto
  have others: "entry_ok l1 (cs[i := (k, Outside)]) k' e'" if "l_entries l k' = Some e'" "k' \<noteq> k" for k' e'
  proof -
    have "e' \<noteq> e" using that lock_inv_same [OF inv entry, of k'] by auto
    then show ?thesis
      using lock_inv_entry [OF inv that(1)] that(2) by (simp add: entry_ok_def l1_def users holders)
  qed
  have refs: "e_refs (l_store l1 ! e) = int (users k (cs[i := (k, Outside)]))"
    using ok gone by (simp add: entry_ok_def l1_def)
  have drop: "drop_entry k e l = (if users k (cs[i := (k, Outside)]) = 0
      then l1\<lparr>l_entries := (l_entries l1)(k := None)\<rparr> else l1)"
    using refs entry by (simp add: drop_entry_def l1_def [symmetric]) (simp add: l1_def)
  have inj: "inj_on (l_entries l) (dom (l_entries l))" using inv by (simp add: lock_inv_def)
  show ?thesis
  proof (rule lock_invI)
    fix k' e' assume k': "l_entries (drop_entry k e l) k' = Some e'"
    then have mapped: "l_entries l k' = Some e'" by (auto simp: drop l1_def split: if_splits)
    have "entry_ok l1 (cs[i := (k, Outside)]) k' e'"
    proof (cases "k' = k")
      case True
      then have "users k (cs[i := (k, Outside)]) \<noteq> 0" "e' = e"
        using k' entry by (auto simp: drop l1_def split: if_splits)
      then show ?thesis using True ok refs holders by (simp add: entry_ok_def l1_def)
    qed (rule others [OF mapped])
    then show "entry_ok (drop_entry k e l) (cs[i := (k, Outside)]) k' e'"
      by (simp add: drop entry_ok_def)
  next
    show "inj_on (l_entries (drop_entry k e l)) (dom (l_entries (drop_entry k e l)))"
      using inj by (auto simp: drop l1_def inj_on_def dom_def)
  next
    fix j assume "j < length (cs[i := (k, Outside)])"
    then show "client_ok (drop_entry k e l) (fst (cs[i := (k, Outside)] ! j)) (snd (cs[i := (k, Outside)] ! j))"
    proof (rule clients_update [rotated 2])
      fix j assume j: "j < length cs" "j \<noteq> i"
      then have old: "client_ok l (fst (cs ! j)) (snd (cs ! j))" using inv by (simp add: lock_inv_def)
      show "client_ok (drop_entry k e l) (fst (cs ! j)) (snd (cs ! j))"
      proof (cases "users k (cs[i := (k, Outside)]) = 0")
        case True
        have "cs ! j \<in> set (cs[i := (k, Outside)])"
          using j by (metis length_list_update nth_list_update_neq nth_mem)
        then have "\<not> (fst (cs ! j) = k \<and> snd (cs ! j) \<noteq> Outside)"
          using True unfolding count_if_0 by blast
        then show ?thesis using old True by (auto simp: drop l1_def client_ok_def)
      qed (use old in \<open>simp add: drop l1_def client_ok_def\<close>)
    qed (simp add: client_ok_def)
  qed
qed

lemma lock_inv_step: "lock_inv s \<Longrightarrow> lock_step s t \<Longrightarrow> lock_inv t"
  by (erule lock_step.cases) (auto intro: arrive_inv wanted_inv locked_inv unlocked_inv dropped_inv)

interpretation locker: invariant_of lock_init lock_step lock_inv
  by unfold_locales (fact lock_inv_init, erule (1) lock_inv_step)

lemma one_holder_per_key:
  assumes inv: "lock_inv (l, cs)"
  shows "count_if (\<lambda>c. fst c = k \<and> (\<exists>e. snd c = Holding e)) cs \<le> 1"
proof (cases "l_entries l k")
  case None
  have "count_if (\<lambda>c. fst c = k \<and> (\<exists>e. snd c = Holding e)) cs \<le> users k cs"
    by (rule count_if_mono) auto
  then show ?thesis using users_unmapped [OF inv None] by simp
next
  case (Some e)
  have "count_if (\<lambda>c. fst c = k \<and> (\<exists>e. snd c = Holding e)) cs \<le> holders e cs"
    using lock_inv_clients [OF inv] Some by (intro count_if_mono) fastforce
  moreover have "holders e cs \<le> 1"
    using lock_inv_entry [OF inv Some] by (auto simp: entry_ok_def)
  ultimately show ?thesis by simp
qed

lemma mapped_iff_used:
  assumes inv: "lock_inv (l, cs)"
  shows "l_entries l k \<noteq> None \<longleftrightarrow> (\<exists>c \<in> set cs. fst c = k \<and> snd c \<noteq> Outside)"
proof (cases "l_entries l k")
  case None
  then show ?thesis using users_unmapped [OF inv None] unfolding count_if_0 by blast
next
  case (Some e)
  then have "0 < users k cs" using lock_inv_entry [OF inv] by (simp add: entry_ok_def)
  then show ?thesis using Some unfolding count_if_pos by blast
qed

section \<open>Properties\<close>

text \<open>C16. Mutual exclusion per key, and no leak.  However the goroutines interleave, at most one of them is
  between \<open>Acquire(key)\<close> and the release for the same key, and the locker holds an entry for exactly
  the keys some goroutine is using: the map is empty again when nobody is inside.\<close>

theorem keyed_lock_excludes:
  assumes "lock_init s" "lock_step\<^sup>*\<^sup>* s (l, cs)"
  shows "count_if (\<lambda>c. fst c = k \<and> (\<exists>e. snd c = Holding e)) cs \<le> 1
    \<and> (l_entries l k \<noteq> None \<longleftrightarrow> (\<exists>c \<in> set cs. fst c = k \<and> snd c \<noteq> Outside))"
  using one_holder_per_key mapped_iff_used locker.inv_reachable [OF assms] by blast

text \<open>Three goroutines, two of them with the same key: the second waits for the first.\<close>

definition demo_locker :: "keyed_locker \<times> clients" where
  "demo_locker =
     (let k = [107]; (e, l1) = acquire_entry k new_keyed_locker; (_, l2) = acquire_entry k l1;
          (f, l3) = acquire_entry [109] l2
      in (set_locked True e l3, [(k, Holding e), (k, Wanting e), ([109], Wanting f)]))"

lemma demo_locker_run: "lock_step\<^sup>*\<^sup>* (new_keyed_locker, []) demo_locker"
proof -
  let ?k = "[107] :: str" and ?m = "[109] :: str"
  obtain e l1 where a1: "acquire_entry ?k new_keyed_locker = (e, l1)" by fastforce
  obtain e2 l2 where a2: "acquire_entry ?k l1 = (e2, l2)" by fastforce
  obtain f l3 where a3: "acquire_entry ?m l2 = (f, l3)" by fastforce
  have e: "e = 0" "e2 = 0" "f = 1" "lock_free 0 l3"
    using a1 a2 a3 by (auto simp: acquire_entry_def new_keyed_locker_def lock_free_def)
  have "lock_step (new_keyed_locker, []) (new_keyed_locker, [(?k, Outside)])"
    using lock_step.arrive [of _ "[]"] by simp
  moreover have "lock_step (new_keyed_locker, [(?k, Outside)]) (new_keyed_locker, [(?k, Outside), (?k, Outside)])"
    using lock_step.arrive [of _ "[(?k, Outside)]"] by simp
  moreover have "lock_step (new_keyed_locker, [(?k, Outside), (?k, Outside)])
      (new_keyed_locker, [(?k, Outside), (?k, Outside), (?m, Outside)])"
    using lock_step.arrive [of _ "[(?k, Outside), (?k, Outside)]"] by simp
  moreover have "lock_step (new_keyed_locker, [(?k, Outside), (?k, Outside), (?m, Outside)])
      (l1, [(?k, Wanting 0), (?k, Outside), (?m, Outside)])"
    using lock_step.want [of 0 "[(?k, Outside), (?k, Outside), (?m, Outside)]", OF _ _ a1] e by simp
  moreover have "lock_step (l1, [(?k, Wanting 0), (?k, Outside), (?m, Outside)])
      (l2, [(?k, Wanting 0), (?k, Wanting 0), (?m, Outside)])"
    using lock_step.want [of 1 "[(?k, Wanting 0), (?k, Outside), (?m, Outside)]", OF _ _ a2] e by simp
  moreover have "lock_step (l2, [(?k, Wanting 0), (?k, Wanting 0), (?m, Outside)])
      (l3, [(?k, Wanting 0), (?k, Wanting 0), (?m, Wanting 1)])"
    using lock_step.want [of 2 "[(?k, Wanting 0), (?k, Wanting 0), (?m, Outside)]", OF _ _ a3] e by simp
  moreover have "lock_step (l3, [(?k, Wanting 0), (?k, Wanting 0), (?m, Wanting 1)]) demo_locker"
    using lock_step.lock [of 0 "[(?k, Wanting 0), (?k, Wanting 0), (?m, Wanting 1)]" ?k 0 l3] a1 a2 a3 e
    by (simp add: demo_locker_def Let_def)
  ultimately show ?thesis by (meson rtranclp.rtrancl_refl rtranclp.rtrancl_into_rtrancl)
qed

lemma keyed_lock_excludes_witness:
  "count_if (\<lambda>c. fst c = [107] \<and> (\<exists>e. snd c = Holding e)) (snd demo_locker) \<le> 1
   \<and> l_entries (fst demo_locker) [107] \<noteq> None"
proof -
  have "lock_init (new_keyed_locker, [])" by (simp add: lock_init_def)
  moreover have "lock_step\<^sup>*\<^sup>* (new_keyed_locker, []) (fst demo_locker, snd demo_locker)"
    using demo_locker_run by simp
  moreover have "\<exists>c \<in> set (snd demo_locker). fst c = [107] \<and> snd c \<noteq> Outside"
    by (simp add: demo_locker_def Let_def split: prod.split)
  ultimately show ?thesis using keyed_lock_excludes by blast
qed

end
