(* ===== verification/Runtime.thy ===== *)
theory Runtime
  imports Context KeyedLock
begin

text \<open>
  \<open>internal/agent/runtime/runtime.go\<close>: bounded admission, the workers, the executions they spawn and the
  ambient lane.  Channels are a list (\<open>jobs\<close>) and counters of tokens (\<open>slots\<close>, \<open>admission\<close>); each
  execution is a goroutine with a program counter; \<open>closed\<close> and the cancellation of \<open>rt.ctx\<close> happen under
  one lock, so one flag stands for both.  The per-key lock is that of \<open>KeyedLock\<close>.
\<close>

section \<open>State\<close>

text \<open>Where an execution is: in the channel, spawned, waiting for the lock of entry \<open>e\<close>, holding it and waiting for
  a slot, in the runner with lock and slot, holding only the lock again, unlocked but still
  referring to the entry, with only its admission token left to return, done.\<close>

datatype pc =
    Queued
  | Spawned
  | Want nat
  | Hold nat
  | Run nat
  | Slot_freed nat
  | Leave nat
  | Released
  | Done

record job =
  j_inv :: rt_invocation
  j_admitted :: bool
  j_pc :: pc

text \<open>The goroutine \<open>drainAmbient\<close>: absent, in \<open>waitForOrdinary\<close>, before its critical section, executing a job\<close>

datatype drain =
    No_drain
  | Drain_wait
  | Drain_take
  | Drain_run nat

record runtime =
  rt_max :: nat
  rt_capacity :: nat
  rt_closed :: bool
  rt_queue :: "nat list"
  rt_admission :: nat
  rt_slots :: nat
  rt_workers :: nat
  rt_locks :: keyed_locker
  rt_jobs :: "job list"
  rt_ambient :: "rt_invocation option"
  rt_scheduled :: bool
  rt_drain :: drain

datatype rt_error =
    Err_busy
  | Err_closed
  | Err_invalid api_error
  | Err_not_ambient
  | Err_config

text \<open>\<open>NewWithFailureSink\<close> without the nil runner; the capacity is that of both channels.\<close>

definition new_runtime :: "int \<Rightarrow> int \<Rightarrow> duration \<Rightarrow> rt_error + runtime" where
  "new_runtime max_concurrent queue_capacity request_timeout =
     (if max_concurrent < 1 \<or> queue_capacity < 0 \<or> request_timeout < 0 then Inl Err_config
      else Inr \<lparr>rt_max = nat max_concurrent, rt_capacity = nat (max_concurrent + queue_capacity), rt_closed = False,
        rt_queue = [], rt_admission = 0, rt_slots = 0, rt_workers = nat max_concurrent,
        rt_locks = new_keyed_locker, rt_jobs = [], rt_ambient = None, rt_scheduled = False, rt_drain = No_drain\<rparr>)"

section \<open>Admission\<close>

text \<open>\<open>Submit\<close>: the new job is number \<open>length (rt_jobs rt)\<close>.\<close>

definition submit :: "rt_invocation \<Rightarrow> runtime \<Rightarrow> rt_error option \<times> runtime" where
  "submit v rt =
     (case validate_invocation v of Some e \<Rightarrow> (Some (Err_invalid e), rt)
      | None \<Rightarrow>
        if rt_closed rt then (Some Err_closed, rt)
        else if \<not> rt_admission rt < rt_capacity rt then (Some Err_busy, rt)
        else
          let rt1 = rt\<lparr>rt_admission := rt_admission rt + 1\<rparr>
          in if length (rt_queue rt1) < rt_capacity rt1
             then (None, rt1\<lparr>rt_queue := rt_queue rt1 @ [length (rt_jobs rt1)],
                     rt_jobs := rt_jobs rt1 @ [\<lparr>j_inv = v, j_admitted = True, j_pc = Queued\<rparr>]\<rparr>)
             else (Some Err_busy, rt1\<lparr>rt_admission := rt_admission rt1 - 1\<rparr>))"

definition submit_ambient :: "rt_invocation \<Rightarrow> runtime \<Rightarrow> rt_error option \<times> runtime" where
  "submit_ambient v rt =
     (case validate_invocation v of Some e \<Rightarrow> (Some (Err_invalid e), rt)
      | None \<Rightarrow>
        if v_mode v \<noteq> AMBIENT then (Some Err_not_ambient, rt)
        else if rt_closed rt then (Some Err_closed, rt)
        else
          let rt1 = rt\<lparr>rt_ambient := Some v\<rparr>
          in if rt_scheduled rt1 then (None, rt1)
             else (None, rt1\<lparr>rt_scheduled := True, rt_drain := Drain_take\<rparr>))"

text \<open>\<open>APIBridge.Submit\<close>\<close>

definition bridge_submit :: "time \<Rightarrow> api_invocation \<Rightarrow> runtime \<Rightarrow> rt_error option \<times> runtime" where
  "bridge_submit now a rt =
     (let v = from_api_invocation now a
      in if v_mode v = AMBIENT then submit_ambient v rt else submit v rt)"

definition close_runtime :: "runtime \<Rightarrow> runtime" where
  "close_runtime rt = (if rt_closed rt then rt else rt\<lparr>rt_closed := True, rt_ambient := None\<rparr>)"

text \<open>What \<open>Close\<close> waits for: the workers, the executions they spawned and the ambient lane\<close>

definition quiescent :: "runtime \<Rightarrow> bool" where
  "quiescent rt \<longleftrightarrow> rt_workers rt = 0 \<and> rt_drain rt = No_drain
     \<and> list_all (\<lambda>j. j_pc j = Queued \<or> j_pc j = Done) (rt_jobs rt)"

section \<open>Executions\<close>

definition set_pc :: "nat \<Rightarrow> pc \<Rightarrow> runtime \<Rightarrow> runtime" where
  "set_pc i p rt = rt\<lparr>rt_jobs := (rt_jobs rt)[i := (rt_jobs rt ! i)\<lparr>j_pc := p\<rparr>]\<rparr>"

definition job_key :: "job \<Rightarrow> str" where
  "job_key j = rt_memory_key (v_context (j_inv j))"

definition pc_of :: "runtime \<Rightarrow> nat \<Rightarrow> pc" where
  "pc_of rt i = j_pc (rt_jobs rt ! i)"

text \<open>A worker receives from \<open>jobs\<close> and spawns the execution.\<close>

definition worker_take :: "runtime \<Rightarrow> runtime" where
  "worker_take rt = set_pc (hd (rt_queue rt)) Spawned (rt\<lparr>rt_queue := tl (rt_queue rt)\<rparr>)"

text \<open>\<open>execute\<close>: the two halves of \<open>Acquire\<close>, the slot (or cancellation), the return of the runner and of the
  delivery after it, and the deferred calls in the reverse order of their registration\<close>

definition exec_want :: "nat \<Rightarrow> runtime \<Rightarrow> runtime" where
  "exec_want i rt =
     (let (e, l) = acquire_entry (job_key (rt_jobs rt ! i)) (rt_locks rt)
      in set_pc i (Want e) (rt\<lparr>rt_locks := l\<rparr>))"

definition exec_lock :: "nat \<Rightarrow> nat \<Rightarrow> runtime \<Rightarrow> runtime" where
  "exec_lock i e rt = set_pc i (Hold e) (rt\<lparr>rt_locks := set_locked True e (rt_locks rt)\<rparr>)"

definition exec_slot :: "nat \<Rightarrow> nat \<Rightarrow> runtime \<Rightarrow> runtime" where
  "exec_slot i e rt = set_pc i (Run e) (rt\<lparr>rt_slots := rt_slots rt + 1\<rparr>)"

definition exec_return :: "nat \<Rightarrow> nat \<Rightarrow> runtime \<Rightarrow> runtime" where
  "exec_return i e rt = set_pc i (Slot_freed e) (rt\<lparr>rt_slots := rt_slots rt - 1\<rparr>)"

definition exec_unlock :: "nat \<Rightarrow> nat \<Rightarrow> runtime \<Rightarrow> runtime" where
  "exec_unlock i e rt = set_pc i (Leave e) (rt\<lparr>rt_locks := set_locked False e (rt_locks rt)\<rparr>)"

definition exec_drop :: "nat \<Rightarrow> nat \<Rightarrow> runtime \<Rightarrow> runtime" where
  "exec_drop i e rt = set_pc i Released (rt\<lparr>rt_locks := drop_entry (job_key (rt_jobs rt ! i)) e (rt_locks rt)\<rparr>)"

definition exec_done :: "nat \<Rightarrow> runtime \<Rightarrow> runtime" where
  "exec_done i rt = set_pc i Done
     (if j_admitted (rt_jobs rt ! i) then rt\<lparr>rt_admission := rt_admission rt - 1\<rparr> else rt)"

text \<open>The critical section of \<open>drainAmbient\<close>; every stored invocation has a request identifier, so \<open>None\<close> is the
  empty one.\<close>

definition drain_take :: "runtime \<Rightarrow> runtime" where
  "drain_take rt =
     (if rt_closed rt then rt\<lparr>rt_ambient := None, rt_scheduled := False, rt_drain := No_drain\<rparr>
      else case rt_ambient rt of
        None \<Rightarrow> rt\<lparr>rt_scheduled := False, rt_drain := No_drain\<rparr>
      | Some v \<Rightarrow> rt\<lparr>rt_ambient := None, rt_drain := Drain_run (length (rt_jobs rt)),
          rt_jobs := rt_jobs rt @ [\<lparr>j_inv = v, j_admitted = False, j_pc = Spawned\<rparr>]\<rparr>)"

section \<open>Steps\<close>

text \<open>What the runtime does on its own, granted that runners and sinks return\<close>

inductive own_step :: "runtime \<Rightarrow> runtime \<Rightarrow> bool" where
  take: "0 < rt_workers rt \<Longrightarrow> rt_queue rt \<noteq> [] \<Longrightarrow> own_step rt (worker_take rt)"
| exit: "rt_closed rt \<Longrightarrow> 0 < rt_workers rt \<Longrightarrow> own_step rt (rt\<lparr>rt_workers := rt_workers rt - 1\<rparr>)"
| want: "i < length (rt_jobs rt) \<Longrightarrow> pc_of rt i = Spawned \<Longrightarrow> own_step rt (exec_want i rt)"
| lock: "i < length (rt_jobs rt) \<Longrightarrow> pc_of rt i = Want e \<Longrightarrow> lock_free e (rt_locks rt) \<Longrightarrow> own_step rt (exec_lock i e rt)"
| slot: "i < length (rt_jobs rt) \<Longrightarrow> pc_of rt i = Hold e \<Longrightarrow> rt_slots rt < rt_max rt \<Longrightarrow> own_step rt (exec_slot i e rt)"
| abort: "i < length (rt_jobs rt) \<Longrightarrow> pc_of rt i = Hold e \<Longrightarrow> rt_closed rt \<Longrightarrow> own_step rt (set_pc i (Slot_freed e) rt)"
| return: "i < length (rt_jobs rt) \<Longrightarrow> pc_of rt i = Run e \<Longrightarrow> own_step rt (exec_return i e rt)"
| unlock: "i < length (rt_jobs rt) \<Longrightarrow> pc_of rt i = Slot_freed e \<Longrightarrow> own_step rt (exec_unlock i e rt)"
| drop: "i < length (rt_jobs rt) \<Longrightarrow> pc_of rt i = Leave e \<Longrightarrow> own_step rt (exec_drop i e rt)"
| done1: "i < length (rt_jobs rt) \<Longrightarrow> pc_of rt i = Released \<Longrightarrow> own_step rt (exec_done i rt)"
| ordinary: "rt_drain rt = Drain_wait \<Longrightarrow> rt_admission rt = 0 \<or> rt_closed rt \<Longrightarrow> own_step rt (rt\<lparr>rt_drain := Drain_take\<rparr>)"
| ambient: "rt_drain rt = Drain_take \<Longrightarrow> own_step rt (drain_take rt)"
| executed: "rt_drain rt = Drain_run i \<Longrightarrow> pc_of rt i = Done \<Longrightarrow> own_step rt (rt\<lparr>rt_drain := Drain_wait\<rparr>)"

inductive rt_step :: "runtime \<Rightarrow> runtime \<Rightarrow> bool" where
  submit: "rt_step rt (snd (submit v rt))"
| submit_ambient: "rt_step rt (snd (submit_ambient v rt))"
| close: "rt_step rt (close_runtime rt)"
| own: "own_step rt rt' \<Longrightarrow> rt_step rt rt'"

definition rt_init :: "runtime \<Rightarrow> bool" where
  "rt_init rt \<longleftrightarrow> (\<exists>m q t. new_runtime m q t = Inr rt)"

section \<open>The invariant\<close>

text \<open>An execution seen as a client of the keyed lock\<close>

fun view :: "pc \<Rightarrow> phase" where
  "view (Want e) = Wanting e"
| "view (Hold e) = Holding e"
| "view (Run e) = Holding e"
| "view (Slot_freed e) = Holding e"
| "view (Leave e) = Leaving e"
| "view _ = Outside"

definition views :: "job list \<Rightarrow> clients" where
  "views js = map (\<lambda>j. (job_key j, view (j_pc j))) js"

fun is_run :: "pc \<Rightarrow> bool" where
  "is_run (Run e) = True"
| "is_run _ = False"

definition slots_ok :: "nat \<Rightarrow> nat \<Rightarrow> job list \<Rightarrow> bool" where
  "slots_ok mx slots js \<longleftrightarrow> slots = count_if (\<lambda>j. is_run (j_pc j)) js \<and> slots \<le> mx \<and> 0 < mx"

definition admission_ok :: "nat \<Rightarrow> nat \<Rightarrow> job list \<Rightarrow> bool" where
  "admission_ok cap admission js \<longleftrightarrow>
     admission = count_if (\<lambda>j. j_admitted j \<and> j_pc j \<noteq> Done) js \<and> admission \<le> cap"

definition queue_ok :: "nat list \<Rightarrow> job list \<Rightarrow> bool" where
  "queue_ok q js \<longleftrightarrow> distinct q \<and> (\<forall>i. i \<in> set q \<longleftrightarrow> i < length js \<and> j_pc (js ! i) = Queued)
     \<and> (\<forall>i \<in> set q. j_admitted (js ! i))"

definition ambient_ok :: "bool \<Rightarrow> bool \<Rightarrow> rt_invocation option \<Rightarrow> drain \<Rightarrow> job list \<Rightarrow> bool" where
  "ambient_ok shut scheduled pending d js \<longleftrightarrow>
     (scheduled \<longleftrightarrow> d \<noteq> No_drain) \<and> (d = No_drain \<or> shut \<longrightarrow> pending = None)
     \<and> (case d of Drain_run i \<Rightarrow> i < length js \<and> \<not> j_admitted (js ! i) | _ \<Rightarrow> True)
     \<and> (\<forall>i < length js. \<not> j_admitted (js ! i) \<and> j_pc (js ! i) \<noteq> Done \<longrightarrow> d = Drain_run i)"

definition rt_inv :: "runtime \<Rightarrow> bool" where
  "rt_inv rt \<longleftrightarrow> lock_inv (rt_locks rt, views (rt_jobs rt))
     \<and> slots_ok (rt_max rt) (rt_slots rt) (rt_jobs rt)
     \<and> admission_ok (rt_capacity rt) (rt_admission rt) (rt_jobs rt)
     \<and> queue_ok (rt_queue rt) (rt_jobs rt)
     \<and> ambient_ok (rt_closed rt) (rt_scheduled rt) (rt_ambient rt) (rt_drain rt) (rt_jobs rt)
     \<and> (\<not> rt_closed rt \<longrightarrow> rt_workers rt = rt_max rt)"

lemma rt_inv_init: "rt_init rt \<Longrightarrow> rt_inv rt"
  by (auto simp: rt_init_def new_runtime_def rt_inv_def lock_inv_def views_def new_keyed_locker_def slots_ok_def
      admission_ok_def queue_ok_def ambient_ok_def split: if_splits)

lemma queue_length:
  assumes "queue_ok q js"
  shows "length q = count_if (\<lambda>j. j_pc j = Queued) js"
proof -
  have "set q = {i. i < length js \<and> j_pc (js ! i) = Queued}" using assms by (auto simp: queue_ok_def)
  then show ?thesis
    using assms distinct_card [of q] by (simp add: queue_ok_def count_if_def length_filter_conv_card)
qed

subsection \<open>Moving one execution\<close>

lemma views_move: "views (js[i := (js ! i)\<lparr>j_pc := p\<rparr>]) = (views js)[i := (job_key (js ! i), view p)]"
  by (simp add: views_def map_update job_key_def)

lemma slots_move:
  assumes "slots_ok mx s js" "i < length js"
    and "s' + (if is_run (j_pc (js ! i)) then 1 else 0) = s + (if is_run p then 1 else 0)" "s' \<le> mx"
  shows "slots_ok mx s' (js[i := (js ! i)\<lparr>j_pc := p\<rparr>])"
  using assms count_if_update [of i js "\<lambda>j. is_run (j_pc j)" "(js ! i)\<lparr>j_pc := p\<rparr>"]
  by (simp add: slots_ok_def)

lemma admission_move:
  assumes "admission_ok cap a js" "i < length js" "j_pc (js ! i) \<noteq> Done" "p \<noteq> Done"
  shows "admission_ok cap a (js[i := (js ! i)\<lparr>j_pc := p\<rparr>])"
  using assms count_if_update_same [of i js "\<lambda>j. j_admitted j \<and> j_pc j \<noteq> Done" "(js ! i)\<lparr>j_pc := p\<rparr>"]
  by (simp add: admission_ok_def)

lemma queue_move:
  assumes "queue_ok q js" "i < length js" "j_pc (js ! i) \<noteq> Queued" "p \<noteq> Queued"
  shows "queue_ok q (js[i := (js ! i)\<lparr>j_pc := p\<rparr>])"
  using assms by (auto simp: queue_ok_def nth_list_update)

lemma ambient_move:
  assumes "ambient_ok c s a d js" "i < length js" "j_pc (js ! i) \<noteq> Done"
  shows "ambient_ok c s a d (js[i := (js ! i)\<lparr>j_pc := p\<rparr>])"
  using assms by (auto simp: ambient_ok_def nth_list_update split: drain.splits)

lemma views_nth: "i < length js \<Longrightarrow> views js ! i = (job_key (js ! i), view (j_pc (js ! i)))"
  by (simp add: views_def)

lemma length_views [simp]: "length (views js) = length js"
  by (simp add: views_def)

lemma move_inv:
  assumes inv: "rt_inv rt" and i: "i < length (rt_jobs rt)"
    and pc: "pc_of rt i \<noteq> Queued" "pc_of rt i \<noteq> Done" "p \<noteq> Queued" "p \<noteq> Done"
    and lock: "lock_inv (l, (views (rt_jobs rt))[i := (job_key (rt_jobs rt ! i), view p)])"
    and slots: "s + (if is_run (pc_of rt i) then 1 else 0) = rt_slots rt + (if is_run p then 1 else 0)" "s \<le> rt_max rt"
  shows "rt_inv (set_pc i p (rt\<lparr>rt_locks := l, rt_slots := s\<rparr>))"
  using inv i pc lock slots
  by (simp add: rt_inv_def set_pc_def pc_of_def views_move slots_move [of _ "rt_slots rt"] admission_move queue_move ambient_move)

lemma move_view_inv:
  assumes inv: "rt_inv rt" and i: "i < length (rt_jobs rt)"
    and pc: "pc_of rt i \<noteq> Queued" "pc_of rt i \<noteq> Done" "p \<noteq> Queued" "p \<noteq> Done"
    and "view p = view (pc_of rt i)"
    and slots: "s + (if is_run (pc_of rt i) then 1 else 0) = rt_slots rt + (if is_run p then 1 else 0)" "s \<le> rt_max rt"
  shows "rt_inv (set_pc i p (rt\<lparr>rt_slots := s\<rparr>))"
proof -
  have "(views (rt_jobs rt))[i := (job_key (rt_jobs rt ! i), view p)] = views (rt_jobs rt)"
    using assms(7) views_nth [OF i] by (simp add: pc_of_def list_update_same_conv i)
  then show ?thesis
    using move_inv [OF inv i pc, of "rt_locks rt"] inv slots by (simp add: rt_inv_def)
qed

lemma slots_bounds:
  assumes "rt_inv rt"
  shows "rt_slots rt \<le> rt_max rt" "i < length (rt_jobs rt) \<Longrightarrow> pc_of rt i = Run e \<Longrightarrow> 0 < rt_slots rt"
proof -
  show "rt_slots rt \<le> rt_max rt" using assms by (simp add: rt_inv_def slots_ok_def)
  assume i: "i < length (rt_jobs rt)" "pc_of rt i = Run e"
  then have "0 < count_if (\<lambda>j. is_run (j_pc j)) (rt_jobs rt)"
    unfolding count_if_pos by (intro bexI [of _ "rt_jobs rt ! i"]) (simp_all add: pc_of_def)
  then show "0 < rt_slots rt" using assms by (simp add: rt_inv_def slots_ok_def)
qed

lemma client_view: "i < length (rt_jobs rt) \<Longrightarrow> pc_of rt i = p \<Longrightarrow>
    views (rt_jobs rt) ! i = (job_key (rt_jobs rt ! i), view p)"
  by (auto simp: views_nth pc_of_def)

lemma want_inv:
  assumes inv: "rt_inv rt" and i: "i < length (rt_jobs rt)" "pc_of rt i = Spawned"
  shows "rt_inv (exec_want i rt)"
proof -
  obtain e l where acq: "acquire_entry (job_key (rt_jobs rt ! i)) (rt_locks rt) = (e, l)" by fastforce
  have "lock_inv (rt_locks rt, views (rt_jobs rt))" using inv by (simp add: rt_inv_def)
  then have "lock_inv (l, (views (rt_jobs rt))[i := (job_key (rt_jobs rt ! i), Wanting e)])"
    using wanted_inv acq i client_view [OF i] by simp
  then show ?thesis
    using move_inv [OF inv i(1), of "Want e" l "rt_slots rt"] i slots_bounds [OF inv] by (simp add: exec_want_def acq)
qed

lemma lock_step_inv:
  assumes inv: "rt_inv rt" and i: "i < length (rt_jobs rt)" "pc_of rt i = Want e" and free: "lock_free e (rt_locks rt)"
  shows "rt_inv (exec_lock i e rt)"
proof -
  have "lock_inv (rt_locks rt, views (rt_jobs rt))" using inv by (simp add: rt_inv_def)
  then have "lock_inv (set_locked True e (rt_locks rt), (views (rt_jobs rt))[i := (job_key (rt_jobs rt ! i), Holding e)])"
    using locked_inv free i client_view [OF i] by simp
  then show ?thesis
    using move_inv [OF inv i(1), of "Hold e" _ "rt_slots rt"] i slots_bounds [OF inv] by (simp add: exec_lock_def)
qed

lemma slot_inv:
  assumes inv: "rt_inv rt" and i: "i < length (rt_jobs rt)" "pc_of rt i = Hold e" and free: "rt_slots rt < rt_max rt"
  shows "rt_inv (exec_slot i e rt)"
  using move_view_inv [OF inv i(1), of "Run e" "rt_slots rt + 1"] i free by (simp add: exec_slot_def)

lemma abort_inv:
  assumes inv: "rt_inv rt" and i: "i < length (rt_jobs rt)" "pc_of rt i = Hold e"
  shows "rt_inv (set_pc i (Slot_freed e) rt)"
  using move_view_inv [OF inv i(1), of "Slot_freed e" "rt_slots rt"] i slots_bounds [OF inv] by simp

lemma return_inv:
  assumes inv: "rt_inv rt" and i: "i < length (rt_jobs rt)" "pc_of rt i = Run e"
  shows "rt_inv (exec_return i e rt)"
  using move_view_inv [OF inv i(1), of "Slot_freed e" "rt_slots rt - 1"] i slots_bounds [OF inv] by (simp add: exec_return_def)

lemma unlock_inv:
  assumes inv: "rt_inv rt" and i: "i < length (rt_jobs rt)" "pc_of rt i = Slot_freed e"
  shows "rt_inv (exec_unlock i e rt)"
proof -
  have "lock_inv (rt_locks rt, views (rt_jobs rt))" using inv by (simp add: rt_inv_def)
  then have "lock_inv (set_locked False e (rt_locks rt), (views (rt_jobs rt))[i := (job_key (rt_jobs rt ! i), Leaving e)])"
    using unlocked_inv i client_view [OF i] by simp
  then show ?thesis
    using move_inv [OF inv i(1), of "Leave e" _ "rt_slots rt"] i slots_bounds [OF inv] by (simp add: exec_unlock_def)
qed

lemma drop_inv:
  assumes inv: "rt_inv rt" and i: "i < length (rt_jobs rt)" "pc_of rt i = Leave e"
  shows "rt_inv (exec_drop i e rt)"
proof -
  have "lock_inv (rt_locks rt, views (rt_jobs rt))" using inv by (simp add: rt_inv_def)
  then have "lock_inv (drop_entry (job_key (rt_jobs rt ! i)) e (rt_locks rt), (views (rt_jobs rt))[i := (job_key (rt_jobs rt ! i), Outside)])"
    using dropped_inv i client_view [OF i] by simp
  then show ?thesis
    using move_inv [OF inv i(1), of Released _ "rt_slots rt"] i slots_bounds [OF inv] by (simp add: exec_drop_def)
qed

lemma same_view:
  "i < length js \<Longrightarrow> view p = view (j_pc (js ! i)) \<Longrightarrow> views (js[i := (js ! i)\<lparr>j_pc := p\<rparr>]) = views js"
  by (simp add: views_move list_update_same_conv views_nth)

lemma done_inv:
  assumes inv: "rt_inv rt" and i: "i < length (rt_jobs rt)" "pc_of rt i = Released"
  shows "rt_inv (exec_done i rt)"
proof -
  let ?js = "(rt_jobs rt)[i := (rt_jobs rt ! i)\<lparr>j_pc := Done\<rparr>]"
  have pc: "j_pc (rt_jobs rt ! i) = Released" using i by (simp add: pc_of_def)
  have "admission_ok (rt_capacity rt) (if j_admitted (rt_jobs rt ! i) then rt_admission rt - 1 else rt_admission rt) ?js"
    using inv i pc count_if_update [of i "rt_jobs rt" "\<lambda>j. j_admitted j \<and> j_pc j \<noteq> Done" "(rt_jobs rt ! i)\<lparr>j_pc := Done\<rparr>"]
    by (auto simp: rt_inv_def admission_ok_def)
  moreover have "slots_ok (rt_max rt) (rt_slots rt) ?js" "queue_ok (rt_queue rt) ?js" "views ?js = views (rt_jobs rt)"
      "ambient_ok (rt_closed rt) (rt_scheduled rt) (rt_ambient rt) (rt_drain rt) ?js"
    using inv i pc slots_move [of "rt_max rt" "rt_slots rt" "rt_jobs rt" i "rt_slots rt" Done]
    by (simp_all add: rt_inv_def queue_move ambient_move same_view slots_ok_def)
  ultimately show ?thesis
    using inv by (cases "j_admitted (rt_jobs rt ! i)") (simp_all add: rt_inv_def exec_done_def set_pc_def)
qed

lemma take_inv:
  assumes inv: "rt_inv rt" and q: "rt_queue rt \<noteq> []"
  shows "rt_inv (worker_take rt)"
proof -
  obtain i q' where q': "rt_queue rt = i # q'" using q by (cases "rt_queue rt") auto
  let ?js = "(rt_jobs rt)[i := (rt_jobs rt ! i)\<lparr>j_pc := Spawned\<rparr>]"
  have i: "i < length (rt_jobs rt)" "j_pc (rt_jobs rt ! i) = Queued"
    using inv q' by (auto simp: rt_inv_def queue_ok_def)
  have "queue_ok q' ?js"
    using inv q' i by (auto simp: rt_inv_def queue_ok_def nth_list_update)
  moreover have "slots_ok (rt_max rt) (rt_slots rt) ?js" "views ?js = views (rt_jobs rt)"
      "admission_ok (rt_capacity rt) (rt_admission rt) ?js"
      "ambient_ok (rt_closed rt) (rt_scheduled rt) (rt_ambient rt) (rt_drain rt) ?js"
    using inv i slots_move [of "rt_max rt" "rt_slots rt" "rt_jobs rt" i "rt_slots rt" Spawned]
    by (simp_all add: rt_inv_def admission_move ambient_move same_view slots_ok_def)
  ultimately show ?thesis
    using inv by (simp add: rt_inv_def worker_take_def set_pc_def q')
qed

subsection \<open>New executions and the ambient lane\<close>

lemma views_append: "view (j_pc j) = Outside \<Longrightarrow> views (js @ [j]) = views js @ [(job_key j, Outside)]"
  by (simp add: views_def)

lemma append_inv:
  assumes "lock_inv (l, views js)" "slots_ok mx s js" "admission_ok cap a js" "view (j_pc j) = Outside" "j_pc j \<noteq> Done"
    and "a' = (if j_admitted j then a + 1 else a)" "a' \<le> cap"
  shows "lock_inv (l, views (js @ [j]))" "slots_ok mx s (js @ [j])" "admission_ok cap a' (js @ [j])"
  using assms arrive_inv by (cases "j_pc j"; simp add: views_append slots_ok_def admission_ok_def)+

lemma submit_inv:
  assumes inv: "rt_inv rt"
  shows "rt_inv (snd (submit v rt))"
proof (cases "validate_invocation v = None \<and> \<not> rt_closed rt \<and> rt_admission rt < rt_capacity rt
    \<and> length (rt_queue rt) < rt_capacity rt")
  case True
  let ?j = "\<lparr>j_inv = v, j_admitted = True, j_pc = Queued\<rparr>"
  have "queue_ok (rt_queue rt @ [length (rt_jobs rt)]) (rt_jobs rt @ [?j])"
    using inv by (auto simp: rt_inv_def queue_ok_def nth_append)
  moreover have "ambient_ok (rt_closed rt) (rt_scheduled rt) (rt_ambient rt) (rt_drain rt) (rt_jobs rt @ [?j])"
    using inv by (auto simp: rt_inv_def ambient_ok_def nth_append split: drain.splits)
  ultimately show ?thesis
    using inv True append_inv [of "rt_locks rt" "rt_jobs rt" "rt_max rt" "rt_slots rt" "rt_capacity rt"
        "rt_admission rt" ?j "rt_admission rt + 1"]
    by (simp add: rt_inv_def submit_def Let_def)
qed (use inv in \<open>auto simp: submit_def Let_def rt_inv_def split: option.splits\<close>)

lemma submit_ambient_inv:
  assumes inv: "rt_inv rt"
  shows "rt_inv (snd (submit_ambient v rt))"
  using inv by (auto simp: submit_ambient_def Let_def rt_inv_def ambient_ok_def split: option.splits drain.splits)

lemma ambient_closed: "ambient_ok c s a d js \<Longrightarrow> ambient_ok True s None d js"
  by (simp add: ambient_ok_def)

lemma close_runtime_inv: "rt_inv rt \<Longrightarrow> rt_inv (close_runtime rt)"
  using ambient_closed [of "rt_closed rt" "rt_scheduled rt" "rt_ambient rt" "rt_drain rt" "rt_jobs rt"]
  by (cases "rt_closed rt") (simp_all add: close_runtime_def rt_inv_def)

lemma drain_take_inv:
  assumes inv: "rt_inv rt" and drain: "rt_drain rt = Drain_take"
  shows "rt_inv (drain_take rt)"
proof (cases "rt_closed rt \<or> rt_ambient rt = None")
  case True
  then show ?thesis
    using inv drain by (auto simp: drain_take_def rt_inv_def ambient_ok_def)
next
  case False
  then obtain v where v: "rt_ambient rt = Some v" "\<not> rt_closed rt" by auto
  let ?j = "\<lparr>j_inv = v, j_admitted = False, j_pc = Spawned\<rparr>"
  have "queue_ok (rt_queue rt) (rt_jobs rt @ [?j])"
    using inv by (auto simp: rt_inv_def queue_ok_def nth_append)
  moreover have "ambient_ok False (rt_scheduled rt) None (Drain_run (length (rt_jobs rt))) (rt_jobs rt @ [?j])"
    using inv drain by (auto simp: rt_inv_def ambient_ok_def nth_append split: if_splits)
  moreover have "rt_admission rt \<le> rt_capacity rt" using inv by (simp add: rt_inv_def admission_ok_def)
  ultimately show ?thesis
    using inv v append_inv [of "rt_locks rt" "rt_jobs rt" "rt_max rt" "rt_slots rt" "rt_capacity rt"
        "rt_admission rt" ?j "rt_admission rt"]
    by (simp add: drain_take_def rt_inv_def)
qed

lemma ordinary_inv: "rt_inv rt \<Longrightarrow> rt_drain rt = Drain_wait \<Longrightarrow> rt_inv (rt\<lparr>rt_drain := Drain_take\<rparr>)"
  by (auto simp: rt_inv_def ambient_ok_def)

lemma executed_inv: "rt_inv rt \<Longrightarrow> rt_drain rt = Drain_run i \<Longrightarrow> pc_of rt i = Done \<Longrightarrow> rt_inv (rt\<lparr>rt_drain := Drain_wait\<rparr>)"
  by (auto simp: rt_inv_def ambient_ok_def pc_of_def)

lemma exit_inv: "rt_inv rt \<Longrightarrow> rt_closed rt \<Longrightarrow> rt_inv (rt\<lparr>rt_workers := w\<rparr>)"
  by (simp add: rt_inv_def)

lemma own_step_inv: "own_step rt rt' \<Longrightarrow> rt_inv rt \<Longrightarrow> rt_inv rt'"
  by (erule own_step.cases)
    (auto intro: take_inv exit_inv want_inv lock_step_inv slot_inv abort_inv return_inv unlock_inv drop_inv done_inv
      drain_take_inv ordinary_inv executed_inv)

lemma rt_step_inv: "rt_inv rt \<Longrightarrow> rt_step rt rt' \<Longrightarrow> rt_inv rt'"
  by (erule rt_step.cases) (auto intro: submit_inv submit_ambient_inv close_runtime_inv own_step_inv)

interpretation runtime: invariant_of rt_init rt_step rt_inv
  by unfold_locales (fact rt_inv_init, erule (1) rt_step_inv)

section \<open>Progress\<close>

fun pc_rank :: "pc \<Rightarrow> nat" where
  "pc_rank Queued = 8" | "pc_rank Spawned = 7" | "pc_rank (Want e) = 6" | "pc_rank (Hold e) = 5"
| "pc_rank (Run e) = 4" | "pc_rank (Slot_freed e) = 3" | "pc_rank (Leave e) = 2" | "pc_rank Released = 1"
| "pc_rank Done = 0"

fun drain_rank :: "drain \<Rightarrow> nat" where
  "drain_rank No_drain = 0" | "drain_rank Drain_take = 1" | "drain_rank Drain_wait = 2" | "drain_rank (Drain_run i) = 3"

text \<open>What is left to do\<close>

definition work :: "runtime \<Rightarrow> nat" where
  "work rt = sum_list (map (\<lambda>j. pc_rank (j_pc j)) (rt_jobs rt)) + drain_rank (rt_drain rt)
     + (if rt_ambient rt = None then 0 else 11) + rt_workers rt"

lemma sum_list_move:
  fixes f :: "'a \<Rightarrow> nat"
  shows "i < length xs \<Longrightarrow> sum_list (map f (xs[i := x])) + f (xs ! i) = sum_list (map f xs) + f x"
proof (induction xs arbitrary: i)
  case (Cons a xs)
  then show ?case by (cases i) (use Cons.IH [of "i - 1"] in auto)
qed simp

lemma work_set_pc:
  assumes "i < length (rt_jobs rt)" "pc_rank p < pc_rank (pc_of rt i)"
  shows "work (set_pc i p rt) < work rt"
  using assms sum_list_move [of i "rt_jobs rt" "\<lambda>j. pc_rank (j_pc j)" "(rt_jobs rt ! i)\<lparr>j_pc := p\<rparr>"]
  by (simp add: work_def set_pc_def pc_of_def)

lemma work_frame [simp]:
  "work (rt\<lparr>rt_locks := l\<rparr>) = work rt" "work (rt\<lparr>rt_slots := s\<rparr>) = work rt"
  "work (rt\<lparr>rt_admission := a\<rparr>) = work rt" "work (rt\<lparr>rt_queue := q\<rparr>) = work rt"
  by (simp_all add: work_def)

lemma pc_of_frame [simp]:
  "pc_of (rt\<lparr>rt_locks := l\<rparr>) i = pc_of rt i" "pc_of (rt\<lparr>rt_slots := s\<rparr>) i = pc_of rt i"
  "pc_of (rt\<lparr>rt_admission := a\<rparr>) i = pc_of rt i" "pc_of (rt\<lparr>rt_queue := q\<rparr>) i = pc_of rt i"
  by (simp_all add: pc_of_def)

lemma own_step_work:
  assumes "own_step rt rt'" "rt_inv rt"
  shows "work rt' < work rt"
  using assms
proof (cases rule: own_step.cases)
  case take
  then have "hd (rt_queue rt) \<in> set (rt_queue rt)" by simp
  then have "hd (rt_queue rt) < length (rt_jobs rt)" "pc_of rt (hd (rt_queue rt)) = Queued"
    using assms(2) by (auto simp: rt_inv_def queue_ok_def pc_of_def)
  then show ?thesis
    using take work_set_pc [of "hd (rt_queue rt)" "rt\<lparr>rt_queue := tl (rt_queue rt)\<rparr>" Spawned]
    by (simp add: worker_take_def)
next
  case (want i)
  obtain e l where "acquire_entry (job_key (rt_jobs rt ! i)) (rt_locks rt) = (e, l)" by fastforce
  then show ?thesis
    using want work_set_pc [of i "rt\<lparr>rt_locks := l\<rparr>" "Want e"] by (simp add: exec_want_def)
next
  case (lock i e)
  then show ?thesis
    using work_set_pc [of i "rt\<lparr>rt_locks := set_locked True e (rt_locks rt)\<rparr>" "Hold e"] by (simp add: exec_lock_def)
next
  case (slot i e)
  then show ?thesis using work_set_pc [of i "rt\<lparr>rt_slots := rt_slots rt + 1\<rparr>" "Run e"] by (simp add: exec_slot_def)
next
  case (abort i e)
  then show ?thesis using work_set_pc [of i rt "Slot_freed e"] by simp
next
  case (return i e)
  then show ?thesis using work_set_pc [of i "rt\<lparr>rt_slots := rt_slots rt - 1\<rparr>" "Slot_freed e"] by (simp add: exec_return_def)
next
  case (unlock i e)
  then show ?thesis
    using work_set_pc [of i "rt\<lparr>rt_locks := set_locked False e (rt_locks rt)\<rparr>" "Leave e"] by (simp add: exec_unlock_def)
next
  case (drop i e)
  then show ?thesis
    using work_set_pc [of i "rt\<lparr>rt_locks := drop_entry (job_key (rt_jobs rt ! i)) e (rt_locks rt)\<rparr>" Released]
    by (simp add: exec_drop_def)
next
  case (done1 i)
  then show ?thesis
    using work_set_pc [of i rt Done] work_set_pc [of i "rt\<lparr>rt_admission := rt_admission rt - 1\<rparr>" Done]
    by (simp add: exec_done_def)
next
  case ambient
  then show ?thesis by (simp add: drain_take_def work_def split: option.split)
qed (simp_all add: work_def)

text \<open>Some step is possible until everything is done: no deadlock between lock, slots and admission.\<close>

definition idle :: "runtime \<Rightarrow> bool" where
  "idle rt \<longleftrightarrow> rt_drain rt = No_drain \<and> rt_ambient rt = None \<and> list_all (\<lambda>j. j_pc j = Done) (rt_jobs rt)"

lemma job_cases:
  assumes "\<not> list_all P js"
  obtains i where "i < length js" "\<not> P (js ! i)"
  using assms by (auto simp: list_all_length)

lemma running_exists:
  assumes "rt_inv rt" "rt_slots rt = rt_max rt"
  obtains i e where "i < length (rt_jobs rt)" "pc_of rt i = Run e"
proof -
  have "0 < count_if (\<lambda>j. is_run (j_pc j)) (rt_jobs rt)" using assms by (simp add: rt_inv_def slots_ok_def)
  then obtain i where "i < length (rt_jobs rt)" "is_run (pc_of rt i)"
    unfolding count_if_pos by (auto simp: pc_of_def in_set_conv_nth)
  then show thesis using that by (cases "pc_of rt i") auto
qed

lemma holder_exists:
  assumes inv: "rt_inv rt" and i: "i < length (rt_jobs rt)" "pc_of rt i = Want e" and "\<not> lock_free e (rt_locks rt)"
  obtains j where "j < length (rt_jobs rt)" "view (pc_of rt j) = Holding e"
proof -
  have linv: "lock_inv (rt_locks rt, views (rt_jobs rt))" using inv by (simp add: rt_inv_def)
  have "l_entries (rt_locks rt) (job_key (rt_jobs rt ! i)) = Some e"
    using lock_inv_client [OF linv _ client_view [OF i]] i by simp
  then have "holders e (views (rt_jobs rt)) = 1"
    using lock_inv_entry [OF linv] assms(4) by (auto simp: entry_ok_def lock_free_def split: if_splits)
  then have "0 < holders e (views (rt_jobs rt))" by simp
  then show thesis
    unfolding count_if_pos using that by (auto simp: views_def in_set_conv_nth pc_of_def)
qed

lemma exec_enabled:
  assumes inv: "rt_inv rt" and i: "i < length (rt_jobs rt)" "pc_of rt i \<noteq> Queued" "pc_of rt i \<noteq> Done"
  shows "\<exists>rt'. own_step rt rt'"
proof -
  have holding: "\<exists>rt'. own_step rt rt'" if j: "j < length (rt_jobs rt)" "view (pc_of rt j) = Holding e" for j e
  proof (cases "pc_of rt j")
    case (Hold f)
    show ?thesis
    proof (cases "rt_slots rt < rt_max rt")
      case False
      then have "rt_slots rt = rt_max rt" using slots_bounds(1) [OF inv] by simp
      then show ?thesis using running_exists [OF inv] own_step.return by metis
    qed (use own_step.slot j Hold in blast)
  next
    case (Run f)
    then show ?thesis using own_step.return j by blast
  next
    case (Slot_freed f)
    then show ?thesis using own_step.unlock j by blast
  qed (use j in simp_all)
  show ?thesis
  proof (cases "pc_of rt i")
    case (Want e)
    then show ?thesis
      using own_step.lock i(1) holder_exists [OF inv i(1) Want] holding by (cases "lock_free e (rt_locks rt)") blast+
  qed (use i holding own_step.want own_step.drop own_step.done1 in \<open>fastforce+\<close>)
qed

lemma drain_enabled:
  assumes inv: "rt_inv rt" and drain: "rt_drain rt \<noteq> No_drain"
    and jobs: "list_all (\<lambda>j. j_pc j = Queued \<or> j_pc j = Done) (rt_jobs rt)"
    and ordinary: "rt_admission rt = 0 \<or> rt_closed rt"
  shows "\<exists>rt'. own_step rt rt'"
proof (cases "rt_drain rt")
  case (Drain_run i)
  then have "i < length (rt_jobs rt)" "\<not> j_admitted (rt_jobs rt ! i)"
    using inv by (auto simp: rt_inv_def ambient_ok_def)
  then have "pc_of rt i \<noteq> Queued" "pc_of rt i = Queued \<or> pc_of rt i = Done"
    using inv jobs by (auto simp: rt_inv_def queue_ok_def pc_of_def list_all_length)
  then show ?thesis using own_step.executed Drain_run by blast
qed (use own_step.ambient own_step.ordinary drain ordinary in blast)+

lemma own_enabled:
  assumes inv: "rt_inv rt" and busy: "if rt_closed rt then \<not> quiescent rt else \<not> idle rt"
  shows "\<exists>rt'. own_step rt rt'"
proof (cases "list_all (\<lambda>j. j_pc j = Queued \<or> j_pc j = Done) (rt_jobs rt)")
  case False
  then obtain i where "i < length (rt_jobs rt)" "pc_of rt i \<noteq> Queued" "pc_of rt i \<noteq> Done"
    unfolding pc_of_def by (auto elim: job_cases)
  then show ?thesis using exec_enabled [OF inv] by blast
next
  case jobs: True
  show ?thesis
  proof (cases "rt_closed rt")
    case True
    then show ?thesis
      using drain_enabled [OF inv _ jobs] own_step.exit [of rt] busy jobs by (auto simp: quiescent_def)
  next
    case False
    show ?thesis
    proof (cases "rt_queue rt = []")
      case True
      then have done1: "list_all (\<lambda>j. j_pc j = Done) (rt_jobs rt)"
        using inv jobs by (auto simp: rt_inv_def queue_ok_def list_all_length)
      then have "rt_admission rt = 0"
        using inv by (auto simp: rt_inv_def admission_ok_def count_if_0 list_all_iff)
      moreover have "rt_drain rt \<noteq> No_drain"
        using busy False done1 inv by (auto simp: idle_def rt_inv_def ambient_ok_def)
      ultimately show ?thesis using drain_enabled [OF inv _ jobs] by blast
    next
      case queue: False
      have "0 < rt_workers rt" using inv False by (simp add: rt_inv_def slots_ok_def)
      then show ?thesis using own_step.take queue by blast
    qed
  qed
qed

lemma own_step_closed: "own_step rt rt' \<Longrightarrow> rt_closed rt' = rt_closed rt"
  by (erule own_step.cases)
    (auto simp: worker_take_def exec_want_def exec_lock_def exec_slot_def exec_return_def exec_unlock_def
      exec_drop_def exec_done_def drain_take_def set_pc_def split: prod.splits option.splits)

lemma work_ends:
  assumes "rt_inv rt"
  shows "\<exists>rt'. own_step\<^sup>*\<^sup>* rt rt' \<and> rt_closed rt' = rt_closed rt \<and> (if rt_closed rt' then quiescent rt' else idle rt')"
  using assms
proof (induction "work rt" arbitrary: rt rule: less_induct)
  case less
  show ?case
  proof (cases "if rt_closed rt then quiescent rt else idle rt")
    case False
    then obtain rt1 where step: "own_step rt rt1" using own_enabled [OF less.prems] by (auto split: if_splits)
    obtain rt' where "own_step\<^sup>*\<^sup>* rt1 rt'" "rt_closed rt' = rt_closed rt1" "if rt_closed rt' then quiescent rt' else idle rt'"
      using less.hyps [OF own_step_work [OF step less.prems]] own_step_inv [OF step less.prems] by blast
    then show ?thesis
      using step own_step_closed [OF step] by (metis converse_rtranclp_into_rtranclp)
  qed auto
qed

section \<open>The end of an execution\<close>

datatype effect = Deliver | Deliver_failure | After_delivery

text \<open>What \<open>execute\<close> calls once the runner has returned.  \<open>Inl cancelled\<close> is an error, \<open>stopping1\<close> and
  \<open>stopping2\<close> what \<open>rt.ctx.Err\<close> says at its two checks, \<open>delivered\<close> the success of \<open>sink.Deliver\<close>.\<close>

definition after_delivery :: "bool \<Rightarrow> effect list" where
  "after_delivery hook = (if hook then [After_delivery] else [])"

definition execute_tail ::
  "invocation_mode \<Rightarrow> bool \<Rightarrow> bool \<Rightarrow> bool \<Rightarrow> bool + rt_result \<Rightarrow> bool \<Rightarrow> bool \<Rightarrow> bool \<Rightarrow> effect list" where
  "execute_tail mode sink failure_sink hook outcome stopping1 stopping2 delivered =
     (case outcome of
        Inl cancelled \<Rightarrow>
          if \<not> (cancelled \<and> stopping1) \<and> requires_reply mode \<and> failure_sink then [Deliver_failure] else []
      | Inr result \<Rightarrow>
          if \<not> o_reply result \<or> stopping1 \<or> \<not> sink
          then (if o_owned result \<and> \<not> stopping2 then after_delivery hook else [])
          else if \<not> delivered then [Deliver]
          else Deliver # after_delivery hook)"

section \<open>Properties\<close>

text \<open>C14. Concurrency and admission are bounded.  In every reachable state at most \<open>MaxConcurrent\<close> runners
  are executing and at most one of them for the same memory key; the accepted requests that have
  not finished are at most the capacity; at most one ambient request executes; and \<open>Submit\<close> accepts
  a request exactly when it is valid, the runtime is open and fewer than the capacity are
  unfinished: the channel behind the admission token never turns it away.\<close>

theorem runtime_is_bounded:
  assumes "rt_init rt0" "rt_step\<^sup>*\<^sup>* rt0 rt"
  shows "count_if (\<lambda>j. is_run (j_pc j)) (rt_jobs rt) \<le> rt_max rt
    \<and> count_if (\<lambda>j. job_key j = k \<and> is_run (j_pc j)) (rt_jobs rt) \<le> 1
    \<and> count_if (\<lambda>j. j_admitted j \<and> j_pc j \<noteq> Done) (rt_jobs rt) \<le> rt_capacity rt
    \<and> (i < length (rt_jobs rt) \<and> j < length (rt_jobs rt) \<and> \<not> j_admitted (rt_jobs rt ! i) \<and> \<not> j_admitted (rt_jobs rt ! j)
        \<and> pc_of rt i \<noteq> Done \<and> pc_of rt j \<noteq> Done \<longrightarrow> i = j)
    \<and> (fst (submit v rt) = None \<longleftrightarrow> validate_invocation v = None \<and> \<not> rt_closed rt
        \<and> count_if (\<lambda>j. j_admitted j \<and> j_pc j \<noteq> Done) (rt_jobs rt) < rt_capacity rt)"
proof (intro conjI)
  have inv: "rt_inv rt" using runtime.inv_reachable [OF assms] .
  then have ok: "slots_ok (rt_max rt) (rt_slots rt) (rt_jobs rt)" "queue_ok (rt_queue rt) (rt_jobs rt)"
      "admission_ok (rt_capacity rt) (rt_admission rt) (rt_jobs rt)"
      "ambient_ok (rt_closed rt) (rt_scheduled rt) (rt_ambient rt) (rt_drain rt) (rt_jobs rt)"
    and linv: "lock_inv (rt_locks rt, views (rt_jobs rt))"
    by (simp_all add: rt_inv_def)
  show "count_if (\<lambda>j. is_run (j_pc j)) (rt_jobs rt) \<le> rt_max rt"
    and "count_if (\<lambda>j. j_admitted j \<and> j_pc j \<noteq> Done) (rt_jobs rt) \<le> rt_capacity rt"
    using ok by (auto simp: slots_ok_def admission_ok_def)
  show "count_if (\<lambda>j. job_key j = k \<and> is_run (j_pc j)) (rt_jobs rt) \<le> 1"
  proof (rule order_trans [OF _ one_holder_per_key [OF linv]])
    have "is_run p \<Longrightarrow> \<exists>e. view p = Holding e" for p by (cases p) auto
    then show "count_if (\<lambda>j. job_key j = k \<and> is_run (j_pc j)) (rt_jobs rt)
        \<le> count_if (\<lambda>c. fst c = k \<and> (\<exists>e. snd c = Holding e)) (views (rt_jobs rt))"
      unfolding views_def count_if_map by (intro count_if_mono) auto
  qed
  show "i < length (rt_jobs rt) \<and> j < length (rt_jobs rt) \<and> \<not> j_admitted (rt_jobs rt ! i) \<and> \<not> j_admitted (rt_jobs rt ! j)
        \<and> pc_of rt i \<noteq> Done \<and> pc_of rt j \<noteq> Done \<longrightarrow> i = j"
    using ok(4) unfolding ambient_ok_def pc_of_def by (metis drain.inject)
  have "length (rt_queue rt) \<le> rt_admission rt"
    unfolding queue_length [OF ok(2)] using ok(2,3)
    by (auto simp: admission_ok_def queue_ok_def in_set_conv_nth intro!: count_if_mono)
  then show "fst (submit v rt) = None \<longleftrightarrow> validate_invocation v = None \<and> \<not> rt_closed rt
        \<and> count_if (\<lambda>j. j_admitted j \<and> j_pc j \<noteq> Done) (rt_jobs rt) < rt_capacity rt"
    using ok(3) by (auto simp: submit_def admission_ok_def Let_def split: option.split)
qed

text \<open>C15. Accepted work ends.  From every reachable state the runtime, left alone with runners that return,
  reaches a state where every request has finished, the ambient lane included, if it is open, and one
  where \<open>Close\<close> returns, with nothing executing, if it has been closed: locks, slots and admission
  never deadlock.\<close>

theorem runtime_work_ends:
  assumes "rt_init rt0" "rt_step\<^sup>*\<^sup>* rt0 rt"
  shows "\<exists>rt'. own_step\<^sup>*\<^sup>* rt rt' \<and> rt_closed rt' = rt_closed rt \<and> (if rt_closed rt' then quiescent rt' else idle rt')"
  using work_ends [OF runtime.inv_reachable [OF assms]] .

text \<open>C18. One reply at most, and memory only of what was said.  An execution makes at most one delivery, a reply
  or a failure; failures are reported only to requests that need a reply; nothing is delivered of a
  result that asks for silence; and the conversation is persisted only after its reply was
  delivered, or when a tool has delivered it.\<close>

theorem one_reply_at_most:
  "let es = execute_tail mode sink failure_sink hook outcome stopping1 stopping2 delivered in
     count_if (\<lambda>e. e \<noteq> After_delivery) es \<le> 1
     \<and> (Deliver_failure \<in> set es \<longrightarrow> requires_reply mode \<and> (\<exists>c. outcome = Inl c))
     \<and> (Deliver \<in> set es \<longrightarrow> (\<exists>r. outcome = Inr r \<and> o_reply r))
     \<and> (After_delivery \<in> set es \<longrightarrow> (Deliver \<in> set es \<and> delivered) \<or> (\<exists>r. outcome = Inr r \<and> o_owned r))"
  by (auto simp: execute_tail_def after_delivery_def Let_def split: sum.split)

text \<open>Two requests of one room to a runtime with one slot and room for one more\<close>

definition demo_request :: "str \<Rightarrow> rt_invocation" where
  "demo_request rid = (from_api_invocation 0 demo_invocation)\<lparr>v_request := rid\<rparr>"

definition demo_runtime :: runtime where
  "demo_runtime = (case new_runtime 1 1 0 of Inr rt \<Rightarrow> snd (submit (demo_request [50]) (snd (submit (demo_request [49]) rt))))"

lemma demo_runtime_reached:
  obtains rt0 where "rt_init rt0" "rt_step\<^sup>*\<^sup>* rt0 demo_runtime"
proof -
  obtain rt0 where rt0: "new_runtime 1 1 0 = Inr rt0" by (simp add: new_runtime_def)
  have "rt_step rt0 (snd (submit (demo_request [49]) rt0))" by (rule rt_step.submit)
  moreover have "rt_step (snd (submit (demo_request [49]) rt0)) demo_runtime"
    unfolding demo_runtime_def rt0 sum.case by (rule rt_step.submit)
  ultimately have "rt_step\<^sup>*\<^sup>* rt0 demo_runtime" by (meson r_into_rtranclp rtranclp.rtrancl_into_rtrancl)
  then show thesis using that rt0 by (auto simp: rt_init_def)
qed

lemma runtime_is_bounded_witness:
  "fst (submit (demo_request [51]) demo_runtime) \<noteq> None \<and> validate_invocation (demo_request [51]) = None"
proof -
  obtain rt0 where "rt_init rt0" "rt_step\<^sup>*\<^sup>* rt0 demo_runtime" by (rule demo_runtime_reached)
  then have "fst (submit (demo_request [51]) demo_runtime) = None \<longrightarrow>
      count_if (\<lambda>j. j_admitted j \<and> j_pc j \<noteq> Done) (rt_jobs demo_runtime) < rt_capacity demo_runtime"
    using runtime_is_bounded by blast
  moreover have "\<not> count_if (\<lambda>j. j_admitted j \<and> j_pc j \<noteq> Done) (rt_jobs demo_runtime) < rt_capacity demo_runtime"
    "validate_invocation (demo_request [51]) = None"
    by code_simp+
  ultimately show ?thesis by blast
qed

lemma runtime_work_ends_witness: "\<exists>rt'. own_step\<^sup>*\<^sup>* demo_runtime rt' \<and> idle rt'"
proof -
  obtain rt0 where "rt_init rt0" "rt_step\<^sup>*\<^sup>* rt0 demo_runtime" by (rule demo_runtime_reached)
  then obtain rt' where "own_step\<^sup>*\<^sup>* demo_runtime rt'" "rt_closed rt' = rt_closed demo_runtime"
      "if rt_closed rt' then quiescent rt' else idle rt'"
    using runtime_work_ends by blast
  moreover have "\<not> rt_closed demo_runtime" by code_simp
  ultimately show ?thesis by auto
qed

lemma one_reply_at_most_witness:
  "After_delivery \<in> set (execute_tail DIRECT True True True
     (Inr \<lparr>o_correlation = [], o_text = [104], o_error = [], o_reply = True, o_owned = False\<rparr>) False False True)
   \<and> Deliver \<in> set (execute_tail DIRECT True True True
     (Inr \<lparr>o_correlation = [], o_text = [104], o_error = [], o_reply = True, o_owned = False\<rparr>) False False True)"
proof -
  let ?es = "execute_tail DIRECT True True True
     (Inr \<lparr>o_correlation = [], o_text = [104], o_error = [], o_reply = True, o_owned = False\<rparr>) False False True"
  have "After_delivery \<in> set ?es" by (simp add: execute_tail_def after_delivery_def)
  moreover have "\<not> (\<exists>r. Inr \<lparr>o_correlation = [], o_text = [104], o_error = [], o_reply = True, o_owned = False\<rparr>
      = (Inr r :: bool + rt_result) \<and> o_owned r)" by auto
  ultimately show ?thesis
    using one_reply_at_most [of DIRECT True True True
      "Inr \<lparr>o_correlation = [], o_text = [104], o_error = [], o_reply = True, o_owned = False\<rparr>" False False True]
    unfolding Let_def by blast
qed

end
