(* ===== verification/TurnLoop.thy ===== *)
theory TurnLoop
  imports TurnState
begin

text \<open>
  The loop between the model and its tools: \<open>TurnEngine.Complete\<close> of \<open>internal/agent/live/turn_engine.go\<close> with
  the protocol messages of \<open>registry_loop.go\<close>, and the part of the observation store
  (\<open>internal/agent/assemble/observations.go\<close>) it uses.  Arguments of the engine are what the loop does not
  decide: the provider's answers, the projection of the transcript, the text shown for a result, when
  contexts end, what tools do and how a batch interleaves.
\<close>

section \<open>Observations\<close>

record observations =
  ob_results :: "str \<rightharpoonup> tool_result"
  ob_views :: "str \<rightharpoonup> str"
  ob_calls :: "str \<rightharpoonup> str \<times> str"
  ob_order :: "str list"

definition new_observations :: observations where
  "new_observations = \<lparr>ob_results = Map.empty, ob_views = Map.empty, ob_calls = Map.empty, ob_order = []\<rparr>"

definition record_call :: "call \<Rightarrow> observations \<Rightarrow> observations" where
  "record_call c ob = ob\<lparr>ob_calls := (ob_calls ob)(c_id c \<mapsto> (c_name c, c_args c))\<rparr>"

definition store_result :: "tool_result \<Rightarrow> str \<Rightarrow> observations \<Rightarrow> observations" where
  "store_result r view ob =
     ob\<lparr>ob_order := (if ob_results ob (tr_call r) = None then ob_order ob @ [tr_call r] else ob_order ob),
        ob_results := (ob_results ob)(tr_call r \<mapsto> r), ob_views := (ob_views ob)(tr_call r \<mapsto> view)\<rparr>"

section \<open>The engine\<close>

record provider_tool =
  pt_definition :: tool_definition
  pt_strict :: bool

definition provider_tool_definition :: "tool_definition \<Rightarrow> provider_tool" where
  "provider_tool_definition d = \<lparr>pt_definition = d, pt_strict = supports_strict (def_parameters d)\<rparr>"

definition provider_tool_definitions :: "registry \<Rightarrow> api_context \<Rightarrow> provider_tool list option" where
  "provider_tool_definitions r ctx =
     map_option (map (\<lambda>d. provider_tool_definition (provider_definition d))) (manifest r ctx)"

definition provider_name :: "provider_tool \<Rightarrow> str" where
  "provider_name t = def_name (pt_definition t)"

definition provider_tool_names :: "provider_tool list \<Rightarrow> str \<Rightarrow> bool" where
  "provider_tool_names ts name \<longleftrightarrow> name \<noteq> [] \<and> name \<in> set (map provider_name ts)"

record engine =
  en_registry :: registry
  en_agent :: api_context
  en_limits :: execution_limits
  en_allowed :: "str list"
  en_marker :: str
  en_allow_silence :: bool
  en_provider :: "provider_tool list"
  en_message :: "json \<Rightarrow> str \<Rightarrow> str"
  en_quote :: "str \<Rightarrow> str"
  en_ended :: "nat \<Rightarrow> bool"
  en_ended_late :: "nat \<Rightarrow> bool"
  en_world :: "nat \<Rightarrow> nat \<Rightarrow> surroundings"
  en_sched :: "nat \<Rightarrow> nat \<Rightarrow> nat list"
  en_view :: "tool_result \<Rightarrow> int \<Rightarrow> str"
  en_project :: "llm_message list \<Rightarrow> provider_tool list \<Rightarrow> observations \<Rightarrow> llm_message list \<Rightarrow> llm_message list option"
  en_client :: "nat \<Rightarrow> llm_message list \<Rightarrow> provider_tool list \<Rightarrow> llm_response option"

definition read_tool_result_name :: str where
  "read_tool_result_name = lit ''read_tool_result''"

definition tool_budgets :: "str list \<Rightarrow> execution_limits \<Rightarrow> str \<Rightarrow> int" where
  "tool_budgets allowed1 l =
     (\<lambda>name. if name = read_tool_result_name then el_calls l
             else if name \<in> set allowed1 then (if el_per_tool l \<le> 0 then el_calls l else el_per_tool l)
             else 0)"

definition normalized_failure_limit :: "execution_limits \<Rightarrow> int" where
  "normalized_failure_limit l = (if 0 < el_failures l then el_failures l else 2)"

definition engine_executor :: "engine \<Rightarrow> executor" where
  "engine_executor e = \<lparr>ex_registry = Some (en_registry e), ex_exposed = Some (provider_tool_names (en_provider e)),
     ex_message = en_message e\<rparr>"

definition engine_ledger :: "engine \<Rightarrow> ledger" where
  "engine_ledger e = new_ledger (tool_budgets (en_allowed e) (en_limits e)) (normalized_failure_limit (en_limits e))"

text \<open>The tools offered for the next response\<close>

definition available_provider_tools :: "engine \<Rightarrow> ledger \<Rightarrow> provider_tool list" where
  "available_provider_tools e l =
     filter (\<lambda>t. let name = provider_name t in
         name \<noteq> [] \<and> available name l
         \<and> (lg_unknown l \<noteq> [] \<longrightarrow>
              (case lookup (en_registry e) name of None \<Rightarrow> False
               | Some r \<Rightarrow> (case t_descriptor r (en_agent e) of None \<Rightarrow> False | Some d \<Rightarrow> d_effect d \<noteq> Action))))
       (en_provider e)"

section \<open>Final responses\<close>

type_synonym batch_result = "(call \<times> tool_result) list"

definition is_silence :: "engine \<Rightarrow> str \<Rightarrow> bool" where
  "is_silence e content1 \<longleftrightarrow> trim_space content1 = (if en_marker e = [] then lit ''NO_REPLY'' else en_marker e)"

fun suppress_loop :: "registry \<Rightarrow> api_context \<Rightarrow> batch_result \<Rightarrow> bool \<Rightarrow> bool" where
  "suppress_loop r ctx [] delivered = delivered"
| "suppress_loop r ctx ((c, q) # rest) delivered =
     (if tr_code q = lit ''ACTION_OUTCOME_UNKNOWN'' then False
      else case Option.bind (lookup r (c_name c)) (\<lambda>t. t_descriptor t ctx) of
        None \<Rightarrow> suppress_loop r ctx rest delivered
      | Some d \<Rightarrow>
          if d_effect d = Action \<and> d_mode d \<noteq> Room_delivery \<and> tr_committed q then False
          else suppress_loop r ctx rest (delivered \<or> verified_room_delivery q))"

definition can_suppress_completed_reply :: "registry \<Rightarrow> api_context \<Rightarrow> batch_result \<Rightarrow> bool" where
  "can_suppress_completed_reply r ctx batch1 = suppress_loop r ctx batch1 False"

definition validate_final :: "engine \<Rightarrow> llm_response \<Rightarrow> batch_result \<Rightarrow> bool" where
  "validate_final e r batch1 \<longleftrightarrow> final_response_ok r
     \<and> \<not> (is_silence e (response_content r) \<and> \<not> en_allow_silence e
          \<and> \<not> can_suppress_completed_reply (en_registry e) (en_agent e) batch1)"

section \<open>One response\<close>

datatype loop_error = Context_ended | Invalid_final | Invalid_protocol | Hangs | Protocol_mismatch
  | Called_after_terminal | Projection_failed | Provider_failed

record turn_loop =
  lp_response :: llm_response
  lp_messages :: "llm_message list"
  lp_all :: batch_result
  lp_terminal :: bool
  lp_repaired :: bool
  lp_state :: turn_state
  lp_ledger :: ledger
  lp_observations :: observations
  lp_cycle :: nat
  lp_requests :: nat

text \<open>\<open>executeBatch\<close>\<close>

definition limit_result :: "call \<Rightarrow> tool_result" where
  "limit_result c = action_error_result (c_id c) (c_name c) (lit ''TOOL_CALL_LIMIT_REACHED'')
     (lit ''This batch was not executed. Request fewer calls if budget remains; otherwise summarize the available results and unfinished work.'')
     Not_started"

definition execute_batch :: "engine \<Rightarrow> turn_loop \<Rightarrow> call list \<Rightarrow> batch_result \<times> turn_state \<times> ledger" where
  "execute_batch e lp calls =
     (let (reserved, s1) = (if lp_terminal lp then (False, lp_state lp)
                            else reserve_tool_calls (int (length calls)) (lp_state lp));
          s2 = ignore_error (mark_tool_attempted (int (length calls))) s1;
          (results, led) =
            (if reserved then
               (let (out, led, events) = execute_all (engine_executor e) (en_agent e) (en_world e (lp_cycle lp))
                      (en_sched e (lp_cycle lp)) calls (Some (lp_ledger lp))
                in (out, case led of Some l \<Rightarrow> l | None \<Rightarrow> lp_ledger lp))
             else (map limit_result calls, lp_ledger lp))
      in (zip calls results, fold record_result (map tr_error results) s2, led))"

text \<open>\<open>appendRegistryProtocol\<close>: every result is stored, the messages are appended together or not at all.\<close>

definition result_limit :: "engine \<Rightarrow> str \<Rightarrow> int" where
  "result_limit e name =
     (case Option.bind (lookup (en_registry e) name) (\<lambda>t. t_descriptor t (en_agent e)) of
        None \<Rightarrow> default_max_model_result_bytes | Some d \<Rightarrow> d_max_bytes d)"

definition item_ok :: "engine \<Rightarrow> tool_call \<Rightarrow> call \<times> tool_result \<Rightarrow> bool" where
  "item_ok e tc item = (case item of (c, r) \<Rightarrow>
     c_id c = tc_id tc \<and> tr_call r = c_id c \<and> tr_tool r = c_name c
     \<and> int (utf8_len (en_view e r (result_limit e (c_name c)))) \<le> result_limit e (c_name c))"

definition store_item :: "engine \<Rightarrow> call \<times> tool_result \<Rightarrow> observations \<Rightarrow> observations" where
  "store_item e item ob = (case item of (c, r) \<Rightarrow>
     store_result r (en_view e r (result_limit e (c_name c))) (record_call c ob))"

definition item_message :: "engine \<Rightarrow> call \<times> tool_result \<Rightarrow> llm_message" where
  "item_message e item = (case item of (c, r) \<Rightarrow>
     new_message (lit ''tool'') (Some (en_view e r (result_limit e (c_name c)))) [] (c_id c))"

definition append_registry_protocol ::
  "engine \<Rightarrow> llm_message list \<Rightarrow> llm_response \<Rightarrow> batch_result \<Rightarrow> observations \<Rightarrow> llm_message list option \<times> observations" where
  "append_registry_protocol e messages r batch1 ob =
     (if length (lr_calls r) \<noteq> length batch1 then (None, ob)
      else let ob1 = fold (store_item e) batch1 ob
           in (if list_all2 (item_ok e) (lr_calls r) batch1
               then Some (messages @ new_message (lit ''assistant'') (lr_content r) (lr_calls r) [] # map (item_message e) batch1)
               else None, ob1))"

datatype reaction = Stop loop_error turn_loop | Continue turn_loop str

definition structural_feedback :: str where
  "structural_feedback = lit ''The last response was empty, truncated, contained tool protocol markup, or requested silence without a delivered answer. Return a complete answer, or make the necessary native tool calls while tools remain available.''"

definition rejected_feedback :: str where
  "rejected_feedback = lit ''No calls from the last response were executed. Return complete native tool calls with nonblank names and fresh unique IDs. Rejected calls: ''"

definition terminal_feedback :: str where
  "terminal_feedback = lit ''Those calls were not executed because this turn has no remaining tool budget. Give the best supported final answer, including any unfinished work.''"

text \<open>The quoting of the verb \<open>%q\<close> is an argument of the engine.\<close>

definition protocol_error :: "(str \<Rightarrow> str) \<Rightarrow> observations \<Rightarrow> call list \<Rightarrow> str option" where
  "protocol_error quote ob calls =
     (case validate_batch_identity calls of
        Some err \<Rightarrow> Some err
      | None \<Rightarrow>
          map_option (\<lambda>c. lit ''tool call ID '' @ quote (c_id c) @ lit '' was already used; use a fresh ID'')
            (find (\<lambda>c. ob_results ob (c_id c) \<noteq> None) calls))"

definition react_final :: "turn_loop \<Rightarrow> reaction" where
  "react_final lp =
     (if lp_repaired lp then Stop Invalid_final lp
      else Continue (lp\<lparr>lp_repaired := True,
             lp_messages := lp_messages lp @ [new_message (lit ''assistant'') (Some (response_content (lp_response lp))) [] []]\<rparr>)
           structural_feedback)"

definition react_rejected :: "turn_loop \<Rightarrow> str option \<Rightarrow> reaction" where
  "react_rejected lp err =
     (if lp_repaired lp then Stop Invalid_protocol lp
      else case rejected_calls_feedback (lr_calls (lp_response lp)) err of
        None \<Rightarrow> Stop Hangs lp
      | Some encoded \<Rightarrow> Continue (lp\<lparr>lp_repaired := True\<rparr>) (rejected_feedback @ encoded))"

definition react_calls :: "engine \<Rightarrow> turn_loop \<Rightarrow> call list \<Rightarrow> reaction" where
  "react_calls e lp calls =
     (let (batch1, s, led) = execute_batch e lp calls;
          (messages, ob) = append_registry_protocol e (lp_messages lp) (lp_response lp) batch1 (lp_observations lp);
          lp1 = lp\<lparr>lp_all := lp_all lp @ batch1, lp_state := s, lp_ledger := led, lp_observations := ob\<rparr>
      in case messages of
           None \<Rightarrow> Stop Protocol_mismatch lp1
         | Some ms \<Rightarrow>
             let lp2 = lp1\<lparr>lp_messages := ms\<rparr>
             in if lp_terminal lp then
                  (if lp_repaired lp then Stop Called_after_terminal lp2
                   else Continue (lp2\<lparr>lp_repaired := True\<rparr>) terminal_feedback)
                else Continue lp2 [])"

definition react :: "engine \<Rightarrow> turn_loop \<Rightarrow> reaction" where
  "react e lp =
     (let r = lp_response lp; calls = map from_llm (lr_calls r)
      in if calls = [] then react_final lp
         else let err = protocol_error (en_quote e) (lp_observations lp) calls
              in if lr_finish r = lit ''length'' \<or> err \<noteq> None then react_rejected lp err
                 else react_calls e lp calls)"

section \<open>The next request\<close>

definition status_text :: "turn_loop \<Rightarrow> provider_tool list \<Rightarrow> str" where
  "status_text lp tools = json_struct
     [json_member ''blockedByUnknownAction'' (encode_string (lg_unknown (lp_ledger lp))),
      json_member ''remainingModelRounds'' (itoa (remaining_steps (lp_state lp))),
      json_member ''remainingToolCalls'' (itoa (remaining_tool_calls (lp_state lp))),
      json_member ''terminal'' (json_bool (lp_terminal lp)),
      json_member ''toolsAvailable'' (json_bool (tools \<noteq> []))]"

text \<open>Whether the next request is the terminal one, and the step it uses up otherwise\<close>

definition next_round :: "engine \<Rightarrow> turn_loop \<Rightarrow> provider_tool list \<times> turn_loop" where
  "next_round e lp =
     (let tools = available_provider_tools e (lp_ledger lp)
      in if lp_terminal lp \<or> remaining_tool_calls (lp_state lp) = 0 \<or> tools = [] then ([], lp\<lparr>lp_terminal := True\<rparr>)
         else let (advanced, s) = advance_step (lp_state lp)
              in if advanced then (tools, lp\<lparr>lp_state := s\<rparr>) else ([], lp\<lparr>lp_terminal := True\<rparr>))"

definition corrections :: "str \<Rightarrow> llm_message list" where
  "corrections feedback =
     (if feedback = [] then [] else [new_message (lit ''user'') (Some (lit ''TOOL_LOOP_FEEDBACK='' @ feedback)) [] []])"

definition status_message :: "turn_loop \<Rightarrow> provider_tool list \<Rightarrow> llm_message" where
  "status_message lp tools = new_message (lit ''user'') (Some (lit ''TOOL_LOOP_STATUS='' @ status_text lp tools)) [] []"

definition send_request ::
  "engine \<Rightarrow> turn_loop \<Rightarrow> provider_tool list \<Rightarrow> llm_message list \<Rightarrow> (loop_error \<times> turn_loop) + turn_loop" where
  "send_request e lp tools correction =
     (case en_project e (lp_messages lp) tools (lp_observations lp) (correction @ [status_message lp tools]) of
        None \<Rightarrow> Inl (Projection_failed, lp)
      | Some projected \<Rightarrow>
          if en_ended_late e (lp_cycle lp) then Inl (Context_ended, lp)
          else (case en_client e (lp_cycle lp) projected tools of
              None \<Rightarrow> Inl (Provider_failed, lp\<lparr>lp_requests := Suc (lp_requests lp)\<rparr>)
            | Some r \<Rightarrow> Inr (lp\<lparr>lp_requests := Suc (lp_requests lp), lp_response := r, lp_cycle := Suc (lp_cycle lp)\<rparr>)))"

definition request_next :: "engine \<Rightarrow> turn_loop \<Rightarrow> str \<Rightarrow> (loop_error \<times> turn_loop) + turn_loop" where
  "request_next e lp feedback =
     (let (tools, lp1) = next_round e (lp\<lparr>lp_messages := lp_messages lp @ corrections feedback\<rparr>)
      in send_request e lp1 tools (corrections feedback))"

section \<open>The loop\<close>

record outcome =
  oc_error :: "loop_error option"
  oc_suppress :: bool
  oc_loop :: turn_loop

definition failed :: "loop_error \<times> turn_loop \<Rightarrow> outcome" where
  "failed x = \<lparr>oc_error = Some (fst x), oc_suppress = False, oc_loop = snd x\<rparr>"

definition accepts_final :: "engine \<Rightarrow> turn_loop \<Rightarrow> bool" where
  "accepts_final e lp \<longleftrightarrow> lr_calls (lp_response lp) = [] \<and> lr_finish (lp_response lp) \<noteq> lit ''length''
     \<and> validate_final e (lp_response lp) (lp_all lp)"

definition completed :: "engine \<Rightarrow> turn_loop \<Rightarrow> outcome" where
  "completed e lp = \<lparr>oc_error = None,
     oc_suppress = (is_silence e (response_content (lp_response lp))
       \<and> can_suppress_completed_reply (en_registry e) (en_agent e) (lp_all lp)),
     oc_loop = lp\<rparr>"

definition cycle_step :: "engine \<Rightarrow> turn_loop \<Rightarrow> outcome + turn_loop" where
  "cycle_step e lp =
     (if en_ended e (lp_cycle lp) then Inl (failed (Context_ended, lp))
      else if accepts_final e lp then Inl (completed e lp)
      else case react e lp of
        Stop err lp1 \<Rightarrow> Inl (failed (err, lp1))
      | Continue lp1 feedback \<Rightarrow>
          (case request_next e lp1 feedback of Inl x \<Rightarrow> Inl (failed x) | Inr lp2 \<Rightarrow> Inr lp2))"

text \<open>How many requests a state of the loop can still lead to\<close>

definition requests_left :: "turn_loop \<Rightarrow> nat" where
  "requests_left lp =
     (if lp_terminal lp then (if lp_repaired lp then 0 else 1)
      else nat (el_steps (ts_limits (lp_state lp)) - ts_steps (lp_state lp)) + 2)"


lemma execute_batch_frame:
  "execute_batch e lp calls = (b, s, l) \<Longrightarrow> ts_steps s = ts_steps (lp_state lp) \<and> ts_limits s = ts_limits (lp_state lp)"
proof -
  have step: "ts_steps (record_result x s) = ts_steps s" "ts_limits (record_result x s) = ts_limits s" for x s
    by (simp_all add: record_result_def ignore_error_def record_tool_failure_def record_tool_success_def)
  have rec: "ts_steps (fold record_result xs s) = ts_steps s" "ts_limits (fold record_result xs s) = ts_limits s" for xs s
    by (induction xs arbitrary: s) (simp_all add: step)
  have mark: "ts_steps (ignore_error (mark_tool_attempted n) s) = ts_steps s"
    "ts_limits (ignore_error (mark_tool_attempted n) s) = ts_limits s" for n s
    by (simp_all add: ignore_error_def mark_tool_attempted_def)
  have reserve: "ts_steps (snd (reserve_tool_calls n s)) = ts_steps s" "ts_limits (snd (reserve_tool_calls n s)) = ts_limits s" for n s
    by (simp_all add: reserve_tool_calls_def)
  show "execute_batch e lp calls = (b, s, l) \<Longrightarrow> ts_steps s = ts_steps (lp_state lp) \<and> ts_limits s = ts_limits (lp_state lp)"
    by (auto simp: execute_batch_def Let_def split_beta rec mark reserve)
qed

text \<open>A reaction never gives requests back, and a terminal round can be repaired only once.\<close>

lemma react_continue:
  assumes "react e lp = Continue lp1 feedback"
  shows "lp_terminal lp1 = lp_terminal lp \<and> lp_requests lp1 = lp_requests lp \<and> lp_cycle lp1 = lp_cycle lp
    \<and> (lp_repaired lp \<longrightarrow> lp_repaired lp1) \<and> (lp_terminal lp \<longrightarrow> \<not> lp_repaired lp \<and> lp_repaired lp1)
    \<and> ts_steps (lp_state lp1) = ts_steps (lp_state lp) \<and> ts_limits (lp_state lp1) = ts_limits (lp_state lp)"
proof -
  have calls: "lp_terminal lp1 = lp_terminal lp \<and> lp_requests lp1 = lp_requests lp \<and> lp_cycle lp1 = lp_cycle lp
      \<and> (lp_repaired lp \<longrightarrow> lp_repaired lp1) \<and> (lp_terminal lp \<longrightarrow> \<not> lp_repaired lp \<and> lp_repaired lp1)
      \<and> ts_steps (lp_state lp1) = ts_steps (lp_state lp) \<and> ts_limits (lp_state lp1) = ts_limits (lp_state lp)"
    if "react_calls e lp cs = Continue lp1 feedback" for cs
  proof -
    obtain b s l where b: "execute_batch e lp cs = (b, s, l)" by (metis prod_cases3)
    show ?thesis
      using that execute_batch_frame [OF b]
      by (auto simp: react_calls_def b Let_def split: prod.splits option.splits if_splits)
  qed
  show ?thesis
    using assms calls
    by (auto simp: react_def react_final_def react_rejected_def Let_def split: if_splits option.splits)
qed

lemma next_round_cases:
  obtains (terminal) "next_round e lp = ([], lp\<lparr>lp_terminal := True\<rparr>)"
    | (advanced) tools where "next_round e lp = (tools, lp\<lparr>lp_state := (lp_state lp)\<lparr>ts_steps := ts_steps (lp_state lp) + 1\<rparr>\<rparr>)"
        "\<not> lp_terminal lp" "ts_steps (lp_state lp) < el_steps (ts_limits (lp_state lp))"
proof (cases "lp_terminal lp \<or> remaining_tool_calls (lp_state lp) = 0 \<or> available_provider_tools e (lp_ledger lp) = []
    \<or> el_steps (ts_limits (lp_state lp)) \<le> ts_steps (lp_state lp)")
  case True
  then have "next_round e lp = ([], lp\<lparr>lp_terminal := True\<rparr>)"
    by (auto simp: next_round_def Let_def advance_step_def)
  then show ?thesis by (rule terminal)
next
  case False
  then have "next_round e lp = (available_provider_tools e (lp_ledger lp), lp\<lparr>lp_state := (lp_state lp)\<lparr>ts_steps := ts_steps (lp_state lp) + 1\<rparr>\<rparr>)"
    by (simp add: next_round_def Let_def advance_step_def)
  then show ?thesis using False by (intro advanced) auto
qed

lemma next_round_requests:
  assumes "lp_terminal lp \<longrightarrow> lp_repaired lp"
  shows "requests_left (snd (next_round e lp)) < (if lp_terminal lp then 1 else requests_left lp)
    \<and> lp_requests (snd (next_round e lp)) = lp_requests lp"
  by (rule next_round_cases [of e lp]) (use assms in \<open>auto simp: requests_left_def\<close>)

text \<open>Every request that is answered leaves fewer requests to make.\<close>

lemma send_request_requests:
  "(case send_request e lp tools cs of
      Inl (err, lp1) \<Rightarrow> lp_requests lp1 \<le> Suc (lp_requests lp)
    | Inr lp1 \<Rightarrow> lp_requests lp1 = Suc (lp_requests lp) \<and> requests_left lp1 = requests_left lp)"
  by (simp add: send_request_def requests_left_def split: option.split)

lemma request_next_requests:
  assumes "lp_terminal lp \<longrightarrow> lp_repaired lp"
  shows "(case request_next e lp feedback of
      Inl (err, lp1) \<Rightarrow> lp_requests lp1 \<le> Suc (lp_requests lp)
    | Inr lp1 \<Rightarrow> lp_requests lp1 = Suc (lp_requests lp)
        \<and> requests_left lp1 < (if lp_terminal lp then 1 else requests_left lp))"
proof -
  define lp1 where "lp1 = lp\<lparr>lp_messages := lp_messages lp @ corrections feedback\<rparr>"
  obtain tools lp2 where round: "next_round e lp1 = (tools, lp2)" by fastforce
  have same: "requests_left lp1 = requests_left lp" "lp_terminal lp1 = lp_terminal lp" "lp_requests lp1 = lp_requests lp"
    by (simp_all add: lp1_def requests_left_def)
  have "lp_terminal lp1 \<longrightarrow> lp_repaired lp1" using assms by (simp add: lp1_def)
  from next_round_requests [OF this, where e = e]
  have less: "requests_left lp2 < (if lp_terminal lp then 1 else requests_left lp)" "lp_requests lp2 = lp_requests lp"
    unfolding round same snd_conv by blast+
  have "request_next e lp feedback = send_request e lp2 tools (corrections feedback)"
    by (simp add: request_next_def lp1_def [symmetric] round)
  then show ?thesis
    using send_request_requests [where e = e and lp = lp2 and tools = tools and cs = "corrections feedback"] less by (auto split: sum.splits)
qed

lemma cycle_step_requests:
  "cycle_step e lp = Inr lp1 \<Longrightarrow> lp_requests lp1 = Suc (lp_requests lp) \<and> requests_left lp1 < requests_left lp"
  "cycle_step e lp = Inl o1 \<Longrightarrow> lp_requests (oc_loop o1) \<le> lp_requests lp + requests_left lp"
proof -
  have go: "lp_terminal lp1 \<longrightarrow> lp_repaired lp1" "lp_requests lp1 = lp_requests lp"
    "(if lp_terminal lp1 then 1 else requests_left lp1) \<le> requests_left lp" "0 < requests_left lp"
    if "react e lp = Continue lp1 feedback" for lp1 feedback
    using react_continue [OF that] by (auto simp: requests_left_def)
  show "lp_requests lp1 = Suc (lp_requests lp) \<and> requests_left lp1 < requests_left lp" if step: "cycle_step e lp = Inr lp1"
  proof -
    obtain lp2 feedback where react: "react e lp = Continue lp2 feedback" and next1: "request_next e lp2 feedback = Inr lp1"
      using step by (auto simp: cycle_step_def split: if_splits reaction.splits sum.splits)
    show ?thesis using request_next_requests [OF go(1) [OF react], where e = e and feedback = feedback] go(2,3) [OF react] by (simp add: next1)
  qed
  show "lp_requests (oc_loop o1) \<le> lp_requests lp + requests_left lp" if step: "cycle_step e lp = Inl o1"
  proof (cases "react e lp")
    case (Stop err lp2)
    have stopped: "lp_requests lp2 = lp_requests lp"
    proof -
      have "lp_requests lp2 = lp_requests lp" if "react_calls e lp cs = Stop err lp2" for cs
        using that by (auto simp: react_calls_def Let_def split: prod.splits option.splits if_splits)
      then show ?thesis using Stop
        by (auto simp: react_def react_final_def react_rejected_def Let_def split: if_splits option.splits)
    qed
    then show ?thesis using step Stop by (auto simp: cycle_step_def failed_def completed_def split: if_splits)
  next
    case (Continue lp2 feedback)
    show ?thesis
      using step Continue request_next_requests [OF go(1) [OF Continue], where e = e and feedback = feedback] go(2,4) [OF Continue]
      by (auto simp: cycle_step_def failed_def completed_def split: if_splits sum.splits)
  qed
qed

function complete_loop :: "engine \<Rightarrow> turn_loop \<Rightarrow> outcome" where
  "complete_loop e lp = (case cycle_step e lp of Inl o1 \<Rightarrow> o1 | Inr lp1 \<Rightarrow> complete_loop e lp1)"
  by pat_completeness auto
termination
  by (relation "measure (\<lambda>(e, lp). requests_left lp)") (auto dest: cycle_step_requests(1))

declare complete_loop.simps [simp del]

definition start_loop :: "engine \<Rightarrow> llm_message list \<Rightarrow> llm_response \<Rightarrow> turn_state \<Rightarrow> turn_loop" where
  "start_loop e messages initial s = \<lparr>lp_response = initial, lp_messages = messages, lp_all = [], lp_terminal = False,
     lp_repaired = False, lp_state = s, lp_ledger = engine_ledger e, lp_observations = new_observations,
     lp_cycle = 1, lp_requests = 0\<rparr>"

text \<open>\<open>Complete\<close>, as \<open>tool_loop.go\<close> calls it: the first step is taken by the first request.\<close>

definition complete :: "engine \<Rightarrow> llm_message list \<Rightarrow> llm_response \<Rightarrow> outcome" where
  "complete e messages initial =
     complete_loop e (start_loop e messages initial (snd (advance_step (new_state (en_limits e)))))"


lemma complete_loop_invariant:
  assumes "P lp" "\<And>lp lp1. P lp \<Longrightarrow> cycle_step e lp = Inr lp1 \<Longrightarrow> P lp1"
    "\<And>lp o1. P lp \<Longrightarrow> cycle_step e lp = Inl o1 \<Longrightarrow> P (oc_loop o1)"
  shows "P (oc_loop (complete_loop e lp))"
  using assms
proof (induction e lp rule: complete_loop.induct)
  case (1 e lp)
  show ?case
  proof (cases "cycle_step e lp")
    case (Inl o1)
    then show ?thesis using 1(2,4) by (subst complete_loop.simps) simp
  next
    case (Inr lp1)
    then have "P (oc_loop (complete_loop e lp1))" using 1(1) [OF Inr] 1(2-4) by blast
    then show ?thesis using Inr by (subst complete_loop.simps) simp
  qed
qed

lemma complete_loop_requests: "lp_requests (oc_loop (complete_loop e lp)) \<le> lp_requests lp + requests_left lp"
proof (induction e lp rule: complete_loop.induct)
  case (1 e lp)
  show ?case
    by (subst complete_loop.simps)
      (use 1 cycle_step_requests [of e lp] in \<open>fastforce split: sum.split\<close>)
qed

section \<open>Properties\<close>

text \<open>C25. A turn ends.  Whatever the provider answers and whatever the tools do, the loop stops, and after the
  initial request it sends at most one request more than the limit of steps allows: at most
  \<open>MaxSteps - 1\<close> rounds with tools and two terminal ones.\<close>

theorem turn_ends:
  assumes "1 \<le> el_steps (en_limits e)"
  shows "int (lp_requests (oc_loop (complete e messages initial))) \<le> el_steps (en_limits e) + 1"
proof -
  have "requests_left (start_loop e messages initial (snd (advance_step (new_state (en_limits e)))))
      = nat (el_steps (en_limits e) - 1) + 2"
    using assms by (simp add: requests_left_def start_loop_def advance_step_def new_state_def)
  then show ?thesis
    using assms complete_loop_requests [of e "start_loop e messages initial (snd (advance_step (new_state (en_limits e))))"]
    unfolding complete_def by (simp add: start_loop_def)
qed

text \<open>The results of a batch answer its calls.\<close>

lemma execute_batch_results:
  assumes "execute_batch e lp calls = (b, s, l)"
  shows "map fst b = calls \<and> list_all (\<lambda>(c, r). tr_call r = c_id c \<and> tr_tool r = c_name c) b"
proof -
  have batch: "b = zip calls rs \<Longrightarrow> length rs = length calls \<Longrightarrow> map tr_call rs = map c_id calls \<Longrightarrow>
      map tr_tool rs = map c_name calls \<Longrightarrow> ?thesis" for rs
    by (auto simp: list_all_iff set_zip dest: arg_cong [where f = "\<lambda>xs. xs ! _"]) (metis nth_map)+
  show ?thesis
  proof (cases "b = zip calls (map limit_result calls)")
    case True
    then show ?thesis by (rule batch) (simp_all add: limit_result_def action_error_result_def error_result_def)
  next
    case False
    then have "b = zip calls (fst (execute_all (engine_executor e) (en_agent e) (en_world e (lp_cycle lp))
        (en_sched e (lp_cycle lp)) calls (Some (lp_ledger lp))))"
      using assms by (auto simp: execute_batch_def Let_def split_beta split: if_splits)
    then show ?thesis by (rule batch) (use execute_all_answers in blast)+
  qed
qed


text \<open>The loop changes its state, its results and its transcript only by executing a batch.\<close>

definition batch_done :: "engine \<Rightarrow> turn_loop \<Rightarrow> turn_loop \<Rightarrow> bool" where
  "batch_done e lp lp1 \<longleftrightarrow> (\<exists>b s l. lr_calls (lp_response lp) \<noteq> []
     \<and> protocol_error (en_quote e) (lp_observations lp) (map from_llm (lr_calls (lp_response lp))) = None
     \<and> execute_batch e lp (map from_llm (lr_calls (lp_response lp))) = (b, s, l)
     \<and> lp_all lp1 = lp_all lp @ b \<and> lp_state lp1 = s
     \<and> lp_observations lp1 = fold (store_item e) b (lp_observations lp)
     \<and> (lp_messages lp1 = lp_messages lp \<or>
          list_all2 (item_ok e) (lr_calls (lp_response lp)) b
          \<and> lp_messages lp1 = lp_messages lp @ new_message (lit ''assistant'') (lr_content (lp_response lp)) (lr_calls (lp_response lp)) []
                # map (item_message e) b))"

definition batch_skipped :: "turn_loop \<Rightarrow> turn_loop \<Rightarrow> bool" where
  "batch_skipped lp lp1 \<longleftrightarrow> lp_all lp1 = lp_all lp \<and> lp_state lp1 = lp_state lp \<and> lp_observations lp1 = lp_observations lp
     \<and> (lp_messages lp1 = lp_messages lp
        \<or> lp_messages lp1 = lp_messages lp @ [new_message (lit ''assistant'') (Some (response_content (lp_response lp))) [] []])"

lemma react_calls_effect:
  assumes "lr_calls (lp_response lp) \<noteq> []"
    and "protocol_error (en_quote e) (lp_observations lp) (map from_llm (lr_calls (lp_response lp))) = None"
    and "react_calls e lp (map from_llm (lr_calls (lp_response lp))) \<in> {Stop err lp1, Continue lp1 feedback}"
  shows "batch_done e lp lp1"
proof -
  let ?calls = "map from_llm (lr_calls (lp_response lp))"
  obtain b s l where b: "execute_batch e lp ?calls = (b, s, l)" by (metis prod_cases3)
  have "map fst b = ?calls" using execute_batch_results [OF b] ..
  then have n: "length (lr_calls (lp_response lp)) = length b" by (metis length_map)
  obtain ms ob where p: "append_registry_protocol e (lp_messages lp) (lp_response lp) b (lp_observations lp) = (ms, ob)"
    by fastforce
  have ob: "ob = fold (store_item e) b (lp_observations lp)"
    and ms: "ms = (if list_all2 (item_ok e) (lr_calls (lp_response lp)) b
      then Some (lp_messages lp @ new_message (lit ''assistant'') (lr_content (lp_response lp)) (lr_calls (lp_response lp)) []
                # map (item_message e) b) else None)"
    using p n by (simp_all add: append_registry_protocol_def Let_def del: lit_simps split: if_splits)
  have effect: "lp_all lp1 = lp_all lp @ b" "lp_state lp1 = s" "lp_observations lp1 = ob"
    "lp_messages lp1 = (case ms of None \<Rightarrow> lp_messages lp | Some ms \<Rightarrow> ms)"
    using assms(3) by (auto simp: react_calls_def b p Let_def split: option.splits if_splits)
  show ?thesis
    unfolding batch_done_def using assms(1,2) b effect ob ms
    by (intro exI [of _ b] exI [of _ s] exI [of _ l]) (simp del: lit_simps split: if_splits)
qed

lemma react_effect:
  assumes "react e lp \<in> {Stop err lp1, Continue lp1 feedback}"
  shows "batch_done e lp lp1 \<or> batch_skipped lp lp1"
proof -
  consider "react e lp = react_final lp" | err where "react e lp = react_rejected lp err"
    | (calls) "lr_calls (lp_response lp) \<noteq> []"
        "protocol_error (en_quote e) (lp_observations lp) (map from_llm (lr_calls (lp_response lp))) = None"
        "react e lp = react_calls e lp (map from_llm (lr_calls (lp_response lp)))"
    by (cases "lr_calls (lp_response lp) = []";
        cases "lr_finish (lp_response lp) = lit ''length''
          \<or> protocol_error (en_quote e) (lp_observations lp) (map from_llm (lr_calls (lp_response lp))) \<noteq> None")
      (auto simp: react_def Let_def simp del: lit_simps)
  then show ?thesis
  proof cases
    case calls
    then show ?thesis using react_calls_effect [of lp e err lp1 feedback] assms by simp
  qed (use assms in \<open>auto simp: react_final_def react_rejected_def batch_skipped_def simp del: lit_simps
      split: if_splits option.splits\<close>)
qed

text \<open>Asking for the next response appends messages without calls and at most takes a step.\<close>

definition asked :: "turn_loop \<Rightarrow> turn_loop \<Rightarrow> bool" where
  "asked lp lp1 \<longleftrightarrow> lp_all lp1 = lp_all lp \<and> lp_observations lp1 = lp_observations lp
     \<and> lp_state lp1 \<in> {lp_state lp, (lp_state lp)\<lparr>ts_steps := ts_steps (lp_state lp) + 1\<rparr>}
     \<and> (\<exists>feedback. lp_messages lp1 = lp_messages lp @ corrections feedback)"

lemma next_round_asked: "asked lp (snd (next_round e (lp\<lparr>lp_messages := lp_messages lp @ corrections feedback\<rparr>)))"
  by (rule next_round_cases [of e "lp\<lparr>lp_messages := lp_messages lp @ corrections feedback\<rparr>"]) (auto simp: asked_def)

lemma request_next_asked:
  "(case request_next e lp feedback of Inl (err, lp1) \<Rightarrow> asked lp lp1 | Inr lp1 \<Rightarrow> asked lp lp1)"
proof -
  obtain tools lp2 where round: "next_round e (lp\<lparr>lp_messages := lp_messages lp @ corrections feedback\<rparr>) = (tools, lp2)"
    by fastforce
  have "asked lp lp2" using next_round_asked [of lp e feedback] by (simp add: round)
  then show ?thesis
    by (simp add: request_next_def round send_request_def split: option.split) (simp add: asked_def)
qed

text \<open>What a turn keeps: an invariant that reactions and requests preserve\<close>

lemma turn_invariant:
  assumes "P (start_loop e messages initial (snd (advance_step (new_state (en_limits e)))))"
    and react: "\<And>lp lp1. P lp \<Longrightarrow> batch_done e lp lp1 \<or> batch_skipped lp lp1 \<Longrightarrow> P lp1"
    and ask: "\<And>lp lp1. P lp \<Longrightarrow> asked lp lp1 \<Longrightarrow> P lp1"
  shows "P (oc_loop (complete e messages initial))"
  unfolding complete_def
proof (rule complete_loop_invariant [where P = P, OF assms(1)])
  fix lp lp1
  assume P: "P lp" and step: "cycle_step e lp = Inr lp1"
  then obtain lp2 feedback where "react e lp = Continue lp2 feedback" "request_next e lp2 feedback = Inr lp1"
    by (auto simp: cycle_step_def split: if_splits reaction.splits sum.splits)
  then show "P lp1"
    using react [OF P] react_effect [of e lp _ lp2 feedback] ask [of lp2 lp1] request_next_asked [where e = e and lp = lp2 and feedback = feedback]
    by (simp add: Pair_inject)
next
  fix lp o1
  assume P: "P lp" and step: "cycle_step e lp = Inl o1"
  show "P (oc_loop o1)"
  proof (cases "react e lp")
    case (Stop err lp2)
    then have "P lp2" using react [OF P] react_effect [of e lp err lp2] by simp
    then show ?thesis using P step Stop by (auto simp: cycle_step_def failed_def completed_def split: if_splits)
  next
    case (Continue lp2 feedback)
    have P2: "P lp2" using react [OF P] react_effect [of e lp _ lp2 feedback] Continue by simp
    have "P lp1" if "request_next e lp2 feedback = Inl (err, lp1)" for err lp1
      using ask [OF P2] request_next_asked [where e = e and lp = lp2 and feedback = feedback] that by simp
    then show ?thesis
      using P step Continue by (auto simp: cycle_step_def failed_def completed_def split: if_splits sum.splits)
  qed
qed


section \<open>The budget of a turn\<close>

definition started_effects :: "batch_result \<Rightarrow> nat" where
  "started_effects b = length (filter (\<lambda>(c, r). tr_state r \<noteq> Not_started) b)"

definition budget_inv :: "execution_limits \<Rightarrow> turn_loop \<Rightarrow> bool" where
  "budget_inv limits lp \<longleftrightarrow> turn_state_ok (lp_state lp) \<and> ts_limits (lp_state lp) = limits
     \<and> ts_attempted (lp_state lp) = int (length (lp_all lp))
     \<and> ts_failed (lp_state lp) = int (length (filter (\<lambda>(c, r). tr_error r) (lp_all lp)))
     \<and> int (started_effects (lp_all lp)) \<le> ts_reserved (lp_state lp)"

lemma started_effects_zip: "length (filter (\<lambda>(c, r). tr_state r \<noteq> Not_started) b) \<le> length b"
  by simp

lemma filter_results: "map snd b = rs \<Longrightarrow> length (filter (\<lambda>(c, r). P r) b) = length (filter P rs)"
  by (induction b arbitrary: rs) auto

text \<open>What a batch does to the budget\<close>

lemma execute_batch_budget:
  assumes run: "execute_batch e lp calls = (b, s, l)" and ok: "turn_state_ok (lp_state lp)"
  shows "turn_state_ok s \<and> ts_limits s = ts_limits (lp_state lp)
    \<and> ts_attempted s = ts_attempted (lp_state lp) + int (length b)
    \<and> ts_failed s = ts_failed (lp_state lp) + int (length (filter (\<lambda>(c, r). tr_error r) b))
    \<and> ts_reserved (lp_state lp) + int (started_effects b) \<le> ts_reserved s"
proof -
  let ?n = "int (length calls)"
  obtain reserved s1 where r: "(if lp_terminal lp then (False, lp_state lp) else reserve_tool_calls ?n (lp_state lp)) = (reserved, s1)"
    by fastforce
  define rs where "rs = (if reserved then fst (execute_all (engine_executor e) (en_agent e) (en_world e (lp_cycle lp))
        (en_sched e (lp_cycle lp)) calls (Some (lp_ledger lp))) else map limit_result calls)"
  have len: "length rs = length calls" using execute_all_answers by (auto simp: rs_def)
  have run': "b = zip calls rs" "s = fold record_result (map tr_error rs) (s1\<lparr>ts_attempted := ts_attempted s1 + ?n\<rparr>)"
    using run unfolding execute_batch_def r rs_def
    by (auto simp: Let_def split_beta ignore_error_def mark_tool_attempted_def split: if_splits)
  have s1: "s1 = (lp_state lp)\<lparr>ts_reserved := ts_reserved (lp_state lp) + (if reserved then ?n else 0)\<rparr>"
    "reserved \<Longrightarrow> ts_reserved (lp_state lp) + ?n \<le> el_calls (ts_limits (lp_state lp))"
    using r by (auto simp: reserve_tool_calls_def split: if_splits)
  have "ts_succeeded (lp_state lp) + ts_failed (lp_state lp) = ts_attempted (lp_state lp)"
    using ok by (simp add: turn_state_ok_def)
  then have s: "s = s1\<lparr>ts_attempted := ts_attempted s1 + ?n,
      ts_succeeded := ts_succeeded s1 + int (length (filter Not (map tr_error rs))),
      ts_failed := ts_failed s1 + int (length (filter id (map tr_error rs)))\<rparr>"
    unfolding run'(2) by (subst record_results) (simp_all add: s1(1) len)
  have snd: "map snd b = rs" and lenb: "length b = length calls" by (simp_all add: run'(1) len)
  have fails: "length (filter (\<lambda>(c, r). tr_error r) b) = length (filter id (map tr_error rs))"
    unfolding filter_results [OF snd] by (simp add: filter_map comp_def)
  have effects: "int (started_effects b) \<le> (if reserved then ?n else 0)"
  proof (cases reserved)
    case True
    then show ?thesis using started_effects_zip [of b] by (simp add: started_effects_def lenb)
  next
    case False
    then have "filter (\<lambda>r. tr_state r \<noteq> Not_started) rs = []"
      by (simp add: rs_def filter_empty_conv limit_result_def action_error_result_def)
    then show ?thesis using False by (simp add: started_effects_def filter_results [OF snd])
  qed
  have "length (filter Not (map tr_error rs)) + length (filter id (map tr_error rs)) = length calls"
    using sum_length_filter_compl [of id "map tr_error rs"] by (simp add: len comp_def id_def)
  then have "int (length (filter Not (map tr_error rs))) + int (length (filter id (map tr_error rs))) = ?n"
    by linarith
  then show ?thesis
    using ok s1(2) effects fails unfolding s turn_state_ok_def
    by (simp add: s1(1) lenb split: if_splits) linarith?
qed

text \<open>C27. The tool budget of a turn holds, and its evidence is consistent.  At most \<open>MaxToolCalls\<close> of the results
  of a turn may have had any effect or produced data (all others are \<open>NOT_STARTED\<close>), and the counts the
  turn reports are the counts of its results, a combination \<open>NewEvidence\<close> accepts.\<close>

theorem turn_budget_holds:
  "let lp = oc_loop (complete e messages initial)
   in int (started_effects (lp_all lp)) \<le> max 0 (el_calls (en_limits e))
     \<and> new_evidence (0 < length (lp_all lp)) (int (length (lp_all lp)))
          (int (length (filter (\<lambda>(c, r). \<not> tr_error r) (lp_all lp)))) (int (length (filter (\<lambda>(c, r). tr_error r) (lp_all lp))))
        = Some (state_evidence (lp_state lp))"
proof -
  have "budget_inv (en_limits e) (oc_loop (complete e messages initial))"
  proof (rule turn_invariant)
    show "budget_inv (en_limits e) (start_loop e messages initial (snd (advance_step (new_state (en_limits e)))))"
      by (simp add: budget_inv_def start_loop_def advance_step_def new_state_def turn_state_ok_def started_effects_def)
    show "budget_inv (en_limits e) lp1" if "budget_inv (en_limits e) lp" "asked lp lp1" for lp lp1
      using that by (auto simp: budget_inv_def asked_def turn_state_ok_def)
    show "budget_inv (en_limits e) lp1" if inv: "budget_inv (en_limits e) lp" and react: "batch_done e lp lp1 \<or> batch_skipped lp lp1" for lp lp1
      using react
    proof
      assume "batch_done e lp lp1"
      then obtain b s l where b: "execute_batch e lp (map from_llm (lr_calls (lp_response lp))) = (b, s, l)"
        "lp_all lp1 = lp_all lp @ b" "lp_state lp1 = s"
        by (auto simp: batch_done_def)
      show ?thesis
        using inv execute_batch_budget [OF b(1)] by (simp add: budget_inv_def b(2,3) started_effects_def)
    qed (use inv in \<open>auto simp: budget_inv_def batch_skipped_def\<close>)
  qed
  moreover have "length (filter (\<lambda>(c, r). \<not> tr_error r) xs) + length (filter (\<lambda>(c, r). tr_error r) xs) = length xs" for xs :: batch_result
    using sum_length_filter_compl [of "\<lambda>(c, r). tr_error r" xs] by (simp add: case_prod_unfold add.commute)
  ultimately show ?thesis
    unfolding Let_def budget_inv_def turn_state_ok_def new_evidence_def state_evidence_def
    by (auto simp flip: of_nat_add) (metis add_diff_cancel_right' of_nat_add)
qed


section \<open>The transcript\<close>

text \<open>A provider accepts a transcript in which every assistant message with calls is followed by exactly one tool
  message per call, in the order of the calls, and tool messages occur nowhere else.\<close>

definition tool_message_for :: "tool_call \<Rightarrow> llm_message \<Rightarrow> bool" where
  "tool_message_for c m \<longleftrightarrow> lm_role m = lit ''tool'' \<and> lm_calls m = [] \<and> message_call_id m = tc_id c"

inductive protocol_ok :: "llm_message list \<Rightarrow> bool" where
  empty: "protocol_ok []"
| plain: "protocol_ok ms \<Longrightarrow> lm_calls m = [] \<Longrightarrow> lm_role m \<noteq> lit ''tool'' \<Longrightarrow> protocol_ok (ms @ [m])"
| round: "protocol_ok ms \<Longrightarrow> lm_calls m \<noteq> [] \<Longrightarrow> lm_role m = lit ''assistant'' \<Longrightarrow>
    list_all2 tool_message_for (lm_calls m) answers \<Longrightarrow> protocol_ok (ms @ m # answers)"

text \<open>The batch of a response: fresh identifiers, each result stored under its own call\<close>

definition answers_ok :: "turn_loop \<Rightarrow> bool" where
  "answers_ok lp \<longleftrightarrow> distinct (map (\<lambda>(c, r). c_id c) (lp_all lp))
     \<and> (\<forall>(c, r) \<in> set (lp_all lp). tr_call r = c_id c \<and> tr_tool r = c_name c \<and> ob_results (lp_observations lp) (c_id c) = Some r)"

lemma identity_loop_fresh:
  "identity_loop seen cs = None \<Longrightarrow>
     distinct (map (\<lambda>c. trim_space (c_id c)) cs) \<and> set (map (\<lambda>c. trim_space (c_id c)) cs) \<inter> set seen = {}"
  by (induction seen cs rule: identity_loop.induct) (auto simp: Let_def split: if_splits)

lemma batch_identity_distinct: "validate_batch_identity cs = None \<Longrightarrow> distinct (map c_id cs)"
proof -
  assume "validate_batch_identity cs = None"
  then have "distinct (map trim_space (map c_id cs))"
    using identity_loop_fresh [of "[]" cs] by (simp add: validate_batch_identity_def comp_def)
  then show ?thesis by (auto simp: distinct_map dest: inj_on_imageI2)
qed

lemma protocol_error_fresh:
  "protocol_error q ob calls = None \<Longrightarrow> distinct (map c_id calls) \<and> (\<forall>c \<in> set calls. ob_results ob (c_id c) = None)"
  by (auto simp: protocol_error_def find_None_iff batch_identity_distinct split: option.splits)

lemma fold_store_results:
  "list_all (\<lambda>(c, r). tr_call r = c_id c) b \<Longrightarrow>
     ob_results (fold (store_item e) b ob) = ob_results ob ++ map_of (rev (map (\<lambda>(c, r). (c_id c, r)) b))"
proof (induction b arbitrary: ob)
  case (Cons x b)
  obtain c r where x: "x = (c, r)" by fastforce
  have "ob_results (store_item e x ob) = (ob_results ob)(c_id c \<mapsto> r)"
    using Cons.prems by (simp add: x store_item_def store_result_def record_call_def)
  then show ?case using Cons by (simp add: x map_add_def fun_eq_iff split: option.split)
qed simp

lemma batch_answers_ok:
  assumes ok: "answers_ok lp" and batch: "batch_done e lp lp1"
  shows "answers_ok lp1"
proof -
  let ?calls = "map from_llm (lr_calls (lp_response lp))" and ?ob = "lp_observations lp"
  obtain b s l where b: "execute_batch e lp ?calls = (b, s, l)" and fresh: "protocol_error (en_quote e) ?ob ?calls = None"
    and lp1: "lp_all lp1 = lp_all lp @ b" "lp_observations lp1 = fold (store_item e) b ?ob"
    using batch by (auto simp: batch_done_def)
  have answers: "map fst b = ?calls" "list_all (\<lambda>(c, r). tr_call r = c_id c \<and> tr_tool r = c_name c) b"
    using execute_batch_results [OF b] by auto
  have ids: "map (\<lambda>(c, r). c_id c) b = map c_id ?calls"
    unfolding answers(1) [symmetric] by (simp add: case_prod_unfold)
  have "c \<in> set ?calls" if "(c, r) \<in> set b" for c r
    unfolding answers(1) [symmetric] using that by force
  then have new: "distinct (map (\<lambda>(c, r). c_id c) b)" "\<And>c r. (c, r) \<in> set b \<Longrightarrow> ob_results ?ob (c_id c) = None"
    unfolding ids using protocol_error_fresh [OF fresh] by blast+
  have results: "ob_results (lp_observations lp1) = ob_results ?ob ++ map_of (rev (map (\<lambda>(c, r). (c_id c, r)) b))"
    unfolding lp1(2) by (rule fold_store_results) (use answers(2) in \<open>auto simp: list_all_iff\<close>)
  have keys: "map fst (rev (map (\<lambda>(c, r). (c_id c, r)) b)) = rev (map (\<lambda>(c, r). c_id c) b)"
    by (simp add: rev_map case_prod_unfold comp_def)
  have stored: "ob_results (lp_observations lp1) (c_id c) = Some r" if "(c, r) \<in> set b" for c r
  proof -
    have "map_of (rev (map (\<lambda>(c, r). (c_id c, r)) b)) (c_id c) = Some r"
      by (rule map_of_is_SomeI) (use new(1) that in \<open>auto simp: keys\<close>)
    then show ?thesis by (simp add: results)
  qed
  have kept: "ob_results (lp_observations lp1) i = Some r" if "ob_results ?ob i = Some r" for i r
  proof -
    have "i \<notin> set (map (\<lambda>(c, r). c_id c) b)" using new(2) that by auto
    then have "map_of (rev (map (\<lambda>(c, r). (c_id c, r)) b)) i = None"
      unfolding map_of_eq_None_iff by force
    then show ?thesis using that by (simp add: results map_add_def)
  qed
  have old: "ob_results ?ob (c_id c) = Some r" if "(c, r) \<in> set (lp_all lp)" for c r
    using ok that by (auto simp: answers_ok_def)
  have "(\<lambda>(c, r). c_id c) ` set (lp_all lp) \<inter> (\<lambda>(c, r). c_id c) ` set b = {}"
    using old new(2) by fastforce
  then show ?thesis
    using ok new(1) answers(2) stored kept old unfolding answers_ok_def lp1(1)
    by (auto simp: list_all_iff)
qed

lemma protocol_ok_append_plain:
  "protocol_ok ms \<Longrightarrow> \<forall>m \<in> set new. lm_calls m = [] \<and> lm_role m \<noteq> lit ''tool'' \<Longrightarrow> protocol_ok (ms @ new)"
proof (induction new rule: rev_induct)
  case (snoc m new)
  then show ?case using protocol_ok.plain [of "ms @ new" m] by (simp del: lit_simps)
qed simp

lemma item_messages:
  "list_all2 (item_ok e) calls b \<Longrightarrow> list_all2 tool_message_for calls (map (item_message e) b)"
  by (induction rule: list_all2_induct)
    (auto simp: item_ok_def item_message_def tool_message_for_def new_message_def message_call_id_def simp del: lit_simps)

lemma batch_protocol:
  assumes "protocol_ok (lp_messages lp)" "batch_done e lp lp1"
  shows "protocol_ok (lp_messages lp1)"
proof -
  obtain b where calls: "lr_calls (lp_response lp) \<noteq> []" and cases: "lp_messages lp1 = lp_messages lp \<or>
      list_all2 (item_ok e) (lr_calls (lp_response lp)) b
      \<and> lp_messages lp1 = lp_messages lp @ new_message (lit ''assistant'') (lr_content (lp_response lp)) (lr_calls (lp_response lp)) []
          # map (item_message e) b"
    using assms(2) by (auto simp: batch_done_def simp del: lit_simps)
  from cases show ?thesis
  proof
    assume round: "list_all2 (item_ok e) (lr_calls (lp_response lp)) b
      \<and> lp_messages lp1 = lp_messages lp @ new_message (lit ''assistant'') (lr_content (lp_response lp)) (lr_calls (lp_response lp)) []
          # map (item_message e) b"
    show ?thesis
      unfolding conjunct2 [OF round]
      by (rule protocol_ok.round [OF assms(1)])
        (use calls round item_messages in \<open>auto simp: new_message_def simp del: lit_simps\<close>)
  qed (use assms(1) in simp)
qed

text \<open>C26. The transcript stays well-formed.  If the transcript a turn starts from is one a provider accepts, so is
  the transcript it ends with, whatever the provider answered in between: assistant calls and tool
  messages stay paired.  All calls of the turn have different identifiers, and each result is retained
  under the identifier and name of its own call.\<close>

theorem turn_transcript_ok:
  assumes "protocol_ok messages"
  shows "protocol_ok (lp_messages (oc_loop (complete e messages initial)))
    \<and> answers_ok (oc_loop (complete e messages initial))"
proof (rule turn_invariant [where P = "\<lambda>lp. protocol_ok (lp_messages lp) \<and> answers_ok lp"])
  show "protocol_ok (lp_messages (start_loop e messages initial (snd (advance_step (new_state (en_limits e))))))
      \<and> answers_ok (start_loop e messages initial (snd (advance_step (new_state (en_limits e)))))"
    using assms by (simp add: start_loop_def answers_ok_def)
  fix lp lp1
  assume inv: "protocol_ok (lp_messages lp) \<and> answers_ok lp"
  show "protocol_ok (lp_messages lp1) \<and> answers_ok lp1" if ask: "asked lp lp1"
  proof -
    obtain feedback where "lp_messages lp1 = lp_messages lp @ corrections feedback" using ask unfolding asked_def by blast
    then have "protocol_ok (lp_messages lp1)"
      using protocol_ok_append_plain [of "lp_messages lp" "corrections feedback"] inv
      by (simp add: corrections_def new_message_def)
    then show ?thesis using inv ask by (simp add: answers_ok_def asked_def)
  qed
  show "protocol_ok (lp_messages lp1) \<and> answers_ok lp1" if react: "batch_done e lp lp1 \<or> batch_skipped lp lp1"
    using react
  proof
    assume skipped: "batch_skipped lp lp1"
    have "protocol_ok (lp_messages lp @ [new_message (lit ''assistant'') (Some (response_content (lp_response lp))) [] []])"
      by (rule protocol_ok_append_plain) (use inv in \<open>simp_all add: new_message_def\<close>)
    then show ?thesis using inv skipped by (auto simp: batch_skipped_def answers_ok_def simp del: lit_simps)
  qed (use inv batch_protocol batch_answers_ok in blast)
qed


section \<open>Witnesses\<close>

text \<open>An engine with one tool; the provider first calls it, then answers.\<close>

definition demo_engine :: engine where
  "demo_engine = \<lparr>en_registry = demo_registry, en_agent = i_context demo_invocation,
     en_limits = \<lparr>el_steps = 2, el_calls = 1, el_per_tool = 1, el_failures = 0, el_timeout = 0\<rparr>,
     en_allowed = [d_name demo_descriptor], en_marker = [], en_allow_silence = False,
     en_provider = [\<lparr>pt_definition = \<lparr>def_name = d_name demo_descriptor, def_description = [], def_parameters = JNull\<rparr>,
                     pt_strict = False\<rparr>],
     en_message = \<lambda>_ _. [], en_quote = id, en_ended = \<lambda>_. False, en_ended_late = \<lambda>_. False,
     en_world = \<lambda>_ _. demo_surroundings, en_sched = \<lambda>_ _. [], en_view = \<lambda>_ _. [123, 125],
     en_project = \<lambda>messages _ _ _. Some messages,
     en_client = \<lambda>_ _ _. Some \<lparr>lr_content = Some [111, 107], lr_finish = lit ''stop'', lr_calls = []\<rparr>\<rparr>"

definition demo_question :: llm_message where
  "demo_question = new_message (lit ''user'') (Some [104, 105]) [] []"

definition demo_answer :: llm_response where
  "demo_answer = \<lparr>lr_content = None, lr_finish = lit ''tool_calls'',
     lr_calls = [\<lparr>tc_id = [97], tc_name = d_name demo_descriptor, tc_raw = [123, 34, 110, 34, 58, 51, 125]\<rparr>]\<rparr>"

lemma turn_ends_witness: "lp_requests (oc_loop (complete demo_engine [demo_question] demo_answer)) \<le> 3"
  using turn_ends [of demo_engine "[demo_question]" demo_answer] by (simp add: demo_engine_def)

lemma turn_transcript_ok_witness: "protocol_ok (lp_messages (oc_loop (complete demo_engine [demo_question] demo_answer)))"
proof -
  have "protocol_ok [demo_question]"
    using protocol_ok.plain [OF protocol_ok.empty, of demo_question] by (simp add: demo_question_def new_message_def)
  then show ?thesis using turn_transcript_ok by blast
qed

end
