(* ===== verification/ContextBudget.thy ===== *)
theory ContextBudget
  imports TurnLoop "HOL-Library.Product_Lexorder"
begin

text \<open>
  The projection of a transcript into the provider's context: \<open>internal/agent/assemble/context.go\<close> with the
  wire size of \<open>assemble.go\<close>.  The fingerprint of messages (a SHA-256 digest) and the text of the index
  of results are arguments.
\<close>

section \<open>Wire size\<close>

definition json_array :: "str list \<Rightarrow> str" where
  "json_array xs = [91] @ join [44] xs @ [93]"

definition call_wire :: "tool_call \<Rightarrow> str" where
  "call_wire c = json_struct
     [json_member ''function'' (json_struct [json_member ''arguments'' (encode_string (tc_raw c)), json_member ''name'' (encode_string (tc_name c))]),
      json_member ''id'' (encode_string (tc_id c)), json_member ''type'' (encode_string (lit ''function''))]"

text \<open>\<open>messageWireFormat\<close>: the members in the order of their names\<close>

definition message_wire :: "llm_message \<Rightarrow> str" where
  "message_wire m = json_struct
     ([json_member ''content'' (case lm_content m of None \<Rightarrow> lit ''null'' | Some s \<Rightarrow> encode_string s),
       json_member ''role'' (encode_string (lm_role m))]
      @ (if message_call_id m = [] then [] else [json_member ''tool_call_id'' (encode_string (message_call_id m))])
      @ (if lm_calls m = [] then [] else [json_member ''tool_calls'' (json_array (map call_wire (lm_calls m)))]))"

definition serialized :: "llm_message list \<Rightarrow> int" where
  "serialized ms = int (utf8_len (json_array (map message_wire ms)))"

section \<open>The budget\<close>

datatype context_source = From_memory | From_historical_evidence | From_recent_room | From_observation | From_correction

record context_unit =
  cu_source :: context_source
  cu_timestamp :: int
  cu_fingerprint :: str
  cu_priority :: int
  cu_messages :: "llm_message list"
  cu_order :: int
  cu_tail :: bool

record context_input =
  ci_prefix :: "llm_message list"
  ci_optional :: "context_unit list"
  ci_suffix :: "llm_message list"
  ci_tail :: "context_unit list"
  ci_runtime :: "llm_message list"
  ci_max :: int
  ci_reserve :: int
  ci_manifest :: int

record projection =
  pr_messages :: "llm_message list"
  pr_chars :: int
  pr_tokens :: int
  pr_budget :: int
  pr_removed :: int
  pr_pruned :: bool
  pr_overflow :: bool
  pr_fingerprint :: str

definition max_context_tokens :: int where
  "max_context_tokens = 1000000"

definition request_envelope_chars :: int where
  "request_envelope_chars = 64"

definition budget_chars :: "context_input \<Rightarrow> int" where
  "budget_chars ci = (ci_max ci - ci_reserve ci - ci_manifest ci) * 4"

text \<open>\<open>deduplicateUnits\<close>: of the units with one fingerprint one stays.  The order of a map's iteration does not
  matter, as the units are sorted by \<open>order\<close> afterwards.\<close>

definition better :: "context_unit \<Rightarrow> context_unit \<Rightarrow> bool" where
  "better unit existing \<longleftrightarrow> cu_priority existing < cu_priority unit
     \<or> (cu_priority unit = cu_priority existing \<and> cu_timestamp existing \<le> cu_timestamp unit)"

definition keep_unit :: "context_unit \<Rightarrow> context_unit list \<Rightarrow> context_unit list" where
  "keep_unit unit us =
     (case find (\<lambda>u. cu_fingerprint u = cu_fingerprint unit) us of
        None \<Rightarrow> us @ [unit]
      | Some existing \<Rightarrow>
          if better unit existing then map (\<lambda>u. if cu_fingerprint u = cu_fingerprint unit then unit else u) us else us)"

definition numbered :: "(llm_message list \<Rightarrow> str) \<Rightarrow> nat \<times> context_unit \<Rightarrow> context_unit" where
  "numbered fp x = (case x of (i, u) \<Rightarrow>
     u\<lparr>cu_order := int i, cu_fingerprint := (if cu_fingerprint u = [] then fp (cu_messages u) else cu_fingerprint u)\<rparr>)"

definition deduplicate_units :: "(llm_message list \<Rightarrow> str) \<Rightarrow> context_unit list \<Rightarrow> context_unit list" where
  "deduplicate_units fp us = sort_key cu_order (fold keep_unit (map (numbered fp) (enumerate 0 us)) [])"

definition rank :: "context_unit \<Rightarrow> int \<times> int \<times> int" where
  "rank u = (- cu_priority u, - cu_timestamp u, - cu_order u)"

fun select_units :: "int \<Rightarrow> context_unit list \<Rightarrow> int list" where
  "select_units remaining [] = []"
| "select_units remaining (u # us) =
     (let cost = serialized (cu_messages u)
      in if cost \<le> remaining then cu_order u # select_units (remaining - cost) us else select_units remaining us)"

definition required_chars :: "context_input \<Rightarrow> int" where
  "required_chars ci = serialized (ci_prefix ci) + serialized (ci_suffix ci) + serialized (ci_runtime ci) + request_envelope_chars"

definition all_optional :: "context_input \<Rightarrow> context_unit list" where
  "all_optional ci = ci_optional ci @ map (\<lambda>u. u\<lparr>cu_tail := True\<rparr>) (ci_tail ci)"

definition selected_units :: "(llm_message list \<Rightarrow> str) \<Rightarrow> context_input \<Rightarrow> context_unit list" where
  "selected_units fp ci =
     (let units = deduplicate_units fp (all_optional ci);
          chosen = select_units (budget_chars ci - required_chars ci) (sort_key rank units)
      in filter (\<lambda>u. cu_order u \<in> set chosen) units)"

definition unit_messages :: "context_unit list \<Rightarrow> llm_message list" where
  "unit_messages us = concat (map cu_messages us)"

text \<open>\<open>Project\<close>; \<open>None\<close> is an error.\<close>

definition project_context :: "(llm_message list \<Rightarrow> str) \<Rightarrow> context_input \<Rightarrow> projection option" where
  "project_context fp ci =
     (if ci_max ci \<le> 0 \<or> max_context_tokens < ci_max ci then None
      else if ci_reserve ci < 0 \<or> ci_manifest ci < 0 \<or> ci_max ci \<le> ci_reserve ci + ci_manifest ci then None
      else if budget_chars ci < required_chars ci then None
      else
        let units = selected_units fp ci;
            messages = ci_prefix ci @ unit_messages (filter (\<lambda>u. \<not> cu_tail u) units) @ ci_suffix ci
              @ unit_messages (filter cu_tail units) @ ci_runtime ci;
            chars = serialized messages + request_envelope_chars;
            removed = int (length (all_optional ci)) - int (length units)
        in Some \<lparr>pr_messages = messages, pr_chars = chars, pr_tokens = (chars + 3) div 4, pr_budget = budget_chars ci,
             pr_removed = removed, pr_pruned = (0 < removed), pr_overflow = False, pr_fingerprint = fp messages\<rparr>)"

section \<open>Costs\<close>

lemma utf8_len_join_eq: "utf8_len (join sep xs) = sum_list (map utf8_len xs) + (length xs - 1) * utf8_len sep"
  by (induction sep xs rule: join.induct) (auto simp: algebra_simps)

lemma serialized_eq: "serialized ms = int (sum_list (map (utf8_len \<circ> message_wire) ms)) + int (length ms - 1) + 2"
proof -
  have "utf8_len [91] = 1" "utf8_len [93] = 1" "utf8_len [44] = 1" by (simp_all add: utf8_len_def rune_len_def)
  then show ?thesis by (simp add: serialized_def json_array_def utf8_len_Cons utf8_len_join_eq comp_def rune_len_def)
qed

lemma serialized_append: "serialized (xs @ ys) \<le> serialized xs + serialized ys"
  by (simp add: serialized_eq)

lemma serialized_pos: "0 < serialized ms"
  by (simp add: serialized_eq)

lemma serialized_Nil: "serialized [] = 2"
  by (simp add: serialized_eq)

definition unit_cost :: "context_unit \<Rightarrow> int" where
  "unit_cost u = serialized (cu_messages u)"

lemma serialized_mid: "serialized (xs @ unit_messages us @ ys) \<le> serialized (xs @ ys) + sum_list (map unit_cost us)"
proof (induction us arbitrary: xs)
  case (Cons u us)
  have "serialized (xs @ cu_messages u @ unit_messages us @ ys) \<le> serialized ((xs @ cu_messages u) @ ys) + sum_list (map unit_cost us)"
    using Cons [of "xs @ cu_messages u"] by simp
  also have "serialized ((xs @ cu_messages u) @ ys) \<le> serialized (xs @ ys) + serialized (cu_messages u)"
    by (simp add: serialized_eq)
  finally show ?case by (simp add: unit_messages_def unit_cost_def)
qed (simp add: unit_messages_def)


lemma select_units_orders: "set (select_units r us) \<subseteq> cu_order ` set us"
  by (induction r us rule: select_units.induct) (auto simp: Let_def)

lemma select_units_cost:
  "distinct (map cu_order us) \<Longrightarrow>
     sum_list (map unit_cost (filter (\<lambda>u. cu_order u \<in> set (select_units r us)) us)) \<le> max 0 r"
proof (induction r us rule: select_units.induct)
  case (2 r u us)
  let ?cost = "serialized (cu_messages u)" and ?sum = "\<lambda>us. sum_list (map unit_cost us)"
  have dist: "distinct (map cu_order us)" and "cu_order u \<notin> cu_order ` set us" using 2(3) by simp_all
  then have u: "cu_order v \<noteq> cu_order u" if "v \<in> set us" for v using that by (metis image_eqI)
  show ?case
  proof (cases "?cost \<le> r")
    case True
    have "filter (\<lambda>v. cu_order v \<in> set (select_units r (u # us))) us
        = filter (\<lambda>v. cu_order v \<in> set (select_units (r - ?cost) us)) us"
      using u by (intro filter_cong) (auto simp: Let_def True)
    then have "?sum (filter (\<lambda>v. cu_order v \<in> set (select_units r (u # us))) (u # us))
        = ?cost + ?sum (filter (\<lambda>v. cu_order v \<in> set (select_units (r - ?cost) us)) us)"
      by (simp add: Let_def True unit_cost_def)
    also have "\<dots> \<le> ?cost + max 0 (r - ?cost)" using 2(1) [OF refl True dist] by (rule add_left_mono)
    finally show ?thesis using True serialized_pos [of "cu_messages u"] by simp
  next
    case False
    have "cu_order u \<notin> set (select_units r us)" using u select_units_orders [of r us] by fastforce
    then show ?thesis using 2(2) [OF refl False dist] False by (simp add: Let_def)
  qed
qed simp

text \<open>Deduplication keeps the orders distinct and only units that were there.\<close>

definition dedup_inv :: "context_unit list \<Rightarrow> context_unit list \<Rightarrow> bool" where
  "dedup_inv seen us \<longleftrightarrow> set us \<subseteq> set seen \<and> distinct (map cu_fingerprint us) \<and> inj_on cu_order (set us)"

lemma find_replace_distinct:
  "distinct (map cu_fingerprint us) \<Longrightarrow>
     map cu_fingerprint (map (\<lambda>u. if cu_fingerprint u = cu_fingerprint unit then unit else u) us) = map cu_fingerprint us"
  by (induction us) auto

lemma keep_unit_inv:
  assumes "dedup_inv seen us" "cu_order u \<notin> cu_order ` set seen"
  shows "dedup_inv (seen @ [u]) (keep_unit u us)"
proof -
  have order: "cu_order u \<noteq> cu_order v" "cu_order v \<noteq> cu_order u" if "v \<in> set us" for v
    using assms that unfolding dedup_inv_def by (metis image_eqI subsetD)+
  show ?thesis
  proof (cases "find (\<lambda>v. cu_fingerprint v = cu_fingerprint u) us")
    case None
    then have "cu_fingerprint u \<notin> cu_fingerprint ` set us" by (auto simp: find_None_iff)
    then show ?thesis using assms(1) order None by (auto simp: keep_unit_def dedup_inv_def inj_on_def)
  next
    case (Some v)
    let ?us = "map (\<lambda>v. if cu_fingerprint v = cu_fingerprint u then u else v) us"
    have us: "set us \<subseteq> set seen" "distinct (map cu_fingerprint us)" "inj_on cu_order (set us)"
      using assms(1) by (auto simp: dedup_inv_def)
    have "distinct (map cu_fingerprint ?us)" unfolding find_replace_distinct [OF us(2)] by (rule us(2))
    moreover have "set ?us \<subseteq> insert u (set us)" by auto
    moreover from this have "inj_on cu_order (set ?us)"
      by (rule inj_on_subset [rotated]) (use us(3) order(1) in \<open>auto simp: inj_on_insert\<close>)
    ultimately have "dedup_inv (seen @ [u]) ?us" using us(1) by (auto simp: dedup_inv_def simp del: set_map)
    moreover have "dedup_inv (seen @ [u]) us" using us by (auto simp: dedup_inv_def)
    ultimately show ?thesis unfolding keep_unit_def Some by simp
  qed
qed

lemma fold_keep_inv:
  "dedup_inv seen us \<Longrightarrow> distinct (map cu_order (seen @ new)) \<Longrightarrow> dedup_inv (seen @ new) (fold keep_unit new us)"
proof (induction new arbitrary: seen us)
  case (Cons u new)
  have "dedup_inv (seen @ [u]) (keep_unit u us)" by (rule keep_unit_inv [OF Cons.prems(1)]) (use Cons.prems(2) in auto)
  then show ?case using Cons.IH [of "seen @ [u]" "keep_unit u us"] Cons.prems(2) by simp
qed simp

lemma numbered_orders: "map cu_order (map (numbered fp) (enumerate n us)) = map int [n..<n + length us]"
  by (rule nth_equalityI) (simp_all add: numbered_def nth_enumerate_eq)

lemma numbered_messages: "cu_messages (numbered fp x) = cu_messages (snd x)"
  by (simp add: numbered_def split_beta)

lemma deduplicated:
  "distinct (map cu_order (deduplicate_units fp us))"
  "cu_messages ` set (deduplicate_units fp us) \<subseteq> cu_messages ` set us"
proof -
  let ?new = "map (numbered fp) (enumerate 0 us)"
  have "distinct (map int [0..<0 + length us])" by (simp add: distinct_map)
  then have inv: "dedup_inv ?new (fold keep_unit ?new [])"
    using fold_keep_inv [of "[]" "[]" ?new] numbered_orders [of fp 0 us] by (simp add: dedup_inv_def del: map_map)
  then have "distinct (map cu_order (fold keep_unit ?new []))"
    by (auto simp: dedup_inv_def distinct_map)
  then show "distinct (map cu_order (deduplicate_units fp us))"
    unfolding deduplicate_units_def by (metis mset_eq_imp_distinct_iff mset_map mset_sort)
  have "cu_messages ` set ?new = cu_messages ` set us"
  proof -
    have "map cu_messages ?new = map cu_messages us"
      by (rule nth_equalityI) (simp_all add: numbered_def nth_enumerate_eq)
    then show ?thesis by (metis list.set_map)
  qed
  then show "cu_messages ` set (deduplicate_units fp us) \<subseteq> cu_messages ` set us"
    using inv unfolding deduplicate_units_def dedup_inv_def by (simp add: image_mono) blast
qed

lemma selected_units_cost:
  "sum_list (map unit_cost (selected_units fp ci)) \<le> max 0 (budget_chars ci - required_chars ci)"
proof -
  let ?us = "deduplicate_units fp (all_optional ci)" and ?r = "budget_chars ci - required_chars ci"
  let ?ranked = "sort_key rank ?us"
  have "distinct (map cu_order ?ranked)"
    using deduplicated(1) by (metis mset_eq_imp_distinct_iff mset_map mset_sort)
  note cost = select_units_cost [OF this, of ?r]
  have "mset (filter (\<lambda>u. cu_order u \<in> set (select_units ?r ?ranked)) ?ranked)
      = mset (filter (\<lambda>u. cu_order u \<in> set (select_units ?r ?ranked)) ?us)"
    by simp
  then have "sum_list (map unit_cost (filter (\<lambda>u. cu_order u \<in> set (select_units ?r ?ranked)) ?ranked))
      = sum_list (map unit_cost (filter (\<lambda>u. cu_order u \<in> set (select_units ?r ?ranked)) ?us))"
    unfolding sum_mset_sum_list [symmetric] mset_map by (simp only:)
  then show ?thesis using cost by (simp add: selected_units_def Let_def)
qed

lemma project_context_fits:
  assumes "project_context fp ci = Some p"
  shows "pr_chars p = serialized (pr_messages p) + request_envelope_chars \<and> pr_chars p \<le> pr_budget p"
proof -
  let ?us = "selected_units fp ci"
  let ?before = "filter (\<lambda>u. \<not> cu_tail u) ?us" and ?after = "filter cu_tail ?us"
  let ?cost = "\<lambda>us. sum_list (map unit_cost us)"
  have p: "pr_messages p = ci_prefix ci @ unit_messages ?before @ ci_suffix ci @ unit_messages ?after @ ci_runtime ci"
    "pr_chars p = serialized (pr_messages p) + request_envelope_chars" "pr_budget p = budget_chars ci"
    and fits: "required_chars ci \<le> budget_chars ci"
    using assms by (auto simp: project_context_def Let_def split: if_splits)
  have "serialized (pr_messages p) \<le> serialized (ci_prefix ci @ ci_suffix ci @ unit_messages ?after @ ci_runtime ci) + ?cost ?before"
    unfolding p(1) by (rule serialized_mid)
  moreover have "serialized ((ci_prefix ci @ ci_suffix ci) @ unit_messages ?after @ ci_runtime ci)
      \<le> serialized ((ci_prefix ci @ ci_suffix ci) @ ci_runtime ci) + ?cost ?after"
    by (rule serialized_mid)
  moreover have "serialized ((ci_prefix ci @ ci_suffix ci) @ ci_runtime ci)
      \<le> serialized (ci_prefix ci) + serialized (ci_suffix ci) + serialized (ci_runtime ci)"
    using serialized_append [of "ci_prefix ci @ ci_suffix ci" "ci_runtime ci"] serialized_append [of "ci_prefix ci" "ci_suffix ci"]
    by linarith
  moreover have "?cost (filter (\<lambda>u. \<not> cu_tail u) us) + ?cost (filter cu_tail us) = ?cost us" for us
    by (induction us) auto
  from this [of ?us] have "?cost ?before + ?cost ?after = ?cost ?us" .
  ultimately show ?thesis
    using selected_units_cost [of fp ci] fits p(2,3) unfolding required_chars_def append_assoc by linarith
qed


section \<open>Projecting a turn\<close>

text \<open>\<open>matchRequiredFromStart\<close> and \<open>matchRequiredFromEnd\<close>: the indices of the required messages\<close>

fun match_from :: "(llm_message list \<Rightarrow> str) \<Rightarrow> nat \<Rightarrow> llm_message list \<Rightarrow> llm_message list \<Rightarrow> nat list" where
  "match_from fp k (m # ms) (w # ws) =
     (if fp [m] = fp [w] then k # match_from fp (Suc k) ms ws else match_from fp (Suc k) ms (w # ws))"
| "match_from fp k _ _ = []"

definition match_required_from_start :: "(llm_message list \<Rightarrow> str) \<Rightarrow> llm_message list \<Rightarrow> llm_message list \<Rightarrow> nat list" where
  "match_required_from_start fp ms required = match_from fp 0 ms required"

definition match_required_from_end :: "(llm_message list \<Rightarrow> str) \<Rightarrow> llm_message list \<Rightarrow> llm_message list \<Rightarrow> nat list" where
  "match_required_from_end fp ms required =
     map (\<lambda>k. length ms - 1 - k) (match_from fp 0 (rev ms) (rev required))"

text \<open>\<open>splitTurnContext\<close>: the messages that are not required, with a flag for those after the required suffix\<close>

definition remaining_messages ::
  "(llm_message list \<Rightarrow> str) \<Rightarrow> llm_message list \<Rightarrow> llm_message list \<Rightarrow> llm_message list \<Rightarrow> (llm_message \<times> bool) list" where
  "remaining_messages fp ms pre suf =
     (let last1 = match_required_from_end fp ms suf;
          first = filter (\<lambda>i. i \<notin> set last1) (match_required_from_start fp ms pre);
          newest = (\<lambda>i. last1 \<noteq> [] \<and> Max (set last1) < i)
      in map (\<lambda>(i, m). (m, newest i)) (filter (\<lambda>(i, m). i \<notin> set first \<and> i \<notin> set last1) (enumerate 0 ms)))"

definition plain_unit :: "context_source \<Rightarrow> int \<Rightarrow> llm_message list \<Rightarrow> bool \<Rightarrow> context_unit" where
  "plain_unit source priority ms tail = \<lparr>cu_source = source, cu_timestamp = 0, cu_fingerprint = [], cu_priority = priority,
     cu_messages = ms, cu_order = 0, cu_tail = tail\<rparr>"

definition is_tool :: "llm_message \<Rightarrow> bool" where
  "is_tool m \<longleftrightarrow> lm_role m = lit ''tool''"

definition wanted_answers :: "llm_message \<Rightarrow> llm_message list \<Rightarrow> llm_message list" where
  "wanted_answers m run = filter (\<lambda>a. message_call_id a \<in> tc_id ` set (lm_calls m)) run"

definition answers_complete :: "llm_message \<Rightarrow> llm_message list \<Rightarrow> bool" where
  "answers_complete m answers \<longleftrightarrow> length answers = card (tc_id ` set (lm_calls m))
     \<and> (\<forall>c \<in> set (lm_calls m). length (filter (\<lambda>a. message_call_id a = tc_id c) answers) = 1)"

function (sequential) units_of :: "(llm_message \<times> bool) list \<Rightarrow> (context_unit \<times> bool) list" where
  "units_of [] = []"
| "units_of ((m, tail) # rest) =
     (if is_tool m then units_of rest
      else if lm_calls m = [] then
        ((if tail then plain_unit From_correction 90 [m] False else plain_unit From_memory 50 [m] False), tail) # units_of rest
      else
        let answers = wanted_answers m (map fst (takeWhile (\<lambda>x. is_tool (fst x)) rest));
            rest1 = dropWhile (\<lambda>x. is_tool (fst x)) rest
        in (if answers_complete m answers then [(plain_unit From_observation 100 (m # answers) False, tail)] else [])
             @ units_of rest1)"
  by pat_completeness auto
termination
  by (relation "measure length") (auto simp: length_dropWhile_le less_Suc_eq_le)

definition split_turn_context ::
  "(llm_message list \<Rightarrow> str) \<Rightarrow> llm_message list \<Rightarrow> llm_message list \<Rightarrow> llm_message list \<Rightarrow> context_unit list \<times> context_unit list" where
  "split_turn_context fp ms pre suf =
     (let us = units_of (remaining_messages fp ms pre suf)
      in (map fst (filter (\<lambda>(u, tail). \<not> tail) us), map fst (filter snd us)))"

definition projected_observation_messages :: "llm_message list \<Rightarrow> observations \<Rightarrow> llm_message list" where
  "projected_observation_messages ms ob =
     map (\<lambda>m. if \<not> is_tool m \<or> message_call_id m = [] then m
              else case ob_views ob (message_call_id m) of None \<Rightarrow> m
                | Some view \<Rightarrow> new_message (lit ''tool'') (Some view) [] (message_call_id m)) ms"

definition result_index_prefix :: str where
  "result_index_prefix = lit ''CURRENT_TURN_RESULTS_UNTRUSTED_DATA=''"

text \<open>\<open>results\<close> is the text of the index listing for the two byte limits of their previews.\<close>

definition result_index_message :: "str \<Rightarrow> int \<Rightarrow> llm_message" where
  "result_index_message results omitted = new_message (lit ''user'')
     (Some (result_index_prefix @ json_struct [json_member ''results'' results, json_member ''omittedContextUnits'' (itoa omitted)])) [] []"

text \<open>The loop that shrinks the previews until the index fits: the text of the listing; \<open>None\<close> if receipts alone
  are too large.\<close>

function fit_index :: "(nat \<Rightarrow> nat \<Rightarrow> str) \<Rightarrow> int \<Rightarrow> int \<Rightarrow> nat \<Rightarrow> nat \<Rightarrow> str option" where
  "fit_index results space omitted data args =
     (if serialized [result_index_message (results args data) omitted] \<le> space then Some (results args data)
      else if data = 0 \<and> args = 0 then None
      else fit_index results space omitted (data div 2) (args div 2))"
  by pat_completeness auto
termination
  by (relation "measure (\<lambda>(_, _, _, data, args). data + args)") auto

declare fit_index.simps [simp del]

definition replace_first :: "(llm_message \<Rightarrow> bool) \<Rightarrow> llm_message \<Rightarrow> llm_message list \<Rightarrow> llm_message list" where
  "replace_first P new ms =
     takeWhile (Not \<circ> P) ms @ (case dropWhile (Not \<circ> P) ms of [] \<Rightarrow> [] | _ # rest \<Rightarrow> new # rest)"

definition manifest_token_cost :: "provider_tool list \<Rightarrow> (provider_tool list \<Rightarrow> str) \<Rightarrow> int" where
  "manifest_token_cost tools encoded = (if tools = [] then 0 else (int (utf8_len (encoded tools)) + 3) div 4)"

definition turn_input ::
  "(llm_message list \<Rightarrow> str) \<Rightarrow> llm_message list \<Rightarrow> observations \<Rightarrow> context_input \<Rightarrow> context_input" where
  "turn_input fp messages ob ci =
     (let runtime = match_required_from_end fp messages (ci_runtime ci);
          transcript = map snd (filter (\<lambda>(i, m). i \<notin> set runtime) (enumerate 0 messages));
          (before, after) = split_turn_context fp (projected_observation_messages transcript ob) (ci_prefix ci) (ci_suffix ci)
      in ci\<lparr>ci_optional := ci_optional ci @ before, ci_tail := ci_tail ci @ after\<rparr>)"

definition project_turn ::
  "(llm_message list \<Rightarrow> str) \<Rightarrow> (observations \<Rightarrow> nat \<Rightarrow> nat \<Rightarrow> str) \<Rightarrow> (provider_tool list \<Rightarrow> str)
     \<Rightarrow> llm_message list \<Rightarrow> provider_tool list \<Rightarrow> observations \<Rightarrow> context_input \<Rightarrow> projection option" where
  "project_turn fp results encoded messages tools ob ci0 =
     (let ci = turn_input fp messages ob (ci0\<lparr>ci_manifest := manifest_token_cost tools encoded\<rparr>) in
      if ob_order ob = [] then project_context fp ci
      else
        let space = budget_chars ci - serialized (ci_prefix ci) - serialized (ci_suffix ci) - serialized (ci_runtime ci)
              - request_envelope_chars;
            omitted = int (length (ci_optional ci) + length (ci_tail ci))
        in case fit_index (results ob) space omitted 1024 512 of
             None \<Rightarrow> None
           | Some listing \<Rightarrow>
               let index = result_index_message listing omitted
               in case project_context fp (ci\<lparr>ci_suffix := ci_suffix ci @ [index]\<rparr>) of
                    None \<Rightarrow> None
                  | Some p \<Rightarrow>
                      let messages1 = replace_first (\<lambda>m. fp [m] = fp [index]) (result_index_message listing (pr_removed p)) (pr_messages p);
                          chars = serialized messages1 + request_envelope_chars
                      in Some (p\<lparr>pr_messages := messages1, pr_chars := chars, pr_tokens := (chars + 3) div 4,
                              pr_fingerprint := fp messages1\<rparr>))"


section \<open>Calls and answers stay together\<close>

inductive paired :: "llm_message list \<Rightarrow> bool" where
  empty: "paired []"
| plain: "paired ms \<Longrightarrow> lm_calls m = [] \<Longrightarrow> \<not> is_tool m \<Longrightarrow> paired (ms @ [m])"
| round: "paired ms \<Longrightarrow> lm_calls m \<noteq> [] \<Longrightarrow> \<not> is_tool m \<Longrightarrow> answers_complete m answers \<Longrightarrow>
    \<forall>a \<in> set answers. is_tool a \<and> message_call_id a \<in> tc_id ` set (lm_calls m) \<Longrightarrow> paired (ms @ m # answers)"

lemma paired_append: "paired ys \<Longrightarrow> paired xs \<Longrightarrow> paired (xs @ ys)"
proof (induction rule: paired.induct)
  case (plain ms m)
  then show ?case using paired.plain [of "xs @ ms" m] by simp
next
  case (round ms m answers)
  then show ?case using paired.round [of "xs @ ms" m answers] by simp
qed simp

lemma paired_single: "lm_calls m = [] \<Longrightarrow> \<not> is_tool m \<Longrightarrow> paired [m]"
  using paired.plain [OF paired.empty] by simp

lemma paired_units: "\<forall>u \<in> set us. paired (cu_messages u) \<Longrightarrow> paired (unit_messages us)"
  by (induction us) (auto simp: unit_messages_def paired.empty paired_append)

lemma units_of_paired: "(u, tail) \<in> set (units_of xs) \<Longrightarrow> paired (cu_messages u)"
proof (induction xs rule: units_of.induct)
  case (2 m tail1 rest)
  let ?answers = "wanted_answers m (map fst (takeWhile (\<lambda>x. is_tool (fst x)) rest))"
  have tools: "\<forall>a \<in> set ?answers. is_tool a \<and> message_call_id a \<in> tc_id ` set (lm_calls m)"
    by (auto simp: wanted_answers_def dest: set_takeWhileD)
  show ?case
  proof (cases "is_tool m")
    case False
    show ?thesis
    proof (cases "lm_calls m = []")
      case True
      then show ?thesis using 2 False paired_single [OF True False] by (auto simp: plain_unit_def split: if_splits)
    next
      case calls: False
      have "paired (m # ?answers)" if "answers_complete m ?answers"
        using paired.round [OF paired.empty calls False that tools] by simp
      then show ?thesis using 2 False calls by (auto simp: Let_def plain_unit_def split: if_splits)
    qed
  qed (use 2 in simp)
qed simp

lemma selected_units_paired:
  assumes "\<forall>u \<in> set (ci_optional ci) \<union> set (ci_tail ci). paired (cu_messages u)"
  shows "\<forall>u \<in> set (selected_units fp ci). paired (cu_messages u)"
proof
  fix u assume "u \<in> set (selected_units fp ci)"
  then have "cu_messages u \<in> cu_messages ` set (all_optional ci)"
    using deduplicated(2) [of fp "all_optional ci"] by (auto simp: selected_units_def Let_def)
  then show "paired (cu_messages u)" using assms by (auto simp: all_optional_def)
qed

lemma project_context_paired:
  assumes "project_context fp ci = Some p" "paired (ci_prefix ci)" "paired (ci_suffix ci)" "paired (ci_runtime ci)"
    and "\<forall>u \<in> set (ci_optional ci) \<union> set (ci_tail ci). paired (cu_messages u)"
  shows "paired (pr_messages p)"
proof -
  let ?us = "selected_units fp ci"
  have "pr_messages p = ci_prefix ci @ unit_messages (filter (\<lambda>u. \<not> cu_tail u) ?us) @ ci_suffix ci
      @ unit_messages (filter cu_tail ?us) @ ci_runtime ci"
    using assms(1) by (auto simp: project_context_def Let_def split: if_splits)
  moreover have "paired (unit_messages (filter P ?us))" for P
    using selected_units_paired [OF assms(5)] by (intro paired_units) auto
  ultimately show ?thesis using assms(2-4) by (simp add: paired_append)
qed

section \<open>Replacing the index\<close>

lemma replace_first_append:
  "replace_first P new (xs @ ys) =
     (if \<exists>x \<in> set xs. P x then replace_first P new xs @ ys else xs @ replace_first P new ys)"
  by (induction xs) (auto simp: replace_first_def)

lemma replace_first_none: "\<forall>x \<in> set xs. \<not> P x \<Longrightarrow> replace_first P new xs = xs"
  by (induction xs) (auto simp: replace_first_def)

lemma replace_first_single: "replace_first P new [m] = [if P m then new else m]"
  by (simp add: replace_first_def)

lemma replace_first_paired:
  assumes "paired ms" "\<And>m. P m \<Longrightarrow> lm_calls m = [] \<and> \<not> is_tool m" "lm_calls new = []" "\<not> is_tool new"
  shows "paired (replace_first P new ms)"
  using assms(1)
proof (induction rule: paired.induct)
  case empty
  then show ?case by (simp add: replace_first_def paired.empty)
next
  case (plain ms m)
  then show ?case
    using paired.plain [of _ m] paired.plain [of _ new] assms(3,4)
    by (auto simp: replace_first_append replace_first_single)
next
  case (round ms m answers)
  have "replace_first P new (m # answers) = m # answers"
    by (rule replace_first_none) (use round assms(2) in auto)
  then show ?case using round paired.round by (auto simp: replace_first_append)
qed

lemma replace_first_wire:
  assumes "\<And>m. P m \<Longrightarrow> utf8_len (message_wire new) \<le> utf8_len (message_wire m)"
  shows "serialized (replace_first P new ms) \<le> serialized ms"
proof -
  have "sum_list (map (utf8_len \<circ> message_wire) (replace_first P new ms)) \<le> sum_list (map (utf8_len \<circ> message_wire) ms)
      \<and> length (replace_first P new ms) = length ms"
    using assms by (induction ms) (auto simp: replace_first_def)
  then show ?thesis unfolding serialized_eq by simp
qed

lemma length_digits_mono: "m \<le> n \<Longrightarrow> length (digits_of m) \<le> length (digits_of n)"
proof (induction n arbitrary: m rule: less_induct)
  case (less n)
  show ?case
  proof (cases "m < 10")
    case True
    then show ?thesis using digits_of_nonempty [of n] by (subst digits_of.simps) (simp add: Suc_leI)
  next
    case False
    then have "length (digits_of (m div 10)) \<le> length (digits_of (n div 10))"
      using less.prems by (intro less.IH) (auto simp: div_le_mono)
    then show ?thesis using False less.prems by (subst (1 2) digits_of.simps) simp
  qed
qed

lemma encode_digits: "concat (map encode_rune (digits_of n)) = digits_of n"
proof -
  have "map encode_rune (digits_of n) = map (\<lambda>c. [c]) (digits_of n)"
    using digits_of_chars [of _ n] by (intro map_cong refl) (force simp: encode_rune_def)
  then show ?thesis by (simp only: concat_map_singleton map_ident)
qed

lemma index_wire_mono:
  assumes "0 \<le> m" "m \<le> n"
  shows "utf8_len (message_wire (result_index_message listing m)) \<le> utf8_len (message_wire (result_index_message listing n))"
proof -
  have "length (digits_of (nat m)) \<le> length (digits_of (nat n))" using assms by (intro length_digits_mono) simp
  then have digits: "utf8_len (concat (map encode_rune (itoa m))) \<le> utf8_len (concat (map encode_rune (itoa n)))"
    using assms by (simp add: itoa_def encode_digits utf8_len_digits)
  have content: "utf8_len (encode_string (result_index_prefix @ json_struct [a, json_member ''omittedContextUnits'' (itoa m)]))
      \<le> utf8_len (encode_string (result_index_prefix @ json_struct [a, json_member ''omittedContextUnits'' (itoa n)]))" for a
    using digits by (simp add: encode_string_def json_struct_def json_member_def utf8_len_Cons)
  have "utf8_len (message_wire (new_message (lit ''user'') (Some s) [] [])) = utf8_len (encode_string s)
      + utf8_len (json_struct [json_member ''content'' [], json_member ''role'' (encode_string (lit ''user''))])" for s
    by (simp add: message_wire_def new_message_def message_call_id_def json_struct_def json_member_def utf8_len_Cons del: lit_simps)
  then show ?thesis unfolding result_index_message_def using content by (simp del: lit_simps)
qed

lemma project_context_removed:
  "project_context fp ci = Some p \<Longrightarrow>
     0 \<le> pr_removed p \<and> pr_removed p \<le> int (length (ci_optional ci) + length (ci_tail ci))"
proof -
  assume p: "project_context fp ci = Some p"
  have "length (keep_unit u us) \<le> Suc (length us)" for u us by (simp add: keep_unit_def split: option.split)
  then have "length (fold keep_unit new us) \<le> length us + length new" for new us
  proof (induction new arbitrary: us)
    case (Cons u new)
    have "length (fold keep_unit new (keep_unit u us)) \<le> length (keep_unit u us) + length new" using Cons by blast
    also have "\<dots> \<le> length us + length (u # new)" using Cons(2) [of u us] by simp
    finally show ?case by simp
  qed simp
  from this [of "map (numbered fp) (enumerate 0 (all_optional ci))" "[]"]
  have "length (deduplicate_units fp (all_optional ci)) \<le> length (all_optional ci)"
    by (simp add: deduplicate_units_def)
  then have "length (selected_units fp ci) \<le> length (all_optional ci)"
    unfolding selected_units_def Let_def using length_filter_le order_trans by blast
  then show ?thesis using p by (auto simp: project_context_def Let_def all_optional_def split: if_splits)
qed


lemma split_turn_paired:
  "split_turn_context fp ms pre suf = (before, after) \<Longrightarrow> \<forall>u \<in> set before \<union> set after. paired (cu_messages u)"
  using units_of_paired by (auto simp: split_turn_context_def Let_def)

lemma turn_input_fields:
  "ci_prefix (turn_input fp ms ob ci) = ci_prefix ci" "ci_suffix (turn_input fp ms ob ci) = ci_suffix ci"
  "ci_runtime (turn_input fp ms ob ci) = ci_runtime ci" "budget_chars (turn_input fp ms ob ci) = budget_chars ci"
  by (simp_all add: turn_input_def Let_def budget_chars_def split: prod.split)

lemma turn_input_paired:
  assumes "\<forall>u \<in> set (ci_optional ci) \<union> set (ci_tail ci). paired (cu_messages u)"
  shows "\<forall>u \<in> set (ci_optional (turn_input fp ms ob ci)) \<union> set (ci_tail (turn_input fp ms ob ci)). paired (cu_messages u)"
proof -
  obtain before after where split: "split_turn_context fp (projected_observation_messages (map snd (filter
      (\<lambda>(i, m). i \<notin> set (match_required_from_end fp ms (ci_runtime ci))) (enumerate 0 ms))) ob) (ci_prefix ci) (ci_suffix ci)
      = (before, after)" by fastforce
  then have "ci_optional (turn_input fp ms ob ci) = ci_optional ci @ before" "ci_tail (turn_input fp ms ob ci) = ci_tail ci @ after"
    by (simp_all add: turn_input_def Let_def)
  then show ?thesis using assms split_turn_paired [OF split] by auto
qed

lemma index_message: "lm_calls (result_index_message listing n) = []" "\<not> is_tool (result_index_message listing n)"
  by (simp_all add: result_index_message_def new_message_def is_tool_def)

lemma project_context_budget: "project_context fp ci = Some p \<Longrightarrow> pr_budget p = budget_chars ci"
  by (auto simp: project_context_def Let_def split: if_splits)

text \<open>C28. A projected turn fits and is well-formed.  Whatever the length of the transcript, the request a turn
  sends stays within the characters its token budget allows, the index of results included, and pruning
  never separates a tool call from its answers: every assistant message with calls is followed by one
  answer per call, and no answer stands alone.  The fingerprint is assumed to tell the index message
  from every other message.\<close>

theorem projected_turn_ok:
  assumes "project_turn fp results encoded messages tools ob ci = Some p"
    and "\<And>m listing n. fp [m] = fp [result_index_message listing n] \<Longrightarrow> m = result_index_message listing n"
    and "paired (ci_prefix ci)" "paired (ci_suffix ci)" "paired (ci_runtime ci)"
    and "\<forall>u \<in> set (ci_optional ci) \<union> set (ci_tail ci). paired (cu_messages u)"
  shows "pr_chars p = serialized (pr_messages p) + request_envelope_chars \<and> pr_chars p \<le> pr_budget p
    \<and> pr_budget p = (ci_max ci - ci_reserve ci - manifest_token_cost tools encoded) * 4 \<and> paired (pr_messages p)"
proof -
  let ?ci0 = "ci\<lparr>ci_manifest := manifest_token_cost tools encoded\<rparr>"
  define ci1 where "ci1 = turn_input fp messages ob ?ci0"
  have units: "\<forall>u \<in> set (ci_optional ci1) \<union> set (ci_tail ci1). paired (cu_messages u)"
    unfolding ci1_def by (rule turn_input_paired) (use assms(6) in simp)
  have ci1: "paired (ci_prefix ci1)" "paired (ci_suffix ci1)" "paired (ci_runtime ci1)"
    using assms(3-5) by (simp_all add: ci1_def turn_input_fields)
  have budget: "budget_chars ci1 = (ci_max ci - ci_reserve ci - manifest_token_cost tools encoded) * 4"
    by (simp add: ci1_def turn_input_fields) (simp add: budget_chars_def)
  show ?thesis
  proof (cases "ob_order ob = []")
    case True
    then have p: "project_context fp ci1 = Some p" using assms(1) by (simp add: project_turn_def ci1_def Let_def)
    then show ?thesis
      using project_context_fits [OF p] project_context_paired [OF p ci1 units] project_context_budget [OF p] budget by simp
  next
    case False
    let ?omitted = "int (length (ci_optional ci1) + length (ci_tail ci1))"
    obtain listing q where q: "project_context fp (ci1\<lparr>ci_suffix := ci_suffix ci1 @ [result_index_message listing ?omitted]\<rparr>) = Some q"
      and p: "pr_messages p = replace_first (\<lambda>m. fp [m] = fp [result_index_message listing ?omitted])
          (result_index_message listing (pr_removed q)) (pr_messages q)"
        "pr_chars p = serialized (pr_messages p) + request_envelope_chars" "pr_budget p = pr_budget q"
      using assms(1) False by (auto simp: project_turn_def ci1_def [symmetric] Let_def split: option.splits)
    let ?index = "result_index_message listing ?omitted" and ?actual = "result_index_message listing (pr_removed q)"
    have index: "m = ?index" if "fp [m] = fp [?index]" for m using assms(2) that .
    have removed: "0 \<le> pr_removed q" "pr_removed q \<le> ?omitted" using project_context_removed [OF q] by simp_all
    have "serialized (pr_messages p) \<le> serialized (pr_messages q)"
      unfolding p(1) by (rule replace_first_wire) (use index index_wire_mono [OF removed] in blast)
    moreover have "paired (pr_messages q)"
      by (rule project_context_paired [OF q]) (use ci1 units index_message in \<open>simp_all add: paired_append paired_single\<close>)
    then have "paired (pr_messages p)"
      unfolding p(1) by (rule replace_first_paired) (use index index_message in blast)+
    moreover have "pr_budget q = budget_chars ci1"
      using project_context_budget [OF q] by (simp add: budget_chars_def)
    ultimately show ?thesis using project_context_fits [OF q] p(2,3) budget by simp
  qed
qed

text \<open>A transcript with an unanswered call, a question and a retained result\<close>

definition demo_fingerprint :: "llm_message list \<Rightarrow> str" where
  "demo_fingerprint ms = (case ms of
     [m] \<Rightarrow> (case lm_content m of
        Some s \<Rightarrow> if lm_role m = lit ''user'' \<and> lm_calls m = [] \<and> lm_call_id m = None then 1 # s else []
      | None \<Rightarrow> [])
   | _ \<Rightarrow> [])"

definition demo_input :: context_input where
  "demo_input = \<lparr>ci_prefix = [], ci_optional = [], ci_suffix = [demo_question], ci_tail = [], ci_runtime = [],
     ci_max = 200, ci_reserve = 0, ci_manifest = 0\<rparr>"

definition demo_transcript :: "llm_message list" where
  "demo_transcript = [new_message (lit ''assistant'') None [\<lparr>tc_id = [97], tc_name = [98], tc_raw = []\<rparr>] [], demo_question]"

lemma projected_turn_ok_witness:
  "\<exists>p. project_turn demo_fingerprint (\<lambda>_ _ _. [91, 93]) (\<lambda>_. []) demo_transcript [] new_observations demo_input = Some p
     \<and> pr_chars p \<le> 800 \<and> paired (pr_messages p)"
proof -
  have "project_turn demo_fingerprint (\<lambda>_ _ _. [91, 93]) (\<lambda>_. []) demo_transcript [] new_observations demo_input \<noteq> None"
    by code_simp
  then obtain p where p: "project_turn demo_fingerprint (\<lambda>_ _ _. [91, 93]) (\<lambda>_. []) demo_transcript [] new_observations demo_input = Some p"
    by blast
  have fp: "m = result_index_message listing n"
    if "demo_fingerprint [m] = demo_fingerprint [result_index_message listing n]" for m listing n
    using that by (cases m) (auto simp: demo_fingerprint_def result_index_message_def new_message_def split: option.splits if_splits)
  have "paired (ci_prefix demo_input)" "paired (ci_suffix demo_input)" "paired (ci_runtime demo_input)"
    "\<forall>u \<in> set (ci_optional demo_input) \<union> set (ci_tail demo_input). paired (cu_messages u)"
    by (simp_all add: demo_input_def paired.empty paired_single demo_question_def new_message_def is_tool_def)
  then have "pr_chars p \<le> 800 \<and> paired (pr_messages p)"
    using projected_turn_ok [OF p fp] by (simp add: manifest_token_cost_def) (simp add: demo_input_def)
  then show ?thesis using p by blast
qed

end
