(* ===== verification/Spec2Isabelle.thy ===== *)
theory Spec2Isabelle
  imports ModHandlers Replies Participation Mail Config Roster Dispatch Replicas TurnMemory CoordinatorOutcome ModerationExec HostLifecycle Runtime ContextBudget
begin

text \<open>
  A verification library for zenbot, a bot written in Go that sits in chat rooms, moderates them, runs
  commands and answers messages through an agent (a language model with tools).  This header says
  which theory models which code, what is shown of it, and what is left out.

  \<^bold>\<open>The program.\<close>  A transport delivers JSON messages of a room to an engine (\<open>internal/core\<close>), whose
  listeners (\<open>internal/listener\<close>) keep the room's users, moderate joins and messages
  (\<open>internal/agent/moderation\<close>), dispatch commands and hand messages to the agent.  The agent's runtime
  (\<open>internal/agent/runtime\<close>) admits a bounded number of requests and runs each as a turn: a context is
  assembled from the room and from memory, cut to a budget (\<open>internal/agent/assemble\<close>), and sent to a
  provider; the provider's tool calls go through contracts (\<open>internal/agent/tool/contract\<close>) and an
  executor with a ledger (\<open>internal/agent/tool/execution\<close>) until a final answer is accepted
  (\<open>internal/agent/live\<close>, \<open>internal/agent/turn\<close>).  Turns are remembered in SQLite tables and compacted when they
  grow.  Some commands join another room for a moment and act on its roster
  (\<open>internal/listener/snapshot\<close>).  Restart and shutdown are owned by one host
  (\<open>internal/core/host_lifecycle.go\<close>).

  \<^bold>\<open>Conventions.\<close>  A Go struct is a record, a closed set of string constants a datatype with one more
  constructor for every other string, a pointer that may be nil an option, an error either a datatype
  or, where the code only tests it, a flag.  A string is the list of its code points and \<open>utf8_len\<close> is
  Go's \<open>len\<close>.  Times and durations are integers of nanoseconds.  Everything the code does under one
  lock is one atomic operation, a function on the state.  Where goroutines interleave, an inductive
  step relation composes these operations in every order, \<open>Transition\<close> gives reachability, and the
  properties speak of every reachable state.  Code outside the repository is an argument: the
  provider, the tools' own behaviour, digests, the summarizer, the parser of a snapshot, the clock.

  \<^bold>\<open>The theories.\<close>
  \<^item> \<open>Unicode_Tables\<close>, \<open>Prelude\<close>: the parts of \<open>unicode\<close>, \<open>strings\<close>, \<open>strconv\<close> and \<open>time\<close> that the program uses,
    and lemmas on lists and maps shared by all.  \<open>Transition\<close>: locales for step relations, interpreted in
    each concurrent component.
  \<^item> \<open>Json\<close>: JSON values, a parser of \<open>encoding/json\<close>'s language and its printer.  The parser recurses on fuel
    \<open>2 * length + 1\<close>: every nested call consumes a character, at most two calls per character.
  \<^item> \<open>Model\<close>: users, messages and roles of \<open>internal/model\<close>.
  \<^item> \<open>Wire\<close>: \<open>util/json_payloads.go\<close>, \<open>util/identity.go\<close>, \<open>core/moderation_operations.go\<close> and the payloads of
    \<open>core/engine_impl.go\<close>.  Every outgoing payload decodes to exactly the fields it was built from.
  \<^item> \<open>LetterCase\<close>, \<open>Room\<close>: letter case as Go maps it; the users, AFK records, subscribers and prefixes that
    \<open>core/engine_impl.go\<close> keeps of its room, and who is told what about an absent user.
  \<^item> \<open>Roster\<close>: \<open>model/user.go\<close>, \<open>listener/snapshot\<close> (the parser of a snapshot and the operations on it) and the listeners for an
    online set, a join and a departure.  A listing names every nick once, emptying a room follows its plan, a
    join is handled completely and in order.
  \<^item> \<open>Commands\<close>, \<open>Dispatch\<close>: the registries of \<open>internal/common\<close>, \<open>repository/sqlite/authorization.go\<close>,
    \<open>service/security_service.go\<close>, \<open>command/dispatch_adapter.go\<close> and the chains of handlers of \<open>listener/message\<close> and
    \<open>listener/info\<close>.  Which command a text resolves to (locale \<open>command_table\<close>, for both registries) and exactly when a
    message runs it.
  \<^item> \<open>Replicas\<close>: \<open>core/replica_manager.go\<close> and \<open>core/replica_controller.go\<close> as a step relation, with the automatic moves, the
    support relay and the room directory.  Who owns a replica while rooms are added, removed, failing and shut down.
  \<^item> \<open>Bytes\<close>, \<open>ShadowBans\<close>: UTF-8 and base64; \<open>repository/sqlite/shadow_ban.go\<close> and \<open>service/shadow_ban.go\<close>: the table
    \<open>banned_users\<close> with its NULLs, and what a stored record recognises until a removal names it.
  \<^item> \<open>Handlers\<close>, \<open>ModHandlers\<close>: \<open>internal/command\<close>: the handler of a command as a program of effects (a look at the
    context, a reply, an operation, a read or a write) that stops at the first effect that fails.  A record \<open>world\<close>
    answers each effect from the events before it, so a theorem over all worlds covers a failure or the end of the
    context at any point.  The locale \<open>handler_property\<close> states what a property of handlers must satisfy to hold of every
    handler; it is interpreted for the order of failures, for the rights of the caller, and for the records that precede
    a kick.  Shown are these three, the exact targets of a kick, and that a shadow ban outlives its kick.
  \<^item> \<open>Mail\<close>: \<open>service/mail_notes.go\<close>, \<open>service/mail_delivery.go\<close> and \<open>repository/transaction.go\<close>: the tables, and a step
    relation of concurrent deliveries with every way a commit may end.  No letter is sent twice.
  \<^item> \<open>Config\<close>: the package \<open>config\<close> without the decoding of files: where each option comes from and which limits an
    accepted configuration keeps.  \<open>int\<close> is Go's 64-bit integer, wrapped by \<open>wrap64\<close> where the code multiplies.
  \<^item> \<open>Moderation\<close>, \<open>JoinMonitor\<close>, \<open>MessageMonitor\<close>, \<open>ModerationExec\<close>: the package \<open>moderation\<close> with the bridge
    \<open>live/message_automation.go\<close>.  Both monitors as transformers of their state under the monitor's mutex.
    Lemma groups: which joins give which decision, that captchas and sanctions keep their spacing over
    any sequence of events, that escalation goes one step at a time, that stale state is dropped, that
    a decision makes exactly the engine call it names.
  \<^item> \<open>HostLifecycle\<close>: \<open>core/host_lifecycle.go\<close>.  Exclusion between dispatches and callbacks, that shutdown is
    final, that every requested operation ends and is reported once.
  \<^item> \<open>Coordinator\<close>, \<open>CoordinatorOutcome\<close>: \<open>listener/snapshot/coordinator.go\<close>.  One goroutine per workflow, with
    \<open>receive\<close>, \<open>fail\<close> and \<open>Cancel\<close> at any time.  The operation runs at most once and only on a roster of the
    target room, every admitted workflow reports one outcome and leaves the registry, and it ends.
  \<^item> \<open>Context\<close>: \<open>agent/api\<close> and the contexts of \<open>agent/runtime\<close> (\<open>contracts.go\<close>, \<open>adapters.go\<close>): validation, identities,
    memory keys that never collide, adapters that lose nothing.
  \<^item> \<open>KeyedLock\<close>, \<open>Runtime\<close>: \<open>runtime/keyed_lock.go\<close> and \<open>runtime/runtime.go\<close>.  Mutual exclusion per key with entries
    allocated and freed on demand; bounded admission, one execution per conversation, at most one
    reply per request, and progress of every request that was admitted.
  \<^item> \<open>Canonical\<close>, \<open>Schema\<close>, \<open>ToolContract\<close>, \<open>Manifest\<close>: the package \<open>tool/contract\<close> and \<open>tool/tool.go\<close>: schemas,
    validation, the canonical form of values, descriptors, the result-shape hint and the provider's
    definitions.
  \<^item> \<open>Execution\<close>, \<open>Executor\<close>, \<open>Batch\<close>: the package \<open>tool/execution\<close>: the ledger, one call, and a batch whose reads
    overlap; an action is executed at most once, an unknown outcome blocks later actions, a failed
    action stops the rest of its batch, every call of the model is answered.
  \<^item> \<open>TurnState\<close>, \<open>TurnLoop\<close>: \<open>llm/client.go\<close>, \<open>turn/state.go\<close>, \<open>turn/final_response.go\<close>, \<open>live/turn_engine.go\<close>,
    \<open>live/registry_loop.go\<close> and the part of \<open>assemble/observations.go\<close> they use: the loop between the model and
    its tools ends, stays within its budgets and keeps its transcript well formed.  The
    loop is a total function: its measure is the number of requests to the provider that the budgets
    leave (\<open>requests_left\<close>), so it needs no fuel.
  \<^item> \<open>Regex\<close>: the part of Go's \<open>regexp\<close> that the program uses: the matches of a pattern at a place in the order of a
    backtracking matcher.  Its loops recurse on the length of the text that is left, each round consumes a rune.
  \<^item> \<open>Participation\<close>: the package \<open>participation\<close>, \<open>live/participation.go\<close>, \<open>live/direct_submission.go\<close>: which messages reach the
    agent, with which rights, how often unasked, and that requests for quiet are honoured.
  \<^item> \<open>Unicode_Graphic\<close>, \<open>Replies\<close>: \<open>live/runner.go\<close>, \<open>live/response_sanitizer.go\<close>, \<open>live/failure_reply.go\<close>: what of an answer is shown,
    the reply of a failed turn, and what a turn reads and writes.
  \<^item> \<open>ContextBudget\<close>: \<open>assemble/context.go\<close>: what of a transcript is sent, within the byte budget.
  \<^item> \<open>MemoryDb\<close>, \<open>TurnMemory\<close>: \<open>repository/sqlite/agent_memory.go\<close>, \<open>turn/memory.go\<close>, \<open>turn/compaction.go\<close> and
    \<open>live/memory.go\<close>: the tables refine a list of turns per key, compaction loses no message that is not
    summarised.

  \<^bold>\<open>Not modelled.\<close>  The provider's HTTP client, the other services that call the network, and the
  transport are input and output.  Of the commands, those that format the answer of a network
  service or of one SQL statement are left out.  \<open>agent/sql\<close> rests on a third-party SQL parser, the configuration file on a third-party decoder, and \<open>main\<close> and
  the factories wire the parts together.  Log lines, the wording of most errors and profiling are left out
  of the components that are modelled.
\<close>

end
